(* ===== verification/Prelude.thy ===== *)
theory Prelude
  imports Complex_Main "HOL-Library.Multiset"
begin

text \<open>
  Shared by every component: the Python values and errors the code passes around, Python's
  list indexing and slicing, and the facts on lists, sums and minima the component proofs use.

  Strings are Isabelle \<open>string\<close>s: a Python \<open>str\<close> is modelled on the characters a \<open>char\<close> can
  hold, one \<open>char\<close> per code point. A timestamp (\<open>timestamptz\<close>, \<open>datetime\<close>) is an \<open>int\<close> number of
  microseconds, the resolution of both; \<open>secs n\<close> is what \<open>make_interval(secs => n)\<close> and
  \<open>timedelta(seconds=n)\<close> add. Durations in milliseconds are Python integers, hence \<open>int\<close>.
\<close>

type_synonym time = int

definition secs :: "int \<Rightarrow> time" where
  "secs n = n * 1000000"

text \<open>The exceptions the modelled code raises or lets escape, and a JSON value as
  \<open>json.loads\<close> and \<open>jsonb\<close> give it. \<open>JFloat\<close> is a number written with a fraction.\<close>

datatype py_error =
    ValueError string
  | IndexError
  | LookupError string
  | RuleError string
  | PermanentFailure string
  | IntegrityError string
  | OverflowError
  | AudioError string
  | StructError
  | TypeError string

datatype json =
    JNull
  | JBool bool
  | JInt int
  | JFloat rat
  | JStr string
  | JList "json list"
  | JObj "(string \<times> json) list"

type_synonym payload = "(string \<times> json) list"

text \<open>Sequencing of fallible steps: an exception ends the block it is raised in.\<close>

definition and_then :: "'e + 'a \<Rightarrow> ('a \<Rightarrow> 'e + 'b) \<Rightarrow> 'e + 'b" where
  "and_then r f = (case r of Inl e \<Rightarrow> Inl e | Inr x \<Rightarrow> f x)"

lemma and_then_simps [simp]: "and_then (Inl e) f = Inl e" "and_then (Inr x) f = f x"
  by (simp_all add: and_then_def)

lemma and_then_Inr: "and_then r f = Inr y \<longleftrightarrow> (\<exists>x. r = Inr x \<and> f x = Inr y)"
  by (simp add: and_then_def split: sum.split)

lemma and_then_InrE:
  assumes "and_then r f = Inr y" obtains x where "r = Inr x" "f x = Inr y"
  using assms by (auto simp: and_then_Inr)

lemma and_then_assoc: "and_then (and_then r f) g = and_then r (\<lambda>x. and_then (f x) g)"
  by (cases r) simp_all

lemma and_then_cong [fundef_cong]:
  "r = r' \<Longrightarrow> (\<And>x. r' = Inr x \<Longrightarrow> f x = f' x) \<Longrightarrow> and_then r f = and_then r' f'"
  by (cases r') simp_all

named_theorems step_simps \<open>unfoldings of the operations, for the proofs of one step\<close>

subsection \<open>Python lists\<close>

text \<open>\<open>xs[i]\<close>: a negative index counts from the end, out of range raises \<open>IndexError\<close>.\<close>

definition py_index :: "'a list \<Rightarrow> int \<Rightarrow> py_error + 'a" where
  "py_index xs i =
     (case drop (nat i) xs of
        x # _ \<Rightarrow> if 0 \<le> i then Inr x
                 else if nat (- i) \<le> length xs then Inr (xs ! (length xs - nat (- i)))
                 else Inl IndexError
      | [] \<Rightarrow> Inl IndexError)"

lemma py_index_in_range:
  "0 \<le> i \<Longrightarrow> i < int (length xs) \<Longrightarrow> py_index xs i = Inr (xs ! nat i)"
  by (simp add: py_index_def Cons_nth_drop_Suc [symmetric])

text \<open>\<open>int(x)\<close> truncates towards zero; \<open>round(x)\<close> goes to the nearest integer, halves to the even one.\<close>

definition py_int :: "'a::floor_ceiling \<Rightarrow> int" where
  "py_int x = (if 0 \<le> x then \<lfloor>x\<rfloor> else \<lceil>x\<rceil>)"

definition py_round :: "rat \<Rightarrow> int" where
  "py_round x =
     (let f = \<lfloor>x\<rfloor>; d = x - of_int f
      in if d < 1 / 2 \<or> (d = 1 / 2 \<and> even f) then f else f + 1)"

lemma py_round_int [simp]: "py_round (of_int n) = n"
  by (simp add: py_round_def)

lemma py_round_near: "\<bar>of_int (py_round x) - x\<bar> \<le> 1 / 2"
proof -
  obtain f where f: "\<lfloor>x\<rfloor> = f" by simp
  then have "of_int f \<le> x" "x < of_int f + 1" by linarith+
  then show ?thesis by (auto simp: py_round_def Let_def f abs_if)
qed

lemma floor_numeral_div [simp]: "\<lfloor>numeral a / numeral b :: rat\<rfloor> = numeral a div numeral b"
  by (metis floor_divide_of_int_eq of_int_numeral)

text \<open>The least element of a list under a key, the first of equals: \<open>ORDER BY key LIMIT 1\<close>.\<close>

fun first_min :: "('a \<Rightarrow> 'k::linorder) \<Rightarrow> 'a list \<Rightarrow> 'a option" where
  "first_min k [] = None"
| "first_min k (x # xs) =
     (case first_min k xs of
        None \<Rightarrow> Some x
      | Some y \<Rightarrow> if k x \<le> k y then Some x else Some y)"

lemma first_min_None [simp]: "first_min k xs = None \<longleftrightarrow> xs = []"
  by (cases xs) (auto split: option.splits)

lemma first_min_in: "first_min k xs = Some y \<Longrightarrow> y \<in> set xs"
  by (induction xs arbitrary: y) (auto split: option.splits if_splits)

lemma first_min_le: "first_min k xs = Some y \<Longrightarrow> x \<in> set xs \<Longrightarrow> k y \<le> k x"
proof (induction xs arbitrary: y)
  case Nil
  then show ?case by simp
next
  case (Cons a xs)
  show ?case
  proof (cases "first_min k xs")
    case None
    with Cons.prems show ?thesis by simp
  next
    case (Some z)
    with Cons show ?thesis by (fastforce split: if_splits)
  qed
qed

subsection \<open>Python strings\<close>

text \<open>Decimal digits of a natural number, \<open>str(n)\<close> of an integer, \<open>f"{n:02d}"\<close> of a non-negative
  one, and \<open>sep.join(xs)\<close>.\<close>

fun digits :: "nat \<Rightarrow> string" where
  "digits n = (if n < 10 then [char_of (48 + n)] else digits (n div 10) @ [char_of (48 + n mod 10)])"

declare digits.simps [simp del]

definition py_str :: "int \<Rightarrow> string" where
  "py_str n = (if n < 0 then ''-'' @ digits (nat (- n)) else digits (nat n))"

definition two_digits :: "int \<Rightarrow> string" where
  "two_digits n = (if n < 10 then ''0'' else []) @ py_str n"

fun py_join :: "string \<Rightarrow> string list \<Rightarrow> string" where
  "py_join sep [] = []"
| "py_join sep [x] = x"
| "py_join sep (x # xs) = x @ sep @ py_join sep xs"

definition quote :: string where
  "quote = [CHR 0x27]"

text \<open>\<open>s.split()\<close>: the maximal runs of characters that are not white space.\<close>

definition py_isspace :: "char \<Rightarrow> bool" where
  "py_isspace c \<longleftrightarrow> (let n = of_char c :: nat in 9 \<le> n \<and> n \<le> 13 \<or> 28 \<le> n \<and> n \<le> 32 \<or> n = 133 \<or> n = 160)"

fun split_from :: "string \<Rightarrow> string \<Rightarrow> string list" where
  "split_from word [] = (if word = [] then [] else [word])"
| "split_from word (c # cs) =
     (if \<not> py_isspace c then split_from (word @ [c]) cs
      else if word = [] then split_from [] cs
      else word # split_from [] cs)"

definition py_split :: "string \<Rightarrow> string list" where
  "py_split = split_from []"

definition py_strip :: "string \<Rightarrow> string" where
  "py_strip s = rev (dropWhile py_isspace (rev (dropWhile py_isspace s)))"

definition py_slice :: "nat \<Rightarrow> nat \<Rightarrow> 'a list \<Rightarrow> 'a list" where
  "py_slice a b xs = take (b - a) (drop a xs)"

lemma py_slice_append: "length pre = a \<Longrightarrow> length mid = b - a \<Longrightarrow> a \<le> b \<Longrightarrow> py_slice a b (pre @ mid @ rest) = mid"
  by (simp add: py_slice_def)

subsection \<open>Updating one row of a table\<close>

text \<open>\<open>UPDATE ... WHERE id = i\<close> over a list of rows: every row with the key gets the update.\<close>

definition update_where :: "('r \<Rightarrow> bool) \<Rightarrow> ('r \<Rightarrow> 'r) \<Rightarrow> 'r list \<Rightarrow> 'r list" where
  "update_where p f rs = map (\<lambda>r. if p r then f r else r) rs"

lemma length_update_where [simp]: "length (update_where p f rs) = length rs"
  by (simp add: update_where_def)

lemma map_update_where:
  "(\<And>r. p r \<Longrightarrow> g (f r) = g r) \<Longrightarrow> map g (update_where p f rs) = map g rs"
  by (simp add: update_where_def)

lemma set_update_where:
  "set (update_where p f rs) = (\<lambda>r. if p r then f r else r) ` set rs"
  by (simp add: update_where_def)

lemma in_update_where:
  "x \<in> set (update_where p f rs) \<Longrightarrow> (\<exists>y \<in> set rs. p y \<and> x = f y) \<or> x \<in> set rs \<and> \<not> p x"
  by (auto simp: update_where_def split: if_splits)

lemma ball_update_where:
  "(\<forall>r \<in> set rs. Q r) \<Longrightarrow> (\<And>r. Q r \<Longrightarrow> Q (f r)) \<Longrightarrow> \<forall>r \<in> set (update_where p f rs). Q r"
  by (auto simp: update_where_def)

lemma find_SomeD: "find p xs = Some x \<Longrightarrow> x \<in> set xs \<and> p x"
  by (induction xs) (auto split: if_splits)

lemma find_update_where:
  assumes "\<And>r. p r \<Longrightarrow> q (f r) = q r"
  shows "find q (update_where p f rs) = map_option (\<lambda>r. if p r then f r else r) (find q rs)"
  using assms by (induction rs) (auto simp: update_where_def)

lemma list_all2_mem: "list_all2 P xs ys \<Longrightarrow> x \<in> set xs \<Longrightarrow> \<exists>y \<in> set ys. P x y"
  by (induction rule: list_all2_induct) auto

lemma filter_remove1_other: "\<not> p x \<Longrightarrow> filter p (remove1 x xs) = filter p xs"
  by (induction xs) auto

lemma count_list_filter: "p x \<Longrightarrow> count_list (filter p xs) x = count_list xs x"
  by (induction xs) auto

subsection \<open>Sums of non-negative integers\<close>

lemma sum_list_nonneg_int: "(\<forall>x \<in> set xs. 0 \<le> (x::int)) \<Longrightarrow> 0 \<le> sum_list xs"
  by (induction xs) auto

end
