(* ===== verification/Jobs.thy ===== *)
theory Jobs
  imports Prelude "HOL-Library.Product_Lexorder" "HOL-Library.Word"
begin

text \<open>
  The job queue of \<open>workers/src/motet_workers/jobs.py\<close> and the queue names of \<open>queues.py\<close>.

  The \<open>jobs\<close> table is the list of its rows with the next value of its \<open>bigserial\<close>; each function
  of the module is the SQL statement it runs, as a function from a table to a table. \<open>now\<close> is
  Postgres's \<open>now()\<close> in that statement, \<open>held\<close> the granted one-bigint advisory locks as pairs of
  session and key, \<open>busy\<close> the ids of rows some other transaction has locked, which
  \<open>SKIP LOCKED\<close> passes over. SHA-256 is an argument, \<open>sha\<close>.
\<close>

section \<open>Queues, rows, constants\<close>

datatype queue = POLL | EXTRACT | ENRICH | INTEGRATE | ASSEMBLE | SCRIPT | TTS

definition PIPELINE :: "queue list" where
  "PIPELINE = [POLL, EXTRACT, ENRICH, INTEGRATE, ASSEMBLE, SCRIPT, TTS]"

datatype job_state = JReady | JRunning | JDone | JFailed

record job_row =
  row_id :: nat
  row_queue :: queue
  row_payload :: payload
  row_state :: job_state
  row_attempts :: int
  row_last_error :: "string option"
  row_run_at :: time
  row_locked_at :: "time option"
  row_serialize_key :: "string option"
  row_lock_key :: "int option"
  row_committed :: "int option"
  row_created_at :: time
  row_updated_at :: time

record jobs_db =
  rows :: "job_row list"
  next_id :: nat

record job =
  job_id :: nat
  job_queue :: queue
  job_payload :: payload
  job_attempts :: int
  job_key :: "string option"
  job_committed :: "int option"

type_synonym locks = "(nat \<times> int) list"

definition DEFAULT_MAX_ATTEMPTS :: int where "DEFAULT_MAX_ATTEMPTS = 5"
definition BACKOFF_SECONDS :: "int list" where "BACKOFF_SECONDS = [5, 30, 120, 600]"
definition BUSY_RETRY_SECONDS :: int where "BUSY_RETRY_SECONDS = 5"
definition STALE_LEASE_SECONDS :: int where "STALE_LEASE_SECONDS = 1800"
definition LEASE_TOUCH_SECONDS :: int where "LEASE_TOUCH_SECONDS = 60"
definition MAX_LEASE_EXTENSION_SECONDS :: int where "MAX_LEASE_EXTENSION_SECONDS = 7200"
definition DONE_RETENTION_SECONDS :: int where "DONE_RETENTION_SECONDS = 7 * 24 * 3600"
definition FAILED_RETENTION_SECONDS :: int where "FAILED_RETENTION_SECONDS = 90 * 24 * 3600"
definition PRUNE_BATCH_SIZE :: nat where "PRUNE_BATCH_SIZE = 1000"
definition PRUNE_MAX_BATCHES :: nat where "PRUNE_MAX_BATCHES = 10"

lemmas job_constants =
  DEFAULT_MAX_ATTEMPTS_def BACKOFF_SECONDS_def BUSY_RETRY_SECONDS_def STALE_LEASE_SECONDS_def
  LEASE_TOUCH_SECONDS_def MAX_LEASE_EXTENSION_SECONDS_def DONE_RETENTION_SECONDS_def
  FAILED_RETENTION_SECONDS_def

definition RETENTION_SECONDS :: "(job_state \<times> int) list" where
  "RETENTION_SECONDS = [(JDone, DONE_RETENTION_SECONDS), (JFailed, FAILED_RETENTION_SECONDS)]"

section \<open>Advisory lock keys\<close>

text \<open>\<open>int.from_bytes(digest[:8], "big", signed=True)\<close>, and back: \<open>HELD_LOCK_KEYS_SQL\<close> joins
  the two unsigned halves \<open>pg_locks\<close> splits a key into, as 64-bit strings.\<close>

definition from_bytes_be :: "8 word list \<Rightarrow> int" where
  "from_bytes_be bs = foldl (\<lambda>a b. a * 256 + uint b) 0 bs"

definition lock_key :: "(string \<Rightarrow> 8 word list) \<Rightarrow> string \<Rightarrow> int" where
  "lock_key sha k =
     (let u = from_bytes_be (take 8 (sha k)) in if u < 2 ^ 63 then u else u - 2 ^ 64)"

definition held_lock_key :: "int \<Rightarrow> int \<Rightarrow> int" where
  "held_lock_key classid objid =
     sint (or (push_bit 32 (word_of_int classid)) (word_of_int objid) :: 64 word)"

definition held_keys :: "locks \<Rightarrow> int set" where
  "held_keys held = snd ` set held"

definition try_lock :: "(string \<Rightarrow> 8 word list) \<Rightarrow> nat \<Rightarrow> string \<Rightarrow> locks \<Rightarrow> bool \<times> locks" where
  "try_lock sha session k held =
     (let x = lock_key sha k
      in if \<exists>l \<in> set held. snd l = x \<and> fst l \<noteq> session then (False, held)
         else (True, (session, x) # held))"

definition unlock :: "(string \<Rightarrow> 8 word list) \<Rightarrow> nat \<Rightarrow> string \<Rightarrow> locks \<Rightarrow> locks" where
  "unlock sha session k held = remove1 (session, lock_key sha k) held"

section \<open>The operations\<close>

definition enqueue ::
  "(string \<Rightarrow> 8 word list) \<Rightarrow> time \<Rightarrow> queue \<Rightarrow> payload \<Rightarrow> string option \<Rightarrow> int \<Rightarrow> jobs_db \<Rightarrow> nat \<times> jobs_db"
where
  "enqueue sha now q p key delay db =
     (next_id db,
      db\<lparr>rows := rows db @
           [\<lparr>row_id = next_id db, row_queue = q, row_payload = p, row_state = JReady,
             row_attempts = 0, row_last_error = None, row_run_at = now + secs delay,
             row_locked_at = None, row_serialize_key = key,
             row_lock_key = map_option (lock_key sha) key, row_committed = None,
             row_created_at = now, row_updated_at = now\<rparr>],
         next_id := Suc (next_id db)\<rparr>)"

text \<open>The row a statement's \<open>WHERE id = i\<close> names, and the update of it.\<close>

definition find_row :: "nat \<Rightarrow> jobs_db \<Rightarrow> job_row option" where
  "find_row i db = find (\<lambda>r. row_id r = i) (rows db)"

definition update_row :: "nat \<Rightarrow> (job_row \<Rightarrow> job_row) \<Rightarrow> jobs_db \<Rightarrow> jobs_db" where
  "update_row i f db = db\<lparr>rows := update_where (\<lambda>r. row_id r = i) f (rows db)\<rparr>"

definition claimable :: "time \<Rightarrow> locks \<Rightarrow> nat list \<Rightarrow> queue \<Rightarrow> job_row \<Rightarrow> bool" where
  "claimable now held busy q r \<longleftrightarrow>
     row_queue r = q
     \<and> (row_state r = JReady \<and> row_run_at r \<le> now
        \<or> row_state r = JRunning
          \<and> (case row_locked_at r of None \<Rightarrow> False
             | Some t \<Rightarrow> t < now - secs STALE_LEASE_SECONDS))
     \<and> (case row_lock_key r of None \<Rightarrow> True | Some k \<Rightarrow> k \<notin> held_keys held)
     \<and> row_id r \<notin> set busy"

definition claim_row :: "time \<Rightarrow> job_row \<Rightarrow> job_row" where
  "claim_row now r =
     r\<lparr>row_state := JRunning, row_locked_at := Some now, row_attempts := row_attempts r + 1,
       row_updated_at := now\<rparr>"

definition job_of_row :: "job_row \<Rightarrow> job" where
  "job_of_row r =
     \<lparr>job_id = row_id r, job_queue = row_queue r, job_payload = row_payload r,
      job_attempts = row_attempts r, job_key = row_serialize_key r,
      job_committed = row_committed r\<rparr>"

definition claim_order :: "job_row \<Rightarrow> time \<times> nat" where
  "claim_order r = (row_run_at r, row_id r)"

definition claim :: "time \<Rightarrow> locks \<Rightarrow> nat list \<Rightarrow> queue \<Rightarrow> jobs_db \<Rightarrow> job option \<times> jobs_db" where
  "claim now held busy q db =
     (case first_min claim_order (filter (claimable now held busy q) (rows db)) of
        None \<Rightarrow> (None, db)
      | Some r \<Rightarrow> (Some (job_of_row (claim_row now r)), update_row (row_id r) (claim_row now) db))"

definition complete_row :: "time \<Rightarrow> job_row \<Rightarrow> job_row" where
  "complete_row now r = r\<lparr>row_state := JDone, row_last_error := None, row_updated_at := now\<rparr>"

definition complete :: "time \<Rightarrow> nat \<Rightarrow> jobs_db \<Rightarrow> jobs_db" where
  "complete now i db = update_row i (complete_row now) db"

definition mark_row :: "time \<Rightarrow> int \<Rightarrow> job_row \<Rightarrow> job_row" where
  "mark_row now n r = r\<lparr>row_committed := Some n, row_updated_at := now\<rparr>"

definition mark_work_committed :: "time \<Rightarrow> nat \<Rightarrow> int \<Rightarrow> jobs_db \<Rightarrow> jobs_db" where
  "mark_work_committed now i n db = update_row i (mark_row now n) db"

datatype lease_touch = HELD | LOST | SETTLED

definition touch_row :: "time \<Rightarrow> int \<Rightarrow> job_row \<Rightarrow> job_row" where
  "touch_row now n r =
     (if row_state r = JRunning \<and> row_attempts r = n
      then r\<lparr>row_locked_at := Some now, row_updated_at := now\<rparr> else r)"

definition touch :: "time \<Rightarrow> nat \<Rightarrow> int \<Rightarrow> jobs_db \<Rightarrow> lease_touch \<times> jobs_db" where
  "touch now i n db =
     (if \<exists>r \<in> set (rows db). row_id r = i \<and> row_state r = JRunning \<and> row_attempts r = n
      then (HELD, update_row i (touch_row now n) db)
      else (case find_row i db of
              None \<Rightarrow> SETTLED
            | Some r \<Rightarrow> if row_state r = JRunning then LOST else SETTLED, db))"

definition will_retry :: "int \<Rightarrow> job \<Rightarrow> bool" where
  "will_retry max_attempts j \<longleftrightarrow> job_attempts j < max_attempts"

definition give_up_row :: "time \<Rightarrow> string \<Rightarrow> job_row \<Rightarrow> job_row" where
  "give_up_row now e r =
     r\<lparr>row_state := JFailed, row_last_error := Some (take 2000 e), row_updated_at := now\<rparr>"

definition retry_row :: "time \<Rightarrow> int \<Rightarrow> string \<Rightarrow> job_row \<Rightarrow> job_row" where
  "retry_row now delay e r =
     r\<lparr>row_state := JReady, row_last_error := Some (take 2000 e), row_locked_at := None,
       row_run_at := now + secs delay, row_updated_at := now\<rparr>"

definition fail :: "int \<Rightarrow> time \<Rightarrow> job \<Rightarrow> string \<Rightarrow> jobs_db \<Rightarrow> py_error + bool \<times> jobs_db" where
  "fail max_attempts now j e db =
     (if \<not> will_retry max_attempts j
      then Inr (False, update_row (job_id j) (give_up_row now e) db)
      else case py_index BACKOFF_SECONDS
                  (min (job_attempts j - 1) (int (length BACKOFF_SECONDS) - 1)) of
             Inl x \<Rightarrow> Inl x
           | Inr delay \<Rightarrow> Inr (True, update_row (job_id j) (retry_row now delay e) db))"

definition defer_row :: "time \<Rightarrow> int \<Rightarrow> job_row \<Rightarrow> job_row" where
  "defer_row now seconds r =
     r\<lparr>row_state := JReady, row_locked_at := None, row_attempts := row_attempts r - 1,
       row_run_at := now + secs seconds, row_updated_at := now\<rparr>"

definition defer_job :: "int \<Rightarrow> time \<Rightarrow> job \<Rightarrow> jobs_db \<Rightarrow> jobs_db" where
  "defer_job seconds now j db = update_row (job_id j) (defer_row now seconds) db"

section \<open>The retention sweep\<close>

text \<open>One \<open>DELETE\<close>: the oldest \<open>n\<close> rows of a state past its window. \<open>env\<close> is what each statement of
  the sweep sees: its clock and the rows other transactions hold.\<close>

definition expired :: "time \<Rightarrow> nat list \<Rightarrow> job_state \<Rightarrow> int \<Rightarrow> job_row \<Rightarrow> bool" where
  "expired now busy st seconds r \<longleftrightarrow>
     row_state r = st \<and> row_updated_at r < now - secs seconds \<and> row_id r \<notin> set busy"

definition prune_batch ::
  "time \<times> nat list \<Rightarrow> job_state \<Rightarrow> int \<Rightarrow> nat \<Rightarrow> jobs_db \<Rightarrow> nat \<times> jobs_db"
where
  "prune_batch e st seconds n db =
     (let victims = take n (sort_key row_updated_at
                              (filter (expired (fst e) (snd e) st seconds) (rows db)))
      in (length victims,
          db\<lparr>rows := filter (\<lambda>r. row_id r \<notin> row_id ` set victims) (rows db)\<rparr>))"

fun prune_loop ::
  "(nat \<Rightarrow> time \<times> nat list) \<Rightarrow> job_state \<Rightarrow> int \<Rightarrow> nat \<Rightarrow> nat \<Rightarrow> nat \<Rightarrow> jobs_db \<Rightarrow> nat \<times> bool \<times> jobs_db"
where
  "prune_loop env st seconds n 0 removed db = (removed, True, db)"
| "prune_loop env st seconds n (Suc k) removed db =
     (case prune_batch (env k) st seconds n db of
        (c, db') \<Rightarrow> if c < n then (removed + c, False, db')
                    else prune_loop env st seconds n k (removed + c) db')"

record pruned =
  deleted :: "(job_state \<times> nat) list"
  capped :: bool

fun prune_states ::
  "(job_state \<Rightarrow> nat \<Rightarrow> time \<times> nat list) \<Rightarrow> nat \<Rightarrow> nat \<Rightarrow> (job_state \<times> int) list \<Rightarrow> pruned \<times> jobs_db \<Rightarrow> pruned \<times> jobs_db"
where
  "prune_states env n m [] acc = acc"
| "prune_states env n m ((st, seconds) # sts) (p, db) =
     (case prune_loop (env st) st seconds n m 0 db of
        (c, full, db') \<Rightarrow>
          prune_states env n m sts
            (\<lparr>deleted = deleted p @ [(st, c)], capped = capped p \<or> full\<rparr>, db'))"

definition prune ::
  "bool \<Rightarrow> (job_state \<Rightarrow> nat \<Rightarrow> time \<times> nat list) \<Rightarrow> nat \<Rightarrow> nat \<Rightarrow> jobs_db \<Rightarrow> py_error + pruned \<times> jobs_db"
where
  "prune autocommit env batch_size max_batches db =
     (if \<not> autocommit then Inl (ValueError ''prune() needs an autocommit connection'')
      else Inr (prune_states env batch_size max_batches RETENTION_SECONDS
                  (\<lparr>deleted = [], capped = False\<rparr>, db)))"

definition pruned_total :: "pruned \<Rightarrow> nat" where
  "pruned_total p = sum_list (map snd (deleted p))"

section \<open>Depths and readiness\<close>

definition queue_depths :: "jobs_db \<Rightarrow> queue \<Rightarrow> job_state \<Rightarrow> nat option" where
  "queue_depths db q st =
     (case filter (\<lambda>r. row_queue r = q \<and> row_state r = st) (rows db) of
        [] \<Rightarrow> None
      | xs \<Rightarrow> Some (length xs))"

record queue_readiness_row =
  qr_queue :: queue
  qr_ready :: nat
  qr_ready_keys :: nat
  qr_blocked_keys :: nat

definition due_rows :: "time \<Rightarrow> queue \<Rightarrow> jobs_db \<Rightarrow> job_row list" where
  "due_rows now q db =
     filter (\<lambda>r. row_queue r = q \<and> row_state r = JReady \<and> row_run_at r \<le> now) (rows db)"

definition group_of :: "job_row list \<Rightarrow> string option \<Rightarrow> job_row list" where
  "group_of due k = filter (\<lambda>r. row_serialize_key r = k) due"

text \<open>\<open>max(lock_key)\<close> over a group, which skips NULLs and is NULL when there is nothing else.\<close>

definition max_lock_key :: "job_row list \<Rightarrow> int option" where
  "max_lock_key g =
     (case List.map_filter row_lock_key g of [] \<Rightarrow> None | x # xs \<Rightarrow> Some (fold max xs x))"

definition queue_readiness_of :: "time \<Rightarrow> locks \<Rightarrow> jobs_db \<Rightarrow> queue \<Rightarrow> queue_readiness_row" where
  "queue_readiness_of now held db q =
     (let due = due_rows now q db;
          groups = remdups (map row_serialize_key due);
          keyed = filter (\<lambda>k. k \<noteq> None) groups
      in \<lparr>qr_queue = q,
          qr_ready = sum_list (map (\<lambda>k. length (group_of due k)) groups),
          qr_ready_keys = length keyed + length (group_of due None),
          qr_blocked_keys =
            length (filter (\<lambda>k. case max_lock_key (group_of due k) of
                                  None \<Rightarrow> False | Some x \<Rightarrow> x \<in> held_keys held) keyed)\<rparr>)"

definition queue_readiness :: "time \<Rightarrow> locks \<Rightarrow> jobs_db \<Rightarrow> queue_readiness_row list" where
  "queue_readiness now held db = map (queue_readiness_of now held db) PIPELINE"

section \<open>The pipeline order as a linear order on queues\<close>

fun queue_pos :: "queue \<Rightarrow> nat" where
  "queue_pos POLL = 0"
| "queue_pos EXTRACT = 1"
| "queue_pos ENRICH = 2"
| "queue_pos INTEGRATE = 3"
| "queue_pos ASSEMBLE = 4"
| "queue_pos SCRIPT = 5"
| "queue_pos TTS = 6"

lemma queue_pos_inj: "queue_pos a = queue_pos b \<longleftrightarrow> a = b"
  by (cases a; cases b) simp_all

instantiation queue :: linorder
begin

definition less_eq_queue :: "queue \<Rightarrow> queue \<Rightarrow> bool" where
  "less_eq_queue a b \<longleftrightarrow> queue_pos a \<le> queue_pos b"

definition less_queue :: "queue \<Rightarrow> queue \<Rightarrow> bool" where
  "less_queue a b \<longleftrightarrow> queue_pos a < queue_pos b"

instance
  by standard (auto simp: less_eq_queue_def less_queue_def queue_pos_inj)

end

section \<open>Well-formed tables, and the contract every one-row update shares\<close>

definition wf_row :: "(string \<Rightarrow> 8 word list) \<Rightarrow> job_row \<Rightarrow> bool" where
  "wf_row sha r \<longleftrightarrow>
     row_lock_key r = map_option (lock_key sha) (row_serialize_key r)
     \<and> 0 \<le> row_attempts r
     \<and> (row_state r = JRunning \<longrightarrow> 1 \<le> row_attempts r \<and> row_locked_at r \<noteq> None)"

definition wf_db :: "(string \<Rightarrow> 8 word list) \<Rightarrow> jobs_db \<Rightarrow> bool" where
  "wf_db sha db \<longleftrightarrow>
     distinct (map row_id (rows db))
     \<and> (\<forall>r \<in> set (rows db). row_id r < next_id db \<and> wf_row sha r)"

lemma find_row_in: "find_row i db = Some r \<Longrightarrow> r \<in> set (rows db) \<and> row_id r = i"
  by (auto simp: find_row_def find_Some_iff)

lemma find_row_None: "find_row i db = None \<longleftrightarrow> i \<notin> row_id ` set (rows db)"
  by (auto simp: find_row_def find_None_iff)

lemma find_row_of_mem:
  assumes "distinct (map row_id (rows db))" and "r \<in> set (rows db)"
  shows "find_row (row_id r) db = Some r"
proof -
  have "find (\<lambda>x. row_id x = row_id r) xs = Some r"
    if "distinct (map row_id xs)" "r \<in> set xs" for xs
    using that by (induction xs) (auto intro: rev_image_eqI)
  with assms show ?thesis by (simp add: find_row_def)
qed

lemma update_row_cong:
  assumes d: "distinct (map row_id (rows db))" and r: "find_row i db = Some r" and "f r = g r"
  shows "update_row i f db = update_row i g db"
proof -
  have "x = r" if "x \<in> set (rows db)" "row_id x = i" for x
    using find_row_of_mem [OF d that(1)] that(2) r by simp
  with assms(3) have "map (\<lambda>x. if row_id x = i then f x else x) (rows db)
                      = map (\<lambda>x. if row_id x = i then g x else x) (rows db)"
    by (intro map_cong) auto
  then show ?thesis by (simp add: update_row_def update_where_def)
qed

lemma wf_db_find: "wf_db sha db \<Longrightarrow> find_row i db = Some r \<Longrightarrow> wf_row sha r \<and> i < next_id db"
  by (auto simp: wf_db_def dest!: find_row_in)

text \<open>What a statement that updates one row promises: the columns that identify the row and
  decide its serialization are not touched. Everything about the other rows follows.\<close>

locale row_op =
  fixes f :: "job_row \<Rightarrow> job_row"
  assumes keeps_id: "row_id (f r) = row_id r"
    and keeps_queue: "row_queue (f r) = row_queue r"
    and keeps_payload: "row_payload (f r) = row_payload r"
    and keeps_key: "row_serialize_key (f r) = row_serialize_key r"
    and keeps_lock_key: "row_lock_key (f r) = row_lock_key r"
begin

lemma ids: "map row_id (rows (update_row i f db)) = map row_id (rows db)"
  by (simp add: update_row_def map_update_where keeps_id)

lemma next_id_kept: "next_id (update_row i f db) = next_id db"
  by (simp add: update_row_def)

lemma find_any:
  "find_row j (update_row i f db) = (if j = i then map_option f (find_row i db) else find_row j db)"
proof -
  have "find_row j (update_row i f db)
        = map_option (\<lambda>r. if row_id r = i then f r else r) (find_row j db)"
    unfolding find_row_def update_row_def by (simp add: find_update_where keeps_id)
  then show ?thesis
    by (cases "find_row j db") (auto dest: find_row_in)
qed

lemma rows_after:
  "x \<in> set (rows (update_row i f db)) \<longleftrightarrow>
     (\<exists>r \<in> set (rows db). x = (if row_id r = i then f r else r))"
  by (force simp: update_row_def update_where_def image_iff)

lemma wf:
  assumes "wf_db sha db"
    and "\<And>r. find_row i db = Some r \<Longrightarrow> wf_row sha r \<Longrightarrow> wf_row sha (f r)"
  shows "wf_db sha (update_row i f db)"
proof -
  have d: "distinct (map row_id (rows db))"
    using assms(1) by (simp add: wf_db_def)
  have "row_id x < next_id db \<and> wf_row sha x" if "x \<in> set (rows (update_row i f db))" for x
  proof -
    from that obtain r where r: "r \<in> set (rows db)" "x = (if row_id r = i then f r else r)"
      by (auto simp: rows_after)
    moreover have "row_id r < next_id db" "wf_row sha r"
      using assms(1) r(1) by (auto simp: wf_db_def)
    moreover have "row_id r = i \<Longrightarrow> find_row i db = Some r"
      using find_row_of_mem [OF d r(1)] by simp
    ultimately show ?thesis using assms(2) [of r] by (auto simp: keeps_id)
  qed
  with d show ?thesis by (simp add: wf_db_def ids next_id_kept)
qed

end

interpretation claim_op: row_op "claim_row now" for now
  by unfold_locales (simp_all add: claim_row_def)

interpretation complete_op: row_op "complete_row now" for now
  by unfold_locales (simp_all add: complete_row_def)

interpretation mark_op: row_op "mark_row now n" for now n
  by unfold_locales (simp_all add: mark_row_def)

interpretation touch_op: row_op "touch_row now n" for now n
  by unfold_locales (simp_all add: touch_row_def)

interpretation give_up_op: row_op "give_up_row now e" for now e
  by unfold_locales (simp_all add: give_up_row_def)

interpretation retry_op: row_op "retry_row now d e" for now d e
  by unfold_locales (simp_all add: retry_row_def)

interpretation defer_op: row_op "defer_row now s" for now s
  by unfold_locales (simp_all add: defer_row_def)

section \<open>Facts about each operation\<close>

lemma claim_SomeE:
  assumes "claim now held busy q db = (Some j, db')"
  obtains r where "r \<in> set (rows db)" "claimable now held busy q r"
    "\<And>x. x \<in> set (rows db) \<Longrightarrow> claimable now held busy q x \<Longrightarrow> claim_order r \<le> claim_order x"
    "j = job_of_row (claim_row now r)" "db' = update_row (row_id r) (claim_row now) db"
proof -
  let ?c = "filter (claimable now held busy q) (rows db)"
  from assms obtain r where r: "first_min claim_order ?c = Some r"
    and j: "j = job_of_row (claim_row now r)" "db' = update_row (row_id r) (claim_row now) db"
    by (auto simp: claim_def split: option.splits)
  from first_min_in [OF r] have "r \<in> set (rows db)" "claimable now held busy q r" by auto
  moreover have "claim_order r \<le> claim_order x"
    if "x \<in> set (rows db)" "claimable now held busy q x" for x
    using first_min_le [OF r, of x] that by simp
  ultimately show thesis using that j by blast
qed

lemma claim_None_iff:
  "fst (claim now held busy q db) = None \<longleftrightarrow> (\<forall>r \<in> set (rows db). \<not> claimable now held busy q r)"
proof (cases "first_min claim_order (filter (claimable now held busy q) (rows db))")
  case None
  then show ?thesis by (simp add: claim_def filter_empty_conv)
next
  case (Some r)
  then have "r \<in> set (rows db)" "claimable now held busy q r"
    using first_min_in [OF Some] by auto
  with Some show ?thesis by (auto simp: claim_def)
qed

lemma claim_None_same: "claim now held busy q db = (None, db') \<Longrightarrow> db' = db"
  by (auto simp: claim_def split: option.splits)

lemma job_of_claim_row [simp]:
  "job_id (job_of_row (claim_row now r)) = row_id r"
  "job_queue (job_of_row (claim_row now r)) = row_queue r"
  "job_payload (job_of_row (claim_row now r)) = row_payload r"
  "job_attempts (job_of_row (claim_row now r)) = row_attempts r + 1"
  "job_key (job_of_row (claim_row now r)) = row_serialize_key r"
  "job_committed (job_of_row (claim_row now r)) = row_committed r"
  by (simp_all add: job_of_row_def claim_row_def)

lemma wf_enqueue: "wf_db sha db \<Longrightarrow> wf_db sha (snd (enqueue sha now q p key delay db))"
  by (force simp: wf_db_def enqueue_def wf_row_def)

lemma wf_claim:
  assumes "wf_db sha db"
  shows "wf_db sha (snd (claim now held busy q db))"
proof -
  have "wf_db sha (update_row i (claim_row now) db)" for i
    by (rule claim_op.wf [OF assms]) (simp add: wf_row_def claim_row_def)
  with assms show ?thesis by (simp add: claim_def split: option.split)
qed

lemma wf_complete: "wf_db sha db \<Longrightarrow> wf_db sha (complete now i db)"
  unfolding complete_def by (erule complete_op.wf) (simp add: wf_row_def complete_row_def)

lemma wf_mark: "wf_db sha db \<Longrightarrow> wf_db sha (mark_work_committed now i n db)"
  unfolding mark_work_committed_def by (erule mark_op.wf) (simp add: wf_row_def mark_row_def)

lemma wf_touch: "wf_db sha db \<Longrightarrow> wf_db sha (snd (touch now i n db))"
  by (auto simp: touch_def wf_row_def touch_row_def intro!: touch_op.wf split: option.splits)

lemma wf_fail: "wf_db sha db \<Longrightarrow> fail m now j e db = Inr (b, db') \<Longrightarrow> wf_db sha db'"
  by (auto simp: fail_def wf_row_def give_up_row_def retry_row_def
      intro!: give_up_op.wf retry_op.wf split: if_splits sum.splits)

lemma wf_defer:
  assumes "wf_db sha db" and "\<And>r. find_row (job_id j) db = Some r \<Longrightarrow> 1 \<le> row_attempts r"
  shows "wf_db sha (defer_job s now j db)"
  unfolding defer_job_def
  by (rule defer_op.wf [OF assms(1)]) (use assms(2) in \<open>auto simp: wf_row_def defer_row_def\<close>)

lemma fail_cases:
  assumes "1 \<le> job_attempts j"
  shows "\<not> will_retry m j \<Longrightarrow> fail m now j e db = Inr (False, update_row (job_id j) (give_up_row now e) db)"
    and "will_retry m j \<Longrightarrow>
      fail m now j e db = Inr (True,
        update_row (job_id j)
          (retry_row now (BACKOFF_SECONDS ! nat (min (job_attempts j - 1) 3)) e) db)"
  using assms by (simp_all add: fail_def py_index_in_range BACKOFF_SECONDS_def)

section \<open>The sweep\<close>

lemma prune_batch_facts:
  assumes d: "distinct (map row_id (rows db))"
    and p: "prune_batch e st s n db = (c, db')"
  shows "c \<le> n"
    and "next_id db' = next_id db"
    and "\<exists>keep. rows db' = filter keep (rows db)
           \<and> (\<forall>r \<in> set (rows db). \<not> keep r \<longrightarrow> expired (fst e) (snd e) st s r)"
    and "length (rows db) = c + length (rows db')"
    and "c < n \<Longrightarrow> \<forall>r \<in> set (rows db'). \<not> expired (fst e) (snd e) st s r"
proof -
  define old where "old = filter (expired (fst e) (snd e) st s) (rows db)"
  define v where "v = take n (sort_key row_updated_at old)"
  define keep where "keep = (\<lambda>r::job_row. row_id r \<notin> row_id ` set v)"
  have c: "c = length v" and rows': "rows db' = filter keep (rows db)"
    and nid: "next_id db' = next_id db"
    using p by (auto simp: prune_batch_def Let_def v_def old_def keep_def)
  have v_old: "set v \<subseteq> set old"
    unfolding v_def by (metis set_sort set_take_subset)
  have old: "x \<in> set old \<longleftrightarrow> x \<in> set (rows db) \<and> expired (fst e) (snd e) st s x" for x
    by (auto simp: old_def)
  have keep_iff: "keep r \<longleftrightarrow> r \<notin> set v" if r: "r \<in> set (rows db)" for r
  proof -
    have "r = x" if "x \<in> set v" "row_id r = row_id x" for x
      using d r v_old old that by (metis distinct_map inj_onD subsetD)
    then show ?thesis by (auto simp: keep_def)
  qed
  show "c \<le> n" by (simp add: c v_def)
  show "next_id db' = next_id db" by (fact nid)
  show "\<exists>keep. rows db' = filter keep (rows db)
          \<and> (\<forall>r \<in> set (rows db). \<not> keep r \<longrightarrow> expired (fst e) (snd e) st s r)"
    using keep_iff v_old old rows' by blast
  have "set (filter (\<lambda>r. \<not> keep r) (rows db)) = set v"
    using keep_iff v_old old by auto
  moreover have "distinct (filter (\<lambda>r. \<not> keep r) (rows db))" and "distinct v"
    using d by (simp_all add: distinct_map v_def old_def)
  ultimately have "length (filter (\<lambda>r. \<not> keep r) (rows db)) = c"
    unfolding c by (metis distinct_card)
  then show "length (rows db) = c + length (rows db')"
    using sum_length_filter_compl [of keep "rows db"] by (simp add: rows')
  show "\<forall>r \<in> set (rows db'). \<not> expired (fst e) (snd e) st s r" if "c < n"
  proof -
    from that have "length (sort_key row_updated_at old) < n" by (simp add: c v_def)
    then have "set v = set old" by (simp add: v_def)
    then show ?thesis using keep_iff old rows' by auto
  qed
qed

text \<open>What a deletion may do to a table: the rows left are rows that were there, in their order
  and unchanged, and each row gone satisfied \<open>P\<close>.\<close>

definition only_removed :: "(job_row \<Rightarrow> bool) \<Rightarrow> jobs_db \<Rightarrow> jobs_db \<Rightarrow> bool" where
  "only_removed P db db' \<longleftrightarrow>
     next_id db' = next_id db
     \<and> rows db' = filter (\<lambda>r. row_id r \<in> row_id ` set (rows db')) (rows db)
     \<and> (\<forall>r \<in> set (rows db). row_id r \<notin> row_id ` set (rows db') \<longrightarrow> P r)"

lemma only_removed_filter:
  assumes d: "distinct (map row_id (rows db))" and "next_id db' = next_id db"
    and k: "rows db' = filter keep (rows db)" and P: "\<And>r. r \<in> set (rows db) \<Longrightarrow> \<not> keep r \<Longrightarrow> P r"
  shows "only_removed P db db'"
proof -
  have "keep r \<longleftrightarrow> row_id r \<in> row_id ` set (rows db')" if "r \<in> set (rows db)" for r
    using that d k by (auto simp: distinct_map dest: inj_onD)
  then show ?thesis
    using assms(2) P unfolding only_removed_def by (metis (mono_tags, lifting) filter_cong k)
qed

lemma only_removed_ids:
  "only_removed P db db' \<Longrightarrow> distinct (map row_id (rows db)) \<Longrightarrow> distinct (map row_id (rows db'))"
  unfolding only_removed_def by (metis distinct_map_filter)

lemma only_removed_sub: "only_removed P db db' \<Longrightarrow> set (rows db') \<subseteq> set (rows db)"
  unfolding only_removed_def by (metis filter_is_subset)

lemma only_removed_trans:
  assumes d: "distinct (map row_id (rows a))"
    and ab: "only_removed P a b" and bc: "only_removed Q b c"
    and "\<And>r. P r \<Longrightarrow> R r" and "\<And>r. Q r \<Longrightarrow> R r"
  shows "only_removed R a c"
proof (rule only_removed_filter [OF d])
  let ?in = "\<lambda>x r. row_id r \<in> row_id ` set (rows x)"
  show "next_id c = next_id a" using ab bc by (simp add: only_removed_def)
  have "rows c = filter (?in c) (rows b)" "rows b = filter (?in b) (rows a)"
    using ab bc by (simp_all add: only_removed_def)
  then show "rows c = filter (\<lambda>r. ?in b r \<and> ?in c r) (rows a)"
    by (metis (no_types, lifting) filter_cong filter_filter)
  fix r assume r: "r \<in> set (rows a)" "\<not> (?in b r \<and> ?in c r)"
  show "R r"
  proof (cases "?in b r")
    case True
    have "rows b = filter (?in b) (rows a)" using ab by (simp add: only_removed_def)
    then have "set (rows b) = {x \<in> set (rows a). ?in b x}" by (metis set_filter)
    with True r have "r \<in> set (rows b)" by blast
    with True r bc assms(5) show ?thesis by (auto simp: only_removed_def)
  next
    case False
    with r ab assms(4) show ?thesis by (auto simp: only_removed_def)
  qed
qed

lemma only_removed_mono:
  "only_removed P a b \<Longrightarrow> (\<And>r. P r \<Longrightarrow> R r) \<Longrightarrow> only_removed R a b"
  by (auto simp: only_removed_def)

lemma only_removed_refl: "distinct (map row_id (rows db)) \<Longrightarrow> only_removed P db db"
  by (rule only_removed_filter [where keep = "\<lambda>_. True"]) simp_all

lemma prune_batch_removed:
  assumes "distinct (map row_id (rows db))" and "prune_batch e st s n db = (c, db')"
  shows "only_removed (expired (fst e) (snd e) st s) db db'"
  using prune_batch_facts(2,3) [OF assms] by (blast intro: only_removed_filter [OF assms(1)])

lemma prune_loop_facts:
  assumes "prune_loop env st s n k c0 db = (c, full, db')"
    and "distinct (map row_id (rows db))"
  shows "only_removed (\<lambda>r. \<exists>i < k. expired (fst (env i)) (snd (env i)) st s r) db db'
         \<and> c0 + length (rows db) = c + length (rows db') \<and> c \<le> c0 + k * n
         \<and> (\<not> full \<longrightarrow> (\<exists>i < k. \<forall>r \<in> set (rows db'). \<not> expired (fst (env i)) (snd (env i)) st s r))"
  using assms
proof (induction k arbitrary: c0 db)
  case 0
  then show ?case by (simp add: only_removed_refl)
next
  case (Suc k)
  obtain b d where bd: "prune_batch (env k) st s n db = (b, d)" by fastforce
  note f = prune_batch_facts [OF Suc.prems(2) bd]
  note rem = prune_batch_removed [OF Suc.prems(2) bd]
  have ids: "distinct (map row_id (rows d))"
    using only_removed_ids [OF rem Suc.prems(2)] .
  show ?case
  proof (cases "b < n")
    case True
    with Suc.prems bd have "c = c0 + b" "\<not> full" "db' = d" by auto
    moreover have "only_removed (\<lambda>r. \<exists>i < Suc k. expired (fst (env i)) (snd (env i)) st s r) db d"
      by (rule only_removed_mono [OF rem]) auto
    ultimately show ?thesis using f(1,4) f(5) [OF True] by auto
  next
    case False
    with Suc.prems bd have step: "prune_loop env st s n k (c0 + b) d = (c, full, db')" by simp
    note IH = Suc.IH [OF step ids]
    have "only_removed (\<lambda>r. \<exists>i < Suc k. expired (fst (env i)) (snd (env i)) st s r) db db'"
      by (rule only_removed_trans [OF Suc.prems(2) rem conjunct1 [OF IH]]) (auto intro: less_SucI)
    moreover have "c \<le> c0 + Suc k * n" using IH f(1) by auto
    moreover have "c0 + length (rows db) = c + length (rows db')" using IH f(4) by auto
    ultimately show ?thesis using IH less_SucI by metis
  qed
qed

section \<open>Readiness\<close>

lemma sum_group_lengths:
  "sum_list (map (\<lambda>k. length (filter (\<lambda>r. f r = k) xs)) (remdups (map f xs))) = length xs"
proof -
  have "length (filter (\<lambda>r. f r = k) xs) = count_list (map f xs) k" for k
    by (induction xs) auto
  then have "sum_list (map (\<lambda>k. length (filter (\<lambda>r. f r = k) xs)) (remdups (map f xs)))
             = sum (count_list (map f xs)) (set (remdups (map f xs)))"
    by (simp only: sum_list_distinct_conv_sum_set [OF distinct_remdups])
  also have "\<dots> = length xs" by (simp add: sum_count_set)
  finally show ?thesis .
qed

lemma ex_option_split:
  "(\<exists>r \<in> set xs. \<forall>k. f r = Some k \<longrightarrow> Q k)
   \<longleftrightarrow> (\<exists>r \<in> set xs. f r = None) \<or> (\<exists>k. Some k \<in> set (map f xs) \<and> Q k)"
proof -
  have "(\<forall>k. f r = Some k \<longrightarrow> Q k) \<longleftrightarrow> f r = None \<or> (\<exists>k. f r = Some k \<and> Q k)" for r
    by (cases "f r") auto
  then show ?thesis by (induction xs) auto
qed

lemma max_lock_key_const:
  assumes "g \<noteq> []" and "\<forall>r \<in> set g. row_lock_key r = Some x"
  shows "max_lock_key g = Some x"
proof -
  have same: "fold max ys x = x" if "\<forall>y \<in> set ys. y = x" for ys :: "int list"
    using that by (induction ys) auto
  have "set (List.map_filter row_lock_key g) \<subseteq> {x}" "List.map_filter row_lock_key g \<noteq> []"
    using assms by (auto simp: List.map_filter_def filter_empty_conv)
  then obtain ys where "List.map_filter row_lock_key g = x # ys" "\<forall>y \<in> set ys. y = x"
    by (cases "List.map_filter row_lock_key g") auto
  then show ?thesis by (simp add: max_lock_key_def same)
qed

lemma in_group: "r \<in> set (group_of due k) \<longleftrightarrow> r \<in> set due \<and> row_serialize_key r = k"
  by (auto simp: group_of_def)

lemma group_lock_key:
  assumes "wf_db sha db" and "Some k \<in> set (map row_serialize_key (due_rows now q db))"
  shows "max_lock_key (group_of (due_rows now q db) (Some k)) = Some (lock_key sha k)"
proof (rule max_lock_key_const)
  show "group_of (due_rows now q db) (Some k) \<noteq> []"
    using assms(2) by (auto simp: group_of_def filter_empty_conv image_iff)
  show "\<forall>r \<in> set (group_of (due_rows now q db) (Some k)). row_lock_key r = Some (lock_key sha k)"
    using assms(1) by (auto simp: in_group due_rows_def wf_db_def wf_row_def)
qed

text \<open>The keys that are not blocked, and the keyless rows, are what could start now.\<close>

lemma unblocked_count:
  "qr_blocked_keys (queue_readiness_of now held db q) < qr_ready_keys (queue_readiness_of now held db q)
   \<longleftrightarrow> group_of (due_rows now q db) None \<noteq> []
     \<or> (\<exists>k. Some k \<in> set (map row_serialize_key (due_rows now q db))
          \<and> \<not> (case max_lock_key (group_of (due_rows now q db) (Some k)) of
                 None \<Rightarrow> False | Some x \<Rightarrow> x \<in> held_keys held))"
proof -
  define due where "due = due_rows now q db"
  define keyed where "keyed = filter (\<lambda>k. k \<noteq> None) (remdups (map row_serialize_key due))"
  define blocked where "blocked k \<longleftrightarrow> (case max_lock_key (group_of due k) of
      None \<Rightarrow> False | Some x \<Rightarrow> x \<in> held_keys held)" for k
  have le: "length (filter blocked keyed) \<le> length keyed" by simp
  have "length (filter blocked keyed) < length keyed + length (group_of due None)
        \<longleftrightarrow> group_of due None \<noteq> [] \<or> length (filter blocked keyed) < length keyed"
    using le by (cases "group_of due None") (auto simp: less_Suc_eq_le trans_le_add1)
  also have "length (filter blocked keyed) < length keyed \<longleftrightarrow> (\<exists>k \<in> set keyed. \<not> blocked k)"
    by (metis filter_True length_filter_less less_irrefl)
  also have "(\<exists>k \<in> set keyed. \<not> blocked k)
             \<longleftrightarrow> (\<exists>k. Some k \<in> set (map row_serialize_key due) \<and> \<not> blocked (Some k))"
    by (auto simp: keyed_def) (metis not_Some_eq image_eqI)+
  finally show ?thesis
    by (simp add: queue_readiness_of_def Let_def due_def keyed_def blocked_def)
qed

section \<open>The lock key\<close>

lemma from_bytes_bound: "0 \<le> from_bytes_be bs \<and> from_bytes_be bs < 256 ^ length bs"
proof (induction bs rule: rev_induct)
  case Nil
  then show ?case by (simp add: from_bytes_be_def)
next
  case (snoc b bs)
  have "0 \<le> uint b" "uint b < 256" using uint_lt2p [of b] by simp_all
  with snoc show ?case by (auto simp: from_bytes_be_def)
qed

lemma lock_key_range:
  "- (2 ^ 63) \<le> lock_key sha k \<and> lock_key sha k < 2 ^ 63"
proof -
  have "(256::int) ^ length (take 8 (sha k)) \<le> 256 ^ 8"
    by (rule power_increasing) simp_all
  with from_bytes_bound [of "take 8 (sha k)"]
  have "0 \<le> from_bytes_be (take 8 (sha k))" "from_bytes_be (take 8 (sha k)) < 2 ^ 64"
    by auto
  then show ?thesis by (simp add: lock_key_def Let_def)
qed

lemma halves_join:
  fixes hi lo :: int
  assumes "0 \<le> lo" "lo < 2 ^ 32"
  shows "(or (push_bit 32 (word_of_int hi)) (word_of_int lo) :: 64 word) = word_of_int (hi * 2 ^ 32 + lo)"
proof -
  have "or (push_bit 32 (word_of_int hi)) (word_of_int lo) = (word_of_int (or (push_bit 32 hi) lo) :: 64 word)"
    by (simp add: of_int_or_eq of_int_push_bit)
  also have "or (push_bit 32 hi) lo = push_bit 32 hi + lo"
  proof (rule disjunctive_add_eq_or [symmetric])
    show "and (push_bit 32 hi) lo = 0"
    proof (rule bit_eqI)
      fix n
      have "lo = take_bit 32 lo" using assms by (simp add: take_bit_int_eq_self)
      then have "\<not> bit lo n" if "32 \<le> n" using that by (metis bit_take_bit_iff not_less)
      then show "bit (and (push_bit 32 hi) lo) n = bit 0 n"
        by (auto simp: bit_simps)
    qed
  qed
  finally show ?thesis by (simp add: push_bit_eq_mult mult.commute)
qed

section \<open>Properties of the queue\<close>

text \<open>C21: Claiming takes the oldest job that may be taken. It returns nothing exactly when no row of
  the queue is due or abandoned, unlocked and on a free key; otherwise the row it returns is such a
  row, no such row comes before it in \<open>(run_at, id)\<close> order, it becomes \<open>running\<close> with one more
  attempt and a fresh lease, and no other row changes.\<close>

theorem claim_correct:
  assumes "distinct (map row_id (rows db))"
  shows "case claim now held busy q db of
      (None, db') \<Rightarrow> db' = db \<and> (\<forall>r \<in> set (rows db). \<not> claimable now held busy q r)
    | (Some j, db') \<Rightarrow>
        \<exists>r \<in> set (rows db). claimable now held busy q r
          \<and> (\<forall>x \<in> set (rows db). claimable now held busy q x \<longrightarrow> claim_order r \<le> claim_order x)
          \<and> j = job_of_row (claim_row now r)
          \<and> find_row (job_id j) db' = Some (r\<lparr>row_state := JRunning, row_locked_at := Some now,
                row_attempts := row_attempts r + 1, row_updated_at := now\<rparr>)
          \<and> (\<forall>i. i \<noteq> job_id j \<longrightarrow> find_row i db' = find_row i db)"
proof (cases "claim now held busy q db")
  case (Pair o' db')
  show ?thesis
  proof (cases o')
    case None
    with Pair claim_None_iff [of now held busy q db] show ?thesis
      by (auto dest: claim_None_same)
  next
    case (Some j)
    from Pair [unfolded Some] obtain r where r: "r \<in> set (rows db)" "claimable now held busy q r"
      "\<forall>x \<in> set (rows db). claimable now held busy q x \<longrightarrow> claim_order r \<le> claim_order x"
      "j = job_of_row (claim_row now r)" "db' = update_row (row_id r) (claim_row now) db"
      by (metis claim_SomeE)
    with find_row_of_mem [OF assms r(1)] have
      "find_row (job_id j) db' = Some (claim_row now r)"
      "\<forall>i. i \<noteq> job_id j \<longrightarrow> find_row i db' = find_row i db"
      by (simp_all add: claim_op.find_any)
    with r Pair Some show ?thesis by (auto simp: claim_row_def)
  qed
qed

definition row0 :: "nat \<Rightarrow> job_state \<Rightarrow> string option \<Rightarrow> int option \<Rightarrow> job_row" where
  "row0 i st k lk = \<lparr>row_id = i, row_queue = INTEGRATE, row_payload = [], row_state = st,
     row_attempts = (if st = JRunning then 1 else 0), row_last_error = None, row_run_at = 10,
     row_locked_at = (if st = JRunning then Some 20 else None), row_serialize_key = k,
     row_lock_key = lk, row_committed = None, row_created_at = 10, row_updated_at = 10\<rparr>"

theorem claim_correct_witness:
  "distinct (map row_id (rows \<lparr>rows = [row0 0 JReady None None], next_id = 1\<rparr>))
   \<and> (case claim 100 [] [] INTEGRATE \<lparr>rows = [row0 0 JReady None None], next_id = 1\<rparr> of
        (None, db') \<Rightarrow> False | (Some j, db') \<Rightarrow> job_attempts j = 1)"
  using claim_correct [of "\<lparr>rows = [row0 0 JReady None None], next_id = 1\<rparr>" 100 "[]" "[]" INTEGRATE]
  by (auto simp: row0_def claimable_def held_keys_def split: option.splits prod.splits)

text \<open>A failure never raises in the retry ladder, and the ladder ends. Failing a job that was
  just claimed reschedules it with the delay of its attempt (5, 30, 120, 600 seconds) while it has
  attempts left, and makes it \<open>failed\<close> at the fifth, after which no claim returns it.\<close>

theorem fail_ladder:
  assumes "1 \<le> job_attempts j" and "find_row (job_id j) db = Some r"
  shows "case fail DEFAULT_MAX_ATTEMPTS now j e db of
      Inl _ \<Rightarrow> False
    | Inr (retry, db') \<Rightarrow>
        retry = (job_attempts j < 5)
        \<and> (\<forall>i. i \<noteq> job_id j \<longrightarrow> find_row i db' = find_row i db)
        \<and> (\<exists>r'. find_row (job_id j) db' = Some r' \<and> row_last_error r' = Some (take 2000 e)
             \<and> row_attempts r' = row_attempts r
             \<and> (if retry then row_state r' = JReady
                   \<and> row_run_at r' = now + secs ([5, 30, 120, 600] ! nat (job_attempts j - 1))
                 else row_state r' = JFailed
                   \<and> (\<forall>t held busy q. \<not> claimable t held busy q r')))"
proof (cases "will_retry DEFAULT_MAX_ATTEMPTS j")
  case True
  then have "min (job_attempts j - 1) 3 = job_attempts j - 1" "job_attempts j < 5"
    by (simp_all add: will_retry_def DEFAULT_MAX_ATTEMPTS_def)
  then show ?thesis
    using assms(2) fail_cases(2) [OF assms(1) True]
    by (simp add: retry_op.find_any retry_row_def BACKOFF_SECONDS_def)
next
  case False
  then show ?thesis
    using assms(2) fail_cases(1) [OF assms(1) False]
    by (simp add: give_up_op.find_any give_up_row_def claimable_def will_retry_def
        DEFAULT_MAX_ATTEMPTS_def)
qed

theorem fail_ladder_witness:
  "let r = row0 0 JRunning None None; db = \<lparr>rows = [r], next_id = 1\<rparr>; j = job_of_row r
   in 1 \<le> job_attempts j \<and> find_row (job_id j) db = Some r
      \<and> (\<exists>db'. fail DEFAULT_MAX_ATTEMPTS 50 j ''boom'' db = Inr (True, db'))"
  using fail_ladder [where j = "job_of_row (row0 0 JRunning None None)"
      and db = "\<lparr>rows = [row0 0 JRunning None None], next_id = 1\<rparr>"
      and r = "row0 0 JRunning None None" and now = 50 and e = "''boom''"]
  by (auto simp: Let_def row0_def job_of_row_def find_row_def split: sum.splits prod.splits)

text \<open>A worker extending its lease learns exactly whether it still holds the job. \<open>HELD\<close> is
  returned just when the row is running under this claim's attempt number, and then only its lease
  moves; \<open>LOST\<close> just when the row runs under another claim; every other case is \<open>SETTLED\<close>, and
  neither of those two changes anything.\<close>

theorem touch_classifies:
  assumes "distinct (map row_id (rows db))"
  shows "touch now i n db =
    (case find_row i db of
       None \<Rightarrow> (SETTLED, db)
     | Some r \<Rightarrow>
         if row_state r \<noteq> JRunning then (SETTLED, db)
         else if row_attempts r \<noteq> n then (LOST, db)
         else (HELD, update_row i (\<lambda>r. r\<lparr>row_locked_at := Some now, row_updated_at := now\<rparr>) db))"
proof -
  have ex: "(\<exists>r \<in> set (rows db). row_id r = i \<and> row_state r = JRunning \<and> row_attempts r = n)
      \<longleftrightarrow> (\<exists>r. find_row i db = Some r \<and> row_state r = JRunning \<and> row_attempts r = n)"
    using find_row_of_mem [OF assms] by (auto dest: find_row_in)
  have "update_row i (touch_row now n) db
        = update_row i (\<lambda>r. r\<lparr>row_locked_at := Some now, row_updated_at := now\<rparr>) db"
    if "find_row i db = Some r" "row_state r = JRunning" "row_attempts r = n" for r
    by (rule update_row_cong [OF assms that(1)]) (simp add: touch_row_def that)
  then show ?thesis
    unfolding touch_def ex by (auto split: option.split)
qed

theorem touch_classifies_witness:
  "distinct (map row_id (rows \<lparr>rows = [row0 0 JRunning None None], next_id = 1\<rparr>))
   \<and> fst (touch 90 0 1 \<lparr>rows = [row0 0 JRunning None None], next_id = 1\<rparr>) = HELD
   \<and> fst (touch 90 0 2 \<lparr>rows = [row0 0 JRunning None None], next_id = 1\<rparr>) = LOST"
  by (simp add: touch_classifies row0_def find_row_def)

text \<open>The lock keys read back from \<open>pg_locks\<close> are the keys that were taken. A key is a signed
  64-bit value, and when Postgres shows it as two unsigned 32-bit halves of its two's complement,
  the expression of \<open>HELD_LOCK_KEYS_SQL\<close> gives the key, negative keys included.\<close>

theorem held_key_roundtrip:
  assumes "0 \<le> lo" "lo < 2 ^ 32" 
    and "(hi * 2 ^ 32 + lo) mod 2 ^ 64 = lock_key sha k mod 2 ^ 64"
  shows "held_lock_key hi lo = lock_key sha k"
proof -
  have "held_lock_key hi lo = signed_take_bit 63 (hi * 2 ^ 32 + lo)"
    unfolding held_lock_key_def halves_join [OF assms(1,2)] sint_sbintrunc' by simp
  also have "\<dots> = signed_take_bit 63 (lock_key sha k)"
    using assms(3) by (simp add: signed_take_bit_eq_iff_take_bit_eq take_bit_eq_mod)
  also have "\<dots> = lock_key sha k"
    using lock_key_range by (simp add: signed_take_bit_int_eq_self)
  finally show ?thesis .
qed

theorem held_key_roundtrip_witness:
  "lock_key (\<lambda>_. [255, 255, 255, 255, 255, 255, 255, 254]) ''u'' = -2
   \<and> held_lock_key 4294967295 4294967294 = -2"
proof -
  have k: "lock_key (\<lambda>_. [255, 255, 255, 255, 255, 255, 255, 254]) ''u'' = -2"
    by (simp add: lock_key_def from_bytes_be_def)
  then show ?thesis
    using held_key_roundtrip [of 4294967294 4294967295
        "\<lambda>_. [255, 255, 255, 255, 255, 255, 255, 254]" "''u''"] by simp
qed

text \<open>The retention sweep deletes nothing but terminal rows past their window. A sweep on an
  autocommit connection returns; the rows it leaves are unchanged and in their order; every row it
  deletes was \<open>done\<close> or \<open>failed\<close> and had not been written for the window of its state when a
  statement of the sweep ran; what it reports is what it deleted, at most \<open>max_batches\<close> batches of
  \<open>batch_size\<close> per state; and if it does not report running out of budget, then for each state some
  statement of the sweep saw no further row to delete.\<close>

theorem prune_sound:
  assumes "distinct (map row_id (rows db))"
  shows "case prune True env n m db of
      Inl _ \<Rightarrow> False
    | Inr (p, db') \<Rightarrow>
        only_removed (\<lambda>r. \<exists>(st, w) \<in> {(JDone, 604800), (JFailed, 7776000)}.
          \<exists>i < m. expired (fst (env st i)) (snd (env st i)) st w r) db db'
        \<and> length (rows db) = pruned_total p + length (rows db')
        \<and> map fst (deleted p) = [JDone, JFailed]
        \<and> (\<forall>c \<in> set (map snd (deleted p)). c \<le> m * n)
        \<and> (\<not> capped p \<longrightarrow> (\<forall>(st, w) \<in> {(JDone, 604800), (JFailed, 7776000)}.
             \<exists>i < m. \<forall>r \<in> set (rows db'). \<not> expired (fst (env st i)) (snd (env st i)) st w r))"
proof -
  obtain c1 f1 d1 where 1: "prune_loop (env JDone) JDone 604800 n m 0 db = (c1, f1, d1)"
    by (metis prod_cases3)
  obtain c2 f2 d2 where 2: "prune_loop (env JFailed) JFailed 7776000 n m 0 d1 = (c2, f2, d2)"
    by (metis prod_cases3)
  have run: "prune True env n m db
      = Inr (\<lparr>deleted = [(JDone, c1), (JFailed, c2)], capped = f1 \<or> f2\<rparr>, d2)"
    using 1 2 by (simp add: prune_def RETENTION_SECONDS_def DONE_RETENTION_SECONDS_def
        FAILED_RETENTION_SECONDS_def)
  note L1 = prune_loop_facts [OF 1 assms]
  have ids: "distinct (map row_id (rows d1))"
    using only_removed_ids [OF conjunct1 [OF L1] assms] .
  note L2 = prune_loop_facts [OF 2 ids]
  have "only_removed (\<lambda>r. \<exists>(st, w) \<in> {(JDone, 604800), (JFailed, 7776000)}.
          \<exists>i < m. expired (fst (env st i)) (snd (env st i)) st w r) db d2"
    by (rule only_removed_trans [OF assms conjunct1 [OF L1] conjunct1 [OF L2]]) auto
  then show ?thesis
    using L1 L2 only_removed_sub [OF conjunct1 [OF L2]]
    unfolding run by (auto simp: pruned_total_def)
qed

theorem prune_sound_witness:
  "let r = (row0 0 JDone None None)\<lparr>row_updated_at := 0\<rparr>; db = \<lparr>rows = [r], next_id = 1\<rparr>
   in distinct (map row_id (rows db))
      \<and> (case prune True (\<lambda>_ _. (secs 604801, [])) 10 2 db of
           Inl _ \<Rightarrow> False | Inr (p, db') \<Rightarrow> rows db' = [] \<and> pruned_total p = 1)"
proof -
  let ?r = "(row0 0 JDone None None)\<lparr>row_updated_at := 0\<rparr>"
  let ?db = "\<lparr>rows = [?r], next_id = 1\<rparr>"
  have p: "prune True (\<lambda>_ _. (secs 604801, [])) 10 2 ?db
      = Inr (\<lparr>deleted = [(JDone, 1), (JFailed, 0)], capped = False\<rparr>, \<lparr>rows = [], next_id = 1\<rparr>)"
    by (simp add: prune_def RETENTION_SECONDS_def job_constants prune_batch_def expired_def secs_def
        row0_def numeral_2_eq_2)
  show ?thesis
    using prune_sound [where db = ?db and env = "\<lambda>_ _. (secs 604801, [])" and n = 10 and m = 2] p
    by (simp add: Let_def pruned_total_def)
qed

lemma readiness_bounds:
  "let q' = queue_readiness_of now held db q in
     qr_ready q' = length (due_rows now q db) \<and> qr_blocked_keys q' \<le> qr_ready_keys q'
     \<and> qr_ready_keys q' \<le> qr_ready q' \<and> (qr_ready_keys q' = 0 \<longleftrightarrow> qr_ready q' = 0)"
proof -
  define due where "due = due_rows now q db"
  define groups where "groups = remdups (map row_serialize_key due)"
  define keyed where "keyed = filter (\<lambda>k. k \<noteq> None) groups"
  have ready: "sum_list (map (\<lambda>k. length (group_of due k)) groups) = length due"
    unfolding group_of_def groups_def by (rule sum_group_lengths)
  have keyed': "keyed = remdups (map row_serialize_key (filter (\<lambda>r. row_serialize_key r \<noteq> None) due))"
    by (simp add: keyed_def groups_def filter_map comp_def flip: remdups_filter)
  have "length keyed \<le> length (filter (\<lambda>r. row_serialize_key r \<noteq> None) due)"
    unfolding keyed' by (metis length_map length_remdups_leq)
  moreover have "length (filter (\<lambda>r. row_serialize_key r \<noteq> None) due) + length (group_of due None) = length due"
    using sum_length_filter_compl [of "\<lambda>r. row_serialize_key r \<noteq> None" due] by (simp add: group_of_def)
  ultimately have "length keyed + length (group_of due None) \<le> length due" by simp
  moreover have "due = []" if "keyed = []" "group_of due None = []"
    using that unfolding keyed' by (auto simp: group_of_def filter_empty_conv)
  moreover have "keyed = []" if "due = []"
    using that by (simp add: keyed_def groups_def)
  moreover have "qr_ready (queue_readiness_of now held db q) = length due"
    using ready by (simp add: queue_readiness_of_def Let_def due_def groups_def)
  moreover have "qr_ready_keys (queue_readiness_of now held db q) = length keyed + length (group_of due None)"
    by (simp add: queue_readiness_of_def Let_def due_def groups_def keyed_def)
  moreover have "qr_blocked_keys (queue_readiness_of now held db q) \<le> length keyed"
    unfolding queue_readiness_of_def Let_def keyed_def groups_def due_def
    by (simp only: queue_readiness_row.simps length_filter_le)
  ultimately show ?thesis
    by (simp add: Let_def due_def) (metis Nat.add_0_right add_is_0 le_add1 length_0_conv le_trans le_zero_eq)
qed

text \<open>Readiness counts what could start. On a well-formed table, when no running job of the
  queue has an expired lease and no other transaction holds a row, a claim finds a job exactly when
  \<open>ready_keys\<close> exceeds \<open>blocked_keys\<close>; and always \<open>ready\<close> is the number of due rows and
  \<open>blocked_keys \<le> ready_keys \<le> ready\<close>, with \<open>ready_keys\<close> zero only when nothing is due.\<close>

theorem readiness_predicts_claim:
  assumes wf: "wf_db sha db"
    and fresh: "\<forall>r \<in> set (rows db). row_queue r = q \<and> row_state r = JRunning \<longrightarrow>
      (\<forall>t. row_locked_at r = Some t \<longrightarrow> now - secs 1800 \<le> t)"
  shows "(fst (claim now held [] q db) \<noteq> None) =
      (qr_blocked_keys (queue_readiness_of now held db q) < qr_ready_keys (queue_readiness_of now held db q))
    \<and> qr_blocked_keys (queue_readiness_of now held db q) \<le> qr_ready_keys (queue_readiness_of now held db q)
    \<and> qr_ready_keys (queue_readiness_of now held db q) \<le> length (due_rows now q db)"
proof -
  have lk: "row_lock_key r = map_option (lock_key sha) (row_serialize_key r)" if "r \<in> set (rows db)" for r
    using wf that by (simp add: wf_db_def wf_row_def)
  have "claimable now held [] q r \<longleftrightarrow> r \<in> set (due_rows now q db)
        \<and> (\<forall>k. row_serialize_key r = Some k \<longrightarrow> lock_key sha k \<notin> held_keys held)"
    if r: "r \<in> set (rows db)" for r
    using fresh r lk [OF r]
    by (auto simp: claimable_def due_rows_def STALE_LEASE_SECONDS_def split: option.splits)
  then have "fst (claim now held [] q db) \<noteq> None \<longleftrightarrow>
      (\<exists>r \<in> set (due_rows now q db). \<forall>k. row_serialize_key r = Some k \<longrightarrow> lock_key sha k \<notin> held_keys held)"
    unfolding claim_None_iff by (auto simp: due_rows_def)
  also have "\<dots> \<longleftrightarrow> group_of (due_rows now q db) None \<noteq> []
     \<or> (\<exists>k. Some k \<in> set (map row_serialize_key (due_rows now q db)) \<and> lock_key sha k \<notin> held_keys held)"
    unfolding ex_option_split by (simp add: group_of_def filter_empty_conv)
  also have "\<dots> \<longleftrightarrow> qr_blocked_keys (queue_readiness_of now held db q)
      < qr_ready_keys (queue_readiness_of now held db q)"
  proof -
    have "(case max_lock_key (group_of (due_rows now q db) (Some k)) of
             None \<Rightarrow> False | Some x \<Rightarrow> x \<in> held_keys held) \<longleftrightarrow> lock_key sha k \<in> held_keys held"
      if "Some k \<in> set (map row_serialize_key (due_rows now q db))" for k
      using group_lock_key [OF wf that] by simp
    then show ?thesis unfolding unblocked_count by blast
  qed
  finally show ?thesis
    using readiness_bounds [of now held db q] by (simp add: Let_def)
qed

theorem readiness_predicts_claim_witness:
  "let sha = (\<lambda>_. [0, 0, 0, 0, 0, 0, 0, 7]); r = row0 0 JReady (Some ''u'') (Some 7);
       db = \<lparr>rows = [r], next_id = 1\<rparr>
   in wf_db sha db \<and> fst (claim 100 [(3, 7)] [] INTEGRATE db) = None
      \<and> fst (claim 100 [] [] INTEGRATE db) \<noteq> None"
proof -
  let ?sha = "\<lambda>_::string. [0, 0, 0, 0, 0, 0, 0, 7] :: 8 word list"
  let ?db = "\<lparr>rows = [row0 0 JReady (Some ''u'') (Some 7)], next_id = 1\<rparr>"
  have wf: "wf_db ?sha ?db"
    by (simp add: wf_db_def wf_row_def row0_def lock_key_def from_bytes_be_def)
  have q: "qr_ready_keys (queue_readiness_of 100 held ?db INTEGRATE) = 1"
    "qr_blocked_keys (queue_readiness_of 100 held ?db INTEGRATE) = (if 7 \<in> held_keys held then 1 else 0)"
    for held
    by (simp_all add: queue_readiness_of_def due_rows_def group_of_def row0_def max_lock_key_def
        List.map_filter_def)
  have r: "fst (claim 100 held [] INTEGRATE ?db) \<noteq> None
        \<longleftrightarrow> (if 7 \<in> held_keys held then (1::nat) else 0) < 1" for held
    using readiness_predicts_claim [OF wf, of INTEGRATE 100 held] unfolding q by (simp add: row0_def)
  show ?thesis
    using wf r [of "[(3, 7)]"] r [of "[]"] by (auto simp: Let_def held_keys_def)
qed

text \<open>A serialization key has one holder. \<open>try_lock\<close> succeeds for a session exactly when no other
  session holds the key; after it, another session's attempt fails until the release, and releasing
  gives back the lock table as it was.\<close>

theorem try_lock_exclusive:
  "case try_lock sha s k held of (ok, held') \<Rightarrow>
     ok = (\<forall>l \<in> set held. snd l = lock_key sha k \<longrightarrow> fst l = s)
     \<and> (ok \<longrightarrow> (\<forall>s'. s' \<noteq> s \<longrightarrow> \<not> fst (try_lock sha s' k held')) \<and> unlock sha s k held' = held)
     \<and> (\<not> ok \<longrightarrow> held' = held)"
  by (auto simp: try_lock_def unlock_def Let_def)

theorem try_lock_exclusive_witness:
  "fst (try_lock (\<lambda>_. [1]) 1 ''u'' []) \<and> \<not> fst (try_lock (\<lambda>_. [1]) 2 ''u'' (snd (try_lock (\<lambda>_. [1]) 1 ''u'' [])))"
  using try_lock_exclusive [where sha = "\<lambda>_. [1]" and s = 1 and k = "''u''" and held = "[]"] by (auto split: prod.splits)

text \<open>Every operation of the queue keeps the table well-formed: ids stay unique and below the
  sequence, \<open>lock_key\<close> stays the key derived from \<open>serialize_key\<close>, no attempt count is negative and
  a running row has a lease and at least one attempt. \<open>defer\<close> needs what its caller guarantees,
  that the row was claimed.\<close>

theorem queue_ops_keep_wf:
  assumes "wf_db sha db"
  shows "wf_db sha (snd (enqueue sha now q p key delay db))
    \<and> wf_db sha (snd (claim now held busy q db))
    \<and> wf_db sha (complete now i db)
    \<and> wf_db sha (mark_work_committed now i n db)
    \<and> wf_db sha (snd (touch now i n db))
    \<and> (\<forall>m j e b db'. fail m now j e db = Inr (b, db') \<longrightarrow> wf_db sha db')
    \<and> (\<forall>s j. (\<forall>r. find_row (job_id j) db = Some r \<longrightarrow> 1 \<le> row_attempts r)
          \<longrightarrow> wf_db sha (defer_job s now j db))"
  using assms
  by (intro conjI allI impI wf_enqueue wf_claim wf_complete wf_mark wf_touch wf_defer)
    (auto elim: wf_fail)

theorem queue_ops_keep_wf_witness:
  "let db = \<lparr>rows = [row0 0 JRunning None None], next_id = 1\<rparr>
   in wf_db (\<lambda>_. []) db \<and> wf_db (\<lambda>_. []) (complete 50 0 db)"
proof -
  have "wf_db (\<lambda>_. []) \<lparr>rows = [row0 0 JRunning None None], next_id = 1\<rparr>"
    by (simp add: wf_db_def wf_row_def row0_def)
  from this queue_ops_keep_wf [OF this, of 50] show ?thesis by (simp add: Let_def)
qed

end
