(* ===== verification/Worker.thy ===== *)
theory Worker
  imports Jobs
begin

text \<open>
  The worker loop, \<open>workers/src/motet_workers/loop.py\<close>: \<open>_execute\<close> with its transactions,
  \<open>drain\<close> with its claim, lock, run, unlock cycle, the after-commit steps and the lease keeper.

  \<open>'d sys\<close> is what one database connection sees: the jobs table, the heartbeats and the rest of the
  database \<open>'d\<close>. A handler is a function from it to an exception or to the state it commits, so a
  raising handler has no effect: its transaction rolls back. Handlers, failure recorders and
  after-commit steps are arguments here; the pipeline's own are in the theories of the stages, which
  show they keep the contract \<open>job_handler\<close> stated below.
\<close>

section \<open>State, exceptions, outcomes\<close>

record 'd sys =
  sys_jobs :: jobs_db
  sys_heartbeats :: "queue \<rightharpoonup> time"
  sys_dom :: 'd

datatype exn_kind = LlmBudgetExhaustedError | PermanentFailureExn | OtherExn

record exn =
  exn_kind :: exn_kind
  exn_name :: string
  exn_text :: string

definition exn_message :: "exn \<Rightarrow> string" where
  "exn_message e = exn_name e @ '': '' @ exn_text e"

datatype outcome = Completed | AlreadyApplied | FailedPermanently | Retrying | FailedOut

text \<open>An after-commit step: what it does, and whether it raised doing it.\<close>

type_synonym 'd step = "'d sys \<Rightarrow> exn option \<times> 'd sys"
type_synonym 'd handler = "'d sys \<Rightarrow> payload \<Rightarrow> exn + 'd sys \<times> 'd step list"
type_synonym 'd recorder = "payload \<Rightarrow> string \<Rightarrow> 'd sys \<Rightarrow> 'd sys"

definition on_jobs :: "(jobs_db \<Rightarrow> jobs_db) \<Rightarrow> 'd sys \<Rightarrow> 'd sys" where
  "on_jobs f s = s\<lparr>sys_jobs := f (sys_jobs s)\<rparr>"

lemma on_jobs_simps [simp]:
  "sys_jobs (on_jobs f s) = f (sys_jobs s)" "sys_dom (on_jobs f s) = sys_dom s"
  "sys_heartbeats (on_jobs f s) = sys_heartbeats s"
  by (simp_all add: on_jobs_def)

section \<open>Running one job\<close>

definition record_failure :: "(queue \<rightharpoonup> 'd recorder) \<Rightarrow> job \<Rightarrow> string \<Rightarrow> 'd sys \<Rightarrow> 'd sys" where
  "record_failure recorders j m s =
     (case recorders (job_queue j) of None \<Rightarrow> s | Some r \<Rightarrow> r (job_payload j) m s)"

text \<open>\<open>jobs.fail\<close> inside the failure transaction: an exception of its own escapes and rolls back.\<close>

definition fail_in ::
  "int \<Rightarrow> time \<Rightarrow> job \<Rightarrow> string \<Rightarrow> outcome \<Rightarrow> 'd sys \<Rightarrow> py_error + outcome \<times> 'd sys \<times> 'd step list"
where
  "fail_in m now j e out s =
     (case fail m now j e (sys_jobs s) of
        Inl x \<Rightarrow> Inl x
      | Inr (_, db) \<Rightarrow> Inr (out, s\<lparr>sys_jobs := db\<rparr>, []))"

text \<open>\<open>_execute\<close>. \<open>t1\<close> is \<open>now()\<close> in the work transaction, \<open>t2\<close> in the one that records the outcome;
  the result carries the steps handed back for \<open>drain\<close> to run after the unlock.\<close>

definition execute ::
  "time \<Rightarrow> time \<Rightarrow> 'd handler \<Rightarrow> (queue \<rightharpoonup> 'd recorder) \<Rightarrow> job \<Rightarrow> 'd sys
   \<Rightarrow> py_error + outcome \<times> 'd sys \<times> 'd step list"
where
  "execute t1 t2 handler recorders j s =
     (if job_committed j \<noteq> None
      then Inr (AlreadyApplied, on_jobs (complete t1 (job_id j)) s, [])
      else case handler s (job_payload j) of
        Inl e \<Rightarrow>
          (case exn_kind e of
             OtherExn \<Rightarrow>
               (let retrying = will_retry DEFAULT_MAX_ATTEMPTS j;
                    s' = (if retrying then s else record_failure recorders j (exn_message e) s)
                in fail_in DEFAULT_MAX_ATTEMPTS t2 j (exn_message e)
                     (if retrying then Retrying else FailedOut) s')
           | _ \<Rightarrow>
               fail_in 0 t2 j (exn_message e) FailedPermanently
                 (record_failure recorders j (exn_message e) s))
      | Inr (s', after) \<Rightarrow>
          Inr (Completed,
               on_jobs (complete t2 (job_id j))
                 (on_jobs (mark_work_committed t1 (job_id j) (job_attempts j)) s'),
               after))"

text \<open>\<open>_run_after_commit\<close>: each step runs, whether or not the one before raised.\<close>

fun run_after_commit :: "'d step list \<Rightarrow> 'd sys \<Rightarrow> 'd sys" where
  "run_after_commit [] s = s"
| "run_after_commit (f # fs) s = run_after_commit fs (snd (f s))"

section \<open>Draining a queue\<close>

text \<open>The environment of one drain: SHA-256, this connection's session, the clock read by the
  statements of each round (claim, work, outcome), and the rows other transactions hold then.\<close>

record drain_env =
  env_sha :: "string \<Rightarrow> 8 word list"
  env_session :: nat
  env_claim_time :: "nat \<Rightarrow> time"
  env_work_time :: "nat \<Rightarrow> time"
  env_done_time :: "nat \<Rightarrow> time"
  env_busy :: "nat \<Rightarrow> nat list"

definition heartbeat :: "queue \<Rightarrow> time \<Rightarrow> 'd sys \<Rightarrow> 'd sys" where
  "heartbeat q t s = s\<lparr>sys_heartbeats := (sys_heartbeats s)(q \<mapsto> t)\<rparr>"

text \<open>The \<open>while\<close> loop. \<open>i\<close> numbers the rounds; a deferred job is a round that is not counted as
  processed. \<open>None\<close> is out of fuel; \<open>Inl\<close> an exception that escaped \<open>_execute\<close>, past the unlock.\<close>

fun drain_loop ::
  "drain_env \<Rightarrow> queue \<Rightarrow> 'd handler \<Rightarrow> (queue \<rightharpoonup> 'd recorder) \<Rightarrow> nat \<Rightarrow> nat \<Rightarrow> nat \<Rightarrow> nat
   \<Rightarrow> 'd sys \<times> locks \<Rightarrow> (py_error + nat \<times> 'd sys \<times> locks) option"
where
  "drain_loop env q h rec max_jobs 0 i processed (s, held) = None"
| "drain_loop env q h rec max_jobs (Suc fuel) i processed (s, held) =
     (if \<not> processed < max_jobs then Some (Inr (processed, s, held))
      else
        let s1 = heartbeat q (env_claim_time env i) s in
        case claim (env_claim_time env i) held (env_busy env i) q (sys_jobs s1) of
          (None, db) \<Rightarrow> Some (Inr (processed, s1\<lparr>sys_jobs := db\<rparr>, held))
        | (Some j, db) \<Rightarrow>
            let s2 = s1\<lparr>sys_jobs := db\<rparr>;
                lock = (case job_key j of None \<Rightarrow> (True, held)
                        | Some k \<Rightarrow> try_lock (env_sha env) (env_session env) k held)
            in if \<not> fst lock
               then drain_loop env q h rec max_jobs fuel (Suc i) processed
                      (on_jobs (defer_job BUSY_RETRY_SECONDS (env_work_time env i) j) s2, snd lock)
               else
                 let released = (case job_key j of None \<Rightarrow> snd lock
                                 | Some k \<Rightarrow> unlock (env_sha env) (env_session env) k (snd lock))
                 in case execute (env_work_time env i) (env_done_time env i) h rec j s2 of
                      Inl x \<Rightarrow> Some (Inl x)
                    | Inr (_, s3, after) \<Rightarrow>
                        drain_loop env q h rec max_jobs fuel (Suc i) (Suc processed)
                          (run_after_commit after s3, released))"

definition MAX_JOBS_PER_RUN :: nat where "MAX_JOBS_PER_RUN = 500"

definition drain ::
  "drain_env \<Rightarrow> (queue \<rightharpoonup> 'd handler) \<Rightarrow> (queue \<rightharpoonup> 'd recorder) \<Rightarrow> nat \<Rightarrow> queue
   \<Rightarrow> 'd sys \<times> locks \<Rightarrow> (py_error + nat \<times> 'd sys \<times> locks) option"
where
  "drain env handlers rec max_jobs q st =
     (case handlers q of
        None \<Rightarrow> Some (Inl (ValueError ''queue has no handler registered''))
      | Some h \<Rightarrow> drain_loop env q h rec max_jobs (Suc max_jobs) 0 0 st)"

section \<open>The lease keeper\<close>

text \<open>One wake-up of the keeper's thread: whether the handler had finished, the monotonic clock, and
  what the touch answered (\<open>None\<close>: it raised). An answer other than \<open>HELD\<close> ends the keeper; whether
  the handler had finished by then only decides if the loss is logged.\<close>

record keeper_tick =
  tick_stopped :: bool
  tick_monotonic :: time
  tick_touch :: "lease_touch option"

datatype lease_event = CapReached | TouchFailed | Touched lease_touch

fun keep :: "time \<Rightarrow> keeper_tick list \<Rightarrow> lease_event list" where
  "keep deadline [] = []"
| "keep deadline (x # xs) =
     (if tick_stopped x then []
      else if deadline \<le> tick_monotonic x then [CapReached]
      else case tick_touch x of
             None \<Rightarrow> TouchFailed # keep deadline xs
           | Some HELD \<Rightarrow> Touched HELD # keep deadline xs
           | Some r \<Rightarrow> [Touched r])"

definition hold_lease :: "time \<Rightarrow> keeper_tick list \<Rightarrow> lease_event list" where
  "hold_lease started ticks = keep (started + secs MAX_LEASE_EXTENSION_SECONDS) ticks"

section \<open>The contract of a handler, and what the loop makes of it\<close>

text \<open>What a stage may do to the queue: add jobs. The rows that were there stay as they were.\<close>

definition extends_jobs :: "(string \<Rightarrow> 8 word list) \<Rightarrow> jobs_db \<Rightarrow> jobs_db \<Rightarrow> bool" where
  "extends_jobs sha db db' \<longleftrightarrow>
     (wf_db sha db \<longrightarrow> wf_db sha db') \<and> (\<forall>i r. find_row i db = Some r \<longrightarrow> find_row i db' = Some r)"

lemma extends_jobs_refl [simp]: "extends_jobs sha db db"
  by (simp add: extends_jobs_def)

lemma extends_jobs_trans [trans]:
  "extends_jobs sha a b \<Longrightarrow> extends_jobs sha b c \<Longrightarrow> extends_jobs sha a c"
  by (simp add: extends_jobs_def)

lemma extends_jobs_enqueue: "extends_jobs sha db (snd (enqueue sha now q p key d db))"
proof -
  have "find (\<lambda>r. row_id r = i) (xs @ ys) = Some r" if "find (\<lambda>r. row_id r = i) xs = Some r"
    for i :: nat and xs ys :: "job_row list" and r
    using that by (induction xs) auto
  then show ?thesis
    by (auto simp: extends_jobs_def find_row_def enqueue_def
        intro: wf_enqueue [unfolded enqueue_def, simplified])
qed

locale job_handler =
  fixes sha :: "string \<Rightarrow> 8 word list"
    and run :: "'d handler"
    and recorders :: "queue \<rightharpoonup> 'd recorder"
  assumes run_extends:
      "run s p = Inr (s', after) \<Longrightarrow> extends_jobs sha (sys_jobs s) (sys_jobs s')"
    and recorder_extends:
      "recorders q = Some r \<Longrightarrow> extends_jobs sha (sys_jobs s) (sys_jobs (r p m s))"
    and step_extends:
      "run s p = Inr (s', after) \<Longrightarrow> f \<in> set after
       \<Longrightarrow> extends_jobs sha (sys_jobs t) (sys_jobs (snd (f t)))"
begin

lemma record_failure_extends:
  "extends_jobs sha (sys_jobs s) (sys_jobs (record_failure recorders j m s))"
  by (auto simp: record_failure_def intro: recorder_extends split: option.split)

lemma fail_in_wf:
  "wf_db sha (sys_jobs s) \<Longrightarrow> fail_in m t j e out s = Inr (out', s', after)
   \<Longrightarrow> wf_db sha (sys_jobs s')"
  by (auto simp: fail_in_def split: sum.splits intro: wf_fail)

lemma execute_wf:
  assumes wf: "wf_db sha (sys_jobs s)" and ex: "execute t1 t2 run recorders j s = Inr (out, s', after)"
  shows "wf_db sha (sys_jobs s')"
proof -
  have rec: "wf_db sha (sys_jobs (record_failure recorders j m s))" for m
    using wf record_failure_extends [of s j m] by (simp add: extends_jobs_def)
  show ?thesis
  proof (cases "job_committed j \<noteq> None")
    case True
    with ex wf show ?thesis by (auto simp: execute_def intro: wf_complete)
  next
    case False
    show ?thesis
    proof (cases "run s (job_payload j)")
      case (Inl e)
      with False ex wf rec show ?thesis
        by (cases "exn_kind e")
          (auto simp: execute_def Let_def split: if_splits intro: fail_in_wf)
    next
      case (Inr x)
      moreover obtain s1 a where "x = (s1, a)" by (cases x)
      moreover have "wf_db sha (sys_jobs s1)"
        using Inr \<open>x = (s1, a)\<close> run_extends wf by (fastforce simp: extends_jobs_def)
      ultimately show ?thesis
        using False ex by (auto simp: execute_def wf_complete wf_mark)
    qed
  qed
qed

lemma execute_steps:
  assumes "execute t1 t2 run recorders j s = Inr (out, s', after)" and "f \<in> set after"
  shows "extends_jobs sha (sys_jobs t) (sys_jobs (snd (f t)))"
proof (cases "run s (job_payload j)")
  case (Inl e)
  with assms show ?thesis
    by (auto simp: execute_def fail_in_def Let_def split: if_splits exn_kind.splits sum.splits)
next
  case (Inr x)
  then obtain s1 a where x: "run s (job_payload j) = Inr (s1, a)" by (cases x) auto
  with assms have "f \<in> set a"
    by (auto simp: execute_def split: if_splits)
  with x show ?thesis by (rule step_extends)
qed

lemma after_commit_wf:
  assumes "wf_db sha (sys_jobs s)"
    and "\<And>f t. f \<in> set fs \<Longrightarrow> extends_jobs sha (sys_jobs t) (sys_jobs (snd (f t)))"
  shows "wf_db sha (sys_jobs (run_after_commit fs s))"
  using assms by (induction fs arbitrary: s) (auto simp: extends_jobs_def)

lemma execute_returns:
  assumes "1 \<le> job_attempts j"
  shows "\<exists>out s' after. execute t1 t2 run recorders j s = Inr (out, s', after)"
proof -
  have f: "\<exists>out' s' after. fail_in m t j e out s = Inr (out', s', after)" for m t e out and s :: "'d sys"
    using fail_cases [OF assms, of m t e "sys_jobs s"]
    by (cases "will_retry m j") (simp_all add: fail_in_def)
  show ?thesis
    by (auto simp: execute_def Let_def f split: sum.split exn_kind.split prod.split)
qed

text \<open>A job that was just claimed from a well-formed table holds a free key and a first attempt.\<close>

lemma claim_lock_free:
  assumes wf: "wf_db sha db" and c: "claim now held busy q db = (Some j, db')"
  shows "1 \<le> job_attempts j"
    and "job_key j = Some k \<Longrightarrow> try_lock sha session k held = (True, (session, lock_key sha k) # held)"
proof -
  from c obtain r where r: "r \<in> set (rows db)" "claimable now held busy q r" "j = job_of_row (claim_row now r)"
    by (metis claim_SomeE)
  have w: "wf_row sha r" using wf r(1) by (simp add: wf_db_def)
  from w r(3) show "1 \<le> job_attempts j" by (simp add: wf_row_def)
  show "try_lock sha session k held = (True, (session, lock_key sha k) # held)" if "job_key j = Some k"
    using w r that by (force simp: wf_row_def claimable_def try_lock_def held_keys_def Let_def)
qed

lemma drain_loop_total:
  assumes "wf_db sha (sys_jobs s)" and "env_sha env = sha" and "processed \<le> max_jobs"
    and "max_jobs - processed < fuel"
  shows "\<exists>n s'. drain_loop env q run recorders max_jobs fuel i processed (s, held) = Some (Inr (n, s', held))
      \<and> processed \<le> n \<and> n \<le> max_jobs \<and> wf_db sha (sys_jobs s')
      \<and> (n < max_jobs \<longrightarrow> (\<exists>i'. sys_heartbeats s' q = Some (env_claim_time env i')
            \<and> (\<forall>r \<in> set (rows (sys_jobs s')).
                  \<not> claimable (env_claim_time env i') held (env_busy env i') q r)))"
  using assms
proof (induction fuel arbitrary: i processed s)
  case 0
  then show ?case by simp
next
  case (Suc fuel)
  let ?s1 = "heartbeat q (env_claim_time env i) s"
  show ?case
  proof (cases "processed < max_jobs")
    case False
    with Suc.prems show ?thesis by simp
  next
    case True
    have wf1: "wf_db sha (sys_jobs ?s1)" using Suc.prems(1) by (simp add: heartbeat_def)
    obtain jo db where c: "claim (env_claim_time env i) held (env_busy env i) q (sys_jobs ?s1) = (jo, db)"
      by fastforce
    have wf2: "wf_db sha db" using wf_claim [OF wf1] c by (metis snd_conv)
    show ?thesis
    proof (cases jo)
      case None
      with c claim_None_iff [of "env_claim_time env i" held "env_busy env i" q "sys_jobs ?s1"]
      have "db = sys_jobs ?s1" "\<forall>r \<in> set (rows db). \<not> claimable (env_claim_time env i) held (env_busy env i) q r"
        by (auto dest: claim_None_same)
      with None True c wf2 Suc.prems(3) show ?thesis by (auto simp: Let_def heartbeat_def)
    next
      case (Some j)
      note cl = claim_lock_free [OF wf1 c [unfolded Some]]
      let ?s2 = "?s1\<lparr>sys_jobs := db\<rparr>"
      obtain out s3 after where ex:
        "execute (env_work_time env i) (env_done_time env i) run recorders j ?s2 = Inr (out, s3, after)"
        using execute_returns [OF cl(1)] by blast
      have "wf_db sha (sys_jobs s3)" using execute_wf [OF _ ex] wf2 by simp
      then have wf4: "wf_db sha (sys_jobs (run_after_commit after s3))"
        by (rule after_commit_wf) (rule execute_steps [OF ex])
      have "drain_loop env q run recorders max_jobs (Suc fuel) i processed (s, held)
          = drain_loop env q run recorders max_jobs fuel (Suc i) (Suc processed) (run_after_commit after s3, held)"
        using True c ex Some cl(2) Suc.prems(2)
        by (auto simp: Let_def unlock_def split: option.split)
      moreover have "max_jobs - Suc processed < fuel" "Suc processed \<le> max_jobs"
        using True Suc.prems(4) by auto
      ultimately show ?thesis
        using Suc.IH [OF wf4 Suc.prems(2), of "Suc processed" "Suc i"] by (metis Suc_leD)
    qed
  qed
qed

end

section \<open>Properties of the loop\<close>

lemma execute_row_state:
  assumes "job_handler sha h recs" and "find_row (job_id j) (sys_jobs s) = Some r" and "1 \<le> job_attempts j"
    and ex: "execute t1 t2 h recs j s = Inr (out, s', after)"
  shows "map_option row_state (find_row (job_id j) (sys_jobs s'))
    = Some (case out of Completed \<Rightarrow> JDone | AlreadyApplied \<Rightarrow> JDone | Retrying \<Rightarrow> JReady | _ \<Rightarrow> JFailed)"
proof -
  have rec: "find_row (job_id j) (sys_jobs (record_failure recs j m s)) = Some r" for m
    using job_handler.record_failure_extends [OF assms(1)] assms(2) by (simp add: extends_jobs_def)
  have keep: "find_row (job_id j) (sys_jobs s1) = Some r" if "h s (job_payload j) = Inr (s1, a)" for s1 a
    using job_handler.run_extends [OF assms(1) that] assms(2) by (simp add: extends_jobs_def)
  note fc = fail_cases [OF assms(3)]
  show ?thesis
  proof (cases "job_committed j \<noteq> None")
    case True
    with ex assms(2) show ?thesis
      by (auto simp: execute_def complete_def complete_op.find_any complete_row_def)
  next
    case False
    show ?thesis
    proof (cases "h s (job_payload j)")
      case (Inl e)
      have "\<not> will_retry 0 j" using assms(3) by (simp add: will_retry_def)
      note perm = fc(1) [OF this]
      show ?thesis
        using False Inl ex rec assms(2)
        by (cases "exn_kind e"; cases "will_retry DEFAULT_MAX_ATTEMPTS j")
          (auto simp: execute_def Let_def fail_in_def perm fc give_up_op.find_any retry_op.find_any
            give_up_row_def retry_row_def)
    next
      case (Inr x)
      then obtain s1 a where "h s (job_payload j) = Inr (s1, a)" by (cases x) auto
      with False ex keep show ?thesis
        by (auto simp: execute_def complete_def complete_op.find_any mark_op.find_any
            mark_work_committed_def complete_row_def)
    qed
  qed
qed

text \<open>C2: One job's run settles its row according to its outcome, and a failed run leaves no work
  behind. Running a claimed job always returns; its row ends \<open>done\<close> when the work is applied (now, or
  by an earlier claim), \<open>ready\<close> when it will be retried and \<open>failed\<close> when it gave up. Work already
  committed is never done again, whatever the handler would do; a retried job changes nothing in
  the domain; a permanent failure skips the ladder, any other exception gives up only at the fifth
  attempt; and after-commit steps exist only for a completed run.\<close>

theorem execute_settles:
  assumes "job_handler sha h recs" and "find_row (job_id j) (sys_jobs s) = Some r" and "1 \<le> job_attempts j"
  shows "case execute t1 t2 h recs j s of
      Inl _ \<Rightarrow> False
    | Inr (out, s', after) \<Rightarrow>
        (out = AlreadyApplied) = (job_committed j \<noteq> None)
        \<and> map_option row_state (find_row (job_id j) (sys_jobs s')) = Some
            (case out of Completed \<Rightarrow> JDone | AlreadyApplied \<Rightarrow> JDone | Retrying \<Rightarrow> JReady | _ \<Rightarrow> JFailed)
        \<and> (out = Completed \<longrightarrow> (\<exists>s1. h s (job_payload j) = Inr (s1, after) \<and> sys_dom s' = sys_dom s1
             \<and> map_option row_committed (find_row (job_id j) (sys_jobs s')) = Some (Some (job_attempts j))))
        \<and> (out \<noteq> Completed \<longrightarrow> after = [])
        \<and> (out \<in> {AlreadyApplied, Retrying} \<longrightarrow> sys_dom s' = sys_dom s)
        \<and> (\<forall>e. job_committed j = None \<and> h s (job_payload j) = Inl e \<longrightarrow>
             out = (if exn_kind e \<noteq> OtherExn then FailedPermanently
                    else if job_attempts j < 5 then Retrying else FailedOut))"
proof -
  obtain out s' after where ex: "execute t1 t2 h recs j s = Inr (out, s', after)"
    using job_handler.execute_returns [OF assms(1,3)] by blast
  note st = execute_row_state [OF assms ex]
  have wr: "will_retry DEFAULT_MAX_ATTEMPTS j \<longleftrightarrow> job_attempts j < 5"
    by (simp add: will_retry_def DEFAULT_MAX_ATTEMPTS_def)
  show ?thesis
  proof (cases "job_committed j \<noteq> None")
    case True
    with ex st show ?thesis by (auto simp: execute_def)
  next
    case False
    show ?thesis
    proof (cases "h s (job_payload j)")
      case (Inl e)
      with False ex st show ?thesis
        by (cases "exn_kind e")
          (auto simp: execute_def Let_def fail_in_def wr split: if_splits sum.splits)
    next
      case (Inr x)
      then obtain s1 a where h: "h s (job_payload j) = Inr (s1, a)" by (cases x) auto
      have "find_row (job_id j) (sys_jobs s1) = Some r"
        using job_handler.run_extends [OF assms(1) h] assms(2) by (simp add: extends_jobs_def)
      with False ex st h show ?thesis
        by (auto simp: execute_def complete_def mark_work_committed_def complete_op.find_any
            mark_op.find_any complete_row_def mark_row_def)
    qed
  qed
qed

definition failing :: "exn \<Rightarrow> 'd handler" where
  "failing e s p = Inl e"

lemma failing_handler: "job_handler sha (failing e) Map.empty"
  by unfold_locales (simp_all add: failing_def)

theorem execute_settles_witness:
  "let r = row0 0 JRunning None None; j = job_of_row r;
       s = \<lparr>sys_jobs = \<lparr>rows = [r], next_id = 1\<rparr>, sys_heartbeats = Map.empty, sys_dom = ()\<rparr>;
       h = failing \<lparr>exn_kind = OtherExn, exn_name = ''E'', exn_text = ''x''\<rparr>
   in job_handler (\<lambda>_. []) h Map.empty \<and> find_row (job_id j) (sys_jobs s) = Some r \<and> 1 \<le> job_attempts j
      \<and> (case execute 30 31 h Map.empty j s of Inl _ \<Rightarrow> False | Inr (out, _) \<Rightarrow> out = Retrying)"
proof -
  let ?r = "row0 0 JRunning None None"
  let ?s = "\<lparr>sys_jobs = \<lparr>rows = [?r], next_id = 1\<rparr>, sys_heartbeats = Map.empty, sys_dom = ()\<rparr>"
  let ?h = "failing \<lparr>exn_kind = OtherExn, exn_name = ''E'', exn_text = ''x''\<rparr>"
  have "find_row (job_id (job_of_row ?r)) (sys_jobs ?s) = Some ?r" "1 \<le> job_attempts (job_of_row ?r)"
    "job_attempts (job_of_row ?r) < 5" "job_committed (job_of_row ?r) = None"
    by (simp_all add: job_of_row_def row0_def find_row_def)
  then show ?thesis
    using execute_settles [OF failing_handler [of "\<lambda>_. []" "\<lparr>exn_kind = OtherExn, exn_name = ''E'', exn_text = ''x''\<rparr>"], where j = "job_of_row ?r" and s = ?s
        and r = ?r and ?t1.0 = 30 and ?t2.0 = 31]
      failing_handler
    by (auto simp: Let_def failing_def split: sum.splits prod.splits)
qed



lemma keep_touches_before_deadline:
  "k < length (filter (\<lambda>e. e \<noteq> CapReached) (keep d xs)) \<Longrightarrow> k < length xs \<and> tick_monotonic (xs ! k) < d"
proof (induction xs arbitrary: k)
  case Nil
  then show ?case by simp
next
  case (Cons x xs)
  then show ?case
    by (cases k) (auto split: if_splits option.splits lease_touch.splits)
qed

text \<open>A wedged worker cannot hold its lease for ever. When the keeper wakes at least a minute
  apart, it tries fewer than 120 touches, each before the two-hour cap; and it goes on through
  failed touches: only losing the job, the job settling, the handler finishing or the cap ends it.\<close>

theorem lease_extension_bounded:
  assumes "\<forall>k < length ticks. started + secs (60 * (int k + 1)) \<le> tick_monotonic (ticks ! k)"
  shows "let evs = hold_lease started ticks; touches = filter (\<lambda>e. e \<noteq> CapReached) evs in
    length touches < 120
    \<and> (\<forall>k < length touches. tick_monotonic (ticks ! k) < started + secs 7200)
    \<and> (\<forall>e \<in> set (butlast evs). e = TouchFailed \<or> e = Touched HELD)"
proof -
  let ?t = "filter (\<lambda>e. e \<noteq> CapReached) (hold_lease started ticks)"
  have before: "k < length ticks \<and> tick_monotonic (ticks ! k) < started + secs 7200" if "k < length ?t" for k
    using keep_touches_before_deadline that by (simp add: hold_lease_def MAX_LEASE_EXTENSION_SECONDS_def)
  have "length ?t < 120"
  proof (rule ccontr)
    assume "\<not> length ?t < 120"
    then have "119 < length ?t" by simp
    with before [of 119] assms show False by (force simp: secs_def)
  qed
  moreover have "\<forall>e \<in> set (butlast (keep d xs)). e = TouchFailed \<or> e = Touched HELD" for d xs
    by (induction xs) (auto split: option.splits lease_touch.splits)
  ultimately show ?thesis using before by (simp add: Let_def hold_lease_def)
qed

theorem lease_extension_bounded_witness:
  "hold_lease 0 [\<lparr>tick_stopped = False, tick_monotonic = secs 61, tick_touch = None\<rparr>,
                 \<lparr>tick_stopped = False, tick_monotonic = secs 7201, tick_touch = Some HELD\<rparr>]
     = [TouchFailed, CapReached]
   \<and> length (filter (\<lambda>e. e \<noteq> CapReached) (hold_lease 0
       [\<lparr>tick_stopped = False, tick_monotonic = secs 61, tick_touch = None\<rparr>])) < 120"
  using lease_extension_bounded [of "[\<lparr>tick_stopped = False, tick_monotonic = secs 61, tick_touch = None\<rparr>]" 0]
  by (simp add: Let_def hold_lease_def secs_def MAX_LEASE_EXTENSION_SECONDS_def)

end
