(* ===== verification/Fleet.thy ===== *)
theory Fleet
  imports Worker
begin

text \<open>
  Many workers on one queue table. \<open>Worker.drain\<close> is one worker's loop with nothing in between its
  statements; here every transaction of that loop (\<open>loop.py\<close>: claim, lock or defer, the work with its
  fence, the outcome, the unlock), every touch of a lease keeper, the retention sweep, the arrival of
  jobs, the passing of time and the death of a worker is one step of a relation, and the workers'
  steps interleave in any order. The operations are those of \<open>Jobs\<close>, unchanged.

  One assumption of the code is a guard here: a worker takes (or fails to take) its serialization
  lock within the lease of its claim, \<open>STALE_LEASE_SECONDS\<close>, the two being consecutive statements of
  the loop. A worker's advisory-lock session is the worker: both end together.
\<close>

section \<open>Workers and steps\<close>

datatype phase =
    Idle
  | Claimed job time
  | Working job
  | Worked job
  | Settled job

record fleet =
  f_db :: jobs_db
  f_held :: locks
  f_phase :: "nat \<Rightarrow> phase"
  f_now :: time
  f_log :: "(nat \<times> string option) list"  \<comment> \<open>a history variable: the job and key of each committed work\<close>

fun phase_job :: "phase \<Rightarrow> job option" where
  "phase_job Idle = None"
| "phase_job (Claimed j t) = Some j"
| "phase_job (Working j) = Some j"
| "phase_job (Worked j) = Some j"
| "phase_job (Settled j) = Some j"

text \<open>The jobs a handler or a failure recorder writes in its transaction.\<close>

type_synonym job_spec = "queue \<times> payload \<times> string option \<times> int"

fun enqueue_all ::
  "(string \<Rightarrow> 8 word list) \<Rightarrow> time \<Rightarrow> job_spec list \<Rightarrow> jobs_db \<Rightarrow> jobs_db"
where
  "enqueue_all sha now [] db = db"
| "enqueue_all sha now ((q, p, k, d) # xs) db =
     enqueue_all sha now xs (snd (enqueue sha now q p k d db))"

definition lock_for :: "(string \<Rightarrow> 8 word list) \<Rightarrow> nat \<Rightarrow> job \<Rightarrow> locks \<Rightarrow> bool \<times> locks" where
  "lock_for sha w j held =
     (case job_key j of None \<Rightarrow> (True, held) | Some k \<Rightarrow> try_lock sha w k held)"

definition unlock_for :: "(string \<Rightarrow> 8 word list) \<Rightarrow> nat \<Rightarrow> job \<Rightarrow> locks \<Rightarrow> locks" where
  "unlock_for sha w j held = (case job_key j of None \<Rightarrow> held | Some k \<Rightarrow> unlock sha w k held)"

definition lease_open :: "time \<Rightarrow> time \<Rightarrow> bool" where
  "lease_open now t \<longleftrightarrow> now \<le> t + secs STALE_LEASE_SECONDS"

definition worker_moves :: "nat \<Rightarrow> phase \<Rightarrow> jobs_db \<Rightarrow> fleet \<Rightarrow> fleet" where
  "worker_moves w p db s = s\<lparr>f_db := db, f_phase := (f_phase s)(w := p)\<rparr>"

inductive fleet_step :: "(string \<Rightarrow> 8 word list) \<Rightarrow> fleet \<Rightarrow> fleet \<Rightarrow> bool" for sha where
  clock: "f_now s \<le> t \<Longrightarrow> fleet_step sha s (s\<lparr>f_now := t\<rparr>)"
| arrival: "fleet_step sha s (s\<lparr>f_db := enqueue_all sha (f_now s) specs (f_db s)\<rparr>)"
| sweep: "(st, seconds) \<in> set RETENTION_SECONDS \<Longrightarrow>
     prune_batch (f_now s, busy) st seconds n (f_db s) = (c, db) \<Longrightarrow>
     fleet_step sha s (s\<lparr>f_db := db\<rparr>)"
| claims: "f_phase s w = Idle \<Longrightarrow>
     claim (f_now s) (f_held s) busy q (f_db s) = (Some j, db) \<Longrightarrow>
     fleet_step sha s (worker_moves w (Claimed j (f_now s)) db s)"
| locks: "f_phase s w = Claimed j t \<Longrightarrow> lease_open (f_now s) t \<Longrightarrow>
     lock_for sha w j (f_held s) = (True, held) \<Longrightarrow>
     fleet_step sha s (worker_moves w (Working j) (f_db s) (s\<lparr>f_held := held\<rparr>))"
| defers: "f_phase s w = Claimed j t \<Longrightarrow> lease_open (f_now s) t \<Longrightarrow>
     lock_for sha w j (f_held s) = (False, held) \<Longrightarrow>
     fleet_step sha s
       (worker_moves w Idle (defer_job BUSY_RETRY_SECONDS (f_now s) j (f_db s)) s)"
| replays: "f_phase s w = Working j \<Longrightarrow> job_committed j \<noteq> None \<Longrightarrow>
     fleet_step sha s (worker_moves w (Settled j) (complete (f_now s) (job_id j) (f_db s)) s)"
| commits: "f_phase s w = Working j \<Longrightarrow> job_committed j = None \<Longrightarrow>
     fleet_step sha s
       ((worker_moves w (Worked j)
          (mark_work_committed (f_now s) (job_id j) (job_attempts j)
             (enqueue_all sha (f_now s) specs (f_db s))) s)
        \<lparr>f_log := (job_id j, job_key j) # f_log s\<rparr>)"
| finishes: "f_phase s w = Worked j \<Longrightarrow>
     fleet_step sha s (worker_moves w (Settled j) (complete (f_now s) (job_id j) (f_db s)) s)"
| fails: "f_phase s w = Working j \<Longrightarrow> job_committed j = None \<Longrightarrow> m \<in> {0, DEFAULT_MAX_ATTEMPTS} \<Longrightarrow>
     fail m (f_now s) j e (enqueue_all sha (f_now s) specs (f_db s)) = Inr (b, db) \<Longrightarrow>
     fleet_step sha s (worker_moves w (Settled j) db s)"
| releases: "f_phase s w = Settled j \<Longrightarrow>
     fleet_step sha s
       (worker_moves w Idle (f_db s) (s\<lparr>f_held := unlock_for sha w j (f_held s)\<rparr>))"
| touches: "f_phase s w \<in> {Working j, Worked j} \<Longrightarrow>
     fleet_step sha s (s\<lparr>f_db := snd (touch (f_now s) (job_id j) (job_attempts j) (f_db s))\<rparr>)"
| dies: "fleet_step sha s
     (worker_moves w Idle (f_db s) (s\<lparr>f_held := filter (\<lambda>l. fst l \<noteq> w) (f_held s)\<rparr>))"

definition fleet_start :: "time \<Rightarrow> fleet" where
  "fleet_start t =
     \<lparr>f_db = \<lparr>rows = [], next_id = 0\<rparr>, f_held = [], f_phase = (\<lambda>_. Idle), f_now = t, f_log = []\<rparr>"

inductive reachable :: "(string \<Rightarrow> 8 word list) \<Rightarrow> fleet \<Rightarrow> bool" for sha where
  start: "reachable sha (fleet_start t)"
| step: "reachable sha s \<Longrightarrow> fleet_step sha s s' \<Longrightarrow> reachable sha s'"

section \<open>The invariant\<close>

definition locked :: "phase \<Rightarrow> bool" where
  "locked p \<longleftrightarrow> (case p of Working _ \<Rightarrow> True | Worked _ \<Rightarrow> True | Settled _ \<Rightarrow> True | _ \<Rightarrow> False)"

definition lock_entries :: "(string \<Rightarrow> 8 word list) \<Rightarrow> nat \<Rightarrow> phase \<Rightarrow> locks" where
  "lock_entries sha w p =
     (if locked p
      then (case Option.bind (phase_job p) job_key of None \<Rightarrow> [] | Some k \<Rightarrow> [(w, lock_key sha k)])
      else [])"

text \<open>A worker owns a keyed job from its claim, as long as it can still act on it, to its outcome.
  The row of an owned job is the one this claim left.\<close>

definition owner :: "fleet \<Rightarrow> nat \<Rightarrow> job \<Rightarrow> bool" where
  "owner s w j \<longleftrightarrow> job_key j \<noteq> None \<and>
     (case f_phase s w of
        Claimed j' t \<Rightarrow> j' = j \<and> lease_open (f_now s) t
      | Working j' \<Rightarrow> j' = j
      | Worked j' \<Rightarrow> j' = j
      | _ \<Rightarrow> False)"

definition row_agrees :: "phase \<Rightarrow> job \<Rightarrow> job_row \<Rightarrow> bool" where
  "row_agrees p j r \<longleftrightarrow> row_state r = JRunning \<and> row_attempts r = job_attempts j \<and>
     (case p of
        Claimed _ t \<Rightarrow> row_locked_at r = Some t \<and> row_committed r = job_committed j
      | Working _ \<Rightarrow> row_committed r = job_committed j
      | _ \<Rightarrow> True)"

definition inv_jobs :: "fleet \<Rightarrow> bool" where
  "inv_jobs s \<longleftrightarrow> (\<forall>w j. phase_job (f_phase s w) = Some j \<longrightarrow>
     1 \<le> job_attempts j \<and> job_id j < next_id (f_db s)
     \<and> (\<forall>r. find_row (job_id j) (f_db s) = Some r \<longrightarrow> row_serialize_key r = job_key j))"

definition inv_locks :: "(string \<Rightarrow> 8 word list) \<Rightarrow> fleet \<Rightarrow> bool" where
  "inv_locks sha s \<longleftrightarrow>
     (\<forall>w. filter (\<lambda>l. fst l = w) (f_held s) = lock_entries sha w (f_phase s w))
     \<and> (\<forall>l \<in> set (f_held s). \<forall>l' \<in> set (f_held s). snd l = snd l' \<longrightarrow> fst l = fst l')"

definition inv_owners :: "fleet \<Rightarrow> bool" where
  "inv_owners s \<longleftrightarrow>
     (\<forall>w j. owner s w j \<longrightarrow> (\<exists>r. find_row (job_id j) (f_db s) = Some r \<and> row_agrees (f_phase s w) j r))
     \<and> (\<forall>w w' j j'. owner s w j \<longrightarrow> owner s w' j' \<longrightarrow> job_id j = job_id j' \<longrightarrow> w = w')"

definition inv_log :: "fleet \<Rightarrow> bool" where
  "inv_log s \<longleftrightarrow>
     (\<forall>i k. (i, k) \<in> set (f_log s) \<longrightarrow> i < next_id (f_db s))
     \<and> (\<forall>i k. count_list (f_log s) (i, Some k) \<le> 1)
     \<and> (\<forall>i r k. find_row i (f_db s) = Some r \<longrightarrow> row_serialize_key r = Some k \<longrightarrow>
          row_committed r = None \<longrightarrow> (i, Some k) \<notin> set (f_log s))"

definition fleet_inv :: "(string \<Rightarrow> 8 word list) \<Rightarrow> fleet \<Rightarrow> bool" where
  "fleet_inv sha s \<longleftrightarrow>
     wf_db sha (f_db s) \<and> inv_jobs s \<and> inv_locks sha s \<and> inv_owners s \<and> inv_log s"

lemma fleet_inv_start: "fleet_inv sha (fleet_start t)"
  by (simp add: fleet_inv_def fleet_start_def wf_db_def inv_jobs_def inv_locks_def inv_owners_def
      inv_log_def owner_def lock_entries_def locked_def)

lemma worker_moves_simps [simp]:
  "f_db (worker_moves w p db s) = db"
  "f_held (worker_moves w p db s) = f_held s"
  "f_phase (worker_moves w p db s) = (f_phase s)(w := p)"
  "f_now (worker_moves w p db s) = f_now s"
  "f_log (worker_moves w p db s) = f_log s"
  by (simp_all add: worker_moves_def)

section \<open>What a step may do to the table\<close>

text \<open>Ids grow, a surviving row keeps its key and its fence, and a
  running row other than \<open>i\<close> is left exactly as it was.\<close>

definition frame :: "nat option \<Rightarrow> jobs_db \<Rightarrow> jobs_db \<Rightarrow> bool" where
  "frame i db db' \<longleftrightarrow>
     next_id db \<le> next_id db'
     \<and> (\<forall>x r'. find_row x db' = Some r' \<longrightarrow>
          next_id db \<le> x
          \<or> (\<exists>r. find_row x db = Some r \<and> row_serialize_key r' = row_serialize_key r
               \<and> (row_committed r' = None \<longrightarrow> row_committed r = None)))
     \<and> (\<forall>x r. Some x \<noteq> i \<longrightarrow> find_row x db = Some r \<longrightarrow> row_state r = JRunning \<longrightarrow>
          find_row x db' = Some r)"

lemma frame_refl [simp]: "frame i db db"
  by (auto simp: frame_def)

lemma frame_next: "frame i db db' \<Longrightarrow> next_id db \<le> next_id db'"
  by (simp add: frame_def)

lemma frame_running:
  "frame i db db' \<Longrightarrow> Some x \<noteq> i \<Longrightarrow> find_row x db = Some r \<Longrightarrow> row_state r = JRunning
   \<Longrightarrow> find_row x db' = Some r"
  by (simp add: frame_def)

lemma frame_cases:
  assumes "frame i db db'" and "find_row x db' = Some r'"
  obtains (new) "next_id db \<le> x"
    | (old) r where "find_row x db = Some r" "row_serialize_key r' = row_serialize_key r"
        "row_committed r' = None \<Longrightarrow> row_committed r = None"
  using assms(1) [unfolded frame_def, THEN conjunct2, THEN conjunct1, rule_format, OF assms(2)] that
  by metis

lemma frame_trans:
  assumes ab: "frame None a b" and bc: "frame i b c"
  shows "frame i a c"
proof -
  have "next_id a \<le> x
      \<or> (\<exists>r. find_row x a = Some r \<and> row_serialize_key r' = row_serialize_key r
           \<and> (row_committed r' = None \<longrightarrow> row_committed r = None))"
    if x: "find_row x c = Some r'" for x r'
    using bc x
  proof (cases rule: frame_cases)
    case new
    with frame_next [OF ab] show ?thesis by auto
  next
    case (old r)
    show ?thesis
      using ab old(1) by (cases rule: frame_cases) (use old(2,3) in auto)
  qed
  moreover have "find_row x c = Some r"
    if "Some x \<noteq> i" "find_row x a = Some r" "row_state r = JRunning" for x r
    using frame_running [OF bc that(1) frame_running [OF ab]] that by simp
  moreover have "next_id a \<le> next_id c"
    using frame_next [OF ab] frame_next [OF bc] by simp
  ultimately show ?thesis unfolding frame_def by blast
qed

lemma frame_row_op:
  assumes "row_op f" and "\<And>r. row_committed (f r) = None \<Longrightarrow> row_committed r = None"
  shows "frame (Some i) db (update_row i f db)"
  using assms(2)
  by (auto simp: frame_def row_op.find_any [OF assms(1)] row_op.next_id_kept [OF assms(1)]
      row_op.keeps_key [OF assms(1)] split: if_splits)

lemma frame_enqueue:
  assumes "wf_db sha db"
  shows "frame None db (snd (enqueue sha now q p k d db))"
proof -
  have fa: "find (\<lambda>r. row_id r = x) (xs @ [y]) =
      (case find (\<lambda>r. row_id r = x) xs of Some r \<Rightarrow> Some r
       | None \<Rightarrow> if row_id y = x then Some y else None)" for x :: nat and xs and y :: job_row
    by (induction xs) auto
  show ?thesis
    unfolding frame_def find_row_def enqueue_def by (auto simp: fa split: option.splits if_splits)
qed

lemma enqueue_all_facts:
  "wf_db sha db \<Longrightarrow> wf_db sha (enqueue_all sha now specs db) \<and> frame None db (enqueue_all sha now specs db)
     \<and> (\<forall>i r. find_row i db = Some r \<longrightarrow> find_row i (enqueue_all sha now specs db) = Some r)"
proof (induction sha now specs db rule: enqueue_all.induct)
  case (1 sha now db)
  then show ?case by simp
next
  case (2 sha now q p k d xs db)
  have "extends_jobs sha db (snd (enqueue sha now q p k d db))" by (rule extends_jobs_enqueue)
  with 2 show ?case
    using frame_trans [OF frame_enqueue [OF "2.prems"]] wf_enqueue [OF "2.prems"]
    by (auto simp: extends_jobs_def)
qed

lemma frame_prune:
  assumes wf: "wf_db sha db" and p: "prune_batch e st secs' n db = (c, db')" and "st \<noteq> JRunning"
  shows "frame None db db' \<and> wf_db sha db'"
proof -
  have d: "distinct (map row_id (rows db))" using wf by (simp add: wf_db_def)
  note rem = prune_batch_removed [OF d p]
  note ids = only_removed_ids [OF rem d]
  note sub = only_removed_sub [OF rem]
  have nid: "next_id db' = next_id db" using rem by (simp add: only_removed_def)
  have old: "find_row x db = Some r" if "find_row x db' = Some r" for x r
    using find_row_in [OF that] sub find_row_of_mem [OF d, of r] by auto
  have kept: "find_row x db' = Some r" if r: "find_row x db = Some r" "row_state r = JRunning" for x r
  proof -
    have "x \<in> row_id ` set (rows db')"
      using rem find_row_in [OF r(1)] r(2) assms(3) by (auto simp: only_removed_def expired_def)
    then obtain r' where "r' \<in> set (rows db')" "row_id r' = x" by auto
    with find_row_of_mem [OF ids] have "find_row x db' = Some r'" by auto
    with old [OF this] r(1) show ?thesis by simp
  qed
  have "wf_db sha db'" using wf ids sub nid by (auto simp: wf_db_def)
  moreover have "frame None db db'"
    unfolding frame_def using old kept nid by (metis order_refl)
  ultimately show ?thesis by simp
qed

section \<open>Keeping each part of the invariant\<close>

lemma inv_log_frame:
  assumes "inv_log s" and fr: "frame i (f_db s) (f_db s')" and "f_log s' = f_log s"
  shows "inv_log s'"
proof -
  have "(x, Some k) \<notin> set (f_log s)"
    if x: "find_row x (f_db s') = Some r" "row_serialize_key r = Some k" "row_committed r = None" for x r k
    using fr x(1)
  proof (cases rule: frame_cases)
    case new
    with assms(1) show ?thesis by (force simp: inv_log_def)
  next
    case (old r0)
    with assms(1) x show ?thesis by (auto simp: inv_log_def)
  qed
  with assms frame_next [OF fr] show ?thesis
    by (simp add: inv_log_def) (meson order_less_le_trans)
qed

lemma inv_jobs_frame:
  assumes inv: "inv_jobs s" and fr: "frame i (f_db s) (f_db s')"
    and ph: "\<And>w j. phase_job (f_phase s' w) = Some j \<Longrightarrow> \<exists>v. phase_job (f_phase s v) = Some j"
  shows "inv_jobs s'"
proof -
  have "1 \<le> job_attempts j \<and> job_id j < next_id (f_db s') \<and> row_serialize_key r = job_key j"
    if pj: "phase_job (f_phase s' w) = Some j" and r: "find_row (job_id j) (f_db s') = Some r" for w j r
  proof -
    from ph [OF pj] obtain v where v: "phase_job (f_phase s v) = Some j" by blast
    with inv have j: "1 \<le> job_attempts j" "job_id j < next_id (f_db s)"
      "\<And>r. find_row (job_id j) (f_db s) = Some r \<Longrightarrow> row_serialize_key r = job_key j"
      by (auto simp: inv_jobs_def)
    from fr r show ?thesis
      by (cases rule: frame_cases) (use j frame_next [OF fr] in auto)
  qed
  moreover have "1 \<le> job_attempts j \<and> job_id j < next_id (f_db s')"
    if pj: "phase_job (f_phase s' w) = Some j" for w j
    using ph [OF pj] inv frame_next [OF fr] by (force simp: inv_jobs_def)
  ultimately show ?thesis by (auto simp: inv_jobs_def)
qed

lemma owner_job: "owner s w j \<Longrightarrow> phase_job (f_phase s w) = Some j"
  by (auto simp: owner_def split: phase.splits)

lemma worker_row:
  "inv_jobs s \<Longrightarrow> phase_job (f_phase s w) = Some j \<Longrightarrow> find_row (job_id j) (f_db s) = Some r
   \<Longrightarrow> row_serialize_key r = job_key j"
  unfolding inv_jobs_def by blast

lemma worker_known:
  "inv_jobs s \<Longrightarrow> phase_job (f_phase s w) = Some j \<Longrightarrow> 1 \<le> job_attempts j \<and> job_id j < next_id (f_db s)"
  unfolding inv_jobs_def by blast

lemma owner_moved: "w' \<noteq> w \<Longrightarrow> owner (worker_moves w p db s) w' j = owner s w' j"
  by (simp add: owner_def split: phase.split)

lemma owner_row:
  "inv_owners s \<Longrightarrow> owner s w j \<Longrightarrow>
   \<exists>r. find_row (job_id j) (f_db s) = Some r \<and> row_agrees (f_phase s w) j r"
  by (simp add: inv_owners_def)

lemma owner_unique:
  "inv_owners s \<Longrightarrow> owner s w j \<Longrightarrow> owner s w' j' \<Longrightarrow> job_id j = job_id j' \<Longrightarrow> w = w'"
  unfolding inv_owners_def by blast

lemma owners_step:
  assumes inv: "inv_owners s" and fr: "frame i (f_db s) (f_db s')"
    and other: "\<And>w' j'. w' \<noteq> w \<Longrightarrow> owner s' w' j' \<Longrightarrow>
        owner s w' j' \<and> f_phase s' w' = f_phase s w' \<and> i \<noteq> Some (job_id j')"
    and own: "\<And>j. owner s' w j \<Longrightarrow>
        (\<exists>r. find_row (job_id j) (f_db s') = Some r \<and> row_agrees (f_phase s' w) j r)
        \<and> (\<forall>w' j'. w' \<noteq> w \<longrightarrow> owner s w' j' \<longrightarrow> job_id j' \<noteq> job_id j)"
  shows "inv_owners s'"
proof -
  have agree: "\<exists>r. find_row (job_id j') (f_db s') = Some r \<and> row_agrees (f_phase s' w') j' r"
    if o: "owner s' w' j'" for w' j'
  proof (cases "w' = w")
    case True
    with own o show ?thesis by blast
  next
    case False
    note ot = other [OF False o]
    with inv obtain r where r: "find_row (job_id j') (f_db s) = Some r" "row_agrees (f_phase s w') j' r"
      unfolding inv_owners_def by blast
    with ot frame_running [OF fr, of "job_id j'" r] show ?thesis by (auto simp: row_agrees_def)
  qed
  moreover have "v = v'" if o: "owner s' v j" "owner s' v' j'" "job_id j = job_id j'" for v v' j j'
  proof (cases "v = w \<or> v' = w")
    case True
    with o own other show ?thesis by metis
  next
    case False
    with o other inv show ?thesis unfolding inv_owners_def by metis
  qed
  ultimately show ?thesis unfolding inv_owners_def by blast
qed

text \<open>Two workers never act on one row: if the row is keyed only its owner does, and an unkeyed row
  has no owner.\<close>

lemma no_other_owner:
  assumes inv: "fleet_inv sha s" and j: "phase_job (f_phase s w) = Some j"
    and w: "owner s w j \<or> job_key j = None" and o: "w' \<noteq> w" "owner s w' j'"
  shows "job_id j' \<noteq> job_id j"
proof
  assume same: "job_id j' = job_id j"
  from inv have io: "inv_owners s" by (simp add: fleet_inv_def)
  from owner_row [OF io o(2)] obtain r where r: "find_row (job_id j') (f_db s) = Some r" by blast
  have ij: "inv_jobs s" using inv by (simp add: fleet_inv_def)
  have "job_key j' = job_key j"
    using worker_row [OF ij owner_job [OF o(2)] r] worker_row [OF ij j, of r] r same by simp
  moreover have "job_key j' \<noteq> None" using o(2) by (simp add: owner_def)
  ultimately have "owner s w j" using w by auto
  from owner_unique [OF io this o(2)] o(1) same show False by simp
qed

lemma locks_unchanged:
  assumes "inv_locks sha s" and "f_held s' = f_held s"
    and "\<And>w. lock_entries sha w (f_phase s' w) = lock_entries sha w (f_phase s w)"
  shows "inv_locks sha s'"
  using assms(1) unfolding inv_locks_def assms(2,3) .

text \<open>Acting on its own row (or an unkeyed one) and keeping the lock, a worker keeps the invariant.\<close>

lemma act_keeps_inv:
  assumes inv: "fleet_inv sha s" and j: "phase_job (f_phase s w) = Some j"
    and own: "owner s w j \<or> job_key j = None"
    and wf: "wf_db sha db" and fr: "frame (Some (job_id j)) (f_db s) db"
    and p: "phase_job p \<in> {None, Some j}"
    and le: "lock_entries sha w p = lock_entries sha w (f_phase s w)"
    and agree: "owner (worker_moves w p db s) w j \<Longrightarrow>
        \<exists>r. find_row (job_id j) db = Some r \<and> row_agrees p j r"
  shows "fleet_inv sha (worker_moves w p db s)"
proof -
  let ?s = "worker_moves w p db s"
  note no = no_other_owner [OF inv j own]
  have own_j: "j' = j" if "owner ?s w j'" for j'
    using owner_job [OF that] p by auto
  have "inv_owners ?s"
  proof (rule owners_step [where w = w and i = "Some (job_id j)"])
    show "inv_owners s" using inv by (simp add: fleet_inv_def)
    show "frame (Some (job_id j)) (f_db s) (f_db ?s)" using fr by simp
    show "owner s w' j' \<and> f_phase ?s w' = f_phase s w' \<and> Some (job_id j) \<noteq> Some (job_id j')"
      if "w' \<noteq> w" "owner ?s w' j'" for w' j'
      using that no [of w' j'] by (auto simp: owner_moved)
    show "(\<exists>r. find_row (job_id j') (f_db ?s) = Some r \<and> row_agrees (f_phase ?s w) j' r)
        \<and> (\<forall>w' j''. w' \<noteq> w \<longrightarrow> owner s w' j'' \<longrightarrow> job_id j'' \<noteq> job_id j')"
      if "owner ?s w j'" for j'
      using agree that own_j [OF that] no by auto
  qed
  moreover have "inv_jobs ?s"
    by (rule inv_jobs_frame [where s = s and i = "Some (job_id j)"])
      (use inv fr p j in \<open>auto simp: fleet_inv_def split: if_splits\<close>)
  moreover have "inv_log ?s"
    by (rule inv_log_frame [where s = s and i = "Some (job_id j)"]) (use inv fr in \<open>auto simp: fleet_inv_def\<close>)
  moreover have "inv_locks sha ?s"
    by (rule locks_unchanged [where s = s]) (use inv le in \<open>auto simp: fleet_inv_def\<close>)
  ultimately show ?thesis using wf by (simp add: fleet_inv_def)
qed

lemma owner_of_working:
  "f_phase s w \<in> {Working j, Worked j} \<Longrightarrow> owner s w j \<or> job_key j = None"
  by (auto simp: owner_def)

section \<open>Every step keeps the invariant\<close>

lemma passive_keeps_inv:
  assumes inv: "fleet_inv sha s" and same: "f_phase s' = f_phase s" "f_held s' = f_held s" "f_log s' = f_log s"
    and fr: "frame None (f_db s) (f_db s')" and wf: "wf_db sha (f_db s')" and "f_now s \<le> f_now s'"
  shows "fleet_inv sha s'"
proof -
  have o: "owner s w j" if "owner s' w j" for w j
    using that assms(7) same(1) by (auto simp: owner_def lease_open_def split: phase.splits)
  have io: "inv_owners s" using inv by (simp add: fleet_inv_def)
  have "\<exists>r. find_row (job_id j) (f_db s') = Some r \<and> row_agrees (f_phase s' w) j r" if "owner s' w j" for w j
    using owner_row [OF io o [OF that]] frame_running [OF fr] same(1) by (auto simp: row_agrees_def)
  then have "inv_owners s'"
    using owner_unique [OF io] o unfolding inv_owners_def by blast
  moreover have "inv_jobs s'"
    by (rule inv_jobs_frame [OF _ fr]) (use inv same in \<open>auto simp: fleet_inv_def\<close>)
  moreover have "inv_log s'"
    by (rule inv_log_frame [OF _ fr]) (use inv same in \<open>auto simp: fleet_inv_def\<close>)
  moreover have "inv_locks sha s'"
    by (rule locks_unchanged [where s = s]) (use inv same in \<open>auto simp: fleet_inv_def\<close>)
  ultimately show ?thesis using wf by (simp add: fleet_inv_def)
qed

lemma complete_frame: "frame (Some i) db (complete now i db)"
  unfolding complete_def
  by (rule frame_row_op) (simp_all add: complete_row_def complete_op.row_op_axioms)

lemma mark_frame: "frame (Some i) db (mark_work_committed now i n db)"
  unfolding mark_work_committed_def
  by (rule frame_row_op) (simp_all add: mark_row_def mark_op.row_op_axioms)

lemma defer_frame: "frame (Some (job_id j)) db (defer_job n now j db)"
  unfolding defer_job_def
  by (rule frame_row_op) (simp_all add: defer_row_def defer_op.row_op_axioms)

lemma touch_frame: "frame (Some i) db (snd (touch now i n db))"
proof -
  have "frame (Some i) db (update_row i (touch_row now n) db)"
    by (rule frame_row_op) (simp_all add: touch_row_def touch_op.row_op_axioms split: if_splits)
  then show ?thesis by (simp add: touch_def)
qed

lemma fail_frame:
  assumes "fail m now j e db = Inr (b, db')" and "1 \<le> job_attempts j"
  shows "frame (Some (job_id j)) db db'"
proof (cases "will_retry m j")
  case True
  have "frame (Some (job_id j)) db (update_row (job_id j) (retry_row now d e) db)" for d
    by (rule frame_row_op) (simp_all add: retry_row_def retry_op.row_op_axioms)
  with True fail_cases(2) [OF assms(2) True] assms(1) show ?thesis by auto
next
  case False
  have "frame (Some (job_id j)) db (update_row (job_id j) (give_up_row now e) db)"
    by (rule frame_row_op) (simp_all add: give_up_row_def give_up_op.row_op_axioms)
  with fail_cases(1) [OF assms(2) False] assms(1) show ?thesis by auto
qed

lemma working_entries:
  "f_phase s w \<in> {Working j, Worked j} \<Longrightarrow> p \<in> {Working j, Worked j, Settled j} \<Longrightarrow>
   lock_entries sha w p = lock_entries sha w (f_phase s w)"
  by (auto simp: lock_entries_def locked_def)

text \<open>A locked worker settles its row: the outcome transactions and the replay.\<close>

lemma settle_keeps_inv:
  assumes inv: "fleet_inv sha s" and ph: "f_phase s w \<in> {Working j, Worked j}"
    and "wf_db sha db" and "frame (Some (job_id j)) (f_db s) db"
  shows "fleet_inv sha (worker_moves w (Settled j) db s)"
proof (rule act_keeps_inv [OF inv _ owner_of_working [OF ph] assms(3,4)])
  show "phase_job (f_phase s w) = Some j" using ph by auto
  show "lock_entries sha w (Settled j) = lock_entries sha w (f_phase s w)"
    by (rule working_entries [OF ph]) simp
  show "\<exists>r. find_row (job_id j) db = Some r \<and> row_agrees (Settled j) j r"
    if "owner (worker_moves w (Settled j) db s) w j"
    using that by (simp add: owner_def)
qed simp

lemma commit_keeps_inv:
  assumes inv: "fleet_inv sha s" and ph: "f_phase s w = Working j" and un: "job_committed j = None"
  shows "fleet_inv sha
    ((worker_moves w (Worked j) (mark_work_committed now (job_id j) (job_attempts j)
        (enqueue_all sha now specs (f_db s))) s)\<lparr>f_log := (job_id j, job_key j) # f_log s\<rparr>)"
    (is "fleet_inv sha (?s1\<lparr>f_log := ?log\<rparr>)")
proof -
  let ?db1 = "enqueue_all sha now specs (f_db s)"
  let ?db2 = "mark_work_committed now (job_id j) (job_attempts j) ?db1"
  have wf: "wf_db sha (f_db s)" and io: "inv_owners s" and ij: "inv_jobs s" and il: "inv_log s"
    using inv by (simp_all add: fleet_inv_def)
  note enq = enqueue_all_facts [OF wf, of now specs]
  have marked: "find_row x ?db2 = (if x = job_id j
      then map_option (mark_row now (job_attempts j)) (find_row x ?db1) else find_row x ?db1)" for x
    by (simp add: mark_work_committed_def mark_op.find_any)
  have pj: "phase_job (f_phase s w) = Some j" using ph by simp
  have s1: "fleet_inv sha ?s1"
  proof (rule act_keeps_inv [OF inv pj])
    show "owner s w j \<or> job_key j = None" using ph by (simp add: owner_of_working)
    show "wf_db sha ?db2" using enq by (simp add: wf_mark)
    show "frame (Some (job_id j)) (f_db s) ?db2" using enq mark_frame frame_trans by blast
    show "lock_entries sha w (Worked j) = lock_entries sha w (f_phase s w)"
      using ph by (simp add: lock_entries_def locked_def)
    show "\<exists>r. find_row (job_id j) ?db2 = Some r \<and> row_agrees (Worked j) j r" if o: "owner ?s1 w j"
    proof -
      from o ph have "owner s w j" by (simp add: owner_def)
      from owner_row [OF io this] enq show ?thesis
        by (auto simp: marked row_agrees_def mark_row_def)
    qed
  qed simp
  have fresh: "(job_id j, Some k) \<notin> set (f_log s)" if k: "job_key j = Some k" for k
  proof -
    from k ph have "owner s w j" by (simp add: owner_def)
    from owner_row [OF io this] ph obtain r where r: "find_row (job_id j) (f_db s) = Some r"
      "row_committed r = None" by (auto simp: row_agrees_def un)
    from worker_row [OF ij pj r(1)] k r il show ?thesis by (auto simp: inv_log_def)
  qed
  have log1: "inv_log ?s1" using s1 by (simp add: fleet_inv_def)
  have "inv_log (?s1\<lparr>f_log := ?log\<rparr>)"
  proof -
    have "job_id j < next_id ?db2"
      using worker_known [OF ij pj] frame_next [of None "f_db s" ?db1] enq
      by (simp add: mark_work_committed_def mark_op.next_id_kept)
    moreover have "count_list ?log (x, Some k) \<le> 1" for x k
      using fresh [of k] log1 count_notin [of "(x, Some k)" "f_log s"]
      by (cases "x = job_id j \<and> job_key j = Some k") (auto simp: inv_log_def)
    moreover have "(x, Some k) \<notin> set ?log"
      if "find_row x ?db2 = Some r" "row_serialize_key r = Some k" "row_committed r = None" for x r k
      using that log1 by (auto simp: inv_log_def marked mark_row_def split: if_splits)
    ultimately show ?thesis using log1 by (auto simp: inv_log_def)
  qed
  moreover have "owner (?s1\<lparr>f_log := ?log\<rparr>) = owner ?s1"
    by (rule ext)+ (simp add: owner_def split: phase.split)
  then have "inv_owners (?s1\<lparr>f_log := ?log\<rparr>) = inv_owners ?s1"
    unfolding inv_owners_def by simp
  moreover have "inv_jobs (?s1\<lparr>f_log := ?log\<rparr>) = inv_jobs ?s1"
    unfolding inv_jobs_def by simp
  moreover have "inv_locks sha (?s1\<lparr>f_log := ?log\<rparr>) = inv_locks sha ?s1"
    unfolding inv_locks_def by simp
  ultimately show ?thesis
    using s1 unfolding fleet_inv_def by simp
qed

lemma claim_keeps_inv:
  assumes inv: "fleet_inv sha s" and ph: "f_phase s w = Idle"
    and c: "claim (f_now s) (f_held s) busy q (f_db s) = (Some j, db)"
  shows "fleet_inv sha (worker_moves w (Claimed j (f_now s)) db s)" (is "fleet_inv sha ?s")
proof -
  have wf: "wf_db sha (f_db s)" and io: "inv_owners s" and ij: "inv_jobs s" and il: "inv_log s"
    and lk: "inv_locks sha s" using inv by (simp_all add: fleet_inv_def)
  have d: "distinct (map row_id (rows (f_db s)))" using wf by (simp add: wf_db_def)
  from c obtain r where r: "r \<in> set (rows (f_db s))" "claimable (f_now s) (f_held s) busy q r"
    and j: "j = job_of_row (claim_row (f_now s) r)" and db: "db = update_row (row_id r) (claim_row (f_now s)) (f_db s)"
    by (metis claim_SomeE)
  have fr: "find_row (row_id r) (f_db s) = Some r" by (rule find_row_of_mem [OF d r(1)])
  have wr: "wf_row sha r" "row_id r < next_id (f_db s)" using wf r(1) by (auto simp: wf_db_def)
  have id: "job_id j = row_id r" "job_key j = row_serialize_key r" by (simp_all add: j)
  have frame: "frame (Some (job_id j)) (f_db s) db"
    unfolding db id by (rule frame_row_op) (simp_all add: claim_row_def claim_op.row_op_axioms)
  have new: "find_row (job_id j) db = Some (claim_row (f_now s) r)"
    using fr by (simp add: db id claim_op.find_any)
  have free: "job_id j' \<noteq> job_id j" if o: "owner s w' j'" for w' j'
  proof
    assume same: "job_id j' = job_id j"
    from owner_row [OF io o] same id fr have ag: "row_agrees (f_phase s w') j' r" by simp
    then have run: "row_state r = JRunning" by (simp add: row_agrees_def)
    from o obtain k where k: "job_key j' = Some k" by (auto simp: owner_def)
    have "row_serialize_key r = Some k"
      using worker_row [OF ij owner_job [OF o], of r] same id fr k by simp
    with wr have lkey: "row_lock_key r = Some (lock_key sha k)" by (simp add: wf_row_def)
    show False
    proof (cases "locked (f_phase s w')")
      case True
      then have "(w', lock_key sha k) \<in> set (lock_entries sha w' (f_phase s w'))"
        using owner_job [OF o] k by (simp add: lock_entries_def)
      then have "(w', lock_key sha k) \<in> set (f_held s)"
        using lk unfolding inv_locks_def by (metis filter_is_subset subsetD)
      then have "lock_key sha k \<in> held_keys (f_held s)" by (force simp: held_keys_def)
      with r(2) lkey show False by (simp add: claimable_def)
    next
      case False
      with o obtain t where t: "f_phase s w' = Claimed j' t" "lease_open (f_now s) t"
        by (auto simp: owner_def locked_def split: phase.splits)
      with ag r(2) run show False by (simp add: claimable_def row_agrees_def lease_open_def)
    qed
  qed
  have "inv_owners ?s"
  proof (rule owners_step [OF io, where w = w and i = "Some (job_id j)"])
    show "frame (Some (job_id j)) (f_db s) (f_db ?s)" using frame by simp
    show "owner s w' j' \<and> f_phase ?s w' = f_phase s w' \<and> Some (job_id j) \<noteq> Some (job_id j')"
      if "w' \<noteq> w" "owner ?s w' j'" for w' j'
      using that free [of w' j'] by (auto simp: owner_moved)
    show "(\<exists>r. find_row (job_id j') (f_db ?s) = Some r \<and> row_agrees (f_phase ?s w) j' r)
        \<and> (\<forall>w' j''. w' \<noteq> w \<longrightarrow> owner s w' j'' \<longrightarrow> job_id j'' \<noteq> job_id j')"
      if "owner ?s w j'" for j'
    proof -
      have "j' = j" using owner_job [OF that] by simp
      then show ?thesis using new free by (auto simp: row_agrees_def claim_row_def j job_of_row_def)
    qed
  qed
  moreover have "inv_jobs ?s"
  proof -
    have "inv_jobs (s\<lparr>f_db := db\<rparr>)"
      by (rule inv_jobs_frame [OF ij]) (use frame in auto)
    moreover have "1 \<le> job_attempts j" "job_id j < next_id db"
      using wr by (simp_all add: j wf_row_def db claim_op.next_id_kept)
    moreover have "row_serialize_key x = job_key j" if "find_row (job_id j) db = Some x" for x
      using that new by (simp add: claim_row_def id)
    ultimately show ?thesis by (auto simp: inv_jobs_def)
  qed
  moreover have "inv_log ?s" by (rule inv_log_frame [OF il]) (use frame in auto)
  moreover have "inv_locks sha ?s"
    by (rule locks_unchanged [OF lk]) (simp_all add: lock_entries_def locked_def ph)
  moreover have "wf_db sha db" using wf_claim [OF wf, of "f_now s" "f_held s" busy q] c by simp
  ultimately show ?thesis by (simp add: fleet_inv_def)
qed

text \<open>The steps that move a lock leave the table alone.\<close>

lemma lock_move_keeps_inv:
  assumes inv: "fleet_inv sha s" and p: "phase_job p = None \<or> phase_job p = phase_job (f_phase s w)"
    and locks: "inv_locks sha (worker_moves w p (f_db s) (s\<lparr>f_held := held\<rparr>))"
    and own: "\<And>j. owner (worker_moves w p (f_db s) (s\<lparr>f_held := held\<rparr>)) w j \<Longrightarrow>
      owner s w j \<and> (\<forall>r. row_agrees (f_phase s w) j r \<longrightarrow> row_agrees p j r)"
  shows "fleet_inv sha (worker_moves w p (f_db s) (s\<lparr>f_held := held\<rparr>))" (is "fleet_inv sha ?s")
proof -
  have io: "inv_owners s" using inv by (simp add: fleet_inv_def)
  have other: "owner ?s w' j = owner s w' j" if "w' \<noteq> w" for w' j
    using that by (simp add: owner_def split: phase.split)
  have "inv_owners ?s"
  proof (rule owners_step [OF io, where w = w and i = None])
    show "owner s w' j' \<and> f_phase ?s w' = f_phase s w' \<and> None \<noteq> Some (job_id j')"
      if "w' \<noteq> w" "owner ?s w' j'" for w' j'
      using that other by auto
    show "(\<exists>r. find_row (job_id j') (f_db ?s) = Some r \<and> row_agrees (f_phase ?s w) j' r)
        \<and> (\<forall>w' j''. w' \<noteq> w \<longrightarrow> owner s w' j'' \<longrightarrow> job_id j'' \<noteq> job_id j')"
      if "owner ?s w j'" for j'
    proof -
      from own [OF that] have o: "owner s w j'" "\<And>r. row_agrees (f_phase s w) j' r \<Longrightarrow> row_agrees p j' r"
        by auto
      from owner_row [OF io o(1)] o(2) owner_unique [OF io o(1)] show ?thesis by auto
    qed
  qed simp
  moreover have "inv_jobs ?s"
    by (rule inv_jobs_frame [where s = s and i = None])
      (use inv p in \<open>auto simp: fleet_inv_def split: if_splits\<close>)
  moreover have "inv_log ?s"
    by (rule inv_log_frame [where s = s and i = None]) (use inv in \<open>auto simp: fleet_inv_def\<close>)
  ultimately show ?thesis using inv locks by (simp add: fleet_inv_def)
qed

lemma lock_entries_simps [simp]:
  "lock_entries sha w Idle = []"
  "lock_entries sha w (Claimed j t) = []"
  "lock_entries sha w (Working j) = (case job_key j of None \<Rightarrow> [] | Some k \<Rightarrow> [(w, lock_key sha k)])"
  "lock_entries sha w (Worked j) = (case job_key j of None \<Rightarrow> [] | Some k \<Rightarrow> [(w, lock_key sha k)])"
  "lock_entries sha w (Settled j) = (case job_key j of None \<Rightarrow> [] | Some k \<Rightarrow> [(w, lock_key sha k)])"
  by (simp_all add: lock_entries_def locked_def)

lemma locks_of:
  "inv_locks sha s \<Longrightarrow> filter (\<lambda>l. fst l = w) (f_held s) = lock_entries sha w (f_phase s w)"
  by (simp add: inv_locks_def)

lemma locks_one_holder:
  "inv_locks sha s \<Longrightarrow> l \<in> set (f_held s) \<Longrightarrow> l' \<in> set (f_held s) \<Longrightarrow> snd l = snd l' \<Longrightarrow> fst l = fst l'"
  unfolding inv_locks_def by blast

lemma locks_dropped:
  assumes "inv_locks sha s" and "set (f_held s') \<subseteq> set (f_held s)"
    and "\<And>v. filter (\<lambda>l. fst l = v) (f_held s') = lock_entries sha v (f_phase s' v)"
  shows "inv_locks sha s'"
  using assms(2,3) locks_one_holder [OF assms(1)] unfolding inv_locks_def by blast

lemma locks_keeps_inv:
  assumes inv: "fleet_inv sha s" and ph: "f_phase s w = Claimed j t" and le: "lease_open (f_now s) t"
    and lk: "lock_for sha w j (f_held s) = (True, held)"
  shows "fleet_inv sha (worker_moves w (Working j) (f_db s) (s\<lparr>f_held := held\<rparr>))" (is "fleet_inv sha ?s")
proof (rule lock_move_keeps_inv [OF inv])
  have il: "inv_locks sha s" using inv by (simp add: fleet_inv_def)
  have mine: "filter (\<lambda>l. fst l = w) (f_held s) = []" using locks_of [OF il, of w] by (simp add: ph)
  show "inv_locks sha ?s"
  proof (cases "job_key j")
    case None
    with lk have "held = f_held s" by (simp add: lock_for_def)
    with None show ?thesis
      by (intro locks_unchanged [OF il]) (simp_all add: ph)
  next
    case (Some k)
    with lk have held: "held = (w, lock_key sha k) # f_held s"
      and free: "\<And>l. l \<in> set (f_held s) \<Longrightarrow> snd l = lock_key sha k \<Longrightarrow> fst l = w"
      by (auto simp: lock_for_def try_lock_def Let_def split: if_splits)
    have "filter (\<lambda>l. fst l = v) held = lock_entries sha v (f_phase ?s v)" for v
    proof (cases "v = w")
      case True
      with mine show ?thesis by (simp add: held Some)
    next
      case False
      with locks_of [OF il, of v] show ?thesis by (simp add: held)
    qed
    moreover have "fst l = fst l'" if l: "l \<in> set held" "l' \<in> set held" "snd l = snd l'" for l l'
    proof (cases "snd l = lock_key sha k")
      case True
      have "fst x = w" if "x \<in> set held" "snd x = lock_key sha k" for x
        using that free [of x] unfolding held by auto
      with True l show ?thesis by metis
    next
      case False
      with l have "l \<in> set (f_held s)" "l' \<in> set (f_held s)" unfolding held by auto
      with l(3) locks_one_holder [OF il] show ?thesis by blast
    qed
    moreover have "f_held ?s = held" by simp
    ultimately show ?thesis unfolding inv_locks_def by metis
  qed
  show "owner s w j' \<and> (\<forall>r. row_agrees (f_phase s w) j' r \<longrightarrow> row_agrees (Working j) j' r)"
    if "owner ?s w j'" for j'
    using that le by (auto simp: owner_def ph row_agrees_def)
qed (simp add: ph)

lemma releases_keeps_inv:
  assumes inv: "fleet_inv sha s" and ph: "f_phase s w = Settled j"
  shows "fleet_inv sha (worker_moves w Idle (f_db s) (s\<lparr>f_held := unlock_for sha w j (f_held s)\<rparr>))"
    (is "fleet_inv sha ?s")
proof (rule lock_move_keeps_inv [OF inv])
  have il: "inv_locks sha s" using inv by (simp add: fleet_inv_def)
  have mine: "filter (\<lambda>l. fst l = w) (f_held s)
      = (case job_key j of None \<Rightarrow> [] | Some k \<Rightarrow> [(w, lock_key sha k)])"
    using locks_of [OF il, of w] by (simp add: ph)
  have "filter (\<lambda>l. fst l = v) (unlock_for sha w j (f_held s)) = lock_entries sha v (f_phase ?s v)" for v
  proof (cases "v = w")
    case True
    with mine show ?thesis
      by (simp add: unlock_for_def unlock_def filter_remove1 split: option.splits)
  next
    case False
    with locks_of [OF il, of v] show ?thesis
      by (simp add: unlock_for_def unlock_def filter_remove1_other split: option.split)
  qed
  moreover have "set (unlock_for sha w j (f_held s)) \<subseteq> set (f_held s)"
    by (simp add: unlock_for_def unlock_def set_remove1_subset split: option.split)
  ultimately show "inv_locks sha ?s" using locks_dropped [OF il, of ?s] by simp
  show "owner s w j' \<and> (\<forall>r. row_agrees (f_phase s w) j' r \<longrightarrow> row_agrees Idle j' r)"
    if "owner ?s w j'" for j'
    using that by (simp add: owner_def)
qed simp

lemma dies_keeps_inv:
  assumes inv: "fleet_inv sha s"
  shows "fleet_inv sha (worker_moves w Idle (f_db s) (s\<lparr>f_held := filter (\<lambda>l. fst l \<noteq> w) (f_held s)\<rparr>))"
    (is "fleet_inv sha ?s")
proof (rule lock_move_keeps_inv [OF inv])
  have il: "inv_locks sha s" using inv by (simp add: fleet_inv_def)
  have "filter (\<lambda>l. fst l = v) (f_held ?s) = lock_entries sha v (f_phase ?s v)" for v
  proof (cases "v = w")
    case False
    then have "filter (\<lambda>l. fst l = v \<and> fst l \<noteq> w) (f_held s) = filter (\<lambda>l. fst l = v) (f_held s)"
      by (intro filter_cong) auto
    with False locks_of [OF il, of v] show ?thesis by (simp add: conj_commute)
  qed (simp add: filter_empty_conv)
  moreover have "set (f_held ?s) \<subseteq> set (f_held s)" by simp
  ultimately show "inv_locks sha ?s" using locks_dropped [OF il, of ?s] by simp
  show "owner s w j' \<and> (\<forall>r. row_agrees (f_phase s w) j' r \<longrightarrow> row_agrees Idle j' r)"
    if "owner ?s w j'" for j'
    using that by (simp add: owner_def)
qed simp

lemma defers_keeps_inv:
  assumes inv: "fleet_inv sha s" and ph: "f_phase s w = Claimed j t" and le: "lease_open (f_now s) t"
    and lk: "lock_for sha w j (f_held s) = (False, held)"
  shows "fleet_inv sha (worker_moves w Idle (defer_job n now j (f_db s)) s)"
proof -
  have ij: "inv_jobs s" and io: "inv_owners s" and wf: "wf_db sha (f_db s)"
    using inv by (simp_all add: fleet_inv_def)
  from lk have "job_key j \<noteq> None" by (auto simp: lock_for_def split: option.splits)
  with ph le have own: "owner s w j" by (simp add: owner_def)
  have pj: "phase_job (f_phase s w) = Some j" by (simp add: ph)
  have "1 \<le> row_attempts r" if "find_row (job_id j) (f_db s) = Some r" for r
    using owner_row [OF io own] that worker_known [OF ij pj] by (auto simp: row_agrees_def)
  from wf_defer [OF wf this] show ?thesis
    by (intro act_keeps_inv [OF inv pj disjI1 [OF own]]) (auto simp: defer_frame ph owner_def)
qed

lemma touches_keeps_inv:
  assumes inv: "fleet_inv sha s" and ph: "f_phase s w \<in> {Working j, Worked j}"
  shows "fleet_inv sha (s\<lparr>f_db := snd (touch now (job_id j) n (f_db s))\<rparr>)"
proof -
  let ?db = "snd (touch now (job_id j) n (f_db s))"
  have wf: "wf_db sha (f_db s)" and io: "inv_owners s" using inv by (simp_all add: fleet_inv_def)
  have pj: "phase_job (f_phase s w) = Some j" using ph by auto
  have "fleet_inv sha (worker_moves w (f_phase s w) ?db s)"
  proof (rule act_keeps_inv [OF inv pj owner_of_working [OF ph] wf_touch [OF wf] touch_frame])
    show "\<exists>r. find_row (job_id j) ?db = Some r \<and> row_agrees (f_phase s w) j r"
      if "owner (worker_moves w (f_phase s w) ?db s) w j"
    proof -
      have "owner s w j" using that ph by (auto simp: owner_def)
      from owner_row [OF io this] obtain r where "find_row (job_id j) (f_db s) = Some r"
        "row_agrees (f_phase s w) j r" by blast
      moreover have "row_agrees (f_phase s w) j (touch_row now n r)" if "row_agrees (f_phase s w) j r" for r
        using that ph by (auto simp: row_agrees_def touch_row_def)
      ultimately show ?thesis by (simp add: touch_def touch_op.find_any)
    qed
  qed (use pj in auto)
  moreover have "worker_moves w (f_phase s w) ?db s = s\<lparr>f_db := ?db\<rparr>"
    by (simp add: worker_moves_def)
  ultimately show ?thesis by simp
qed

theorem fleet_step_keeps_inv:
  assumes "fleet_step sha s s'" and inv: "fleet_inv sha s"
  shows "fleet_inv sha s'"
  using assms(1)
proof cases
  case (clock t)
  show ?thesis unfolding clock by (rule passive_keeps_inv [OF inv]) (use clock inv in \<open>auto simp: fleet_inv_def\<close>)
next
  case (arrival specs)
  have "wf_db sha (f_db s)" using inv by (simp add: fleet_inv_def)
  note e = enqueue_all_facts [OF this, of "f_now s" specs]
  show ?thesis unfolding arrival by (rule passive_keeps_inv [OF inv]) (use e in auto)
next
  case (sweep st seconds busy n c db)
  have "wf_db sha (f_db s)" using inv by (simp add: fleet_inv_def)
  moreover have "st \<noteq> JRunning" using sweep(2) by (auto simp: RETENTION_SECONDS_def)
  ultimately have "frame None (f_db s) db \<and> wf_db sha db" using frame_prune sweep(3) by blast
  then show ?thesis unfolding sweep(1) by (intro passive_keeps_inv [OF inv]) auto
next
  case (claims w busy q j db)
  then show ?thesis using claim_keeps_inv [OF inv] by simp
next
  case (locks w j t held)
  then show ?thesis using locks_keeps_inv [OF inv] by simp
next
  case (defers w j t held)
  then show ?thesis using defers_keeps_inv [OF inv] by simp
next
  case (replays w j)
  have "wf_db sha (f_db s)" using inv by (simp add: fleet_inv_def)
  then show ?thesis unfolding replays(1)
    by (intro settle_keeps_inv [OF inv]) (use replays in \<open>auto intro: wf_complete complete_frame\<close>)
next
  case (commits w j specs)
  then show ?thesis using commit_keeps_inv [OF inv] by simp
next
  case (finishes w j)
  have "wf_db sha (f_db s)" using inv by (simp add: fleet_inv_def)
  then show ?thesis unfolding finishes(1)
    by (intro settle_keeps_inv [OF inv]) (use finishes in \<open>auto intro: wf_complete complete_frame\<close>)
next
  case (fails w j m e specs b db)
  have wf: "wf_db sha (f_db s)" and ij: "inv_jobs s" using inv by (simp_all add: fleet_inv_def)
  note enq = enqueue_all_facts [OF wf, of "f_now s" specs]
  have "1 \<le> job_attempts j" using worker_known [OF ij, of w j] fails(2) by simp
  then have "frame (Some (job_id j)) (f_db s) db"
    using frame_trans enq fail_frame [OF fails(5)] by blast
  moreover have "wf_db sha db" using wf_fail [OF _ fails(5)] enq by blast
  ultimately show ?thesis unfolding fails(1)
    by (intro settle_keeps_inv [OF inv]) (use fails in auto)
next
  case (releases w j)
  then show ?thesis using releases_keeps_inv [OF inv] by simp
next
  case (touches w j)
  then show ?thesis using touches_keeps_inv [OF inv] by simp
next
  case (dies w)
  then show ?thesis using dies_keeps_inv [OF inv] by simp
qed

lemma reachable_inv: "reachable sha s \<Longrightarrow> fleet_inv sha s"
  by (induction rule: reachable.induct) (auto intro: fleet_inv_start fleet_step_keeps_inv)

section \<open>Two states to instantiate the theorems at\<close>

definition demo_sha :: "string \<Rightarrow> 8 word list" where
  "demo_sha k = [1]"

definition demo_start :: fleet where
  "demo_start = (fleet_start 100)\<lparr>f_db := enqueue_all demo_sha 100 [(INTEGRATE, [], Some ''u'', 0)] (f_db (fleet_start 100))\<rparr>"

definition demo_job :: job where
  "demo_job = \<lparr>job_id = 0, job_queue = INTEGRATE, job_payload = [], job_attempts = 1,
     job_key = Some ''u'', job_committed = None\<rparr>"

definition demo_working :: fleet where
  "demo_working = worker_moves 0 (Working demo_job)
     (snd (claim 100 [] [] INTEGRATE (f_db demo_start))) (demo_start\<lparr>f_held := [(0, 1)]\<rparr>)"

definition demo_worked :: fleet where
  "demo_worked = (worker_moves 0 (Worked demo_job)
      (mark_work_committed 100 0 1 (f_db demo_working)) demo_working)\<lparr>f_log := [(0, Some ''u'')]\<rparr>"

lemma lease_open_self: "lease_open t t"
  by (simp add: lease_open_def STALE_LEASE_SECONDS_def secs_def)

lemma demo_start_reachable: "reachable demo_sha demo_start"
proof -
  have "fleet_step demo_sha (fleet_start 100) demo_start"
    using fleet_step.arrival [of demo_sha "fleet_start 100" "[(INTEGRATE, [], Some ''u'', 0)]"]
    by (simp add: demo_start_def) (simp add: fleet_start_def)
  then show ?thesis by (rule reachable.step [OF reachable.start])
qed

lemma demo_working_reachable: "reachable demo_sha demo_working"
proof -
  let ?db = "snd (claim 100 [] [] INTEGRATE (f_db demo_start))"
  have c: "claim (f_now demo_start) (f_held demo_start) [] INTEGRATE (f_db demo_start) = (Some demo_job, ?db)"
    by (simp add: demo_start_def fleet_start_def claim_def enqueue_def claimable_def held_keys_def secs_def
        job_of_row_def claim_row_def demo_job_def)
  have i: "f_phase demo_start 0 = Idle" and n: "f_now demo_start = 100" and h: "f_held demo_start = []"
    and fp: "f_phase demo_start = (\<lambda>_. Idle)"
    by (simp_all add: demo_start_def fleet_start_def)
  note r1 = reachable.step [OF demo_start_reachable fleet_step.claims [of demo_start 0, OF i c]]
  have "reachable demo_sha (worker_moves 0 (Working demo_job)
      (f_db (worker_moves 0 (Claimed demo_job (f_now demo_start)) ?db demo_start))
      (worker_moves 0 (Claimed demo_job (f_now demo_start)) ?db demo_start\<lparr>f_held := [(0, 1)]\<rparr>))"
    by (rule reachable.step [OF r1], rule fleet_step.locks [where j = demo_job and t = 100])
      (simp_all add: n h lease_open_self lock_for_def demo_job_def
        try_lock_def lock_key_def from_bytes_be_def demo_sha_def Let_def)
  moreover have "worker_moves 0 (Working demo_job)
      (f_db (worker_moves 0 (Claimed demo_job (f_now demo_start)) ?db demo_start))
      (worker_moves 0 (Claimed demo_job (f_now demo_start)) ?db demo_start\<lparr>f_held := [(0, 1)]\<rparr>) = demo_working"
    by (simp add: demo_working_def worker_moves_def fp)
  ultimately show ?thesis by simp
qed

lemma demo_worked_reachable: "reachable demo_sha demo_worked"
proof -
  have p: "f_phase demo_working 0 = Working demo_job" and u: "job_committed demo_job = None"
    and n: "f_now demo_working = 100" and l: "f_log demo_working = []"
    by (simp_all add: demo_working_def demo_job_def demo_start_def fleet_start_def)
  have "fleet_step demo_sha demo_working demo_worked"
    using fleet_step.commits [of demo_working 0 demo_job demo_sha "[]", OF p u]
    by (simp add: demo_worked_def n l) (simp add: demo_job_def)
  then show ?thesis by (rule reachable.step [OF demo_working_reachable])
qed

section \<open>Properties\<close>



text \<open>C30: Two jobs of one serialization key never run at the same time. In every reachable state, if
  two workers are past their lock and before its release with jobs of the same key, they are the
  same worker; and each of them holds the key's advisory lock, once.\<close>

theorem one_worker_per_key:
  assumes "reachable sha s" and "locked (f_phase s w)" and "locked (f_phase s w')"
    and "phase_job (f_phase s w) = Some j" and "phase_job (f_phase s w') = Some j'"
    and "job_key j = Some k" and "job_key j' = Some k"
  shows "w = w' \<and> count_list (f_held s) (w, lock_key sha k) = 1"
proof -
  have il: "inv_locks sha s" using reachable_inv [OF assms(1)] by (simp add: fleet_inv_def)
  have mine: "filter (\<lambda>l. fst l = w) (f_held s) = [(w, lock_key sha k)]"
    "filter (\<lambda>l. fst l = w') (f_held s) = [(w', lock_key sha k)]"
    using locks_of [OF il] assms(2-7) by (simp_all add: lock_entries_def)
  then have "(w, lock_key sha k) \<in> set (f_held s)" "(w', lock_key sha k) \<in> set (f_held s)"
    by (metis filter_is_subset list.set_intros(1) subsetD)+
  then have "w = w'" using locks_one_holder [OF il] by force
  moreover have "count_list (f_held s) (w, x) = count_list (filter (\<lambda>l. fst l = w) (f_held s)) (w, x)" for x
    by (rule count_list_filter [symmetric]) simp
  ultimately show ?thesis using mine by simp
qed

theorem one_worker_per_key_witness:
  "reachable demo_sha demo_working \<and> locked (f_phase demo_working 0)
   \<and> count_list (f_held demo_working) (0, lock_key demo_sha ''u'') = 1"
proof -
  have "f_phase demo_working 0 = Working demo_job" "job_key demo_job = Some ''u''"
    by (simp_all add: demo_working_def demo_job_def)
  with one_worker_per_key [OF demo_working_reachable, of 0 0 demo_job demo_job "''u''"]
  show ?thesis using demo_working_reachable by (simp add: locked_def)
qed



text \<open>C32: No job is stranded by crashes. In a reachable state with every worker idle (each finished, or
  died at any point of its cycle), no advisory lock is left, and every row that is not settled is
  claimable from some moment on.\<close>

theorem unsettled_rows_become_claimable:
  assumes "reachable sha s" and "\<forall>w. f_phase s w = Idle"
    and "r \<in> set (rows (f_db s))" and "row_state r \<in> {JReady, JRunning}"
  shows "f_held s = [] \<and> (\<exists>t. \<forall>t' \<ge> t. claimable t' (f_held s) [] (row_queue r) r)"
proof -
  have il: "inv_locks sha s" and wf: "wf_db sha (f_db s)"
    using reachable_inv [OF assms(1)] by (simp_all add: fleet_inv_def)
  have "filter (\<lambda>l. fst l = w) (f_held s) = []" for w using locks_of [OF il] assms(2) by simp
  then have none: "f_held s = []" by (metis (full_types) filter_empty_conv list.set_intros(1) neq_Nil_conv)
  have wr: "wf_row sha r" using wf assms(3) by (simp add: wf_db_def)
  have "\<exists>t. \<forall>t' \<ge> t. claimable t' [] [] (row_queue r) r"
  proof (cases "row_state r")
    case JReady
    then show ?thesis
      by (intro exI [of _ "row_run_at r"]) (simp add: claimable_def held_keys_def split: option.split)
  next
    case JRunning
    with wr obtain u where "row_locked_at r = Some u" by (auto simp: wf_row_def)
    with JRunning show ?thesis
      by (intro exI [of _ "u + secs STALE_LEASE_SECONDS + 1"])
        (simp add: claimable_def held_keys_def split: option.split)
  qed (use assms(4) in auto)
  with none show ?thesis by simp
qed

definition demo_dead :: fleet where
  "demo_dead = worker_moves 0 Idle (f_db demo_working)
     (demo_working\<lparr>f_held := filter (\<lambda>l. fst l \<noteq> 0) (f_held demo_working)\<rparr>)"

lemma demo_dead_reachable: "reachable demo_sha demo_dead"
  unfolding demo_dead_def by (rule reachable.step [OF demo_working_reachable fleet_step.dies])

theorem unsettled_rows_become_claimable_witness:
  "reachable demo_sha demo_dead \<and> (\<exists>r. rows (f_db demo_dead) = [r] \<and> row_state r = JRunning
        \<and> (\<exists>t. claimable t (f_held demo_dead) [] INTEGRATE r))"
proof -
  have idle: "\<forall>w. f_phase demo_dead w = Idle"
    by (simp add: demo_dead_def demo_working_def demo_start_def fleet_start_def)
  obtain r where r: "rows (f_db demo_dead) = [r]" "row_state r = JRunning" "row_queue r = INTEGRATE"
    by (simp add: demo_dead_def demo_working_def demo_start_def fleet_start_def claim_def enqueue_def
        claimable_def held_keys_def claim_row_def update_row_def update_where_def secs_def)
  with unsettled_rows_become_claimable [OF demo_dead_reachable idle, of r]
  obtain t where "\<forall>t' \<ge> t. claimable t' (f_held demo_dead) [] INTEGRATE r" by auto
  then have "claimable t (f_held demo_dead) [] INTEGRATE r" by blast
  with r demo_dead_reachable show ?thesis by blast
qed

end
