(* ===== verification/Clock.thy ===== *)
theory Clock
  imports Prelude
begin

text \<open>
  The playback clock of \<open>voice/src/motet_voice/clock.py\<close>: \<open>PlaybackClock\<close> and its operations, and
  runs of them. \<open>now()\<close> is an argument of each operation, in seconds; the source's float is an exact
  rational here, so rounding of the subtraction and of the product is left out, and the truncation
  of \<open>int(...)\<close> is kept. Positions are Python integers of milliseconds.
\<close>

section \<open>State and operations\<close>

record clock =
  spoken_ms :: int
  delivered_ms :: int
  playing_since :: "rat option"
  interrupted_ms :: "int option"
  drifts_ms :: "int list"

definition new_clock :: clock where
  "new_clock = \<lparr>spoken_ms = 0, delivered_ms = 0, playing_since = None, interrupted_ms = None,
     drifts_ms = []\<rparr>"

definition settle :: "rat \<Rightarrow> clock \<Rightarrow> int \<times> clock" where
  "settle now c =
     (let c1 = (case playing_since c of
                  None \<Rightarrow> c
                | Some since \<Rightarrow>
                    (let elapsed = py_int ((now - since) * 1000)
                     in if 0 < elapsed
                        then c\<lparr>spoken_ms := spoken_ms c + elapsed, playing_since := Some now\<rparr>
                        else c));
          c2 = c1\<lparr>spoken_ms := min (spoken_ms c1) (delivered_ms c1)\<rparr>
      in (spoken_ms c2, c2))"

definition deliver :: "int \<Rightarrow> clock \<Rightarrow> py_error + clock" where
  "deliver chunk_ms c =
     (if chunk_ms < 0 then Inl (ValueError ''chunk_ms cannot be negative'')
      else Inr (c\<lparr>delivered_ms := delivered_ms c + chunk_ms\<rparr>))"

definition start_clock :: "rat \<Rightarrow> clock \<Rightarrow> clock" where
  "start_clock now c = (if playing_since c = None then c\<lparr>playing_since := Some now\<rparr> else c)"

definition pause :: "rat \<Rightarrow> clock \<Rightarrow> clock" where
  "pause now c = (snd (settle now c))\<lparr>playing_since := None\<rparr>"

definition interrupt :: "rat \<Rightarrow> clock \<Rightarrow> int \<times> clock" where
  "interrupt now c =
     (case settle now c of (offset, c1) \<Rightarrow>
        (offset, c1\<lparr>playing_since := None, interrupted_ms := Some offset\<rparr>))"

definition seek :: "rat \<Rightarrow> int \<Rightarrow> clock \<Rightarrow> py_error + clock" where
  "seek now position_ms c =
     (if position_ms < 0 then Inl (ValueError ''position_ms cannot be negative'')
      else
        let c1 = snd (settle now c);
            c2 = c1\<lparr>spoken_ms := position_ms, delivered_ms := max (delivered_ms c1) position_ms\<rparr>
        in Inr (if playing_since c2 \<noteq> None then c2\<lparr>playing_since := Some now\<rparr> else c2))"

definition note_provider_position :: "rat \<Rightarrow> int \<Rightarrow> clock \<Rightarrow> int \<times> clock" where
  "note_provider_position now provider_ms c =
     (case settle now c of (ours, c1) \<Rightarrow>
        (provider_ms - ours, c1\<lparr>drifts_ms := drifts_ms c1 @ [provider_ms - ours]\<rparr>))"

definition max_provider_drift_ms :: "clock \<Rightarrow> int" where
  "max_provider_drift_ms c = fold max (map abs (drifts_ms c)) 0"

section \<open>Runs\<close>

text \<open>The calls a session makes, each with the time it reads. An operation that raises leaves the
  clock as it was; the session goes on.\<close>

datatype clock_op =
    Read
  | Deliver int
  | Start
  | Pause
  | Interrupt
  | Seek int
  | Note int

definition clock_do :: "rat \<Rightarrow> clock_op \<Rightarrow> clock \<Rightarrow> clock" where
  "clock_do now op c =
     (case op of
        Read \<Rightarrow> snd (settle now c)
      | Deliver d \<Rightarrow> (case deliver d c of Inl _ \<Rightarrow> c | Inr c' \<Rightarrow> c')
      | Start \<Rightarrow> start_clock now c
      | Pause \<Rightarrow> pause now c
      | Interrupt \<Rightarrow> snd (interrupt now c)
      | Seek p \<Rightarrow> (case seek now p c of Inl _ \<Rightarrow> c | Inr c' \<Rightarrow> c')
      | Note p \<Rightarrow> snd (note_provider_position now p c))"

fun clock_run :: "(rat \<times> clock_op) list \<Rightarrow> clock \<Rightarrow> clock" where
  "clock_run [] c = c"
| "clock_run ((now, op) # ops) c = clock_run ops (clock_do now op c)"

lemmas clock_defs = clock_do_def settle_def deliver_def start_clock_def pause_def interrupt_def
  seek_def note_provider_position_def Let_def

section \<open>Facts\<close>

lemma settle_fst [simp]: "fst (settle now c) = spoken_ms (snd (settle now c))"
  by (simp add: settle_def Let_def)

lemma settle_keeps [simp]:
  "delivered_ms (snd (settle now c)) = delivered_ms c"
  "interrupted_ms (snd (settle now c)) = interrupted_ms c"
  "drifts_ms (snd (settle now c)) = drifts_ms c"
  "playing_since (snd (settle now c)) = None \<longleftrightarrow> playing_since c = None"
  by (simp_all add: settle_def Let_def split: option.split)

lemma settle_stopped:
  "playing_since c = None \<Longrightarrow> settle now c = (min (spoken_ms c) (delivered_ms c),
     c\<lparr>spoken_ms := min (spoken_ms c) (delivered_ms c)\<rparr>)"
  by (simp add: settle_def)

lemma interrupt_eq:
  "interrupt now c = (spoken_ms (snd (settle now c)),
     (snd (settle now c))\<lparr>playing_since := None, interrupted_ms := Some (spoken_ms (snd (settle now c)))\<rparr>)"
  by (simp add: interrupt_def split: prod.split) (metis fst_conv settle_fst snd_conv)

lemma note_eq:
  "note_provider_position now p c = (p - spoken_ms (snd (settle now c)),
     (snd (settle now c))\<lparr>drifts_ms := drifts_ms c @ [p - spoken_ms (snd (settle now c))]\<rparr>)"
  by (simp add: note_provider_position_def split: prod.split) (metis fst_conv settle_fst settle_keeps(3) snd_conv)

lemma seek_eq:
  "seek now p c = (if p < 0 then Inl (ValueError ''position_ms cannot be negative'')
     else Inr ((snd (settle now c))\<lparr>spoken_ms := p, delivered_ms := max (delivered_ms c) p,
       playing_since := map_option (\<lambda>_. now) (playing_since c)\<rparr>))"
  using settle_keeps(1,4) [of now c]
  by (cases "playing_since c"; cases "snd (settle now c)") (auto simp: seek_def Let_def)

lemma settle_bounded: "spoken_ms (snd (settle now c)) \<le> delivered_ms c"
  by (simp add: settle_def Let_def split: option.split)

lemma settle_nonneg:
  "0 \<le> spoken_ms c \<Longrightarrow> 0 \<le> delivered_ms c \<Longrightarrow> 0 \<le> spoken_ms (snd (settle now c))"
  by (simp add: settle_def Let_def split: option.split)

text \<open>What every operation preserves.\<close>

definition clock_ok :: "clock \<Rightarrow> bool" where
  "clock_ok c \<longleftrightarrow>
     0 \<le> spoken_ms c \<and> spoken_ms c \<le> delivered_ms c
     \<and> (\<forall>i. interrupted_ms c = Some i \<longrightarrow> 0 \<le> i \<and> i \<le> delivered_ms c)"

lemma clock_ok_settle: "clock_ok c \<Longrightarrow> clock_ok (snd (settle now c))"
  using settle_bounded settle_nonneg [of c] by (auto simp: clock_ok_def)

lemma clock_ok_do:
  assumes "clock_ok c"
  shows "clock_ok (clock_do now op c)"
proof -
  note s = clock_ok_settle [OF assms, of now]
  show ?thesis
  proof (cases op)
    case (Seek p)
    with s assms show ?thesis
      by (auto simp: clock_do_def seek_eq clock_ok_def)
  qed (use assms s in \<open>auto simp: clock_do_def deliver_def start_clock_def pause_def interrupt_eq
        note_eq clock_ok_def\<close>)
qed

lemma clock_ok_run: "clock_ok c \<Longrightarrow> clock_ok (clock_run ops c)"
  by (induction ops c rule: clock_run.induct) (auto intro: clock_ok_do)

text \<open>Two clocks that agree but for what providers said.\<close>

definition same_clock :: "clock \<Rightarrow> clock \<Rightarrow> bool" where
  "same_clock a b \<longleftrightarrow> a\<lparr>drifts_ms := []\<rparr> = b\<lparr>drifts_ms := []\<rparr>"

fun same_call :: "rat \<times> clock_op \<Rightarrow> rat \<times> clock_op \<Rightarrow> bool" where
  "same_call (t, Note p) (u, Note q) \<longleftrightarrow> t = u"
| "same_call a b \<longleftrightarrow> a = b"

lemma same_clock_iff:
  "same_clock a b \<longleftrightarrow> spoken_ms a = spoken_ms b \<and> delivered_ms a = delivered_ms b
     \<and> playing_since a = playing_since b \<and> interrupted_ms a = interrupted_ms b"
  by (cases a; cases b) (auto simp: same_clock_def)

lemma same_settle: "same_clock a b \<Longrightarrow> same_clock (snd (settle t a)) (snd (settle t b))"
  by (auto simp: same_clock_iff settle_def Let_def split: option.split)

lemma same_do:
  assumes ab: "same_clock a b" and calls: "same_call (t, p) (u, q)"
  shows "same_clock (clock_do t p a) (clock_do u q b)"
proof -
  have tu: "t = u" and pq: "p = q \<or> (\<exists>x y. p = Note x \<and> q = Note y)"
    using calls by (cases "((t, p), (u, q))" rule: same_call.cases; auto)+
  note s = same_settle [OF ab, of t]
  show ?thesis
    using pq
  proof
    assume "p = q"
    with ab s tu show ?thesis
      by (cases p) (auto simp: clock_do_def deliver_def start_clock_def pause_def interrupt_eq seek_eq
          note_eq same_clock_iff)
  next
    assume "\<exists>x y. p = Note x \<and> q = Note y"
    with s tu show ?thesis
      by (auto simp: clock_do_def note_eq same_clock_iff)
  qed
qed

lemma same_run:
  "list_all2 same_call xs ys \<Longrightarrow> same_clock a b \<Longrightarrow> same_clock (clock_run xs a) (clock_run ys b)"
proof (induction xs ys arbitrary: a b rule: list_all2_induct)
  case Nil
  then show ?case by simp
next
  case (Cons x xs y ys)
  obtain t p u q where "x = (t, p)" "y = (u, q)" by fastforce
  with Cons show ?case using same_do [OF Cons.prems, of t p u q] by simp
qed

lemma settle_playing:
  assumes "playing_since c = Some m" and "m \<le> t" and "of_int (spoken_ms c) + (t - m) * 1000 \<le> (of_int (delivered_ms c) :: rat)"
    and k: "k = \<lfloor>(t - m) * 1000\<rfloor>"
  shows "spoken_ms (snd (settle t c)) = spoken_ms c + k"
    and "playing_since (snd (settle t c)) = Some (if 0 < k then t else m)"
    and "of_int k \<le> (t - m) * 1000" and "(t - m) * 1000 < of_int k + 1" and "0 \<le> k"
proof -
  have e: "py_int ((t - m) * 1000) = k" and k0: "0 \<le> k"
    using assms(2) by (simp_all add: k py_int_def)
  show le: "of_int k \<le> (t - m) * 1000" unfolding k by (rule of_int_floor_le)
  show "(t - m) * 1000 < of_int k + 1" unfolding k by linarith
  show "0 \<le> k" by (fact k0)
  have "of_int (spoken_ms c + k) \<le> (of_int (delivered_ms c) :: rat)"
    using assms(3) le by simp
  then have "spoken_ms c + k \<le> delivered_ms c" by (simp only: of_int_le_iff)
  with assms(1) e k0 show "spoken_ms (snd (settle t c)) = spoken_ms c + k"
    and "playing_since (snd (settle t c)) = Some (if 0 < k then t else m)"
    by (auto simp: settle_def Let_def)
qed

lemma reads_track_time:
  "playing_since c = Some m \<Longrightarrow> sorted (m # ts) \<Longrightarrow>
   of_int (spoken_ms c) + (last (m # ts) - m) * 1000 \<le> (of_int (delivered_ms c) :: rat) \<Longrightarrow>
   let d = of_int (spoken_ms (clock_run (map (\<lambda>t. (t, Read)) ts) c) - spoken_ms c);
       real = (last (m # ts) - m) * 1000
   in d \<le> real \<and> real \<le> d + of_nat (length ts)"
proof (induction ts arbitrary: c m)
  case Nil
  then show ?case by simp
next
  case (Cons t ts)
  let ?c = "snd (settle t c)"
  have mt: "m \<le> t" and last: "t \<le> last (t # ts)"
    using Cons.prems(2) by (auto simp: last_conv_nth intro: sorted_nth_mono)
  have room: "of_int (spoken_ms c) + (t - m) * 1000 \<le> (of_int (delivered_ms c) :: rat)"
    using Cons.prems(3) last by simp
  obtain k where k: "k = \<lfloor>(t - m) * 1000\<rfloor>" by simp
  note s = settle_playing [OF Cons.prems(1) mt room k]
  have run: "clock_run (map (\<lambda>t. (t, Read)) (t # ts)) c = clock_run (map (\<lambda>t. (t, Read)) ts) ?c"
    by (simp add: clock_do_def)
  have l: "last (m # t # ts) = last (t # ts)" by simp
  show ?case
  proof (cases "0 < k")
    case True
    have "let d = of_int (spoken_ms (clock_run (map (\<lambda>t. (t, Read)) ts) ?c) - spoken_ms ?c);
             real = (last (t # ts) - t) * 1000
         in d \<le> real \<and> real \<le> d + of_nat (length ts)"
    proof (rule Cons.IH)
      show "playing_since ?c = Some t" "sorted (t # ts)" using s(2) True Cons.prems(2) by auto
      show "of_int (spoken_ms ?c) + (last (t # ts) - t) * 1000 \<le> (of_int (delivered_ms ?c) :: rat)"
        using s(3) Cons.prems(3) unfolding s(1) l by (simp add: algebra_simps)
    qed
    with s(1,3,4) show ?thesis unfolding run l by (simp add: Let_def algebra_simps)
  next
    case False
    then have z: "k = 0" using s(5) by simp
    have srt: "sorted (m # ts)" using Cons.prems(2) by auto
    have "let d = of_int (spoken_ms (clock_run (map (\<lambda>t. (t, Read)) ts) ?c) - spoken_ms ?c);
             real = (last (m # ts) - m) * 1000
         in d \<le> real \<and> real \<le> d + of_nat (length ts)"
    proof (rule Cons.IH)
      show "playing_since ?c = Some m" using s(2) z by simp
      show "of_int (spoken_ms ?c) + (last (m # ts) - m) * 1000 \<le> (of_int (delivered_ms ?c) :: rat)"
        using s(1) z Cons.prems(3) room mt by (cases ts) (auto simp: algebra_simps)
    qed (rule srt)
    with s(1,3,4) z show ?thesis unfolding run by (cases ts) (simp_all add: Let_def)
  qed
qed

lemma frozen_do:
  assumes "playing_since c = None" "spoken_ms c = p" "p \<le> delivered_ms c" "interrupted_ms c = Some p"
    and "op \<noteq> Start" "\<not> (\<exists>x. op = Seek x)"
  shows "playing_since (clock_do t op c) = None \<and> spoken_ms (clock_do t op c) = p
    \<and> p \<le> delivered_ms (clock_do t op c) \<and> interrupted_ms (clock_do t op c) = Some p"
  using assms by (cases op) (auto simp: clock_do_def deliver_def pause_def interrupt_eq note_eq settle_stopped)

lemma frozen_run:
  assumes "playing_since c = None" "spoken_ms c = p" "p \<le> delivered_ms c" "interrupted_ms c = Some p"
    and "list_all (\<lambda>x. snd x \<noteq> Start \<and> \<not> (\<exists>y. snd x = Seek y)) ops"
  shows "spoken_ms (clock_run ops c) = p \<and> interrupted_ms (clock_run ops c) = Some p
    \<and> playing_since (clock_run ops c) = None"
  using assms
proof (induction ops c rule: clock_run.induct)
  case (1 c)
  then show ?case by simp
next
  case (2 now op ops c)
  then show ?case using frozen_do [of c p op now] by simp
qed

section \<open>Properties\<close>

text \<open>The position is never past what was handed to the client. From a new clock, after any sequence
  of operations at any times, clock readings that go backwards included, the position and the offset
  of the last barge-in are between zero and the audio delivered, and so is any reading of it.\<close>

theorem clock_stays_bounded:
  "let c = clock_run ops new_clock in
     0 \<le> spoken_ms c \<and> spoken_ms c \<le> delivered_ms c
     \<and> 0 \<le> fst (settle now c) \<and> fst (settle now c) \<le> delivered_ms c
     \<and> interrupted_ms c \<in> insert None (Some ` {0 .. delivered_ms c})"
proof -
  let ?c = "clock_run ops new_clock"
  have "clock_ok ?c" by (rule clock_ok_run) (simp add: clock_ok_def new_clock_def)
  with clock_ok_settle [OF this, of now] show ?thesis
    by (cases "interrupted_ms ?c") (auto simp: Let_def clock_ok_def)
qed

text \<open>Nothing a provider says moves the clock. Two runs that make the same calls at the same times and
  differ only in the positions a provider reports end with the same position, the same delivered
  audio, the same barge-in offset, and both playing or both stopped.\<close>

theorem provider_values_do_not_move_clock:
  assumes "list_all2 same_call xs ys"
  shows "(clock_run xs c)\<lparr>drifts_ms := []\<rparr> = (clock_run ys c)\<lparr>drifts_ms := []\<rparr>"
  using same_run [OF assms, of c c] by (simp add: same_clock_def)

theorem provider_values_do_not_move_clock_witness:
  "(clock_run [(0, Deliver 500), (0, Start), (1/10, Note 99999), (1/5, Interrupt)] new_clock)\<lparr>drifts_ms := []\<rparr>
   = (clock_run [(0, Deliver 500), (0, Start), (1/10, Note (- 7)), (1/5, Interrupt)] new_clock)\<lparr>drifts_ms := []\<rparr>"
  by (rule provider_values_do_not_move_clock) simp

text \<open>An interruption freezes the position. Whatever follows a barge-in, until narration starts again
  or the client seeks, the position stays the offset that \<open>interrupt\<close> returned, that offset is the
  recorded barge-in, and the clock stays stopped, however much audio is delivered and however often
  it is read, paused, interrupted or told a provider's position.\<close>

theorem interrupt_freezes_position:
  assumes "clock_ok c" and "list_all (\<lambda>x. snd x \<noteq> Start \<and> \<not> (\<exists>y. snd x = Seek y)) ops"
  shows "case interrupt now c of (offset, c1) \<Rightarrow>
    spoken_ms (clock_run ops c1) = offset \<and> interrupted_ms (clock_run ops c1) = Some offset
    \<and> playing_since (clock_run ops c1) = None"
  using frozen_run [OF _ _ _ _ assms(2), of "snd (interrupt now c)" "fst (interrupt now c)"]
    settle_bounded [of now c]
  by (simp add: interrupt_eq)

theorem interrupt_freezes_position_witness:
  "let c = clock_run [(0, Deliver 500), (0, Start)] new_clock; r = interrupt (1/4) c
   in fst r = 250 \<and> spoken_ms (clock_run [(1, Deliver 4000), (2, Note 3000), (3, Read)] (snd r)) = 250"
proof -
  let ?c = "clock_run [(0, Deliver 500), (0, Start)] new_clock"
  have "clock_ok ?c" by (rule clock_ok_run) (simp add: clock_ok_def new_clock_def)
  moreover have "fst (interrupt (1/4) ?c) = 250"
    by (simp add: interrupt_def settle_def clock_do_def deliver_def start_clock_def new_clock_def py_int_def)
  ultimately show ?thesis
    using interrupt_freezes_position [of ?c "[(1, Deliver 4000), (2, Note 3000), (3, Read)]" "1/4"]
    by (simp add: Let_def split: prod.splits)
qed

text \<open>While narration plays with audio in hand, the position follows the time. After any readings at
  non-decreasing times, the position has advanced by no more than the elapsed milliseconds, and by
  at most one millisecond per reading less: the fraction of a millisecond that \<open>int\<close> drops when the
  mark moves is not counted again.\<close>

theorem position_follows_time:
  assumes "playing_since c = Some m" and "sorted (m # ts)"
    and "of_int (spoken_ms c) + (last (m # ts) - m) * 1000 \<le> (of_int (delivered_ms c) :: rat)"
  shows "let d = of_int (spoken_ms (clock_run (map (\<lambda>t. (t, Read)) ts) c) - spoken_ms c);
       real = (last (m # ts) - m) * 1000
   in d \<le> real \<and> real \<le> d + of_nat (length ts)"
  by (rule reads_track_time [OF assms])

theorem position_follows_time_witness:
  "let c = \<lparr>spoken_ms = 0, delivered_ms = 100, playing_since = Some 0, interrupted_ms = None, drifts_ms = []\<rparr>;
     d = of_int (spoken_ms (clock_run (map (\<lambda>t. (t, Read)) [19/10000, 38/10000]) c))
   in d \<le> 38/10 \<and> 38/10 \<le> d + (2::rat)"
proof -
  let ?c = "\<lparr>spoken_ms = 0, delivered_ms = 100, playing_since = Some 0, interrupted_ms = None, drifts_ms = []\<rparr>"
  have "sorted [0::rat, 19/10000, 38/10000]" by simp
  from position_follows_time [of ?c 0 "[19/10000, 38/10000]", OF _ this]
  show ?thesis unfolding Let_def by simp
qed

text \<open>Asking for the drift costs the clock time. Noting a provider's position settles the clock, which
  moves the mark and drops the fraction of a millisecond, so the same reading afterwards can be
  lower than without the note; and a clock read every 1.9 ms loses three milliseconds in seven.\<close>

theorem settling_loses_fractions:
  "let c = \<lparr>spoken_ms = 0, delivered_ms = 100, playing_since = Some 0, interrupted_ms = None, drifts_ms = []\<rparr>;
       pos = (\<lambda>ops. spoken_ms (clock_run ops c)) in
     pos [(38/10000, Read)] = 3 \<and> pos [(19/10000, Note 0), (38/10000, Read)] = 2
     \<and> pos (map (\<lambda>t. (t, Read)) [19/10000, 38/10000, 57/10000, 76/10000]) = 4
     \<and> pos [(76/10000, Read)] = 7"
  unfolding Let_def
  by (intro conjI) (simp_all add: clock_do_def note_eq settle_def py_int_def)

end
