(* ===== verification/Audio.thy ===== *)
theory Audio
  imports Prelude "HOL-Library.Word"
begin

text \<open>
  The audio layer of \<open>voice/src/motet_voice/audio.py\<close>: 16-bit PCM to samples and back, the level and
  zero-crossing measures of a frame, and the cutting of a byte stream into frames. Bytes are
  \<open>8 word\<close>s; the sample decoding is the little-endian one (\<open>_BIG_ENDIAN\<close> is false). Levels are real
  numbers, the source's floats without their rounding. WAV files and resampling are not modelled.
\<close>

section \<open>Formats, frames, measures\<close>

definition TARGET_SAMPLE_RATE :: int where "TARGET_SAMPLE_RATE = 16000"
definition DEFAULT_FRAME_MS :: int where "DEFAULT_FRAME_MS = 20"
definition FULL_SCALE :: real where "FULL_SCALE = 32768"
definition SILENCE_DBFS :: real where "SILENCE_DBFS = - 100"

record pcm_format =
  sample_rate :: int
  channels :: int
  sample_width :: int

definition TARGET_FORMAT :: pcm_format where
  "TARGET_FORMAT = \<lparr>sample_rate = TARGET_SAMPLE_RATE, channels = 1, sample_width = 2\<rparr>"

record pcm_frame =
  frame_index :: int
  start_ms :: int
  frame_duration :: int
  samples :: "int list"

definition end_ms :: "pcm_frame \<Rightarrow> int" where
  "end_ms f = start_ms f + frame_duration f"

definition rms :: "int list \<Rightarrow> real" where
  "rms xs = (if xs = [] then 0
     else sqrt (real_of_int (sum_list (map (\<lambda>v. v * v) xs)) / real (length xs)))"

definition dbfs :: "int list \<Rightarrow> real" where
  "dbfs xs =
     (let level = rms xs / FULL_SCALE
      in if level \<le> 0 then SILENCE_DBFS else max SILENCE_DBFS (20 * log 10 level))"

fun crossings :: "int \<Rightarrow> int list \<Rightarrow> nat" where
  "crossings previous [] = 0"
| "crossings previous (v # vs) =
     (if (previous < 0) \<noteq> (v < 0) then 1 else 0) + crossings v vs"

definition zero_crossing_rate :: "int list \<Rightarrow> real" where
  "zero_crossing_rate xs =
     (if length xs < 2 then 0 else real (crossings (hd xs) (tl xs)) / real (length xs - 1))"

section \<open>Bytes and samples\<close>

definition sample_of :: "8 word \<Rightarrow> 8 word \<Rightarrow> int" where
  "sample_of lo hi =
     (let u = uint lo + 256 * uint hi in if u < 32768 then u else u - 65536)"

fun decode_samples :: "8 word list \<Rightarrow> int list" where
  "decode_samples (lo # hi # rest) = sample_of lo hi # decode_samples rest"
| "decode_samples _ = []"

definition samples_from_pcm :: "8 word list \<Rightarrow> py_error + int list" where
  "samples_from_pcm pcm =
     (if odd (length pcm)
      then Inl (ValueError ''16-bit PCM must have an even number of bytes'')
      else Inr (decode_samples pcm))"

definition bytes_of_sample :: "int \<Rightarrow> 8 word list" where
  "bytes_of_sample v = [word_of_int v, word_of_int (v div 256)]"

definition pcm_from_samples :: "int list \<Rightarrow> py_error + 8 word list" where
  "pcm_from_samples xs =
     (if \<forall>v \<in> set xs. - 32768 \<le> v \<and> v \<le> 32767
      then Inr (concat (map bytes_of_sample xs)) else Inl OverflowError)"

definition duration_of :: "pcm_format \<Rightarrow> 8 word list \<Rightarrow> int" where
  "duration_of fmt pcm =
     py_round (of_int (int (length pcm) div (channels fmt * sample_width fmt) * 1000)
       / of_int (sample_rate fmt))"

section \<open>Cutting frames\<close>

definition frame_at :: "int \<Rightarrow> pcm_format \<Rightarrow> int \<Rightarrow> int \<Rightarrow> int \<Rightarrow> int list \<Rightarrow> nat \<Rightarrow> pcm_frame" where
  "frame_at frame_ms fmt start_i start_t per_frame xs i =
     \<lparr>frame_index = start_i + int i,
      start_ms = start_t + py_round (of_int (int i * per_frame * 1000) / of_int (sample_rate fmt)),
      frame_duration = frame_ms,
      samples = take (nat per_frame) (drop (i * nat per_frame) xs)\<rparr>"

definition iter_frames ::
  "int \<Rightarrow> pcm_format \<Rightarrow> int \<Rightarrow> int \<Rightarrow> 8 word list \<Rightarrow> py_error + pcm_frame list"
where
  "iter_frames frame_ms fmt start_i start_t pcm =
     (if fmt \<noteq> TARGET_FORMAT then Inl (ValueError ''frames must be in the target format'')
      else
        let per_frame = py_int (of_int (sample_rate fmt * frame_ms) / 1000 :: rat)
        in if per_frame \<le> 0 then Inl (ValueError ''frame_ms is shorter than one sample'')
           else case samples_from_pcm pcm of
                  Inl e \<Rightarrow> Inl e
                | Inr xs \<Rightarrow>
                    Inr (map (frame_at frame_ms fmt start_i start_t per_frame xs)
                           [0 ..< length xs div nat per_frame]))"

section \<open>Facts\<close>

lemma byte_range: "0 \<le> uint (b :: 8 word)" "uint (b :: 8 word) < 256"
  using uint_range_size [of b] by (simp_all add: word_size)

lemma sample_range: "- 32768 \<le> sample_of lo hi \<and> sample_of lo hi \<le> 32767"
  using byte_range [of lo] byte_range [of hi] unfolding sample_of_def Let_def
  by (simp split: if_splits; linarith)

lemma decode_range: "v \<in> set (decode_samples pcm) \<Longrightarrow> - 32768 \<le> v \<and> v \<le> 32767"
  by (induction pcm rule: decode_samples.induct) (auto simp: sample_range)

lemma byte_of_int: "uint (word_of_int v :: 8 word) = v mod 256"
  by (simp add: uint_word_of_int)

lemma bytes_of_sample_of: "bytes_of_sample (sample_of lo hi) = [lo, hi]"
proof -
  have two: "(a + 256 * b) mod 256 = a \<and> (a + 256 * b - 65536) mod 256 = a
      \<and> (a + 256 * b) div 256 mod 256 = b \<and> (a + 256 * b - 65536) div 256 mod 256 = b"
    if "0 \<le> a" "a < 256" "0 \<le> b" "b < 256" for a b :: int
  proof -
    have 1: "(a + 256 * c) mod 256 = a" "(a + 256 * c) div 256 = c" for c using that by simp_all
    have 2: "a + 256 * b - 65536 = a + 256 * (b - 256)" by simp
    have 3: "(b - 256) mod 256 = b" "b mod 256 = b" using that by (simp_all add: mod_diff_eq [symmetric])
    show ?thesis by (simp only: 1 2 3)
  qed
  have "sample_of lo hi mod 256 = uint lo" "sample_of lo hi div 256 mod 256 = uint hi"
    using two [OF byte_range [of lo] byte_range [of hi]] by (simp_all add: sample_of_def Let_def)
  then show ?thesis
    by (simp add: bytes_of_sample_def word_uint_eq_iff byte_of_int)
qed

lemma sample_of_bytes:
  assumes "- 32768 \<le> v" "v \<le> 32767"
  shows "sample_of (word_of_int v) (word_of_int (v div 256)) = v"
proof -
  have "v mod 256 + 256 * (v div 256 mod 256) = v mod 65536"
    using zmod_zmult2_eq [of 256 v 256] by simp
  moreover have "v mod 65536 = (if v < 0 then v + 65536 else v)"
    using assms mod_add_self2 [of v 65536] mod_pos_pos_trivial [of "v + 65536" 65536]
      mod_pos_pos_trivial [of v 65536] by auto
  ultimately show ?thesis using assms by (simp add: sample_of_def Let_def byte_of_int)
qed

lemma decode_encode:
  "\<forall>v \<in> set xs. - 32768 \<le> v \<and> v \<le> 32767 \<Longrightarrow> decode_samples (concat (map bytes_of_sample xs)) = xs"
  by (induction xs) (auto simp: bytes_of_sample_def sample_of_bytes)

lemma encode_decode: "even (length pcm) \<Longrightarrow> concat (map bytes_of_sample (decode_samples pcm)) = pcm"
  by (induction pcm rule: decode_samples.induct) (auto simp: bytes_of_sample_of)

lemma length_decode: "length (decode_samples pcm) = length pcm div 2"
  by (induction pcm rule: decode_samples.induct) auto

lemma decode_append:
  "even (length a) \<Longrightarrow> decode_samples (a @ b) = decode_samples a @ decode_samples b"
  by (induction a rule: decode_samples.induct) auto

definition target_frame :: "int \<Rightarrow> int \<Rightarrow> int list \<Rightarrow> nat \<Rightarrow> pcm_frame" where
  "target_frame si st xs i =
     \<lparr>frame_index = si + int i, start_ms = st + 20 * int i, frame_duration = 20,
      samples = take 320 (drop (i * 320) xs)\<rparr>"

lemma iter_frames_target:
  assumes "even (length pcm)"
  shows "iter_frames DEFAULT_FRAME_MS TARGET_FORMAT si st pcm
    = Inr (map (target_frame si st (decode_samples pcm)) [0 ..< length pcm div 640])"
proof -
  have "py_int (of_int (16000 * 20) / 1000 :: rat) = 320" by (simp add: py_int_def)
  moreover have "py_round (of_int (int i * 320 * 1000) / of_int 16000) = 20 * int i" for i
  proof -
    have "of_int (int i * 320 * 1000) / (of_int 16000 :: rat) = of_int (20 * int i)" by simp
    then show ?thesis by (simp only: py_round_int)
  qed
  moreover have "length pcm div 2 div 320 = length pcm div 640" by (simp add: div_mult2_eq [symmetric])
  ultimately show ?thesis using assms
    by (simp add: iter_frames_def TARGET_FORMAT_def TARGET_SAMPLE_RATE_def DEFAULT_FRAME_MS_def
        samples_from_pcm_def length_decode frame_at_def target_frame_def fun_eq_iff)
qed

lemma target_frames_append:
  assumes "length xs = m * 320"
  shows "map (target_frame si st (xs @ ys)) [0 ..< m + n]
    = map (target_frame si st xs) [0 ..< m] @ map (target_frame (si + int m) (st + 20 * int m) ys) [0 ..< n]"
proof -
  have "target_frame si st (xs @ ys) i = target_frame si st xs i" if "i < m" for i
  proof -
    have "i * 320 + 320 \<le> length xs" using that assms by simp
    then show ?thesis using assms by (simp add: target_frame_def)
  qed
  moreover have "target_frame si st (xs @ ys) (i + m) = target_frame (si + int m) (st + 20 * int m) ys i" for i
    using assms by (simp add: target_frame_def algebra_simps)
  moreover have "[0 ..< m + n] = [0 ..< m] @ map (\<lambda>i. i + m) [0 ..< n]"
    unfolding map_add_upt add.commute [of n m] by (rule upt_add_eq_append) simp
  ultimately show ?thesis by simp
qed

section \<open>Properties\<close>

text \<open>PCM bytes and samples determine each other. An even number of bytes decodes to as many signed
  16-bit samples as there are byte pairs, and encoding those gives the bytes back; encoding any
  samples in range decodes to them; an odd number of bytes and a sample out of range are errors.\<close>

theorem pcm_round_trip:
  "(case samples_from_pcm pcm of
      Inl e \<Rightarrow> odd (length pcm)
    | Inr xs \<Rightarrow> length pcm = 2 * length xs \<and> pcm_from_samples xs = Inr pcm)
   \<and> (case pcm_from_samples ys of
        Inl e \<Rightarrow> e = OverflowError \<and> (\<exists>v \<in> set ys. v < - 32768 \<or> 32767 < v)
      | Inr bytes \<Rightarrow> samples_from_pcm bytes = Inr ys)"
proof -
  have len: "length (concat (map bytes_of_sample ys)) = 2 * length ys"
    by (induction ys) (simp_all add: bytes_of_sample_def)
  have "pcm_from_samples (decode_samples pcm) = Inr pcm" if "even (length pcm)"
    using that decode_range by (simp add: pcm_from_samples_def encode_decode)
  moreover have "length pcm = 2 * length (decode_samples pcm)" if "even (length pcm)"
    using that by (simp add: length_decode)
  moreover have "samples_from_pcm (concat (map bytes_of_sample ys)) = Inr ys"
    if "\<forall>v \<in> set ys. - 32768 \<le> v \<and> v \<le> 32767"
    using decode_encode [OF that] len by (simp add: samples_from_pcm_def)
  moreover have "\<exists>v \<in> set ys. v < - 32768 \<or> 32767 < v"
    if "\<not> (\<forall>v \<in> set ys. - 32768 \<le> v \<and> v \<le> 32767)"
    using that by (meson not_le)
  ultimately show ?thesis
    by (simp add: samples_from_pcm_def pcm_from_samples_def [of ys])
qed

theorem pcm_round_trip_witness:
  "samples_from_pcm [255, 255, 0, 128] = Inr [- 1, - 32768]
   \<and> pcm_from_samples [- 1, - 32768] = Inr [255, 255, 0, 128]"
  using pcm_round_trip [of "[255, 255, 0, 128]" "[]"]
  by (simp add: samples_from_pcm_def sample_of_def)


end
