(* ===== verification/Bargein.thy ===== *)
theory Bargein
  imports Audio
begin

text \<open>
  Barge-in detection: the voice activity detectors of \<open>voice/src/motet_voice/vad.py\<close> and the turn
  detector of \<open>bargein.py\<close>. A detector is a function from its state and a frame to a reading and
  its next state; the turn detector is written over any of them, as in the source, and \<open>vad\<close> is the
  interface. Floats are real numbers here. \<open>WebrtcVad\<close> wraps a C extension and is not modelled;
  JSON forms of decisions and log lines are not either.
\<close>

section \<open>Readings and the energy detector\<close>

record vad_reading =
  speech_probability :: real
  rms_dbfs :: real
  noise_floor_dbfs :: real
  snr_db :: real
  reading_zcr :: real

record energy_cfg =
  up_step_db :: real
  down_step_db :: real
  snr_midpoint_db :: real
  snr_scale_db :: real
  absolute_floor_dbfs :: real
  min_zcr :: real
  max_zcr :: real
  out_of_band_weight :: real
  warmup_frames :: int
  warmup_multiplier :: real

definition default_energy_cfg :: energy_cfg where
  "default_energy_cfg = \<lparr>up_step_db = 0.05, down_step_db = 0.15, snr_midpoint_db = 18,
     snr_scale_db = 3, absolute_floor_dbfs = - 55, min_zcr = 0.02, max_zcr = 0.32,
     out_of_band_weight = 0.25, warmup_frames = 50, warmup_multiplier = 12\<rparr>"

record energy_vad =
  floor_dbfs :: "real option"
  frames_counted :: int

definition energy_reset :: energy_vad where
  "energy_reset = \<lparr>floor_dbfs = None, frames_counted = 0\<rparr>"

definition logistic :: "real \<Rightarrow> real" where
  "logistic v = (if v < - 60 then 0 else 1 / (1 + exp (- v)))"

text \<open>\<open>observe\<close> on a frame of this level, zero-crossing rate and silence, once the floor is seeded.\<close>

definition energy_score ::
  "energy_cfg \<Rightarrow> real \<Rightarrow> real \<Rightarrow> bool \<Rightarrow> real \<Rightarrow> int \<Rightarrow> vad_reading \<times> energy_vad"
where
  "energy_score cfg level zcr silent fl seen =
     (let measurable = absolute_floor_dbfs cfg \<le> level;
          snr = level - fl;
          p = logistic ((snr - snr_midpoint_db cfg) / max (snr_scale_db cfg) (1 / 1000000));
          probability = (if \<not> measurable then 0
                         else if \<not> (min_zcr cfg \<le> zcr \<and> zcr \<le> max_zcr cfg)
                         then p * out_of_band_weight cfg else p);
          seen' = (if measurable then seen + 1 else seen);
          scale = (if seen' \<le> warmup_frames cfg then warmup_multiplier cfg else 1);
          moved = (if measurable
                   then (if fl < level then fl + up_step_db cfg * scale
                         else fl - down_step_db cfg * scale)
                   else if \<not> silent then fl - down_step_db cfg
                   else fl);
          fl' = max moved (absolute_floor_dbfs cfg)
      in (\<lparr>speech_probability = probability, rms_dbfs = level, noise_floor_dbfs = fl',
           snr_db = snr, reading_zcr = zcr\<rparr>,
          \<lparr>floor_dbfs = Some fl', frames_counted = seen'\<rparr>))"

definition energy_step ::
  "energy_cfg \<Rightarrow> real \<Rightarrow> real \<Rightarrow> bool \<Rightarrow> energy_vad \<Rightarrow> vad_reading \<times> energy_vad"
where
  "energy_step cfg level zcr silent st =
     (case floor_dbfs st of
        Some fl \<Rightarrow> energy_score cfg level zcr silent fl (frames_counted st)
      | None \<Rightarrow>
          if silent
          then (\<lparr>speech_probability = 0, rms_dbfs = level,
                 noise_floor_dbfs = absolute_floor_dbfs cfg, snr_db = 0, reading_zcr = zcr\<rparr>, st)
          else energy_score cfg level zcr silent
                 (if absolute_floor_dbfs cfg \<le> level then level else absolute_floor_dbfs cfg)
                 (frames_counted st))"

definition energy_observe :: "energy_cfg \<Rightarrow> energy_vad \<Rightarrow> pcm_frame \<Rightarrow> vad_reading \<times> energy_vad" where
  "energy_observe cfg st f =
     energy_step cfg (dbfs (samples f)) (zero_crossing_rate (samples f)) (\<forall>v \<in> set (samples f). v = 0) st"

text \<open>The fake: a fixed list of probabilities, indexed by frame; a negative index counts from the
  end, as a Python list's does, and frame numbers are never negative.\<close>

definition scripted_observe :: "real list \<Rightarrow> real \<Rightarrow> unit \<Rightarrow> pcm_frame \<Rightarrow> vad_reading \<times> unit" where
  "scripted_observe ps level st f =
     (\<lparr>speech_probability =
         (if frame_index f < int (length ps) then ps ! nat (frame_index f) else 0),
       rms_dbfs = level, noise_floor_dbfs = level - 20, snr_db = 20, reading_zcr = 0.1\<rparr>, ())"

section \<open>The turn detector\<close>

record bargein_policy =
  policy_name :: string
  speech_probability_threshold :: real
  consecutive_speech_frames :: int
  min_snr_db :: real
  refractory_ms :: int
  require_narration_playing :: bool

definition default_policy :: bargein_policy where
  "default_policy = \<lparr>policy_name = ''default'', speech_probability_threshold = 0.6,
     consecutive_speech_frames = 6, min_snr_db = 12, refractory_ms = 2000,
     require_narration_playing = False\<rparr>"

record bargein_decision =
  at_ms :: int
  onset_ms :: int
  arm :: string
  variant :: string
  trigger :: string
  decision_spoken_ms :: int
  narration_playing :: bool
  consecutive_frames :: int
  decision_reading :: vad_reading

definition latency_ms :: "bargein_decision \<Rightarrow> int" where
  "latency_ms d = at_ms d - onset_ms d"

record detector_cfg =
  policy :: bargein_policy
  arm_name :: string
  trigger_name :: string
  onset_back_off_ms :: int

record 'v detector =
  det_vad :: 'v
  last_reading :: "vad_reading option"
  run_frames :: int
  run_started_ms :: int
  last_fired_ms :: "int option"

definition detector_reset :: "'v \<Rightarrow> 'v detector" where
  "detector_reset v = \<lparr>det_vad = v, last_reading = None, run_frames = 0, run_started_ms = 0,
     last_fired_ms = None\<rparr>"

definition suppressed :: "detector_cfg \<Rightarrow> 'v detector \<Rightarrow> int \<Rightarrow> bool" where
  "suppressed cfg d now_ms \<longleftrightarrow>
     (case last_fired_ms d of None \<Rightarrow> False | Some t \<Rightarrow> now_ms - t < refractory_ms (policy cfg))"

definition decide ::
  "detector_cfg \<Rightarrow> 'v detector \<Rightarrow> pcm_frame \<Rightarrow> vad_reading \<Rightarrow> bool \<Rightarrow> int \<Rightarrow> bargein_decision"
where
  "decide cfg d f r playing spoken =
     \<lparr>at_ms = end_ms f, onset_ms = max 0 (run_started_ms d - onset_back_off_ms cfg),
      arm = arm_name cfg, variant = policy_name (policy cfg), trigger = trigger_name cfg,
      decision_spoken_ms = spoken, narration_playing = playing,
      consecutive_frames = run_frames d, decision_reading = r\<rparr>"

definition qualifies :: "bargein_policy \<Rightarrow> vad_reading \<Rightarrow> bool" where
  "qualifies p r \<longleftrightarrow>
     speech_probability_threshold p \<le> speech_probability r \<and> min_snr_db p \<le> snr_db r"

text \<open>\<open>observe\<close>, from the reading the detector's VAD gave for the frame.\<close>

definition detect ::
  "detector_cfg \<Rightarrow> vad_reading \<Rightarrow> 'v detector \<Rightarrow> pcm_frame \<Rightarrow> bool \<Rightarrow> int
   \<Rightarrow> bargein_decision option \<times> 'v detector"
where
  "detect cfg r d f playing spoken =
     (if \<not> qualifies (policy cfg) r then (None, d\<lparr>run_frames := 0\<rparr>)
      else
        let d1 = (if run_frames d = 0 then d\<lparr>run_started_ms := start_ms f\<rparr> else d);
            d2 = d1\<lparr>run_frames := run_frames d1 + 1\<rparr>
        in if run_frames d2 < consecutive_speech_frames (policy cfg) then (None, d2)
           else if require_narration_playing (policy cfg) \<and> \<not> playing then (None, d2)
           else if suppressed cfg d2 (end_ms f) then (None, d2)
           else let d3 = d2\<lparr>last_fired_ms := Some (end_ms f)\<rparr>
                in (Some (decide cfg d3 f r playing spoken), d3))"

definition observe ::
  "detector_cfg \<Rightarrow> ('v \<Rightarrow> pcm_frame \<Rightarrow> vad_reading \<times> 'v) \<Rightarrow> 'v detector \<Rightarrow> pcm_frame \<Rightarrow> bool \<Rightarrow> int
   \<Rightarrow> bargein_decision option \<times> 'v detector"
where
  "observe cfg vad d f playing spoken =
     (case vad (det_vad d) f of (r, v) \<Rightarrow>
        detect cfg r (d\<lparr>det_vad := v, last_reading := Some r\<rparr>) f playing spoken)"

text \<open>A recording: frames with whether narration played and the position.\<close>

fun observe_all ::
  "detector_cfg \<Rightarrow> ('v \<Rightarrow> pcm_frame \<Rightarrow> vad_reading \<times> 'v) \<Rightarrow> 'v detector
   \<Rightarrow> (pcm_frame \<times> bool \<times> int) list \<Rightarrow> bargein_decision option list \<times> 'v detector"
where
  "observe_all cfg vad d [] = ([], d)"
| "observe_all cfg vad d ((f, playing, spoken) # fs) =
     (case observe cfg vad d f playing spoken of (r, d1) \<Rightarrow>
        case observe_all cfg vad d1 fs of (rs, d2) \<Rightarrow> (r # rs, d2))"

fun read_all :: "('v \<Rightarrow> pcm_frame \<Rightarrow> vad_reading \<times> 'v) \<Rightarrow> 'v \<Rightarrow> pcm_frame list \<Rightarrow> vad_reading list" where
  "read_all vad v [] = []"
| "read_all vad v (f # fs) = (case vad v f of (r, v1) \<Rightarrow> r # read_all vad v1 fs)"

section \<open>The specification of the turn detector, on the history of readings\<close>

text \<open>A heard frame is the frame, its reading, whether narration played and the position; a history
  has the newest first.\<close>

type_synonym heard = "pcm_frame \<times> vad_reading \<times> bool \<times> int"

definition run_of :: "bargein_policy \<Rightarrow> heard list \<Rightarrow> nat" where
  "run_of p h = length (takeWhile (\<lambda>x. qualifies p (fst (snd x))) h)"

definition cooled :: "detector_cfg \<Rightarrow> int option \<Rightarrow> int \<Rightarrow> bool" where
  "cooled cfg fired now \<longleftrightarrow>
     (case fired of None \<Rightarrow> True | Some t \<Rightarrow> t + refractory_ms (policy cfg) \<le> now)"

definition may_fire :: "detector_cfg \<Rightarrow> heard list \<Rightarrow> int option \<Rightarrow> bool" where
  "may_fire cfg h fired \<longleftrightarrow>
     0 < run_of (policy cfg) h \<and> consecutive_speech_frames (policy cfg) \<le> int (run_of (policy cfg) h)
     \<and> (require_narration_playing (policy cfg) \<longrightarrow> fst (snd (snd (hd h))))
     \<and> cooled cfg fired (end_ms (fst (hd h)))"

fun last_fire :: "detector_cfg \<Rightarrow> heard list \<Rightarrow> int option" where
  "last_fire cfg [] = None"
| "last_fire cfg (x # past) =
     (if may_fire cfg (x # past) (last_fire cfg past) then Some (end_ms (fst x)) else last_fire cfg past)"

fun verdict :: "detector_cfg \<Rightarrow> heard list \<Rightarrow> bargein_decision option" where
  "verdict cfg [] = None"
| "verdict cfg ((f, r, playing, spoken) # past) =
     (let h = (f, r, playing, spoken) # past; n = run_of (policy cfg) h in
      if may_fire cfg h (last_fire cfg past)
      then Some \<lparr>at_ms = end_ms f,
                 onset_ms = max 0 (start_ms (fst (h ! (n - 1))) - onset_back_off_ms cfg),
                 arm = arm_name cfg, variant = policy_name (policy cfg), trigger = trigger_name cfg,
                 decision_spoken_ms = spoken, narration_playing = playing,
                 consecutive_frames = int n, decision_reading = r\<rparr>
      else None)"

fun verdicts :: "detector_cfg \<Rightarrow> heard list \<Rightarrow> heard list \<Rightarrow> bargein_decision option list" where
  "verdicts cfg past [] = []"
| "verdicts cfg past (x # xs) = verdict cfg (x # past) # verdicts cfg (x # past) xs"

definition hear ::
  "('v \<Rightarrow> pcm_frame \<Rightarrow> vad_reading \<times> 'v) \<Rightarrow> 'v \<Rightarrow> (pcm_frame \<times> bool \<times> int) list \<Rightarrow> heard list"
where
  "hear vad v fs = map2 (\<lambda>(f, playing, spoken) r. (f, r, playing, spoken)) fs (read_all vad v (map fst fs))"

lemma hear_simps [simp]:
  "hear vad v [] = []"
  "hear vad v ((f, playing, spoken) # fs) =
     (f, fst (vad v f), playing, spoken) # hear vad (snd (vad v f)) fs"
  by (simp_all add: hear_def split: prod.split)

lemma run_of_simps [simp]:
  "run_of p [] = 0"
  "run_of p (x # h) = (if qualifies p (fst (snd x)) then Suc (run_of p h) else 0)"
  by (simp_all add: run_of_def)

definition tracks :: "detector_cfg \<Rightarrow> heard list \<Rightarrow> 'v detector \<Rightarrow> bool" where
  "tracks cfg h d \<longleftrightarrow>
     run_frames d = int (run_of (policy cfg) h)
     \<and> (0 < run_of (policy cfg) h \<longrightarrow> run_started_ms d = start_ms (fst (h ! (run_of (policy cfg) h - 1))))
     \<and> last_fired_ms d = last_fire cfg h"

lemma detect_tracks:
  assumes t: "tracks cfg h d"
  shows "fst (detect cfg r d f playing spoken) = verdict cfg ((f, r, playing, spoken) # h)
    \<and> tracks cfg ((f, r, playing, spoken) # h) (snd (detect cfg r d f playing spoken))"
proof (cases "qualifies (policy cfg) r")
  case False
  then show ?thesis using t by (simp add: detect_def tracks_def may_fire_def)
next
  case True
  let ?n = "run_of (policy cfg) h"
  have started: "run_started_ms (if run_frames d = 0 then d\<lparr>run_started_ms := start_ms f\<rparr> else d)
      = start_ms (fst (((f, r, playing, spoken) # h) ! ?n))"
    using t by (cases ?n) (auto simp: tracks_def)
  have sup: "suppressed cfg d2 now \<longleftrightarrow> \<not> cooled cfg (last_fired_ms d2) now" for now and d2 :: "'a detector"
    by (auto simp: suppressed_def cooled_def split: option.split)
  show ?thesis
    using True t started
    by (cases "run_frames d = 0")
      (auto simp: detect_def Let_def tracks_def may_fire_def sup decide_def)
qed

lemma observe_tracks:
  "tracks cfg h d \<Longrightarrow> observe cfg vad d f playing spoken = (o1, d1) \<Longrightarrow>
   o1 = verdict cfg ((f, fst (vad (det_vad d) f), playing, spoken) # h)
   \<and> tracks cfg ((f, fst (vad (det_vad d) f), playing, spoken) # h) d1
   \<and> det_vad d1 = snd (vad (det_vad d) f)"
proof -
  assume t: "tracks cfg h d" and o: "observe cfg vad d f playing spoken = (o1, d1)"
  obtain r v where v: "vad (det_vad d) f = (r, v)" by fastforce
  let ?d = "d\<lparr>det_vad := v, last_reading := Some r\<rparr>"
  have "tracks cfg h ?d" using t by (simp add: tracks_def)
  from detect_tracks [OF this, of r f playing spoken] o v
  have "o1 = verdict cfg ((f, r, playing, spoken) # h)" "tracks cfg ((f, r, playing, spoken) # h) d1"
    by (simp_all add: observe_def)
  moreover have "det_vad (snd (detect cfg r x f playing spoken)) = det_vad x" for x :: "'a detector"
    by (simp add: detect_def Let_def)
  from this [of ?d] have "det_vad d1 = v" using o v by (simp add: observe_def)
  ultimately show ?thesis using v by simp
qed

lemma observe_all_tracks:
  "tracks cfg h d \<Longrightarrow> fst (observe_all cfg vad d fs) = verdicts cfg h (hear vad (det_vad d) fs)"
proof (induction fs arbitrary: h d)
  case Nil
  then show ?case by simp
next
  case (Cons x fs)
  obtain f playing spoken where x: "x = (f, playing, spoken)" by (cases x)
  obtain o1 d1 where o: "observe cfg vad d f playing spoken = (o1, d1)" by fastforce
  from observe_tracks [OF Cons.prems o] Cons.IH show ?case
    by (auto simp: x o split: prod.split) (metis fst_conv)
qed

lemma detector_reset_tracks: "tracks cfg [] (detector_reset v)"
  by (simp add: tracks_def detector_reset_def)

lemma verdicts_length [simp]: "length (verdicts cfg past xs) = length xs"
  by (induction xs arbitrary: past) simp_all

lemma verdicts_nth:
  "i < length xs \<Longrightarrow> verdicts cfg past xs ! i = verdict cfg (rev (take (Suc i) xs) @ past)"
proof (induction xs arbitrary: past i)
  case Nil
  then show ?case by simp
next
  case (Cons x xs)
  then show ?case by (cases i) simp_all
qed

lemma verdict_SomeE:
  assumes "verdict cfg (x # past) = Some d"
  shows "may_fire cfg (x # past) (last_fire cfg past)" and "at_ms d = end_ms (fst x)"
    and "consecutive_frames d = int (run_of (policy cfg) (x # past))"
  using assms by (cases x; auto simp: Let_def split: if_splits)+

lemma last_fire_verdict:
  "last_fire cfg (x # past) =
     (case verdict cfg (x # past) of None \<Rightarrow> last_fire cfg past | Some d \<Rightarrow> Some (at_ms d))"
  by (cases x) (simp add: Let_def)

lemma cooled_trans:
  assumes "0 \<le> refractory_ms (policy cfg)" "cooled cfg t u" "cooled cfg (Some u) w"
  shows "cooled cfg t w"
  using assms by (cases t) (auto simp: cooled_def)

lemma verdicts_spaced:
  assumes "0 \<le> refractory_ms (policy cfg)"
  shows "sorted_wrt (\<lambda>a b. at_ms a + refractory_ms (policy cfg) \<le> at_ms b)
      (List.map_filter id (verdicts cfg past xs))
    \<and> (\<forall>d \<in> set (List.map_filter id (verdicts cfg past xs)). cooled cfg (last_fire cfg past) (at_ms d))"
proof (induction xs arbitrary: past)
  case Nil
  then show ?case by (simp add: List.map_filter_simps)
next
  case (Cons x xs)
  note IH = Cons.IH [of "x # past", unfolded last_fire_verdict]
  show ?case
  proof (cases "verdict cfg (x # past)")
    case None
    with IH show ?thesis by (simp add: List.map_filter_simps)
  next
    case (Some d)
    have c: "cooled cfg (last_fire cfg past) (at_ms d)"
      using verdict_SomeE(1,2) [OF Some] by (simp add: may_fire_def)
    have "cooled cfg (last_fire cfg past) (at_ms e)" if "cooled cfg (Some (at_ms d)) (at_ms e)" for e
      using cooled_trans [OF assms c that] .
    with Some IH c show ?thesis
      by (auto simp: List.map_filter_simps cooled_def)
  qed
qed

lemma run_of_all:
  "k < run_of p h \<Longrightarrow> k < length h \<and> qualifies p (fst (snd (h ! k)))"
  unfolding run_of_def by (metis length_takeWhile_le less_le_trans nth_length_takeWhile nth_mem
      set_takeWhileD takeWhile_nth)

lemma length_read_all [simp]: "length (read_all vad v fs) = length fs"
  by (induction fs arbitrary: v) (simp_all split: prod.split)

lemma length_hear [simp]: "length (hear vad v fs) = length fs"
  by (simp add: hear_def)

lemma hear_nth:
  "k < length fs \<Longrightarrow> fst (hear vad v fs ! k) = fst (fs ! k)
     \<and> (\<exists>v'. fst (snd (hear vad v fs ! k)) = fst (vad v' (fst (fs ! k))))"
proof (induction fs arbitrary: v k)
  case Nil
  then show ?case by simp
next
  case (Cons x fs)
  obtain f playing spoken where "x = (f, playing, spoken)" by (cases x)
  with Cons show ?case by (cases k) auto
qed

section \<open>The contract of a gated detector\<close>

text \<open>A detector that gives no probability to a frame it does not consider loud. With a positive
  threshold, quiet frames can neither start nor continue a barge-in.\<close>

locale gated_vad =
  fixes vad :: "'v \<Rightarrow> pcm_frame \<Rightarrow> vad_reading \<times> 'v"
    and loud :: "pcm_frame \<Rightarrow> bool"
  assumes quiet_scores_zero: "\<not> loud f \<Longrightarrow> speech_probability (fst (vad v f)) = 0"
begin

lemma decision_needs_loud_run:
  assumes pos: "0 < speech_probability_threshold (policy cfg)"
    and i: "i < length fs" and d: "fst (observe_all cfg vad (detector_reset v) fs) ! i = Some d"
  shows "0 < consecutive_frames d \<and> consecutive_speech_frames (policy cfg) \<le> consecutive_frames d
    \<and> consecutive_frames d \<le> int (Suc i) \<and> at_ms d = end_ms (fst (fs ! i))
    \<and> (\<forall>k \<le> i. int (i - k) < consecutive_frames d \<longrightarrow> loud (fst (fs ! k)))"
proof -
  let ?h = "rev (take (Suc i) (hear vad v fs))"
  have dv: "verdict cfg ?h = Some d"
    using d i observe_all_tracks [OF detector_reset_tracks, of cfg vad v fs]
    by (simp add: verdicts_nth detector_reset_def)
  have h: "?h = hear vad v fs ! i # rev (take i (hear vad v fs))"
    using i by (simp add: take_Suc_conv_app_nth)
  note e = verdict_SomeE [OF dv [unfolded h]]
  have n: "consecutive_frames d = int (run_of (policy cfg) ?h)" using e(3) unfolding h .
  have "run_of (policy cfg) ?h \<le> length ?h" unfolding run_of_def by (rule length_takeWhile_le)
  moreover have "loud (fst (fs ! k))" if k: "k \<le> i" "i - k < run_of (policy cfg) ?h" for k
  proof (rule ccontr)
    assume q: "\<not> loud (fst (fs ! k))"
    have "?h ! (i - k) = hear vad v fs ! k" using k(1) i by (simp add: rev_nth)
    with run_of_all [OF k(2)] have "qualifies (policy cfg) (fst (snd (hear vad v fs ! k)))" by simp
    with hear_nth [of k fs vad v] k(1) i quiet_scores_zero [OF q] pos show False
      by (auto simp: qualifies_def)
  qed
  ultimately show ?thesis
    using e(1,2) n hear_nth [OF i, of vad v] i unfolding h [symmetric] may_fire_def
    by (auto simp: h [symmetric])
qed

end

lemma energy_score_quiet:
  "level < absolute_floor_dbfs cfg \<Longrightarrow> speech_probability (fst (energy_score cfg level z s fl n)) = 0"
  by (simp add: energy_score_def Let_def)

interpretation energy: gated_vad "energy_observe cfg" "\<lambda>f. absolute_floor_dbfs cfg \<le> dbfs (samples f)" for cfg
  by unfold_locales
    (auto simp: energy_observe_def energy_step_def energy_score_quiet split: option.split)

interpretation scripted: gated_vad "scripted_observe ps level" "\<lambda>f. frame_index f < int (length ps)" for ps level
  by unfold_locales (simp add: scripted_observe_def)

section \<open>The noise floor\<close>

lemma energy_score_floor:
  assumes "absolute_floor_dbfs cfg \<le> fl" "0 \<le> up_step_db cfg" "0 \<le> down_step_db cfg" "warmup_frames cfg \<le> n"
  shows "\<exists>fl' n'. snd (energy_score cfg level z s fl n) = \<lparr>floor_dbfs = Some fl', frames_counted = n'\<rparr>
    \<and> absolute_floor_dbfs cfg \<le> fl' \<and> warmup_frames cfg \<le> n'
    \<and> fl' \<le> fl + up_step_db cfg \<and> fl - down_step_db cfg \<le> fl'"
  using assms by (auto simp: energy_score_def Let_def max_def)

lemma energy_observe_floor:
  assumes "floor_dbfs st = Some fl"
  shows "energy_observe cfg st f = energy_score cfg (dbfs (samples f)) (zero_crossing_rate (samples f))
    (\<forall>v \<in> set (samples f). v = 0) fl (frames_counted st)"
  using assms by (simp add: energy_observe_def energy_step_def)

definition energy_after :: "energy_cfg \<Rightarrow> pcm_frame list \<Rightarrow> energy_vad \<Rightarrow> energy_vad" where
  "energy_after cfg fs st = fold (\<lambda>f st. snd (energy_observe cfg st f)) fs st"

lemma energy_after_floor:
  assumes "floor_dbfs st = Some fl" "absolute_floor_dbfs cfg \<le> fl" "0 \<le> up_step_db cfg"
    "0 \<le> down_step_db cfg" "warmup_frames cfg \<le> frames_counted st"
  shows "\<exists>fl'. floor_dbfs (energy_after cfg fs st) = Some fl' \<and> absolute_floor_dbfs cfg \<le> fl'
    \<and> fl' \<le> fl + real (length fs) * up_step_db cfg \<and> fl - real (length fs) * down_step_db cfg \<le> fl'"
  using assms
proof (induction fs arbitrary: st fl)
  case Nil
  then show ?case by (simp add: energy_after_def)
next
  case (Cons f fs)
  obtain fl1 n1 where 1: "snd (energy_observe cfg st f) = \<lparr>floor_dbfs = Some fl1, frames_counted = n1\<rparr>"
    "absolute_floor_dbfs cfg \<le> fl1" "warmup_frames cfg \<le> n1" "fl1 \<le> fl + up_step_db cfg"
    "fl - down_step_db cfg \<le> fl1"
    using energy_score_floor [OF Cons.prems(2-5)] energy_observe_floor [OF Cons.prems(1)] by metis
  let ?st = "\<lparr>floor_dbfs = Some fl1, frames_counted = n1\<rparr>"
  have "\<exists>fl'. floor_dbfs (energy_after cfg fs ?st) = Some fl' \<and> absolute_floor_dbfs cfg \<le> fl'
    \<and> fl' \<le> fl1 + real (length fs) * up_step_db cfg \<and> fl1 - real (length fs) * down_step_db cfg \<le> fl'"
    by (rule Cons.IH) (use Cons.prems 1 in auto)
  with 1 show ?case by (auto simp: energy_after_def algebra_simps)
qed

lemma rms_zeros: "\<forall>v \<in> set xs. v = 0 \<Longrightarrow> rms xs = 0"
proof -
  assume "\<forall>v \<in> set xs. v = 0"
  then have "sum_list (map (\<lambda>v. v * v) xs) = 0" by (induction xs) auto
  then show ?thesis by (simp add: rms_def)
qed

lemma dbfs_zeros: "\<forall>v \<in> set xs. v = 0 \<Longrightarrow> dbfs xs = SILENCE_DBFS"
  by (simp add: dbfs_def rms_zeros)

lemma energy_quiet_step:
  assumes "floor_dbfs st = Some fl" "absolute_floor_dbfs cfg \<le> fl" "dbfs (samples f) < absolute_floor_dbfs cfg"
    "0 \<le> down_step_db cfg"
  shows "snd (energy_observe cfg st f) = st\<lparr>floor_dbfs := Some
    (if \<forall>v \<in> set (samples f). v = 0 then fl else max (fl - down_step_db cfg) (absolute_floor_dbfs cfg))\<rparr>"
  using assms energy_observe_floor [OF assms(1), of cfg f]
  by (auto simp: energy_score_def Let_def)

lemma energy_quiet_run:
  assumes "floor_dbfs st = Some fl" "absolute_floor_dbfs cfg \<le> fl" "0 \<le> down_step_db cfg"
    "\<forall>f \<in> set fs. dbfs (samples f) < absolute_floor_dbfs cfg"
  shows "energy_after cfg fs st = st\<lparr>floor_dbfs := Some
    (max (fl - real (length (filter (\<lambda>f. \<exists>v \<in> set (samples f). v \<noteq> 0) fs)) * down_step_db cfg)
       (absolute_floor_dbfs cfg))\<rparr>"
  using assms
proof (induction fs arbitrary: st fl)
  case Nil
  then show ?case by (simp add: energy_after_def)
next
  case (Cons f fs)
  have q: "dbfs (samples f) < absolute_floor_dbfs cfg" using Cons.prems(4) by simp
  note st = energy_quiet_step [OF Cons.prems(1,2) q Cons.prems(3)]
  define fl1 where "fl1 = (if \<forall>v \<in> set (samples f). v = 0 then fl
    else max (fl - down_step_db cfg) (absolute_floor_dbfs cfg))"
  have "energy_after cfg fs (st\<lparr>floor_dbfs := Some fl1\<rparr>) = (st\<lparr>floor_dbfs := Some fl1\<rparr>)\<lparr>floor_dbfs := Some
    (max (fl1 - real (length (filter (\<lambda>f. \<exists>v \<in> set (samples f). v \<noteq> 0) fs)) * down_step_db cfg)
       (absolute_floor_dbfs cfg))\<rparr>"
    by (rule Cons.IH) (use Cons.prems in \<open>auto simp: fl1_def\<close>)
  moreover have "energy_after cfg (f # fs) st = energy_after cfg fs (st\<lparr>floor_dbfs := Some fl1\<rparr>)"
    by (simp add: energy_after_def st fl1_def)
  moreover have "max (max (a - b) c - m) c = max (a - (b + m)) c" if "0 \<le> b" "0 \<le> m" for a b c m :: real
    using that by (simp add: max_def)
  ultimately show ?case using Cons.prems(3) by (auto simp: fl1_def algebra_simps)
qed

section \<open>Properties\<close>

text \<open>C20: The turn detector is its specification. Over any detector and any recording, frame by frame, the
  state machine decides exactly what the history says: a barge-in at the end of a frame when the run
  of qualifying frames up to it is non-empty and long enough, narration is playing if the policy
  wants that, and the refractory time since the last barge-in is over; its onset is the start of the
  run's first frame less the back-off, and its count is the length of the run.\<close>

theorem detector_implements_history_spec:
  "fst (observe_all cfg vad (detector_reset v) fs) = verdicts cfg [] (hear vad v fs)"
  using observe_all_tracks [OF detector_reset_tracks, of cfg vad v fs] by (simp add: detector_reset_def)

text \<open>One utterance is one barge-in. The decisions of a recording are at least \<open>refractory_ms\<close> apart,
  whatever the frames and the readings.\<close>

theorem decisions_are_spaced:
  assumes "0 \<le> refractory_ms (policy cfg)"
  shows "sorted_wrt (\<lambda>a b. at_ms a + refractory_ms (policy cfg) \<le> at_ms b)
    (List.map_filter id (fst (observe_all cfg vad (detector_reset v) fs)))"
  using verdicts_spaced [OF assms, of "[]" "hear vad v fs"]
    observe_all_tracks [OF detector_reset_tracks, of cfg vad v fs]
  by (simp add: detector_reset_def)

definition demo_cfg :: "int \<Rightarrow> int \<Rightarrow> detector_cfg" where
  "demo_cfg n gap = \<lparr>policy = default_policy\<lparr>consecutive_speech_frames := n, refractory_ms := gap\<rparr>,
     arm_name = ''composed'', trigger_name = ''local_vad'', onset_back_off_ms = 0\<rparr>"

definition demo_frames :: "int list \<Rightarrow> (pcm_frame \<times> bool \<times> int) list" where
  "demo_frames is = map (\<lambda>i. (\<lparr>frame_index = i, start_ms = 20 * i, frame_duration = 20, samples = []\<rparr>,
     True, 0)) is"

lemma demo_fires:
  "map (map_option at_ms) (fst (observe_all (demo_cfg 2 40) (scripted_observe [0.9, 0.9, 0.9, 0.9] (- 30))
     (detector_reset ()) (demo_frames [0, 1, 2, 3]))) = [None, Some 40, None, Some 80]"
  by (simp add: demo_frames_def demo_cfg_def default_policy_def observe_def scripted_observe_def
      detect_def detector_reset_def qualifies_def suppressed_def decide_def end_ms_def Let_def)

theorem decisions_are_spaced_witness:
  "let ds = List.map_filter id (fst (observe_all (demo_cfg 2 40) (scripted_observe [0.9, 0.9, 0.9, 0.9] (- 30))
       (detector_reset ()) (demo_frames [0, 1, 2, 3])))
   in map at_ms ds = [40, 80] \<and> sorted_wrt (\<lambda>a b. at_ms a + 40 \<le> at_ms b) ds"
proof -
  let ?o = "fst (observe_all (demo_cfg 2 40) (scripted_observe [0.9, 0.9, 0.9, 0.9] (- 30))
       (detector_reset ()) (demo_frames [0, 1, 2, 3]))"
  have "map at_ms (List.map_filter id ?o) = List.map_filter id (map (map_option at_ms) ?o)"
    for f :: "bargein_decision \<Rightarrow> int"
    by (simp add: List.map_filter_def filter_map comp_def option.map_sel)
  then have "map at_ms (List.map_filter id ?o) = [40, 80]"
    unfolding demo_fires by (simp add: List.map_filter_simps)
  then show ?thesis
    using decisions_are_spaced [of "demo_cfg 2 40" "scripted_observe [0.9, 0.9, 0.9, 0.9] (- 30)" "()"
        "demo_frames [0, 1, 2, 3]"]
    by (simp add: demo_cfg_def)
qed

text \<open>A barge-in needs a run of frames loud enough to measure. With the energy detector and a positive
  threshold, a decision at a frame comes at that frame's end, its count is at least the policy's and
  at most the frames heard, and every frame it counts is at or above the absolute floor: silence
  and the residue of a suppressed microphone can never interrupt, nor lie inside a run.\<close>

theorem barge_in_needs_loud_run:
  assumes "0 < speech_probability_threshold (policy cfg)" and "i < length fs"
    and "fst (observe_all cfg (energy_observe ecfg) (detector_reset v) fs) ! i = Some d"
  shows "0 < consecutive_frames d \<and> consecutive_speech_frames (policy cfg) \<le> consecutive_frames d
    \<and> consecutive_frames d \<le> int (Suc i) \<and> at_ms d = end_ms (fst (fs ! i))
    \<and> (\<forall>k \<le> i. int (i - k) < consecutive_frames d \<longrightarrow> absolute_floor_dbfs ecfg \<le> dbfs (samples (fst (fs ! k))))"
  by (rule energy.decision_needs_loud_run [OF assms])

text \<open>A full-scale frame, and the default detector without its lower zero-crossing bound.\<close>

definition loud_frame :: pcm_frame where
  "loud_frame = \<lparr>frame_index = 0, start_ms = 0, frame_duration = 20, samples = [- 32768, - 32768]\<rparr>"

definition flat_cfg :: energy_cfg where
  "flat_cfg = default_energy_cfg\<lparr>min_zcr := 0\<rparr>"

lemma loud_frame_dbfs: "dbfs (samples loud_frame) = 0"
  by (simp add: loud_frame_def dbfs_def rms_def FULL_SCALE_def SILENCE_DBFS_def real_sqrt_eq_iff)

theorem barge_in_needs_loud_run_witness:
  "\<exists>d. fst (observe_all (demo_cfg 1 0) (energy_observe flat_cfg)
      (detector_reset \<lparr>floor_dbfs = Some (- 55), frames_counted = 0\<rparr>) [(loud_frame, True, 0)]) = [Some d]
    \<and> consecutive_frames d = 1"
proof -
  let ?v = "\<lparr>floor_dbfs = Some (- 55), frames_counted = 0\<rparr>"
  let ?o = "fst (observe_all (demo_cfg 1 0) (energy_observe flat_cfg) (detector_reset ?v) [(loud_frame, True, 0)])"
  let ?r = "fst (energy_observe flat_cfg ?v loud_frame)"
  have z: "zero_crossing_rate (samples loud_frame) = 0"
    by (simp add: loud_frame_def zero_crossing_rate_def)
  have "exp (- (37 / 3)) \<le> (1 / 2 :: real)"
  proof -
    have "1 + 37 / 3 \<le> exp (37 / 3 :: real)" by (rule exp_ge_add_one_self)
    then have "2 \<le> exp (37 / 3 :: real)" by simp
    then show ?thesis unfolding exp_minus by (simp add: field_simps)
  qed
  then have "0.6 \<le> 1 / (1 + exp (- (37 / 3 :: real)))"
    by (simp add: field_simps add_pos_pos)
  then have "qualifies (policy (demo_cfg 1 0)) ?r"
    by (simp add: energy_observe_def energy_step_def energy_score_def loud_frame_dbfs z
        flat_cfg_def default_energy_cfg_def logistic_def demo_cfg_def default_policy_def qualifies_def Let_def)
  then have "\<exists>d. ?o = [Some d]"
    by (cases "energy_observe flat_cfg ?v loud_frame")
      (simp add: observe_def detect_def detector_reset_def Let_def suppressed_def demo_cfg_def default_policy_def)
  then obtain d where d: "?o = [Some d]" by blast
  have "consecutive_frames d = 1"
    using barge_in_needs_loud_run [of "demo_cfg 1 0" 0 "[(loud_frame, True, 0)]" flat_cfg ?v d] d
    by (simp add: demo_cfg_def default_policy_def)
  with d show ?thesis by blast
qed

text \<open>A loud event cannot drag the noise floor and quiet brings it back. Past the warm-up, \<open>n\<close> frames
  of any sound raise the floor by at most \<open>n\<close> up-steps and lower it by at most \<open>n\<close> down-steps, never
  below the absolute floor; frames under the absolute floor lower it by one down-step each until it
  is there, except digital silence, which leaves it alone, and leave the warm-up count alone.\<close>

theorem noise_floor_moves_slowly:
  assumes "floor_dbfs st = Some fl" and "absolute_floor_dbfs cfg \<le> fl" and "0 \<le> up_step_db cfg"
    and "0 \<le> down_step_db cfg" and "warmup_frames cfg \<le> frames_counted st"
  shows "(\<exists>fl'. floor_dbfs (energy_after cfg fs st) = Some fl' \<and> absolute_floor_dbfs cfg \<le> fl'
      \<and> fl' \<le> fl + real (length fs) * up_step_db cfg \<and> fl - real (length fs) * down_step_db cfg \<le> fl')
    \<and> ((\<forall>f \<in> set fs. dbfs (samples f) < absolute_floor_dbfs cfg) \<longrightarrow>
        energy_after cfg fs st = st\<lparr>floor_dbfs := Some
          (max (fl - real (length (filter (\<lambda>f. \<exists>v \<in> set (samples f). v \<noteq> 0) fs)) * down_step_db cfg)
             (absolute_floor_dbfs cfg))\<rparr>)"
  using energy_after_floor [OF assms] energy_quiet_run [OF assms(1,2,4)] by blast

theorem noise_floor_moves_slowly_witness:
  "\<exists>fl'. floor_dbfs (energy_after default_energy_cfg (replicate 75 loud_frame)
      \<lparr>floor_dbfs = Some (- 50), frames_counted = 50\<rparr>) = Some fl' \<and> - 55 \<le> fl' \<and> fl' \<le> - 46.25"
  using noise_floor_moves_slowly [of "\<lparr>floor_dbfs = Some (- 50), frames_counted = 50\<rparr>" "- 50"
      default_energy_cfg "replicate 75 loud_frame"]
  by (auto simp: default_energy_cfg_def)

end
