(* ===== verification/Position.thy ===== *)
theory Position
  imports Prelude
begin

text \<open>
  Where the listener interrupted, \<open>voice/src/motet_voice/position.py\<close>, over the timed transcript of
  \<open>contract.py\<close>. A model's \<open>==\<close> is equality of the records. The one character outside ASCII in the
  module's text, a dash, is written as its UTF-8 bytes.
\<close>

section \<open>Transcript and position\<close>

record timed_claim =
  claim_start :: int
  claim_end :: int
  spoken_text :: string
  claim_source_item :: "string option"
  claim_span_start :: int
  claim_span_end :: int

record timed_segment =
  segment_title :: string
  segment_start :: int
  segment_end :: int
  segment_news_item :: "string option"
  segment_claims :: "timed_claim list"

definition RECENT_WINDOW_MS :: int where "RECENT_WINDOW_MS = 25000"
definition RECENT_MAX_CHARS :: int where "RECENT_MAX_CHARS = 1200"

record position =
  offset_ms :: int
  pos_segment :: "timed_segment option"
  pos_claim :: "timed_claim option"
  pos_heard :: "timed_claim list"
  pos_recent :: "string list"
  earlier_titles :: "string list"
  later_titles :: "string list"
  all_titles :: "string list"

definition format_clock :: "int \<Rightarrow> string" where
  "format_clock offset =
     (let seconds = max 0 offset div 1000
      in py_str (seconds div 60) @ '':'' @ two_digits (seconds mod 60))"

definition during :: "int \<Rightarrow> int \<Rightarrow> int \<Rightarrow> bool" where
  "during a b offset \<longleftrightarrow> a \<le> offset \<and> offset < max b (a + 1)"

definition current_segment :: "timed_segment list \<Rightarrow> int \<Rightarrow> timed_segment" where
  "current_segment ordered offset =
     (case find (\<lambda>s. during (segment_start s) (segment_end s) offset) ordered of
        Some s \<Rightarrow> s
      | None \<Rightarrow> if segment_end (last ordered) \<le> offset then last ordered else hd ordered)"

definition current_claim :: "timed_segment \<Rightarrow> int \<Rightarrow> timed_claim option" where
  "current_claim seg offset =
     (case find (\<lambda>c. during (claim_start c) (claim_end c) offset) (segment_claims seg) of
        Some c \<Rightarrow> Some c
      | None \<Rightarrow> if segment_claims seg \<noteq> [] \<and> segment_end seg \<le> offset
                then Some (last (segment_claims seg)) else None)"

definition recent_texts :: "timed_segment list \<Rightarrow> timed_claim option \<Rightarrow> int \<Rightarrow> string list" where
  "recent_texts ordered claim offset =
     (let recent = map spoken_text
                     (filter (\<lambda>c. spoken_text c \<noteq> [] \<and> claim_start c < offset
                                   \<and> offset - RECENT_WINDOW_MS < claim_end c)
                        (concat (map segment_claims ordered)))
      in case claim of
           Some c \<Rightarrow> if spoken_text c \<noteq> [] \<and> spoken_text c \<notin> set recent
                      then recent @ [spoken_text c] else recent
         | None \<Rightarrow> recent)"

fun index_of :: "'a \<Rightarrow> 'a list \<Rightarrow> nat" where
  "index_of x [] = 0"
| "index_of x (y # ys) = (if x = y then 0 else Suc (index_of x ys))"

definition titles :: "timed_segment list \<Rightarrow> string list" where
  "titles segs = filter (\<lambda>t. t \<noteq> []) (map segment_title segs)"

definition locate :: "timed_segment list \<Rightarrow> int \<Rightarrow> position" where
  "locate transcript offset =
     (if transcript = []
      then \<lparr>offset_ms = offset, pos_segment = None, pos_claim = None, pos_heard = [], pos_recent = [],
            earlier_titles = [], later_titles = [], all_titles = []\<rparr>
      else
        let ordered = sort_key segment_start transcript;
            current = current_segment ordered offset;
            claim = current_claim current offset;
            index = index_of current ordered
        in \<lparr>offset_ms = offset, pos_segment = Some current, pos_claim = claim,
            pos_heard = filter (\<lambda>c. claim_end c \<le> offset \<and> spoken_text c \<noteq> [])
                          (concat (map segment_claims ordered)),
            pos_recent = recent_texts ordered claim offset,
            earlier_titles = titles (take index ordered),
            later_titles = titles (drop (Suc index) ordered),
            all_titles = map segment_title ordered\<rparr>)"

text \<open>\<open>_bounded\<close>: the loop over the reversed pieces. \<open>kept\<close> is built newest first.\<close>

fun bounded_loop :: "int \<Rightarrow> string list \<Rightarrow> int \<Rightarrow> string list \<Rightarrow> string list" where
  "bounded_loop max_chars kept used [] = kept"
| "bounded_loop max_chars kept used (p # ps) =
     (if kept \<noteq> [] \<and> max_chars < used + int (length p) + 1 then kept
      else bounded_loop max_chars (kept @ [p]) (used + int (length p) + 1) ps)"

definition bounded :: "string list \<Rightarrow> int \<Rightarrow> string" where
  "bounded pieces max_chars = py_join '' '' (rev (bounded_loop max_chars [] 0 (rev pieces)))"

definition em_dash :: string where
  "em_dash = [CHR 0xE2, CHR 0x80, CHR 0x94]"

definition listed :: "string list \<Rightarrow> string \<Rightarrow> string" where
  "listed xs none = (if xs = [] then none else py_join '', '' xs)"

definition position_notes :: "timed_segment list \<Rightarrow> int \<Rightarrow> string" where
  "position_notes transcript offset =
     (let p = locate transcript offset in
      case pos_segment p of
        None \<Rightarrow> []
      | Some seg \<Rightarrow>
          let opening = ''The listener interrupted the briefing at '' @ format_clock (offset_ms p)
                @ '', during the story '' @ quote @ segment_title seg @ quote;
              said = (case pos_claim p of
                        Some c \<Rightarrow>
                          if spoken_text c \<noteq> []
                          then '', while this was being said: '' @ quote @ spoken_text c @ quote @ ''.''
                          else ''.''
                      | None \<Rightarrow> ''.'');
              recent = bounded (pos_recent p) RECENT_MAX_CHARS
          in py_join '' ''
               ([opening @ said]
                @ (if recent \<noteq> []
                   then [''Narration in the last ~'' @ py_str (RECENT_WINDOW_MS div 1000)
                         @ '' seconds: '' @ quote @ recent @ quote] else [])
                @ [''Earlier stories already heard: '' @ listed (earlier_titles p) ''none yet'' @ ''.'',
                   ''Stories not yet reached: ''
                     @ listed (later_titles p) (''none '' @ em_dash @ '' this is the last'') @ ''.'',
                   ''When they say '' @ quote @ ''that'' @ quote @ '', '' @ quote @ ''this'' @ quote
                     @ '', '' @ quote @ ''they'' @ quote @ '', or '' @ quote @ ''what was that number''
                     @ quote @ '', assume they mean what was just said.'']))"

section \<open>Facts\<close>

definition cost :: "string list \<Rightarrow> int" where
  "cost ps = sum_list (map (\<lambda>p. int (length p) + 1) ps)"

lemma cost_simps [simp]: "cost [] = 0" "cost (p # ps) = int (length p) + 1 + cost ps"
  "cost (ps @ qs) = cost ps + cost qs"
  by (simp_all add: cost_def)

text \<open>The loop keeps a prefix: at least one piece, more only while they fit, and as many as fit.\<close>

lemma bounded_loop_prefix:
  assumes "used = cost kept"
  shows "\<exists>k \<le> length ps. bounded_loop m kept used ps = kept @ take k ps
    \<and> (kept = [] \<and> ps \<noteq> [] \<longrightarrow> 0 < k)
    \<and> (0 < k \<and> 1 < length kept + k \<longrightarrow> cost (kept @ take k ps) \<le> m)
    \<and> (k < length ps \<longrightarrow> m < cost (kept @ take (Suc k) ps))"
  using assms
proof (induction m kept used ps rule: bounded_loop.induct)
  case (1 m kept used)
  then show ?case by simp
next
  case (2 m kept used p ps)
  show ?case
  proof (cases "kept \<noteq> [] \<and> m < used + int (length p) + 1")
    case True
    with 2 show ?thesis by (intro exI [of _ 0]) simp
  next
    case False
    with 2 obtain k where k: "k \<le> length ps"
      "bounded_loop m (kept @ [p]) (used + int (length p) + 1) ps = (kept @ [p]) @ take k ps"
      "0 < k \<and> 1 < length (kept @ [p]) + k \<longrightarrow> cost ((kept @ [p]) @ take k ps) \<le> m"
      "k < length ps \<longrightarrow> m < cost ((kept @ [p]) @ take (Suc k) ps)"
      by auto
    show ?thesis
    proof (intro exI [of _ "Suc k"] conjI impI)
      show "cost (kept @ take (Suc k) (p # ps)) \<le> m" if "0 < Suc k \<and> 1 < length kept + Suc k"
        using that k(3) False 2 by (cases "k = 0") auto
    qed (use k False in auto)
  qed
qed

lemma index_of_append: "x \<notin> set xs \<Longrightarrow> index_of x (xs @ x # ys) = length xs"
  by (induction xs) auto

lemma during_proper: "a < b \<Longrightarrow> during a b offset \<longleftrightarrow> a \<le> offset \<and> offset < b"
  by (auto simp: during_def)

lemma find_unique:
  assumes "x \<in> set xs" "P x" "\<And>y. y \<in> set xs \<Longrightarrow> P y \<Longrightarrow> y = x"
  shows "find P xs = Some x"
proof (cases "find P xs")
  case None
  with assms(1,2) show ?thesis by (simp add: find_None_iff)
next
  case (Some y)
  with find_SomeD [OF Some] assms(3) show ?thesis by simp
qed

lemma current_segment_in: "ordered \<noteq> [] \<Longrightarrow> current_segment ordered offset \<in> set ordered"
  unfolding current_segment_def
  by (cases "find (\<lambda>s. during (segment_start s) (segment_end s) offset) ordered")
    (auto dest: find_SomeD)

lemma current_claim_in:
  assumes "current_claim seg offset = Some c"
    and "\<And>c. c \<in> set (segment_claims seg) \<Longrightarrow> claim_start c \<le> segment_end seg"
  shows "c \<in> set (segment_claims seg) \<and> claim_start c \<le> offset"
proof (cases "find (\<lambda>c. during (claim_start c) (claim_end c) offset) (segment_claims seg)")
  case None
  with assms(1) have "c = last (segment_claims seg)" "segment_claims seg \<noteq> []" "segment_end seg \<le> offset"
    by (auto simp: current_claim_def split: if_splits)
  with assms(2) [of c] show ?thesis by auto
next
  case (Some x)
  with assms(1) have "x = c" by (simp add: current_claim_def)
  with find_SomeD [OF Some] show ?thesis by (simp add: during_def)
qed

section \<open>Properties\<close>

text \<open>The story named is the one playing. In a transcript whose stories do not overlap, an offset
  inside a story (its start included, its end not) locates that story, whatever order the caller
  sent the stories in; the stories already heard are those that had ended and the stories to come
  those that had not begun, both in narration order.\<close>

theorem locate_finds_playing_story:
  assumes apart: "sorted_wrt (\<lambda>a b. segment_end a \<le> segment_start b) (sort_key segment_start transcript)"
    and proper: "\<forall>g \<in> set transcript. segment_start g < segment_end g"
    and s: "s \<in> set transcript" "segment_start s \<le> offset" "offset < segment_end s"
  shows "let p = locate transcript offset; ordered = sort_key segment_start transcript in
    pos_segment p = Some s
    \<and> earlier_titles p = titles (filter (\<lambda>g. segment_end g \<le> offset) ordered)
    \<and> later_titles p = titles (filter (\<lambda>g. offset < segment_start g) ordered)"
proof -
  let ?o = "sort_key segment_start transcript"
  from s(1) obtain xs ys where o: "?o = xs @ s # ys" by (metis set_sort split_list)
  have mem: "g \<in> set xs \<or> g = s \<or> g \<in> set ys \<longleftrightarrow> g \<in> set transcript" for g
    using arg_cong [OF o, of set] by auto
  have before: "segment_end g \<le> offset" if "g \<in> set xs" for g
    using apart that s(2) unfolding o sorted_wrt_append by force
  have after: "offset < segment_start g" if "g \<in> set ys" for g
    using apart that s(3) unfolding o sorted_wrt_append by force
  have here: "g = s" if "g \<in> set ?o" "during (segment_start g) (segment_end g) offset" for g
  proof -
    have "segment_start g \<le> offset" "offset < segment_end g"
      using that proper during_proper by auto
    with that(1) before [of g] after [of g] show ?thesis unfolding o by fastforce
  qed
  have playing: "during (segment_start s) (segment_end s) offset" using s proper during_proper by blast
  have "find (\<lambda>g. during (segment_start g) (segment_end g) offset) ?o = Some s"
  proof (rule find_unique)
    show "s \<in> set ?o" using s(1) by simp
    show "during (segment_start s) (segment_end s) offset" by (fact playing)
  qed (rule here)
  then have cur: "current_segment ?o offset = s" by (simp add: current_segment_def)
  have notin: "s \<notin> set xs" using before s(3) by force
  have sub: "segment_start g < segment_end g" if "g \<in> set xs \<or> g \<in> set ys" for g
    using that proper mem by blast
  have "\<forall>g \<in> set ys. \<not> segment_end g \<le> offset" "\<forall>g \<in> set xs. \<not> offset < segment_start g"
    using after before sub by force+
  then have "filter (\<lambda>g. segment_end g \<le> offset) ?o = xs" "filter (\<lambda>g. offset < segment_start g) ?o = ys"
    unfolding o using before after s(2,3) by (simp_all add: filter_empty_conv filter_id_conv)
  moreover have "index_of s ?o = length xs" unfolding o by (rule index_of_append [OF notin])
  ultimately show ?thesis
    using s(1) cur o by (auto simp: locate_def Let_def)
qed

definition demo_claim :: "int \<Rightarrow> int \<Rightarrow> string \<Rightarrow> timed_claim" where
  "demo_claim a b t = \<lparr>claim_start = a, claim_end = b, spoken_text = t, claim_source_item = None,
     claim_span_start = 0, claim_span_end = 0\<rparr>"

definition demo_transcript :: "timed_segment list" where
  "demo_transcript =
     [\<lparr>segment_title = ''B'', segment_start = 1000, segment_end = 2000, segment_news_item = None,
       segment_claims = [demo_claim 1000 1500 ''b1'', demo_claim 1500 2000 ''b2'']\<rparr>,
      \<lparr>segment_title = ''A'', segment_start = 0, segment_end = 1000, segment_news_item = None,
       segment_claims = [demo_claim 0 1000 ''a1'']\<rparr>]"

theorem locate_finds_playing_story_witness:
  "map_option segment_title (pos_segment (locate demo_transcript 1000)) = Some ''B''
   \<and> earlier_titles (locate demo_transcript 1000) = [''A'']"
  using locate_finds_playing_story [of demo_transcript "hd demo_transcript" 1000]
  by (simp add: demo_transcript_def titles_def Let_def)

text \<open>What the model is told was said had been said. When each story's claims end with the story, every
  quoted text is that of a claim that had started by the offset, every claim reported as heard had
  ended, and everything said in the last twenty-five seconds is quoted.\<close>

theorem recent_text_was_spoken:
  assumes "\<forall>g \<in> set transcript. \<forall>c \<in> set (segment_claims g). claim_start c \<le> segment_end g"
  shows "let p = locate transcript offset; claims = concat (map segment_claims transcript) in
    set (pos_recent p) \<subseteq> spoken_text ` {c \<in> set claims. claim_start c \<le> offset}
    \<and> set (pos_heard p) = {c \<in> set claims. claim_end c \<le> offset \<and> spoken_text c \<noteq> []}
    \<and> spoken_text ` {c \<in> set claims. spoken_text c \<noteq> [] \<and> claim_start c < offset
         \<and> offset - 25000 < claim_end c} \<subseteq> set (pos_recent p)"
proof (cases "transcript = []")
  case True
  then show ?thesis by (simp add: locate_def)
next
  case False
  let ?o = "sort_key segment_start transcript"
  let ?g = "current_segment ?o offset"
  have ne: "?o \<noteq> []" using False by (metis set_empty set_sort)
  have g: "?g \<in> set transcript" using current_segment_in [OF ne] by simp
  have claim: "c \<in> set (segment_claims ?g) \<and> claim_start c \<le> offset" if "current_claim ?g offset = Some c" for c
    using current_claim_in [OF that] assms g by blast
  have "set (recent_texts ?o (current_claim ?g offset) offset)
      \<subseteq> spoken_text ` {c \<in> set (concat (map segment_claims transcript)). claim_start c \<le> offset}"
    using claim g by (auto simp: recent_texts_def Let_def image_iff split: option.splits if_splits)
  moreover have "spoken_text ` {c \<in> set (concat (map segment_claims transcript)). spoken_text c \<noteq> []
      \<and> claim_start c < offset \<and> offset - 25000 < claim_end c}
      \<subseteq> set (recent_texts ?o (current_claim ?g offset) offset)"
    by (auto simp: recent_texts_def Let_def RECENT_WINDOW_MS_def split: option.splits)
  ultimately show ?thesis using False by (auto simp: locate_def Let_def)
qed

theorem recent_text_was_spoken_witness:
  "set (pos_recent (locate demo_transcript 1600))
     \<subseteq> spoken_text ` {c \<in> set (concat (map segment_claims demo_transcript)). claim_start c \<le> 1600}"
proof -
  have "\<forall>g \<in> set demo_transcript. \<forall>c \<in> set (segment_claims g). claim_start c \<le> segment_end g"
    by (simp add: demo_transcript_def demo_claim_def)
  from recent_text_was_spoken [OF this, of 1600] show ?thesis by (simp add: Let_def)
qed

text \<open>The quoted window keeps the newest text. \<open>_bounded\<close> joins a suffix of the pieces, in order; the
  suffix is not empty unless there are no pieces, holds more than one piece only within the cap, a
  separator counted for each, and is the longest such.\<close>

theorem bounded_keeps_newest:
  "\<exists>k. bounded pieces m = py_join '' '' (drop k pieces) \<and> k \<le> length pieces
    \<and> (pieces = [] \<or> k < length pieces)
    \<and> (1 < length pieces - k \<longrightarrow> cost (drop k pieces) \<le> m)
    \<and> (k = 0 \<or> m < cost (drop (k - 1) pieces))"
proof -
  have rev_cost: "cost (rev ps) = cost ps" for ps by (induction ps) simp_all
  obtain k where k: "k \<le> length pieces" "bounded_loop m [] 0 (rev pieces) = take k (rev pieces)"
    "pieces \<noteq> [] \<longrightarrow> 0 < k" "1 < k \<longrightarrow> cost (take k (rev pieces)) \<le> m"
    "k < length pieces \<longrightarrow> m < cost (take (Suc k) (rev pieces))"
    using bounded_loop_prefix [of 0 "[]" "rev pieces" m] by auto
  note take = take_rev [of _ pieces]
  show ?thesis
    by (rule exI [of _ "length pieces - k"])
      (use k in \<open>auto simp: bounded_def take rev_cost Suc_diff_le\<close>)
qed

text \<open>An offset in a gap between stories is reported as the first story, not the nearest one.\<close>

lemma gap_reports_first_story:
  "map_option segment_title (pos_segment (locate
     [\<lparr>segment_title = ''A'', segment_start = 0, segment_end = 10, segment_news_item = None, segment_claims = []\<rparr>,
      \<lparr>segment_title = ''B'', segment_start = 10, segment_end = 20, segment_news_item = None, segment_claims = []\<rparr>,
      \<lparr>segment_title = ''C'', segment_start = 22, segment_end = 30, segment_news_item = None, segment_claims = []\<rparr>]
     21)) = Some ''A''"
  by (simp add: locate_def current_segment_def during_def Let_def)

end
