(* ===== verification/Session.thy ===== *)
theory Session
  imports Clock Bargein Position
begin

text \<open>
  The listening half of a voice session, \<open>voice/src/motet_voice/session.py\<close>: the playback clock, the
  turn detector and the audio not yet cut into frames, with the operations the socket calls. It is
  written over any turn detector, as in the source; \<open>turn_detector\<close> is the interface. The monotonic
  clock is an argument: for the frame of a given number, the times at which its position is read and
  its barge-in, if it is one, is taken. The vendor's live channel, the conversational turns and the
  log lines are not modelled.
\<close>

section \<open>State and events\<close>

datatype turn_mode = OpenMic | PushToTalk

record session_cfg =
  turn_mode :: turn_mode
  transcript :: "timed_segment list"
  session_arm :: string

record 'd session =
  s_clock :: clock
  s_detector :: 'd
  s_residue :: "8 word list"
  s_frames_seen :: int
  s_decisions :: "bargein_decision list"

record interrupted_at =
  ev_at_ms :: int
  ev_offset_ms :: int
  ev_decision :: bargein_decision
  ev_context :: position

type_synonym 'd obs = "'d \<Rightarrow> pcm_frame \<Rightarrow> bool \<Rightarrow> int \<Rightarrow> bargein_decision option \<times> 'd"

definition create_session :: "rat \<Rightarrow> int \<Rightarrow> 'd \<Rightarrow> clock \<Rightarrow> py_error + 'd session" where
  "create_session now spoken_through d c =
     (case (if spoken_through \<noteq> 0 then seek now spoken_through c else Inr c) of
        Inl e \<Rightarrow> Inl e
      | Inr c' \<Rightarrow> Inr \<lparr>s_clock = c', s_detector = d, s_residue = [], s_frames_seen = 0, s_decisions = []\<rparr>)"

section \<open>Barge-ins\<close>

text \<open>\<open>_interrupt\<close>, and the event it returns. The context reads the position again, from the clock it
  has just stopped.\<close>

definition interruption ::
  "session_cfg \<Rightarrow> rat \<Rightarrow> bargein_decision \<Rightarrow> 'd session \<Rightarrow> interrupted_at \<times> 'd session"
where
  "interruption cfg now dec s =
     (case interrupt now (s_clock s) of (offset, c) \<Rightarrow>
        (case settle now c of (spoken, c') \<Rightarrow>
           (\<lparr>ev_at_ms = offset, ev_offset_ms = offset, ev_decision = dec,
             ev_context = locate (transcript cfg) spoken\<rparr>,
            s\<lparr>s_clock := c', s_decisions := s_decisions s @ [dec]\<rparr>)))"

definition barge_in ::
  "session_cfg \<Rightarrow> ('d \<Rightarrow> vad_reading option) \<Rightarrow> rat \<Rightarrow> string \<Rightarrow> 'd session \<Rightarrow> interrupted_at \<times> 'd session"
where
  "barge_in cfg reading now trig s =
     (let heard = s_frames_seen s * DEFAULT_FRAME_MS;
          r = (case reading (s_detector s) of
                 Some r \<Rightarrow> r
               | None \<Rightarrow> \<lparr>speech_probability = 0, rms_dbfs = 0, noise_floor_dbfs = 0, snr_db = 0,
                          reading_zcr = 0\<rparr>)
      in interruption cfg now
           \<lparr>at_ms = heard, onset_ms = heard, arm = session_arm cfg, variant = ''client'', trigger = trig,
            decision_spoken_ms = fst (interrupt now (s_clock s)),
            narration_playing = playing_since (s_clock s) \<noteq> None, consecutive_frames = 0,
            decision_reading = r\<rparr> s)"

section \<open>Listener audio\<close>

definition observe_frame ::
  "session_cfg \<Rightarrow> 'd obs \<Rightarrow> rat \<times> rat \<Rightarrow> pcm_frame \<Rightarrow> 'd session \<Rightarrow> interrupted_at list \<times> 'd session"
where
  "observe_frame cfg obs now f s =
     (case settle (fst now) (s_clock s) of (spoken, c) \<Rightarrow>
        (case obs (s_detector s) f (playing_since (s_clock s) \<noteq> None) spoken of
           (None, d) \<Rightarrow> ([], s\<lparr>s_clock := c, s_detector := d\<rparr>)
         | (Some dec, d) \<Rightarrow>
             (case interruption cfg (snd now) dec (s\<lparr>s_clock := c, s_detector := d\<rparr>) of
                (ev, s') \<Rightarrow> ([ev], s'))))"

fun observe_frames ::
  "session_cfg \<Rightarrow> 'd obs \<Rightarrow> (int \<Rightarrow> rat \<times> rat) \<Rightarrow> pcm_frame list \<Rightarrow> 'd session \<Rightarrow> interrupted_at list \<times> 'd session"
where
  "observe_frames cfg obs now [] s = ([], s)"
| "observe_frames cfg obs now (f # fs) s =
     (case observe_frame cfg obs (now (frame_index f)) f s of (evs, s1) \<Rightarrow>
        case observe_frames cfg obs now fs s1 of (evs', s2) \<Rightarrow> (evs @ evs', s2))"

definition FRAME_BYTES :: nat where
  "FRAME_BYTES = nat (py_int (of_int (TARGET_SAMPLE_RATE * DEFAULT_FRAME_MS) / 1000 :: rat)) * 2"

definition observe_audio ::
  "session_cfg \<Rightarrow> 'd obs \<Rightarrow> (int \<Rightarrow> rat \<times> rat) \<Rightarrow> 8 word list \<Rightarrow> 'd session
   \<Rightarrow> py_error + interrupted_at list \<times> 'd session"
where
  "observe_audio cfg obs now pcm s =
     (if turn_mode cfg = PushToTalk then Inr ([], s)
      else
        let buffer = s_residue s @ pcm;
            usable = length buffer - length buffer mod FRAME_BYTES;
            s1 = s\<lparr>s_residue := drop usable buffer\<rparr>
        in case iter_frames DEFAULT_FRAME_MS TARGET_FORMAT (s_frames_seen s)
                  (s_frames_seen s * DEFAULT_FRAME_MS) (take usable buffer) of
             Inl e \<Rightarrow> Inl e
           | Inr frames \<Rightarrow>
               (case observe_frames cfg obs now frames s1 of (evs, s2) \<Rightarrow>
                  Inr (evs, s2\<lparr>s_frames_seen := s_frames_seen s2 + int (usable div FRAME_BYTES)\<rparr>)))"

section \<open>Narration\<close>

definition on_clock :: "(clock \<Rightarrow> clock) \<Rightarrow> 'd session \<Rightarrow> 'd session" where
  "on_clock f s = s\<lparr>s_clock := f (s_clock s)\<rparr>"

definition seek_to :: "rat \<Rightarrow> int option \<Rightarrow> 'd session \<Rightarrow> py_error + 'd session" where
  "seek_to now p s =
     (case p of
        None \<Rightarrow> Inr s
      | Some x \<Rightarrow> (case seek now x (s_clock s) of Inl e \<Rightarrow> Inl e | Inr c \<Rightarrow> Inr (s\<lparr>s_clock := c\<rparr>)))"

definition narration_delivered :: "rat \<Rightarrow> int \<Rightarrow> 'd session \<Rightarrow> py_error + 'd session" where
  "narration_delivered now d s =
     (case deliver d (s_clock s) of
        Inl e \<Rightarrow> Inl e | Inr c \<Rightarrow> Inr (s\<lparr>s_clock := start_clock now c\<rparr>))"

definition narration_paused :: "rat \<Rightarrow> int option \<Rightarrow> 'd session \<Rightarrow> py_error + 'd session" where
  "narration_paused now p s = (case seek_to now p s of Inl e \<Rightarrow> Inl e | Inr s' \<Rightarrow> Inr (on_clock (pause now) s'))"

definition narration_resumed :: "rat \<Rightarrow> int option \<Rightarrow> 'd session \<Rightarrow> py_error + 'd session" where
  "narration_resumed now p s =
     (case seek_to now p s of Inl e \<Rightarrow> Inl e | Inr s' \<Rightarrow> Inr (on_clock (start_clock now) s'))"

definition provider_reported_position :: "rat \<Rightarrow> int \<Rightarrow> 'd session \<Rightarrow> int \<times> 'd session" where
  "provider_reported_position now p s =
     (case note_provider_position now p (s_clock s) of (drift, c) \<Rightarrow> (drift, s\<lparr>s_clock := c\<rparr>))"

lemma interruption_eq:
  "interruption cfg now dec s =
     (let c = snd (interrupt now (s_clock s)) in
      (\<lparr>ev_at_ms = spoken_ms c, ev_offset_ms = spoken_ms c, ev_decision = dec,
        ev_context = locate (transcript cfg) (spoken_ms c)\<rparr>,
       s\<lparr>s_clock := c, s_decisions := s_decisions s @ [dec]\<rparr>))"
  using settle_bounded [of now "s_clock s"]
  by (simp add: interruption_def interrupt_eq settle_stopped)

lemma observe_frame_eq:
  "observe_frame cfg obs now f s =
     (let c = snd (settle (fst now) (s_clock s)) in
      case obs (s_detector s) f (playing_since (s_clock s) \<noteq> None) (spoken_ms c) of
        (None, d) \<Rightarrow> ([], s\<lparr>s_clock := c, s_detector := d\<rparr>)
      | (Some dec, d) \<Rightarrow>
          (let r = interruption cfg (snd now) dec (s\<lparr>s_clock := c, s_detector := d\<rparr>) in ([fst r], snd r)))"
  unfolding observe_frame_def case_prod_beta settle_fst Let_def by (rule refl)

section \<open>The contract of a turn detector\<close>

locale turn_detector =
  fixes obs :: "'d obs" and gated :: bool
  assumes decides_at_end: "fst (obs d f playing spoken) = Some x \<Longrightarrow>
      at_ms x = end_ms f \<and> decision_spoken_ms x = spoken \<and> narration_playing x = playing"
    and gate: "gated \<Longrightarrow> fst (obs d f False spoken) = None"
begin

lemma observe_frame_cases:
  assumes "observe_frame cfg obs now f s = (evs, s')"
  obtains (quiet) d where "evs = []"
      "s' = s\<lparr>s_clock := snd (settle (fst now) (s_clock s)), s_detector := d\<rparr>"
    | (fired) ev where "evs = [ev]" "gated \<Longrightarrow> playing_since (s_clock s) \<noteq> None"
      "s_residue s' = s_residue s" "s_frames_seen s' = s_frames_seen s"
      "s_decisions s' = s_decisions s @ [ev_decision ev]" "at_ms (ev_decision ev) = end_ms f"
      "playing_since (s_clock s') = None" "interrupted_ms (s_clock s') = Some (ev_offset_ms ev)"
      "spoken_ms (s_clock s') = ev_offset_ms ev" "ev_offset_ms ev \<le> delivered_ms (s_clock s')"
      "delivered_ms (s_clock s') = delivered_ms (s_clock s)"
      "offset_ms (ev_context ev) = ev_offset_ms ev"
proof -
  let ?c = "snd (settle (fst now) (s_clock s))"
  define p where "p = (playing_since (s_clock s) \<noteq> None)"
  obtain o1 d where o: "obs (s_detector s) f p (spoken_ms ?c) = (o1, d)" by fastforce
  note run = assms [unfolded observe_frame_eq Let_def, folded p_def, unfolded o]
  show thesis
  proof (cases o1)
    case None
    with run have "evs = []" "s' = s\<lparr>s_clock := ?c, s_detector := d\<rparr>" by simp_all
    then show thesis by (rule quiet)
  next
    case (Some x)
    let ?i = "snd (interrupt (snd now) ?c)"
    have g: "playing_since (s_clock s) \<noteq> None" if gated
    proof (rule ccontr)
      assume "\<not> ?thesis"
      with o Some gate [OF that, of "s_detector s" f "spoken_ms ?c"] show False by (simp add: p_def)
    qed
    have x: "at_ms x = end_ms f" using decides_at_end [of "s_detector s" f p "spoken_ms ?c" x] o Some by simp
    have le: "spoken_ms (snd (settle (snd now) ?c)) \<le> delivered_ms (s_clock s)"
      using settle_bounded [of "snd now" ?c] by simp
    have "evs = [\<lparr>ev_at_ms = spoken_ms ?i, ev_offset_ms = spoken_ms ?i, ev_decision = x,
           ev_context = locate (transcript cfg) (spoken_ms ?i)\<rparr>]"
      "s' = s\<lparr>s_detector := d, s_clock := ?i, s_decisions := s_decisions s @ [x]\<rparr>"
      using run by (auto simp: Some interruption_eq Let_def)
    then show thesis
      using g x le by (intro fired) (auto simp: interrupt_eq locate_def Let_def)
  qed
qed

lemma observe_frames_frozen:
  assumes "gated" "playing_since (s_clock s) = None" "observe_frames cfg obs now fs s = (evs, s')"
  shows "evs = [] \<and> playing_since (s_clock s') = None \<and> s_decisions s' = s_decisions s"
  using assms
proof (induction fs arbitrary: s evs s')
  case Nil
  then show ?case by simp
next
  case (Cons f fs)
  obtain e1 s1 where 1: "observe_frame cfg obs (now (frame_index f)) f s = (e1, s1)" by fastforce
  obtain e2 where 2: "observe_frames cfg obs now fs s1 = (e2, s')" "evs = e1 @ e2"
    using Cons.prems 1 by (auto split: prod.splits)
  from 1 show ?case
  proof (cases rule: observe_frame_cases)
    case (quiet d)
    with Cons.IH [OF Cons.prems(1) _ 2(1)] Cons.prems(2) 2(2) show ?thesis by auto
  next
    case (fired ev)
    with Cons.prems(1,2) show ?thesis by simp
  qed
qed

text \<open>With narration required, frames after a barge-in are not barge-ins: one packet gives at most one.\<close>

lemma observe_frames_once:
  assumes "gated" "observe_frames cfg obs now fs s = (evs, s')"
  shows "(evs = [] \<and> s_decisions s' = s_decisions s \<and> (playing_since (s_clock s) = None \<longrightarrow> playing_since (s_clock s') = None))
    \<or> (\<exists>ev. evs = [ev] \<and> playing_since (s_clock s) \<noteq> None \<and> playing_since (s_clock s') = None
         \<and> s_decisions s' = s_decisions s @ [ev_decision ev])"
  using assms
proof (induction fs arbitrary: s evs s')
  case Nil
  then show ?case by simp
next
  case (Cons f fs)
  obtain e1 s1 where 1: "observe_frame cfg obs (now (frame_index f)) f s = (e1, s1)" by fastforce
  obtain e2 where 2: "observe_frames cfg obs now fs s1 = (e2, s')" "evs = e1 @ e2"
    using Cons.prems 1 by (auto split: prod.splits)
  from 1 show ?case
  proof (cases rule: observe_frame_cases)
    case (quiet d)
    with Cons.IH [OF Cons.prems(1) 2(1)] 2(2) show ?thesis by auto
  next
    case (fired ev)
    from observe_frames_frozen [OF Cons.prems(1) fired(7) 2(1)] 2(2) fired(1,2,5) Cons.prems(1)
    show ?thesis by auto
  qed
qed

lemma observe_frames_kept:
  "observe_frames cfg obs now fs s = (evs, s') \<Longrightarrow>
   s_residue s' = s_residue s \<and> s_frames_seen s' = s_frames_seen s
   \<and> s_decisions s' = s_decisions s @ map ev_decision evs
   \<and> delivered_ms (s_clock s') = delivered_ms (s_clock s)
   \<and> (\<forall>ev \<in> set evs. ev_offset_ms ev \<le> delivered_ms (s_clock s) \<and> offset_ms (ev_context ev) = ev_offset_ms ev
        \<and> (\<exists>f \<in> set fs. at_ms (ev_decision ev) = end_ms f))"
proof (induction fs arbitrary: s evs s')
  case Nil
  then show ?case by simp
next
  case (Cons f fs)
  obtain e1 s1 where 1: "observe_frame cfg obs (now (frame_index f)) f s = (e1, s1)" by fastforce
  obtain e2 where 2: "observe_frames cfg obs now fs s1 = (e2, s')" "evs = e1 @ e2"
    using Cons.prems 1 by (auto split: prod.splits)
  note IH = Cons.IH [OF 2(1)]
  from 1 show ?case
  proof (cases rule: observe_frame_cases)
    case (quiet d)
    with IH 2(2) show ?thesis by auto
  next
    case (fired ev)
    with IH 2(2) show ?thesis by auto
  qed
qed

end

lemma observe_decides:
  "fst (observe cfg vad d f playing spoken) = Some x \<Longrightarrow>
   at_ms x = end_ms f \<and> decision_spoken_ms x = spoken \<and> narration_playing x = playing
   \<and> (require_narration_playing (policy cfg) \<longrightarrow> playing)"
  by (auto simp: observe_def detect_def decide_def Let_def split: prod.splits if_splits)

interpretation vad_detector: turn_detector "observe cfg vad" "require_narration_playing (policy cfg)" for cfg vad
proof
  show "at_ms x = end_ms f \<and> decision_spoken_ms x = spoken \<and> narration_playing x = playing"
    if "fst (observe cfg vad d f playing spoken) = Some x" for d f playing spoken x
    using observe_decides [OF that] by simp
  show "fst (observe cfg vad d f False spoken) = None" if "require_narration_playing (policy cfg)"
    for d f spoken
    using observe_decides [of cfg vad d f False spoken] that by (meson not_Some_eq)
qed

section \<open>Packets\<close>

lemma FRAME_BYTES_640: "FRAME_BYTES = 640"
  by (simp add: FRAME_BYTES_def TARGET_SAMPLE_RATE_def DEFAULT_FRAME_MS_def py_int_def)

definition rebuffered :: "8 word list \<Rightarrow> int \<Rightarrow> 'd session \<Rightarrow> 'd session" where
  "rebuffered r n s = s\<lparr>s_residue := r, s_frames_seen := n\<rparr>"

lemma rebuffered_simps [simp]:
  "s_clock (rebuffered r n s) = s_clock s" "s_detector (rebuffered r n s) = s_detector s"
  "s_decisions (rebuffered r n s) = s_decisions s" "s_residue (rebuffered r n s) = r"
  "s_frames_seen (rebuffered r n s) = n" "rebuffered r n (rebuffered r' n' s) = rebuffered r n s"
  by (simp_all add: rebuffered_def)

lemma observe_frame_rebuffered:
  "observe_frame cfg obs now f (rebuffered r n s) = map_prod id (rebuffered r n) (observe_frame cfg obs now f s)"
  by (simp add: observe_frame_eq interruption_eq Let_def rebuffered_def split: option.split prod.split)

lemma observe_frames_rebuffered:
  "observe_frames cfg obs now fs (rebuffered r n s) = map_prod id (rebuffered r n) (observe_frames cfg obs now fs s)"
  by (induction fs arbitrary: s) (simp_all add: observe_frame_rebuffered split: prod.split)

lemma observe_frames_append:
  "observe_frames cfg obs now (xs @ ys) s =
     (case observe_frames cfg obs now xs s of (e1, s1) \<Rightarrow>
        case observe_frames cfg obs now ys s1 of (e2, s2) \<Rightarrow> (e1 @ e2, s2))"
  by (induction xs arbitrary: s) (auto split: prod.split)

definition frames_in :: "int \<Rightarrow> 8 word list \<Rightarrow> pcm_frame list" where
  "frames_in n buffer = map (target_frame n (20 * n) (decode_samples (take (640 * (length buffer div 640)) buffer)))
     [0 ..< length buffer div 640]"

lemma observe_audio_open:
  assumes "turn_mode cfg = OpenMic"
  shows "observe_audio cfg obs now pcm s =
    (let buffer = s_residue s @ pcm; m = length buffer div 640
     in Inr (map_prod id (rebuffered (drop (640 * m) buffer) (s_frames_seen s + int m))
              (observe_frames cfg obs now (frames_in (s_frames_seen s) buffer) s)))"
proof -
  let ?b = "s_residue s @ pcm"
  define m where "m = length ?b div 640"
  have u: "length ?b - length ?b mod 640 = 640 * m" and le: "640 * m \<le> length ?b"
    unfolding m_def by (simp_all add: minus_mod_eq_mult_div)
  have len: "length (take (640 * m) ?b) = 640 * m" using le by simp
  have f: "iter_frames DEFAULT_FRAME_MS TARGET_FORMAT (s_frames_seen s) (s_frames_seen s * DEFAULT_FRAME_MS)
      (take (640 * m) ?b) = Inr (frames_in (s_frames_seen s) ?b)"
    by (subst iter_frames_target)
      (simp_all only: len frames_in_def m_def [symmetric] DEFAULT_FRAME_MS_def mult.commute [of 20]
        even_mult_iff, simp_all)
  have r: "s\<lparr>s_residue := drop (640 * m) ?b\<rparr> = rebuffered (drop (640 * m) ?b) (s_frames_seen s) s"
    by (simp add: rebuffered_def)
  obtain evs s' where o: "observe_frames cfg obs now (frames_in (s_frames_seen s) ?b) s = (evs, s')" by fastforce
  have "x\<lparr>s_frames_seen := s_frames_seen x + k\<rparr> = rebuffered (s_residue x) (s_frames_seen x + k) x" for x :: "'a session" and k
    by (simp add: rebuffered_def)
  then show ?thesis
    using assms
    unfolding observe_audio_def Let_def FRAME_BYTES_640 u f r observe_frames_rebuffered o m_def [symmetric]
    by (simp add: o)
qed

lemma frames_in_append:
  "frames_in n (a @ b) = frames_in n a
     @ frames_in (n + int (length a div 640)) (drop (640 * (length a div 640)) a @ b)"
  "length (a @ b) div 640 = length a div 640 + length (drop (640 * (length a div 640)) a @ b) div 640"
proof -
  define m where "m = length a div 640"
  define r where "r = drop (640 * m) a"
  have le: "640 * m \<le> length a" by (simp add: m_def)
  have a: "a = take (640 * m) a @ r" by (simp add: r_def)
  have la: "length (take (640 * m) a) = 640 * m" using le by simp
  have lr: "length (a @ b) = 640 * m + length (r @ b)"
    using arg_cong [OF a, of length] la by simp
  show n: "length (a @ b) div 640 = length a div 640 + length (drop (640 * (length a div 640)) a @ b) div 640"
    unfolding lr m_def [symmetric] r_def [symmetric] by simp
  define k where "k = length (r @ b) div 640"
  have take: "take (j + i) (u @ v) = u @ take i v" if "length u = j" for i j and u v :: "8 word list"
    using that by simp
  have "a @ b = take (640 * m) a @ (r @ b)" by (simp add: r_def)
  then have "take (640 * (m + k)) (a @ b) = take (640 * m) a @ take (640 * k) (r @ b)"
    using take [OF la, of "640 * k" "r @ b"] by (simp only: distrib_left)
  then have "decode_samples (take (640 * (m + k)) (a @ b))
      = decode_samples (take (640 * m) a) @ decode_samples (take (640 * k) (r @ b))"
    using la by (simp add: decode_append)
  moreover have "length (decode_samples (take (640 * m) a)) = m * 320"
    by (simp only: length_decode la)
  ultimately show "frames_in n (a @ b) = frames_in n a
      @ frames_in (n + int (length a div 640)) (drop (640 * (length a div 640)) a @ b)"
    unfolding frames_in_def n
    unfolding m_def [symmetric] r_def [symmetric] k_def [symmetric]
    using target_frames_append [of "decode_samples (take (640 * m) a)" m n "20 * n"
        "decode_samples (take (640 * k) (r @ b))" k]
    by (simp add: algebra_simps)
qed

section \<open>Properties\<close>

text \<open>Packet boundaries do not matter. Handing the session two packets one after the other gives the
  same barge-ins, in the same order, and leaves the same session as handing it their concatenation,
  wherever the cut falls, even inside a sample: same clock, detector, held-over bytes and frame
  count. No audio is dropped, padded or heard twice at a boundary.\<close>

theorem packets_do_not_matter:
  "observe_audio cfg obs now (a @ b) s =
     (case observe_audio cfg obs now a s of
        Inl e \<Rightarrow> Inl e
      | Inr (e1, s1) \<Rightarrow>
          (case observe_audio cfg obs now b s1 of
             Inl e \<Rightarrow> Inl e
           | Inr (e2, s2) \<Rightarrow> Inr (e1 @ e2, s2)))"
proof (cases "turn_mode cfg")
  case OpenMic
  let ?a = "s_residue s @ a"
  define m where "m = length ?a div 640"
  define k where "k = length (drop (640 * m) ?a @ b) div 640"
  obtain e1 s1 where 1: "observe_frames cfg obs now (frames_in (s_frames_seen s) ?a) s = (e1, s1)" by fastforce
  obtain e2 s2 where 2: "observe_frames cfg obs now
      (frames_in (s_frames_seen s + int m) (drop (640 * m) ?a @ b)) s1 = (e2, s2)" by fastforce
  have first: "observe_audio cfg obs now a s = Inr (e1, rebuffered (drop (640 * m) ?a) (s_frames_seen s + int m) s1)"
    using 1 by (simp add: observe_audio_open [OF OpenMic] Let_def m_def)
  have second: "observe_audio cfg obs now b (rebuffered (drop (640 * m) ?a) (s_frames_seen s + int m) s1)
      = Inr (e2, rebuffered (drop (640 * k) (drop (640 * m) ?a @ b)) (s_frames_seen s + int m + int k) s2)"
    using 2 by (simp add: observe_audio_open [OF OpenMic] Let_def k_def observe_frames_rebuffered)
  have split: "frames_in (s_frames_seen s) (?a @ b)
      = frames_in (s_frames_seen s) ?a @ frames_in (s_frames_seen s + int m) (drop (640 * m) ?a @ b)"
    and len: "length (?a @ b) div 640 = m + k"
    using frames_in_append(1) [of "s_frames_seen s" ?a b] frames_in_append(2) [of ?a b]
    by (simp_all only: m_def k_def)
  have "640 * m \<le> length ?a" by (simp add: m_def)
  then have "drop (640 * m) ?a @ b = drop (640 * m) (?a @ b)" by simp
  then have rest: "drop (640 * (m + k)) (?a @ b) = drop (640 * k) (drop (640 * m) ?a @ b)"
    unfolding distrib_left by (simp only: drop_drop add.commute)
  have "observe_audio cfg obs now (a @ b) s
      = Inr (e1 @ e2, rebuffered (drop (640 * (m + k)) (?a @ b)) (s_frames_seen s + int (m + k)) s2)"
    unfolding observe_audio_open [OF OpenMic] Let_def append_assoc [symmetric] len split
      observe_frames_append 1 by (simp only: prod.case 2 map_prod_simp id_apply)
  then show ?thesis unfolding rest first sum.case prod.case second by (simp only: of_nat_add add.assoc)
next
  case PushToTalk
  then show ?thesis by (simp add: observe_audio_def)
qed

text \<open>One barge-in until narration plays again. When the policy requires narration, audio handed to the
  session yields at most one barge-in, none if narration was stopped, and after one the clock is
  stopped, so no later packet interrupts again before narration is resumed.\<close>

theorem one_barge_in_per_narration:
  assumes "require_narration_playing (policy dcfg)"
    and "observe_audio cfg (observe dcfg vad) now pcm s = Inr (evs, s')"
  shows "length evs \<le> 1 \<and> (playing_since (s_clock s) = None \<longrightarrow> evs = [])
    \<and> (evs \<noteq> [] \<or> playing_since (s_clock s) = None \<longrightarrow> playing_since (s_clock s') = None)"
proof (cases "turn_mode cfg")
  case OpenMic
  from assms(2) obtain s1 n r where "observe_frames cfg (observe dcfg vad) now
      (frames_in (s_frames_seen s) (s_residue s @ pcm)) s = (evs, s1)" "s' = rebuffered r n s1"
    by (auto simp: observe_audio_open [OF OpenMic] Let_def map_prod_def split: prod.splits)
  with vad_detector.observe_frames_once [OF assms(1)] show ?thesis by fastforce
next
  case PushToTalk
  with assms(2) show ?thesis by (simp add: observe_audio_def)
qed

definition demo_session_cfg :: session_cfg where
  "demo_session_cfg = \<lparr>turn_mode = OpenMic, transcript = demo_transcript, session_arm = ''composed''\<rparr>"

definition demo_session :: "unit detector session" where
  "demo_session = \<lparr>s_clock = \<lparr>spoken_ms = 0, delivered_ms = 5000, playing_since = Some 0,
       interrupted_ms = None, drifts_ms = []\<rparr>,
     s_detector = detector_reset (), s_residue = replicate 639 0, s_frames_seen = 0, s_decisions = []\<rparr>"

definition demo_obs :: "unit detector obs" where
  "demo_obs = observe ((demo_cfg 1 0)\<lparr>policy := (policy (demo_cfg 1 0))\<lparr>require_narration_playing := True\<rparr>\<rparr>)
     (scripted_observe [0.9] (- 30))"

lemma demo_barge_in:
  "\<exists>evs s'. observe_audio demo_session_cfg demo_obs (\<lambda>_. (1/2, 1)) [0] demo_session = Inr (evs, s')
     \<and> map ev_offset_ms evs = [1000] \<and> playing_since (s_clock s') = None"
proof -
  have open_mic: "turn_mode demo_session_cfg = OpenMic" by (simp add: demo_session_cfg_def)
  have "frames_in 0 (replicate 639 0 @ [0]) = [target_frame 0 0 (decode_samples (replicate 640 0)) 0]"
  proof -
    have r: "replicate 639 (0 :: 8 word) @ [0] = replicate 640 0"
      by (simp add: replicate_append_same [symmetric] numeral_eq_Suc)
    show ?thesis unfolding r frames_in_def by simp
  qed
  then show ?thesis
    by (simp add: observe_audio_open [OF open_mic] Let_def demo_session_def target_frame_def)
      (simp add: observe_frame_eq demo_obs_def observe_def scripted_observe_def detect_def detector_reset_def
        qualifies_def demo_cfg_def default_policy_def suppressed_def decide_def interruption_eq interrupt_eq
        settle_def py_int_def Let_def)
qed

theorem one_barge_in_per_narration_witness:
  "\<exists>evs s'. observe_audio demo_session_cfg demo_obs (\<lambda>_. (1/2, 1)) [0] demo_session = Inr (evs, s')
     \<and> length evs = 1 \<and> playing_since (s_clock s') = None"
proof -
  obtain evs s' where o: "observe_audio demo_session_cfg demo_obs (\<lambda>_. (1/2, 1)) [0] demo_session
      = Inr (evs, s')" and e: "map ev_offset_ms evs = [1000]"
    using demo_barge_in by (elim exE conjE)
  have "evs \<noteq> []" using e by auto
  moreover have "length evs = 1" using arg_cong [OF e, of length] by simp
  ultimately show ?thesis
    using one_barge_in_per_narration [OF _ o [unfolded demo_obs_def]] o by (auto simp: demo_obs_def)
qed

lemma whole_frames:
  "640 * int (length xs div 640) + int (length (drop (640 * (length xs div 640)) xs)) = int (length xs)"
  "length (drop (640 * (length xs div 640)) xs) < 640"
proof -
  have "640 * (length xs div 640) + length (drop (640 * (length xs div 640)) xs) = length xs" by simp
  then show "640 * int (length xs div 640) + int (length (drop (640 * (length xs div 640)) xs)) = int (length xs)"
    by (metis of_nat_add of_nat_mult of_nat_numeral)
  show "length (drop (640 * (length xs div 640)) xs) < 640"
    by (simp add: minus_mult_div_eq_mod)
qed

text \<open>A session accounts for every byte and every barge-in. Handing it audio never fails; in an open-mic
  session the bytes cut into frames and the bytes held over, fewer than a frame, add up to what it
  was handed; each barge-in is recorded in order; its offset is within the audio delivered and is
  the offset the context was located at; its decision comes at the end of one of the new frames.\<close>

theorem session_accounts_for_audio:
  assumes "turn_mode cfg = OpenMic"
  shows "case observe_audio cfg (observe dcfg vad) now pcm s of
      Inl _ \<Rightarrow> False
    | Inr (evs, s') \<Rightarrow>
        640 * s_frames_seen s' + int (length (s_residue s'))
          = 640 * s_frames_seen s + int (length (s_residue s)) + int (length pcm)
        \<and> length (s_residue s') < 640
        \<and> s_decisions s' = s_decisions s @ map ev_decision evs
        \<and> (\<forall>ev \<in> set evs. ev_offset_ms ev \<le> delivered_ms (s_clock s')
             \<and> offset_ms (ev_context ev) = ev_offset_ms ev
             \<and> at_ms (ev_decision ev) \<in> {20 * s_frames_seen s <.. 20 * s_frames_seen s'})"
proof -
  let ?b = "s_residue s @ pcm"
  define m where "m = length ?b div 640"
  obtain evs s1 where 1: "observe_frames cfg (observe dcfg vad) now (frames_in (s_frames_seen s) ?b) s = (evs, s1)"
    by fastforce
  have run: "observe_audio cfg (observe dcfg vad) now pcm s
      = Inr (evs, rebuffered (drop (640 * m) ?b) (s_frames_seen s + int m) s1)"
    using 1 by (simp add: observe_audio_open [OF assms] Let_def m_def)
  have "end_ms f \<in> {20 * s_frames_seen s <.. 20 * (s_frames_seen s + int m)}"
    if "f \<in> set (frames_in (s_frames_seen s) ?b)" for f
    using that unfolding frames_in_def m_def [symmetric] by (auto simp: target_frame_def end_ms_def)
  moreover have "640 * int m + int (length (drop (640 * m) ?b)) = int (length ?b)"
    "length (drop (640 * m) ?b) < 640"
    using whole_frames [of ?b] unfolding m_def by blast+
  ultimately show ?thesis
    using vad_detector.observe_frames_kept [OF 1]
    unfolding run by (simp del: length_drop) fastforce
qed

theorem session_accounts_for_audio_witness:
  "case observe_audio demo_session_cfg demo_obs (\<lambda>_. (1/2, 1)) [0] demo_session of
     Inl _ \<Rightarrow> False
   | Inr (evs, s') \<Rightarrow> 640 * s_frames_seen s' + int (length (s_residue s')) = 640"
  using session_accounts_for_audio [where cfg = demo_session_cfg
      and dcfg = "(demo_cfg 1 0)\<lparr>policy := (policy (demo_cfg 1 0))\<lparr>require_narration_playing := True\<rparr>\<rparr>"
      and vad = "scripted_observe [0.9] (- 30)" and now = "\<lambda>_. (1/2, 1)" and pcm = "[0]" and s = demo_session]
  by (auto simp: demo_session_cfg_def demo_session_def demo_obs_def split: sum.splits)

end
