(* ===== verification/Text.thy ===== *)
theory Text
  imports Prelude "HOL-Library.Word" "HOL-Library.Sublist" "HOL-Library.AList"
begin

text \<open>
  Python's strings, bytes and dicts as the ingestion half of the program uses them: case, splitting,
  stripping, \<open>repr\<close>, UTF-8, truth values and order-preserving deduplication. A \<open>char\<close> is a code point
  below 256; case follows Python on those. Two of them, the micro sign and small y with diaeresis, map
  to a code point above 255 under one of the case functions and stay as they are here, which no
  comparison between such strings can tell apart.
\<close>

type_synonym bytes = "8 word list"

section \<open>Case\<close>

definition lower_char :: "char \<Rightarrow> char" where
  "lower_char c =
     (let n = of_char c :: nat
      in if 65 \<le> n \<and> n \<le> 90 \<or> 192 \<le> n \<and> n \<le> 222 \<and> n \<noteq> 215 then char_of (n + 32) else c)"

definition py_lower :: "string \<Rightarrow> string" where
  "py_lower = map lower_char"

definition upper_char :: "char \<Rightarrow> string" where
  "upper_char c =
     (let n = of_char c :: nat
      in if n = 223 then ''SS''
         else if 97 \<le> n \<and> n \<le> 122 \<or> 224 \<le> n \<and> n \<le> 254 \<and> n \<noteq> 247 then [char_of (n - 32)] else [c])"

definition py_upper :: "string \<Rightarrow> string" where
  "py_upper s = concat (map upper_char s)"

definition py_casefold :: "string \<Rightarrow> string" where
  "py_casefold s = concat (map (\<lambda>c. if of_char c = (223::nat) then ''ss'' else [lower_char c]) s)"

section \<open>Splitting and stripping\<close>

text \<open>\<open>s.split(c, 1)[0]\<close>, \<open>s.rpartition(c)[2]\<close>, and both sides of the first occurrence of a text.\<close>

definition before_char :: "char \<Rightarrow> string \<Rightarrow> string" where
  "before_char c s = takeWhile (\<lambda>x. x \<noteq> c) s"

definition after_last :: "char \<Rightarrow> string \<Rightarrow> string" where
  "after_last c s = rev (takeWhile (\<lambda>x. x \<noteq> c) (rev s))"

fun split_once :: "string \<Rightarrow> string \<Rightarrow> (string \<times> string) option" where
  "split_once sep [] = (if sep = [] then Some ([], []) else None)"
| "split_once sep (c # cs) =
     (if prefix sep (c # cs) then Some ([], drop (length sep) (c # cs))
      else map_option (\<lambda>(a, b). (c # a, b)) (split_once sep cs))"

fun split_on :: "char \<Rightarrow> string \<Rightarrow> string list" where
  "split_on c [] = [[]]"
| "split_on c (x # xs) =
     (if x = c then [] # split_on c xs
      else case split_on c xs of [] \<Rightarrow> [[x]] | w # ws \<Rightarrow> (x # w) # ws)"

definition strip_set :: "char set \<Rightarrow> string \<Rightarrow> string" where
  "strip_set cs s = rev (dropWhile (\<lambda>c. c \<in> cs) (rev (dropWhile (\<lambda>c. c \<in> cs) s)))"

definition rstrip_set :: "char set \<Rightarrow> string \<Rightarrow> string" where
  "rstrip_set cs s = rev (dropWhile (\<lambda>c. c \<in> cs) (rev s))"

lemma split_once_Some: "split_once sep s = Some (a, b) \<Longrightarrow> s = a @ sep @ b"
  by (induction s arbitrary: a) (auto simp: prefix_def split: if_splits)

section \<open>repr of a string\<close>

definition hex_digit :: "nat \<Rightarrow> char" where
  "hex_digit n = (if n < 10 then char_of (48 + n) else char_of (87 + n))"

definition repr_char :: "char \<Rightarrow> char \<Rightarrow> string" where
  "repr_char q c =
     (let n = of_char c :: nat
      in if c = q \<or> n = 92 then [CHR 0x5C, c]
         else if n = 9 then [CHR 0x5C, CHR ''t'']
         else if n = 10 then [CHR 0x5C, CHR ''n'']
         else if n = 13 then [CHR 0x5C, CHR ''r'']
         else if n < 32 \<or> 127 \<le> n \<and> n \<le> 160 \<or> n = 173
         then [CHR 0x5C, CHR ''x'', hex_digit (n div 16), hex_digit (n mod 16)]
         else [c])"

definition py_repr :: "string \<Rightarrow> string" where
  "py_repr s =
     (let q = (if CHR 0x27 \<in> set s \<and> CHR 0x22 \<notin> set s then CHR 0x22 else CHR 0x27)
      in [q] @ concat (map (repr_char q) s) @ [q])"

section \<open>UTF-8\<close>

definition utf8_char :: "char \<Rightarrow> bytes" where
  "utf8_char c =
     (let n = of_char c :: nat
      in if n < 128 then [of_nat n] else [of_nat (192 + n div 64), of_nat (128 + n mod 64)])"

definition utf8 :: "string \<Rightarrow> bytes" where
  "utf8 s = concat (map utf8_char s)"

fun utf8_decode :: "bytes \<Rightarrow> string option" where
  "utf8_decode [] = Some []"
| "utf8_decode [b] = (if unat b < 128 then Some [char_of (unat b)] else None)"
| "utf8_decode (b # c # cs) =
     (if unat b < 128 then map_option (\<lambda>s. char_of (unat b) # s) (utf8_decode (c # cs))
      else if 194 \<le> unat b \<and> unat b \<le> 195 \<and> 128 \<le> unat c \<and> unat c < 192
      then map_option (\<lambda>s. char_of ((unat b - 192) * 64 + (unat c - 128)) # s) (utf8_decode cs)
      else None)"

lemma utf8_decode_ascii: "unat b < 128 \<Longrightarrow> utf8_decode (b # bs) = map_option (\<lambda>s. char_of (unat b) # s) (utf8_decode bs)"
  by (cases bs) simp_all

lemma of_char_bound: "(of_char c :: nat) < 256"
  by (metis of_char_of nat_of_char_less_256)

lemma utf8_decode_char: "utf8_decode (utf8_char c @ bs) = map_option (\<lambda>s. c # s) (utf8_decode bs)"
proof -
  define n where "n = (of_char c :: nat)"
  have n: "n < 256" and c: "char_of n = c" using of_char_bound by (simp_all add: n_def)
  show ?thesis
  proof (cases "n < 128")
    case True
    then have "unat (of_nat n :: 8 word) = n" by (simp add: unat_of_nat)
    with True c show ?thesis by (simp add: utf8_char_def utf8_decode_ascii flip: n_def)
  next
    case False
    define h where "h = n div 64"
    define l where "l = n mod 64"
    have h: "2 \<le> h" "h \<le> 3" and l: "l < 64" and eq: "h * 64 + l = n" using False n by (auto simp: h_def l_def)
    have b: "unat (of_nat (192 + h) :: 8 word) = 192 + h" and k: "unat (of_nat (128 + l) :: 8 word) = 128 + l"
      using h l by (simp_all only: unat_of_nat) simp_all
    have "utf8_char c = [of_nat (192 + h), of_nat (128 + l)]"
      using False by (simp add: utf8_char_def h_def l_def Let_def flip: n_def)
    then show ?thesis using h l eq c by (simp only: append_Cons append_Nil utf8_decode.simps b k) simp
  qed
qed

lemma utf8_decode_utf8 [simp]: "utf8_decode (utf8 s) = Some s"
  by (induction s) (simp_all add: utf8_def utf8_decode_char)

lemma utf8_inject [simp]: "utf8 s = utf8 t \<longleftrightarrow> s = t"
  by (metis option.inject utf8_decode_utf8)

section \<open>Values and dicts\<close>

text \<open>\<open>bool(x)\<close> of a JSON value, \<open>dict.update\<close>, and \<open>list(dict.fromkeys(xs))\<close>.\<close>

fun truthy :: "json \<Rightarrow> bool" where
  "truthy JNull = False"
| "truthy (JBool b) = b"
| "truthy (JInt n) = (n \<noteq> 0)"
| "truthy (JFloat x) = (x \<noteq> 0)"
| "truthy (JStr s) = (s \<noteq> [])"
| "truthy (JList xs) = (xs \<noteq> [])"
| "truthy (JObj kvs) = (kvs \<noteq> [])"

definition dict_update :: "payload \<Rightarrow> payload \<Rightarrow> payload" where
  "dict_update base changes = fold (\<lambda>(k, v). AList.update k v) changes base"

lemma map_of_dict_update:
  "map_of (dict_update base changes) k = (case map_of (rev changes) k of Some v \<Rightarrow> Some v | None \<Rightarrow> map_of base k)"
  by (induction changes arbitrary: base) (auto simp: dict_update_def update_conv' map_add_def split: option.splits)

definition py_unique :: "'a list \<Rightarrow> 'a list" where
  "py_unique xs = rev (remdups (rev xs))"

lemma py_unique_facts [simp]: "set (py_unique xs) = set xs" "distinct (py_unique xs)" "py_unique [] = []"
  by (simp_all add: py_unique_def)

lemma py_unique_Nil_iff [simp]: "py_unique xs = [] \<longleftrightarrow> xs = []"
  by (simp add: py_unique_def)

end
