(* ===== verification/Vault.thy ===== *)
theory Vault
  imports Text
begin

text \<open>
  Envelope encryption, \<open>vault/src/motet_vault/envelope.py\<close>: the associated data a record is bound to,
  sealing under a fresh key, opening, the local key manager, the wrapper around Cloud KMS and the
  choice between the two. AES-GCM (the cryptography package), Cloud KMS, SHA-256 and the bytes of
  \<open>os.urandom\<close> are arguments; \<open>aead_laws\<close> states what the package documents of AES-GCM. The process
  configuration read by \<open>build_key_manager\<close> includes \<open>inference/src/motet_inference/mode.py\<close>.
\<close>

section \<open>Errors and the cipher\<close>

text \<open>\<open>ConfigValueError\<close> is the plain \<open>ValueError\<close> of \<open>current_mode\<close>, which is not a \<open>VaultError\<close>.\<close>

datatype vault_exn =
    VaultError string
  | VaultConfigError string
  | DecryptionError string
  | ConfigValueError string

record aead =
  ae_encrypt :: "bytes \<Rightarrow> bytes \<Rightarrow> bytes \<Rightarrow> bytes \<Rightarrow> bytes"
  ae_decrypt :: "bytes \<Rightarrow> bytes \<Rightarrow> bytes \<Rightarrow> bytes \<Rightarrow> bytes option"

text \<open>Decryption undoes encryption under the same key, nonce and associated data, and refuses under
  other associated data.\<close>

definition aead_laws :: "aead \<Rightarrow> bool" where
  "aead_laws A \<longleftrightarrow>
     (\<forall>k n p ad ad'. ae_decrypt A k n (ae_encrypt A k n p ad) ad' = (if ad' = ad then Some p else None))"

definition DEK_BYTES :: nat where "DEK_BYTES = 32"
definition NONCE_BYTES :: nat where "NONCE_BYTES = 12"

section \<open>The associated data\<close>

definition ambiguous :: "string \<Rightarrow> bool" where
  "ambiguous v \<longleftrightarrow> v = [] \<or> CHR '':'' \<in> set v"

definition aad :: "string \<Rightarrow> string \<Rightarrow> string \<Rightarrow> vault_exn + bytes" where
  "aad user_id source_id provider =
     (case find (\<lambda>(name, v). ambiguous v)
             [(''user_id'', user_id), (''source_id'', source_id), (''provider'', provider)] of
        Some (name, v) \<Rightarrow>
          Inl (VaultError (name @ ''='' @ py_repr v @ '' is empty or contains '' @ quote @ '':'' @ quote
            @ '', so the AAD is ambiguous''))
      | None \<Rightarrow> Inr (utf8 (user_id @ '':'' @ source_id @ '':'' @ provider)))"

lemma split_at_colon:
  "CHR '':'' \<notin> set a \<Longrightarrow> CHR '':'' \<notin> set b \<Longrightarrow> a @ CHR '':'' # x = b @ CHR '':'' # y \<longleftrightarrow> a = b \<and> x = y"
proof (induction a arbitrary: b)
  case Nil
  then show ?case by (cases b) auto
next
  case (Cons c a)
  then show ?case by (cases b) auto
qed

lemma aad_Inr:
  "aad u s p = Inr b \<longleftrightarrow> \<not> ambiguous u \<and> \<not> ambiguous s \<and> \<not> ambiguous p \<and> b = utf8 (u @ '':'' @ s @ '':'' @ p)"
  by (auto simp: aad_def)

lemma aad_inject:
  assumes "aad u s p = Inr b" and "aad u' s' p' = Inr b'"
  shows "b = b' \<longleftrightarrow> u = u' \<and> s = s' \<and> p = p'"
  using assms by (auto simp: aad_Inr ambiguous_def split_at_colon)

section \<open>Key managers, sealing and opening\<close>

record sealed_secret =
  ss_ciphertext :: bytes
  ss_nonce :: bytes
  ss_wrapped_dek :: bytes
  ss_backend :: string
  ss_key_name :: string

text \<open>\<open>km_wrap\<close> takes the random bytes it may use before its own arguments.\<close>

record key_manager =
  km_backend :: string
  km_key_name :: string
  km_wrap :: "bytes \<Rightarrow> bytes \<Rightarrow> bytes \<Rightarrow> vault_exn + bytes"
  km_unwrap :: "bytes \<Rightarrow> bytes \<Rightarrow> vault_exn + bytes"

definition seal ::
  "aead \<Rightarrow> key_manager \<Rightarrow> bytes \<Rightarrow> bytes \<Rightarrow> bytes \<Rightarrow> bytes \<Rightarrow> bytes \<Rightarrow> vault_exn + sealed_secret"
where
  "seal A km dek nonce rand plaintext ad =
     (if plaintext = [] then Inl (VaultError ''refusing to seal an empty secret'')
      else and_then (km_wrap km rand dek ad) (\<lambda>wrapped.
        Inr \<lparr>ss_ciphertext = ae_encrypt A dek nonce plaintext ad, ss_nonce = nonce, ss_wrapped_dek = wrapped,
             ss_backend = km_backend km, ss_key_name = km_key_name km\<rparr>))"

definition open_sealed :: "aead \<Rightarrow> key_manager \<Rightarrow> sealed_secret \<Rightarrow> bytes \<Rightarrow> vault_exn + bytes" where
  "open_sealed A km s ad =
     and_then (km_unwrap km (ss_wrapped_dek s) ad) (\<lambda>dek.
       case ae_decrypt A dek (ss_nonce s) (ss_ciphertext s) ad of
         Some p \<Rightarrow> Inr p
       | None \<Rightarrow> Inl (DecryptionError (''this credential did not authenticate under its own AAD; it was ''
                   @ ''tampered with or moved between records'')))"

text \<open>\<open>LocalKeyManager\<close>: the wrapped key is a nonce and the key encrypted under the local one.\<close>

definition hexdigest :: "bytes \<Rightarrow> string" where
  "hexdigest bs = concat (map (\<lambda>b. [hex_digit (unat b div 16), hex_digit (unat b mod 16)]) bs)"

definition local_unwrap :: "aead \<Rightarrow> bytes \<Rightarrow> bytes \<Rightarrow> bytes \<Rightarrow> vault_exn + bytes" where
  "local_unwrap A kek wrapped ad =
     (if length wrapped \<le> NONCE_BYTES then Inl (DecryptionError ''wrapped DEK is too short to contain a nonce'')
      else case ae_decrypt A kek (take NONCE_BYTES wrapped) (drop NONCE_BYTES wrapped) ad of
             Some dek \<Rightarrow> Inr dek
           | None \<Rightarrow> Inl (DecryptionError ''wrapped DEK did not authenticate under its AAD''))"

definition local_key_manager :: "aead \<Rightarrow> (bytes \<Rightarrow> bytes) \<Rightarrow> bytes \<Rightarrow> key_manager" where
  "local_key_manager A sha256 kek =
     \<lparr>km_backend = ''local'', km_key_name = ''local:'' @ take 16 (hexdigest (sha256 kek)),
      km_wrap = (\<lambda>nonce dek ad. Inr (nonce @ ae_encrypt A kek nonce dek ad)),
      km_unwrap = local_unwrap A kek\<rparr>"

text \<open>\<open>CloudKmsKeyManager\<close>: the service's \<open>encrypt\<close> and \<open>decrypt\<close> of the key, each an exception (with
  its text, or a \<open>VaultError\<close> of this package) or bytes; \<open>_kms_errors\<close> makes every exception a
  \<open>VaultError\<close>.\<close>

datatype kms_exn = KmsVault vault_exn | KmsOther string

definition kms_errors :: "string \<Rightarrow> kms_exn + 'a \<Rightarrow> vault_exn + 'a" where
  "kms_errors action r =
     (case r of
        Inr x \<Rightarrow> Inr x
      | Inl (KmsVault e) \<Rightarrow> Inl e
      | Inl (KmsOther m) \<Rightarrow> Inl (VaultError (''Cloud KMS could not '' @ action @ '': '' @ m)))"

definition kms_key_manager ::
  "(string \<Rightarrow> bytes \<Rightarrow> bytes \<Rightarrow> kms_exn + bytes) \<Rightarrow> (string \<Rightarrow> bytes \<Rightarrow> bytes \<Rightarrow> kms_exn + bytes)
   \<Rightarrow> string \<Rightarrow> vault_exn + key_manager"
where
  "kms_key_manager encrypt decrypt key_name =
     (if key_name = []
      then Inl (VaultConfigError (''MOTET_VAULT_KMS_KEY must be set to the KMS key resource path to use the kms ''
             @ ''backend. It is injected by the service definition (private infrastructure repo); this repo ''
             @ ''never names a key.''))
      else Inr \<lparr>km_backend = ''kms'', km_key_name = key_name,
             km_wrap = (\<lambda>rand dek ad. kms_errors ''wrap a DEK'' (encrypt key_name dek ad)),
             km_unwrap = (\<lambda>w ad. kms_errors ''unwrap a DEK'' (decrypt key_name w ad))\<rparr>)"

section \<open>Which key manager a process gets\<close>

datatype mode = Fake | Real

definition current_mode :: "(string \<rightharpoonup> string) \<Rightarrow> vault_exn + mode" where
  "current_mode env =
     (let raw = py_lower (py_strip (case env ''MOTET_INFERENCE_MODE'' of Some v \<Rightarrow> v | None \<Rightarrow> ''fake''))
      in if raw = ''fake'' then Inr Fake else if raw = ''real'' then Inr Real
         else Inl (ConfigValueError (''MOTET_INFERENCE_MODE must be '' @ quote @ ''fake'' @ quote @ '' or '' @ quote
                @ ''real'' @ quote @ '', got '' @ py_repr raw)))"

text \<open>\<open>base64.b64decode(s, validate=True)\<close>: characters of the alphabet, at most two padding characters
  after them, and a last group that its padding completes. Padding after a whole group is ignored.\<close>

definition b64_value :: "char \<Rightarrow> nat option" where
  "b64_value c =
     (let n = of_char c :: nat
      in if 65 \<le> n \<and> n \<le> 90 then Some (n - 65)
         else if 97 \<le> n \<and> n \<le> 122 then Some (n - 71)
         else if 48 \<le> n \<and> n \<le> 57 then Some (n + 4)
         else if n = 43 then Some 62 else if n = 47 then Some 63 else None)"

fun b64_bytes :: "nat list \<Rightarrow> bytes" where
  "b64_bytes (a # b # c # d # rest) =
     of_nat (a * 4 + b div 16) # of_nat (b mod 16 * 16 + c div 4) # of_nat (c mod 4 * 64 + d) # b64_bytes rest"
| "b64_bytes [a, b, c] = [of_nat (a * 4 + b div 16), of_nat (b mod 16 * 16 + c div 4)]"
| "b64_bytes [a, b] = [of_nat (a * 4 + b div 16)]"
| "b64_bytes _ = []"

definition b64decode :: "string \<Rightarrow> bytes option" where
  "b64decode s =
     (let body = takeWhile (\<lambda>c. c \<noteq> CHR ''='') s; pad = dropWhile (\<lambda>c. c \<noteq> CHR ''='') s;
          vals = map b64_value body; n = length body mod 4
      in if None \<in> set vals \<or> \<not> set pad \<subseteq> {CHR ''=''} \<or> 2 < length pad then None
         else if n = 0 \<or> n = 2 \<and> length pad = 2 \<or> n = 3 \<and> 1 \<le> length pad
         then Some (b64_bytes (map the vals)) else None)"

definition local_kek :: "(bytes \<Rightarrow> bytes) \<Rightarrow> (string \<rightharpoonup> string) \<Rightarrow> vault_exn + bytes" where
  "local_kek sha256 env =
     (let raw = py_strip (case env ''MOTET_VAULT_LOCAL_KEK'' of Some v \<Rightarrow> v | None \<Rightarrow> [])
      in if raw = [] then Inr (sha256 (utf8 ''motet-local-development-kek''))
         else case b64decode raw of
                None \<Rightarrow> Inl (VaultConfigError ''MOTET_VAULT_LOCAL_KEK is not valid base64'')
              | Some kek \<Rightarrow>
                  if length kek \<noteq> DEK_BYTES
                  then Inl (VaultConfigError (''MOTET_VAULT_LOCAL_KEK decodes to '' @ py_str (int (length kek))
                         @ '' bytes; AES-256 needs exactly 32''))
                  else Inr kek)"

definition vault_backend :: "(string \<rightharpoonup> string) \<Rightarrow> string" where
  "vault_backend env =
     py_lower (py_strip (case env ''MOTET_VAULT_BACKEND'' of Some v \<Rightarrow> v | None \<Rightarrow> ''local''))"

record vault_env =
  ve_aead :: aead
  ve_sha256 :: "bytes \<Rightarrow> bytes"
  ve_kms_encrypt :: "string \<Rightarrow> bytes \<Rightarrow> bytes \<Rightarrow> kms_exn + bytes"
  ve_kms_decrypt :: "string \<Rightarrow> bytes \<Rightarrow> bytes \<Rightarrow> kms_exn + bytes"
  ve_kms_sdk :: bool

definition build_key_manager :: "vault_env \<Rightarrow> (string \<rightharpoonup> string) \<Rightarrow> vault_exn + key_manager" where
  "build_key_manager V env =
     and_then (current_mode env) (\<lambda>m.
       if vault_backend env = ''kms''
       then kms_key_manager (ve_kms_encrypt V) (ve_kms_decrypt V)
              (py_strip (case env ''MOTET_VAULT_KMS_KEY'' of Some v \<Rightarrow> v | None \<Rightarrow> []))
       else if vault_backend env = ''local''
       then (if m = Real
             then Inl (VaultConfigError ''MOTET_VAULT_BACKEND=local is refused when MOTET_INFERENCE_MODE=real'')
             else and_then (local_kek (ve_sha256 V) env) (\<lambda>kek.
                    Inr (local_key_manager (ve_aead V) (ve_sha256 V) kek)))
       else Inl (VaultConfigError (''MOTET_VAULT_BACKEND='' @ py_repr (vault_backend env)
              @ '' is not one of: local, kms'')))"

text \<open>\<open>vault_status\<close>: the backend's name and whether a key manager could be built.\<close>

definition vault_status :: "vault_env \<Rightarrow> (string \<rightharpoonup> string) \<Rightarrow> string \<times> bool" where
  "vault_status V env =
     (vault_backend env,
      case build_key_manager V env of
        Inl _ \<Rightarrow> False
      | Inr _ \<Rightarrow> \<not> (vault_backend env = ''kms'' \<and> \<not> ve_kms_sdk V))"

text \<open>A process in real mode only ever gets the Cloud KMS key manager.\<close>

lemma real_mode_uses_kms:
  assumes "current_mode env = Inr Real" and "build_key_manager V env = Inr km"
  shows "km_backend km = ''kms'' \<and> km_key_name km \<noteq> []"
  using assms by (auto simp: build_key_manager_def kms_key_manager_def split: if_splits)

text \<open>Whatever a key manager raises while opening is an error of this package.\<close>

lemma kms_errors_vault: "kms_errors action r = Inl e \<Longrightarrow> (\<exists>v. r = Inl (KmsVault v) \<and> e = v) \<or> (\<exists>m. e = VaultError m)"
  by (auto simp: kms_errors_def split: sum.splits kms_exn.splits)

section \<open>A secret opens on its own record only\<close>

lemma seal_Inr:
  assumes "seal A km dek nonce rand pt ad = Inr s"
  obtains w where "pt \<noteq> []" and "km_wrap km rand dek ad = Inr w"
    and "s = \<lparr>ss_ciphertext = ae_encrypt A dek nonce pt ad, ss_nonce = nonce, ss_wrapped_dek = w,
              ss_backend = km_backend km, ss_key_name = km_key_name km\<rparr>"
  using assms by (auto simp: seal_def and_then_Inr split: if_splits)

lemma local_unwrap_wrapped:
  assumes "aead_laws A" and "length nonce = NONCE_BYTES" and "ae_encrypt A kek nonce dek ad \<noteq> []"
  shows "local_unwrap A kek (nonce @ ae_encrypt A kek nonce dek ad) ad' =
    (if ad' = ad then Inr dek else Inl (DecryptionError ''wrapped DEK did not authenticate under its AAD''))"
  using assms by (simp add: local_unwrap_def aead_laws_def split: option.split)

lemma sealed_opens:
  assumes "aead_laws A" and "\<And>k n p ad. ae_encrypt A k n p ad \<noteq> []" and "length rand = NONCE_BYTES"
    and "seal A (local_key_manager A sha kek) dek nonce rand pt ad = Inr s"
  shows "open_sealed A (local_key_manager A sha kek) s ad = Inr pt"
proof -
  have "ss_wrapped_dek s = rand @ ae_encrypt A kek rand dek ad" "ss_nonce s = nonce"
    "ss_ciphertext s = ae_encrypt A dek nonce pt ad"
    using assms(4) by (auto elim!: seal_Inr simp: local_key_manager_def)
  moreover have "km_unwrap (local_key_manager A sha kek) (rand @ ae_encrypt A kek rand dek ad) ad = Inr dek"
    using local_unwrap_wrapped [OF assms(1,3,2)] by (simp add: local_key_manager_def)
  ultimately show ?thesis using assms(1) by (simp add: open_sealed_def aead_laws_def)
qed

text \<open>C26: A sealed secret opens on the record it was sealed for and on no other. Sealed by the local key
  manager under the associated data of one user, record and kind, it gives back the plaintext under
  exactly that triple; under the associated data of any other triple, which is what a ciphertext moved
  to another row meets, opening is a \<open>DecryptionError\<close>. The hypotheses state AES-GCM's documented
  behaviour: decryption needs the same associated data, and a ciphertext is never empty.\<close>

theorem sealed_secret_stays_on_its_record:
  assumes "aead_laws A" and "\<And>k n p ad. ae_encrypt A k n p ad \<noteq> []" and "length rand = NONCE_BYTES"
    and "aad user source provider = Inr ad" and "aad user' source' provider' = Inr ad'"
    and "seal A (local_key_manager A sha kek) dek nonce rand plaintext ad = Inr s"
  shows "plaintext \<noteq> [] \<and> open_sealed A (local_key_manager A sha kek) s ad' =
      (if (user', source', provider') = (user, source, provider) then Inr plaintext
       else Inl (DecryptionError ''wrapped DEK did not authenticate under its AAD''))"
proof -
  let ?km = "local_key_manager A sha kek"
  from assms(6) have "plaintext \<noteq> []" by (rule seal_Inr)
  moreover
  have same: "ad = ad' \<longleftrightarrow> (user', source', provider') = (user, source, provider)"
    using aad_inject [OF assms(4,5)] by auto
  have s: "ss_wrapped_dek s = rand @ ae_encrypt A kek rand dek ad" "ss_nonce s = nonce"
    "ss_ciphertext s = ae_encrypt A dek nonce plaintext ad"
    using assms(6) by (auto elim!: seal_Inr simp: local_key_manager_def)
  have "km_unwrap ?km (ss_wrapped_dek s) ad' =
      (if ad' = ad then Inr dek else Inl (DecryptionError ''wrapped DEK did not authenticate under its AAD''))"
    using local_unwrap_wrapped [OF assms(1,3,2)] by (simp add: s local_key_manager_def)
  then have "open_sealed A ?km s ad' =
      (if (user', source', provider') = (user, source, provider) then Inr plaintext
       else Inl (DecryptionError ''wrapped DEK did not authenticate under its AAD''))"
    using assms(1) same by (auto simp: open_sealed_def s aead_laws_def)
  ultimately show ?thesis by simp
qed

text \<open>A cipher with these laws, so that the theorem can be applied: the text in the clear behind its
  associated data, whose length is written in unary.\<close>

definition demo_aead :: aead where
  "demo_aead =
     \<lparr>ae_encrypt = (\<lambda>k n p ad. replicate (length ad) 1 @ [0] @ ad @ p),
      ae_decrypt = (\<lambda>k n c ad. if c = replicate (length ad) 1 @ [0] @ ad @ drop (2 * length ad + 1) c
                               then Some (drop (2 * length ad + 1) c) else None)\<rparr>"

lemma unary_prefix:
  "replicate m (1 :: 8 word) @ 0 # xs = replicate n 1 @ 0 # ys \<longleftrightarrow> m = n \<and> xs = ys"
proof (induction m arbitrary: n)
  case 0
  then show ?case by (cases n) auto
next
  case (Suc m)
  then show ?case by (cases n) auto
qed

lemma demo_aead_laws: "aead_laws demo_aead" "ae_encrypt demo_aead k n p ad \<noteq> []"
proof -
  have "drop (2 * length ad + 1) (replicate (length ad) 1 @ 0 # ad @ p) = p" for ad p :: bytes
    by simp
  then show "aead_laws demo_aead"
    by (auto simp: aead_laws_def demo_aead_def unary_prefix)
  show "ae_encrypt demo_aead k n p ad \<noteq> []" by (simp add: demo_aead_def)
qed

theorem sealed_secret_stays_on_its_record_witness:
  "case (aad ''u'' ''cn_1'' ''site'', aad ''u'' ''cn_2'' ''site'') of
     (Inr ad, Inr ad') \<Rightarrow>
       (let km = local_key_manager demo_aead (\<lambda>b. b) (replicate 32 7)
        in case seal demo_aead km (replicate 32 1) (replicate 12 2) (replicate 12 3) (utf8 ''pw'') ad of
             Inl _ \<Rightarrow> False
           | Inr s \<Rightarrow> open_sealed demo_aead km s ad = Inr (utf8 ''pw'')
               \<and> open_sealed demo_aead km s ad' = Inl (DecryptionError ''wrapped DEK did not authenticate under its AAD''))
   | _ \<Rightarrow> False"
proof -
  let ?km = "local_key_manager demo_aead (\<lambda>b. b) (replicate 32 7)"
  have 1: "aad ''u'' ''cn_1'' ''site'' = Inr (utf8 ''u:cn_1:site'')"
    and 2: "aad ''u'' ''cn_2'' ''site'' = Inr (utf8 ''u:cn_2:site'')"
    by (simp_all add: aad_Inr ambiguous_def)
  have rand: "length (replicate 12 (3 :: 8 word)) = NONCE_BYTES" by (simp add: NONCE_BYTES_def)
  obtain s where s: "seal demo_aead ?km (replicate 32 1) (replicate 12 2) (replicate 12 3) (utf8 ''pw'') (utf8 ''u:cn_1:site'') = Inr s"
    by (simp add: seal_def local_key_manager_def utf8_def utf8_char_def)
  note law = sealed_secret_stays_on_its_record [OF demo_aead_laws(1) demo_aead_laws(2) rand 1 _ s]
  from law [OF 1] law [OF 2] show ?thesis by (simp add: 1 2 s Let_def)
qed


end
