(* ===== verification/Domain.thy ===== *)
theory Domain
  imports Vault "HOL-Library.Product_Lexorder" "HOL-Library.List_Lexorder" "HOL-Library.Char_ord"
begin

text \<open>
  The rows of \<open>db/migrations/0002\<close>, \<open>0003\<close>, \<open>0012\<close>, \<open>0014\<close>, \<open>0018\<close>, \<open>0022\<close> and \<open>0023\<close>, the models of
  \<open>db/src/motet_db/models.py\<close> and the statements of \<open>repo.py\<close> and \<open>phase2.py\<close> over them: source
  items, news items with their sources, episodes with their segments and claims, and the rows of sources,
  credentials, connectors and enrichment runs. A table is the list
  of its rows; a statement is a function of the tables; a violated constraint is the value
  \<open>Inl (IntegrityError ...)\<close>. Random ids are arguments. \<open>ORDER BY\<close> on a text column is the order of
  the strings' characters.
\<close>

section \<open>Rows\<close>

datatype source_item_state = SiPending | SiIntegrated | SiFailed | SiDismissed
datatype enrich_status = EnQueued | EnRunning | EnDone | EnFailed | EnSkipped

record source_item =
  si_id :: string
  si_user :: string
  si_source :: string
  si_title :: string
  si_text :: string
  si_state :: source_item_state
  si_error :: "string option"
  si_received_at :: time
  si_integrated_at :: "time option"
  si_links :: "string list"
  si_external_id :: "string option"
  si_enrich_status :: "enrich_status option"
  si_article_url :: "string option"
  si_enrich_domain :: "string option"
  si_enrich_error :: "string option"
  si_enriched_at :: "time option"
  si_original_text :: "string option"
  si_label_synced_at :: "time option"
  si_label_error :: "string option"
  si_label_attempted_at :: "time option"

record news_item =
  ni_id :: string
  ni_user :: string
  ni_title :: string
  ni_summary :: string
  ni_read_at :: "time option"
  ni_created_at :: time
  ni_updated_at :: time

record dedup_decision_record =
  dd_relation :: "string option"
  dd_reason :: "string option"
  dd_candidate :: "string option"
  dd_model :: "string option"
  dd_basis :: string
  dd_title :: string
  dd_summary :: string

record news_item_source =
  ln_news_item :: string
  ln_source_item :: string
  ln_position :: int
  ln_decision :: "(dedup_decision_record \<times> time) option"

datatype episode_state = EpPending | EpScripting | EpRendering | EpReady | EpFailed
datatype episode_kind = Manual | Smart

record episode =
  ep_id :: string
  ep_user :: string
  ep_title :: string
  ep_state :: episode_state
  ep_kind :: episode_kind
  ep_rule :: "payload option"
  ep_max_duration_ms :: int
  ep_duration_ms :: int
  ep_audio_key :: "string option"
  ep_audio_bytes :: "int option"
  ep_audio_media_type :: "string option"
  ep_last_error :: "string option"
  ep_listened_through_ms :: int
  ep_keep_in_backlog :: bool
  ep_rendered_segments :: int
  ep_created_at :: time
  ep_updated_at :: time
  ep_published_at :: "time option"

record segment_row =
  sg_id :: string
  sg_episode :: string
  sg_news_item :: string
  sg_position :: int
  sg_text :: string
  sg_start_ms :: int
  sg_duration_ms :: int

record segment_claim =
  cl_id :: string
  cl_segment :: string
  cl_position :: int
  cl_text :: string
  cl_source_item :: string
  cl_span_start :: int
  cl_span_end :: int
  cl_start_ms :: int
  cl_duration_ms :: int

text \<open>A source (a mailbox, or pasted text), a connector (a site or an MCP server, with its sealed secret), one
  run of the enrichment agent, and the browser session a run left behind.\<close>

record source_row =
  so_id :: string
  so_user :: string
  so_kind :: string
  so_name :: string
  so_config :: payload
  so_sync_state :: payload
  so_active :: bool
  so_last_polled_at :: "time option"
  so_last_error :: "string option"
  so_created_at :: time
  so_disconnected_at :: "time option"

text \<open>A sealed token of a source: the long-lived grant (\<open>refresh\<close>) or the access token minted from it.\<close>

record credential =
  cr_id :: string
  cr_user :: string
  cr_source :: string
  cr_provider :: string
  cr_purpose :: string
  cr_sealed :: sealed_secret
  cr_scopes :: string
  cr_expires_at :: "time option"
  cr_updated_at :: time

datatype connector_kind = SiteConnector | McpConnector
datatype connector_status = CnReady | CnNeedsAuth | CnError

record connector_oauth =
  co_issuer :: string
  co_client_id :: string
  co_token_endpoint :: string
  co_resource :: string
  co_redirect_uri :: string

record connector =
  cn_id :: string
  cn_user :: string
  cn_kind :: connector_kind
  cn_label :: string
  cn_domain :: "string option"
  cn_domains :: "string list"
  cn_url :: "string option"
  cn_username :: "string option"
  cn_sealed :: "sealed_secret option"
  cn_secret_expires_at :: "time option"
  cn_oauth :: "connector_oauth option"
  cn_risk_acknowledged_at :: "time option"
  cn_status :: connector_status
  cn_last_error :: "string option"
  cn_created_at :: time
  cn_updated_at :: time

datatype run_status = RunOk | RunBlocked | RunCapped | RunTimeout | RunFailed | RunSkipped

record enrich_run =
  run_id :: string
  run_source_item :: string
  run_user :: string
  run_domain :: string
  run_status :: run_status
  run_tool_calls :: int
  run_cost_usd :: rat
  run_article_chars :: int
  run_login_performed :: bool
  run_transcript :: "json list"
  run_error :: "string option"
  run_started_at :: time
  run_finished_at :: "time option"

record browser_state =
  bs_user :: string
  bs_domain :: string
  bs_sealed :: sealed_secret
  bs_cookies :: int

record dom =
  source_items :: "source_item list"
  news_items :: "news_item list"
  news_item_sources :: "news_item_source list"
  episodes :: "episode list"
  segments :: "segment_row list"
  claims :: "segment_claim list"
  source_rows :: "source_row list"
  connectors :: "connector list"
  enrich_runs :: "enrich_run list"
  browser_states :: "browser_state list"
  credentials :: "credential list"

text \<open>What \<open>repo\<close> gives back: a news item with the ids of its sources, an episode with its segments.\<close>

record stored_news_item =
  st_item :: news_item
  st_source_ids :: "string list"

record stored_segment =
  st_segment :: segment_row
  st_claims :: "segment_claim list"

section \<open>Source items\<close>

definition insert_source_item ::
  "time \<Rightarrow> string \<Rightarrow> string \<Rightarrow> string \<Rightarrow> string \<Rightarrow> string \<Rightarrow> string list \<Rightarrow> dom \<Rightarrow> py_error + dom"
where
  "insert_source_item now new_id user source title t links d =
     (if \<exists>r \<in> set (source_items d). si_id r = new_id then Inl (IntegrityError ''source_items_pkey'')
      else Inr (d\<lparr>source_items := source_items d @
             [\<lparr>si_id = new_id, si_user = user, si_source = source, si_title = title, si_text = t,
               si_state = SiPending, si_error = None, si_received_at = now, si_integrated_at = None,
               si_links = links, si_external_id = None, si_enrich_status = None, si_article_url = None,
               si_enrich_domain = None, si_enrich_error = None, si_enriched_at = None,
               si_original_text = None, si_label_synced_at = None, si_label_error = None,
               si_label_attempted_at = None\<rparr>]\<rparr>))"

definition get_source_item :: "string \<Rightarrow> dom \<Rightarrow> source_item option" where
  "get_source_item i d = find (\<lambda>r. si_id r = i) (source_items d)"

definition load_source_items :: "string list \<Rightarrow> dom \<Rightarrow> source_item list" where
  "load_source_items is d = filter (\<lambda>r. si_id r \<in> set is) (source_items d)"

definition mark_source_item ::
  "time \<Rightarrow> string \<Rightarrow> source_item_state \<Rightarrow> string option \<Rightarrow> dom \<Rightarrow> dom"
where
  "mark_source_item now i st e d =
     d\<lparr>source_items := update_where (\<lambda>r. si_id r = i)
         (\<lambda>r. r\<lparr>si_state := st, si_error := e,
                si_integrated_at := (if st = SiIntegrated then Some now else si_integrated_at r)\<rparr>)
         (source_items d)\<rparr>"

section \<open>News items\<close>

definition sources_of :: "dom \<Rightarrow> string \<Rightarrow> string list" where
  "sources_of d i =
     map ln_source_item
       (sort_key ln_position (filter (\<lambda>l. ln_news_item l = i) (news_item_sources d)))"

definition attach_sources :: "dom \<Rightarrow> news_item list \<Rightarrow> stored_news_item list" where
  "attach_sources d rs = map (\<lambda>r. \<lparr>st_item = r, st_source_ids = sources_of d (ni_id r)\<rparr>) rs"

definition WINDOW_DAYS :: int where "WINDOW_DAYS = 3"
definition WINDOW_MAX_ITEMS :: nat where "WINDOW_MAX_ITEMS = 200"

definition days :: "int \<Rightarrow> time" where
  "days n = secs (n * 86400)"

definition by_age :: "news_item \<Rightarrow> time \<times> string" where
  "by_age r = (ni_created_at r, ni_id r)"

definition news_item_window :: "time \<Rightarrow> string \<Rightarrow> nat \<Rightarrow> dom \<Rightarrow> stored_news_item list" where
  "news_item_window now user max_items d =
     attach_sources d
       (sort_key by_age
          (take max_items
             (rev (sort_key by_age
                     (filter (\<lambda>r. ni_user r = user
                               \<and> (ni_read_at r = None \<or> now - days WINDOW_DAYS \<le> ni_created_at r))
                        (news_items d))))))"

definition load_news_items :: "string list \<Rightarrow> dom \<Rightarrow> stored_news_item list" where
  "load_news_items is d = attach_sources d (filter (\<lambda>r. ni_id r \<in> set is) (news_items d))"

definition unread_news_items :: "string \<Rightarrow> dom \<Rightarrow> stored_news_item list" where
  "unread_news_items user d =
     attach_sources d
       (sort_key by_age (filter (\<lambda>r. ni_user r = user \<and> ni_read_at r = None) (news_items d)))"

text \<open>The row of \<open>news_item_sources\<close>: its source item is unique over the table.\<close>

definition link_source :: "string \<Rightarrow> string \<Rightarrow> int \<Rightarrow> dom \<Rightarrow> py_error + dom" where
  "link_source ni si pos d =
     (if \<exists>l \<in> set (news_item_sources d). ln_source_item l = si
      then Inl (IntegrityError ''news_item_sources_source_item_id_key'')
      else if \<not> (\<exists>r \<in> set (news_items d). ni_id r = ni) \<or> \<not> (\<exists>r \<in> set (source_items d). si_id r = si)
      then Inl (IntegrityError ''news_item_sources_fkey'')
      else Inr (d\<lparr>news_item_sources := news_item_sources d @
                    [\<lparr>ln_news_item = ni, ln_source_item = si, ln_position = pos, ln_decision = None\<rparr>]\<rparr>))"

definition insert_news_item ::
  "time \<Rightarrow> string \<Rightarrow> string \<Rightarrow> string \<Rightarrow> string \<Rightarrow> string \<Rightarrow> dom \<Rightarrow> py_error + dom"
where
  "insert_news_item now new_id user title summary si d =
     (if \<exists>r \<in> set (news_items d). ni_id r = new_id then Inl (IntegrityError ''news_items_pkey'')
      else link_source new_id si 0
             (d\<lparr>news_items := news_items d @
                  [\<lparr>ni_id = new_id, ni_user = user, ni_title = title, ni_summary = summary,
                    ni_read_at = None, ni_created_at = now, ni_updated_at = now\<rparr>]\<rparr>))"

definition next_position :: "string \<Rightarrow> dom \<Rightarrow> int" where
  "next_position ni d =
     (case map ln_position (filter (\<lambda>l. ln_news_item l = ni) (news_item_sources d)) of
        [] \<Rightarrow> 0
      | p # ps \<Rightarrow> fold max ps p + 1)"

definition merge_source_into_news_item ::
  "time \<Rightarrow> string \<Rightarrow> string \<Rightarrow> string \<Rightarrow> string \<Rightarrow> dom \<Rightarrow> py_error + dom"
where
  "merge_source_into_news_item now ni si title summary d =
     (case link_source ni si (next_position ni d) d of
        Inl e \<Rightarrow> Inl e
      | Inr d' \<Rightarrow>
          Inr (d'\<lparr>news_items := update_where (\<lambda>r. ni_id r = ni)
                   (\<lambda>r. r\<lparr>ni_title := title, ni_summary := summary, ni_updated_at := now\<rparr>)
                   (news_items d')\<rparr>))"

definition record_dedup_decision ::
  "time \<Rightarrow> string \<Rightarrow> dedup_decision_record \<Rightarrow> dom \<Rightarrow> dom"
where
  "record_dedup_decision now si dec d =
     d\<lparr>news_item_sources := update_where (\<lambda>l. ln_source_item l = si)
         (\<lambda>l. l\<lparr>ln_decision := Some (dec, now)\<rparr>) (news_item_sources d)\<rparr>"

definition set_news_item_read :: "time \<Rightarrow> string \<Rightarrow> string \<Rightarrow> bool \<Rightarrow> dom \<Rightarrow> dom" where
  "set_news_item_read now user i read d =
     d\<lparr>news_items := update_where (\<lambda>r. ni_id r = i \<and> ni_user r = user)
         (\<lambda>r. r\<lparr>ni_read_at := (if read
                                  then (case ni_read_at r of None \<Rightarrow> Some now | Some t \<Rightarrow> Some t)
                                  else None),
                ni_updated_at := now\<rparr>)
         (news_items d)\<rparr>"

definition mark_news_items_read :: "time \<Rightarrow> string \<Rightarrow> string list \<Rightarrow> dom \<Rightarrow> nat \<times> dom" where
  "mark_news_items_read now user is d =
     (let hit = (\<lambda>r. ni_user r = user \<and> ni_id r \<in> set is \<and> ni_read_at r = None)
      in (length (filter hit (news_items d)),
          d\<lparr>news_items := update_where hit
              (\<lambda>r. r\<lparr>ni_read_at := Some now, ni_updated_at := now\<rparr>) (news_items d)\<rparr>))"

end
