(* ===== verification/Rules.thy ===== *)
theory Rules
  imports Domain
begin

text \<open>
  Smart-episode rules, \<open>db/src/motet_db/rules.py\<close>, and the one selector over them,
  \<open>phase2.select_for_rule\<close>. A request body or a stored snapshot is a \<open>json\<close> value; Python's \<open>repr\<close>,
  which only error texts use, is an argument.
\<close>

section \<open>Rules and their snapshots\<close>

datatype ranking = OldestFirst | NewestFirst | Coverage

definition ranking_value :: "ranking \<Rightarrow> string" where
  "ranking_value k =
     (case k of OldestFirst \<Rightarrow> ''oldest_first'' | NewestFirst \<Rightarrow> ''newest_first'' | Coverage \<Rightarrow> ''coverage'')"

definition RANKINGS :: "ranking list" where
  "RANKINGS = [OldestFirst, NewestFirst, Coverage]"

definition DEFAULT_WINDOW_DAYS :: int where "DEFAULT_WINDOW_DAYS = 2"
definition MAX_WINDOW_DAYS :: int where "MAX_WINDOW_DAYS = 30"
definition MAX_ITEMS :: int where "MAX_ITEMS = 100"

record smart_rule =
  unread_only :: bool
  source_ids :: "string list"
  window_days :: int
  ranking :: ranking
  max_items :: int
  news_item_ids :: "string list"

definition sorted_set :: "string list \<Rightarrow> string list" where
  "sorted_set xs = sort (remdups xs)"

definition manual :: smart_rule where
  "manual = \<lparr>unread_only = True, source_ids = [], window_days = 0, ranking = OldestFirst,
             max_items = MAX_ITEMS, news_item_ids = []\<rparr>"

definition picked :: "string list \<Rightarrow> py_error + smart_rule" where
  "picked items =
     (let ids = sorted_set items
      in if ids = [] then Inl (RuleError ''pick at least one news item'')
         else if MAX_ITEMS < int (length ids)
         then Inl (RuleError (''news_item_ids may name at most '' @ py_str MAX_ITEMS @ '' stories''))
         else Inr \<lparr>unread_only = False, source_ids = [], window_days = 0, ranking = OldestFirst,
                   max_items = int (length ids), news_item_ids = ids\<rparr>)"

definition RULE_FIELDS :: "string list" where
  "RULE_FIELDS = [''unread_only'', ''source_ids'', ''window_days'', ''ranking'', ''max_items'', ''news_item_ids'']"

definition json_get :: "payload \<Rightarrow> string \<Rightarrow> json \<Rightarrow> json" where
  "json_get raw key d0 = (case map_of raw key of None \<Rightarrow> d0 | Some v \<Rightarrow> v)"

definition type_name :: "json \<Rightarrow> string" where
  "type_name v =
     (case v of JNull \<Rightarrow> ''NoneType'' | JBool _ \<Rightarrow> ''bool'' | JInt _ \<Rightarrow> ''int'' | JFloat _ \<Rightarrow> ''float''
      | JStr _ \<Rightarrow> ''str'' | JList _ \<Rightarrow> ''list'' | JObj _ \<Rightarrow> ''dict'')"

definition json_int :: "payload \<Rightarrow> string \<Rightarrow> int \<Rightarrow> py_error + int" where
  "json_int raw key d0 =
     (case json_get raw key (JInt d0) of
        JInt n \<Rightarrow> Inr n
      | _ \<Rightarrow> Inl (RuleError (key @ '' must be an integer'')))"

fun strings :: "json list \<Rightarrow> string list option" where
  "strings [] = Some []"
| "strings (JStr s # vs) = map_option ((#) s) (strings vs)"
| "strings (_ # vs) = None"

definition json_strings :: "payload \<Rightarrow> string \<Rightarrow> py_error + string list" where
  "json_strings raw key =
     (case json_get raw key (JList []) of
        JList vs \<Rightarrow> (case strings vs of
                       Some ss \<Rightarrow> Inr ss
                     | None \<Rightarrow> Inl (RuleError (key @ '' must be a list of strings'')))
      | _ \<Rightarrow> Inl (RuleError (key @ '' must be a list of strings'')))"

definition json_ranking :: "(json \<Rightarrow> string) \<Rightarrow> payload \<Rightarrow> py_error + ranking" where
  "json_ranking repr raw =
     (let v = json_get raw ''ranking'' (JStr (ranking_value OldestFirst))
      in case find (\<lambda>k. v = JStr (ranking_value k)) RANKINGS of
           Some k \<Rightarrow> Inr k
         | None \<Rightarrow> Inl (RuleError (''ranking must be one of ''
                     @ py_join '', '' (map ranking_value RANKINGS) @ '', got '' @ repr v)))"

definition json_bool :: "payload \<Rightarrow> string \<Rightarrow> bool \<Rightarrow> py_error + bool" where
  "json_bool raw key d0 =
     (case json_get raw key (JBool d0) of
        JBool b \<Rightarrow> Inr b
      | _ \<Rightarrow> Inl (RuleError (key @ '' must be a boolean'')))"

text \<open>\<open>SmartRule.from_json\<close>, its checks in the order the code makes them.\<close>

definition rule_of_fields :: "(json \<Rightarrow> string) \<Rightarrow> payload \<Rightarrow> py_error + smart_rule" where
  "rule_of_fields repr raw =
     (let unknown = sorted_set (filter (\<lambda>k. k \<notin> set RULE_FIELDS) (map fst raw))
      in if unknown \<noteq> []
         then Inl (RuleError (''unknown rule field(s): '' @ py_join '', '' unknown))
         else case json_int raw ''window_days'' DEFAULT_WINDOW_DAYS of
           Inl e \<Rightarrow> Inl e
         | Inr window \<Rightarrow>
         if \<not> (0 \<le> window \<and> window \<le> MAX_WINDOW_DAYS)
         then Inl (RuleError (''window_days must be between 0 and '' @ py_str MAX_WINDOW_DAYS))
         else case json_int raw ''max_items'' MAX_ITEMS of
           Inl e \<Rightarrow> Inl e
         | Inr items \<Rightarrow>
         if \<not> (1 \<le> items \<and> items \<le> MAX_ITEMS)
         then Inl (RuleError (''max_items must be between 1 and '' @ py_str MAX_ITEMS))
         else case json_ranking repr raw of
           Inl e \<Rightarrow> Inl e
         | Inr rank \<Rightarrow>
         case json_strings raw ''source_ids'' of
           Inl e \<Rightarrow> Inl e
         | Inr sources \<Rightarrow>
         case json_strings raw ''news_item_ids'' of
           Inl e \<Rightarrow> Inl e
         | Inr ids \<Rightarrow>
         if MAX_ITEMS < int (length (remdups ids))
         then Inl (RuleError (''news_item_ids may name at most '' @ py_str MAX_ITEMS @ '' stories''))
         else case json_bool raw ''unread_only'' True of
           Inl e \<Rightarrow> Inl e
         | Inr unread \<Rightarrow>
             Inr \<lparr>unread_only = unread, source_ids = sorted_set sources, window_days = window,
                  ranking = rank, max_items = items, news_item_ids = sorted_set ids\<rparr>)"

definition from_json :: "(json \<Rightarrow> string) \<Rightarrow> json \<Rightarrow> py_error + smart_rule" where
  "from_json repr raw =
     (case raw of
        JObj body \<Rightarrow> rule_of_fields repr body
      | _ \<Rightarrow> Inl (RuleError (''a rule must be an object, got '' @ type_name raw)))"

definition to_json :: "smart_rule \<Rightarrow> payload" where
  "to_json r =
     [(''unread_only'', JBool (unread_only r)),
      (''source_ids'', JList (map JStr (source_ids r))),
      (''window_days'', JInt (window_days r)),
      (''ranking'', JStr (ranking_value (ranking r))),
      (''max_items'', JInt (max_items r)),
      (''news_item_ids'', JList (map JStr (news_item_ids r)))]"

section \<open>Selection\<close>

definition source_count :: "dom \<Rightarrow> news_item \<Rightarrow> int" where
  "source_count d r = int (length (filter (\<lambda>l. ln_news_item l = ni_id r) (news_item_sources d)))"

text \<open>The \<open>WHERE\<close> clause the code builds, condition by condition.\<close>

definition from_sources :: "dom \<Rightarrow> string list \<Rightarrow> news_item \<Rightarrow> bool" where
  "from_sources d sources r \<longleftrightarrow>
     (\<exists>l \<in> set (news_item_sources d). ln_news_item l = ni_id r
        \<and> (\<exists>s \<in> set (source_items d). si_id s = ln_source_item l \<and> si_source s \<in> set sources))"

definition rule_matches :: "time \<Rightarrow> string \<Rightarrow> smart_rule \<Rightarrow> dom \<Rightarrow> news_item \<Rightarrow> bool" where
  "rule_matches now user rule d r \<longleftrightarrow>
     ni_user r = user
     \<and> (unread_only rule \<longrightarrow> ni_read_at r = None)
     \<and> (0 < window_days rule \<longrightarrow> now - days (window_days rule) \<le> ni_created_at r)
     \<and> (source_ids rule \<noteq> [] \<longrightarrow> from_sources d (source_ids rule) r)
     \<and> (news_item_ids rule \<noteq> [] \<longrightarrow> ni_id r \<in> set (news_item_ids rule))"

definition by_coverage :: "dom \<Rightarrow> news_item \<Rightarrow> int \<times> time \<times> string" where
  "by_coverage d r = (- source_count d r, by_age r)"

definition order_by :: "ranking \<Rightarrow> dom \<Rightarrow> news_item list \<Rightarrow> news_item list" where
  "order_by k d rs =
     (case k of
        OldestFirst \<Rightarrow> sort_key by_age rs
      | NewestFirst \<Rightarrow> rev (sort_key by_age rs)
      | Coverage \<Rightarrow> sort_key (by_coverage d) rs)"

definition select_for_rule :: "time \<Rightarrow> string \<Rightarrow> smart_rule \<Rightarrow> dom \<Rightarrow> stored_news_item list" where
  "select_for_rule now user rule d =
     attach_sources d
       (take (nat (max_items rule))
          (order_by (ranking rule) d (filter (rule_matches now user rule d) (news_items d))))"

section \<open>Snapshots read back\<close>

definition rule_ok :: "smart_rule \<Rightarrow> bool" where
  "rule_ok r \<longleftrightarrow>
     0 \<le> window_days r \<and> window_days r \<le> 30 \<and> 1 \<le> max_items r \<and> max_items r \<le> 100
     \<and> sorted (source_ids r) \<and> distinct (source_ids r)
     \<and> sorted (news_item_ids r) \<and> distinct (news_item_ids r) \<and> length (news_item_ids r) \<le> 100"

lemma sorted_set_facts [simp]: "sorted (sorted_set xs)" "distinct (sorted_set xs)" "set (sorted_set xs) = set xs"
  by (simp_all add: sorted_set_def)

lemma sorted_set_empty: "sorted_set xs = [] \<longleftrightarrow> xs = []"
  by (metis sorted_set_facts(3) set_empty)

lemma sorted_set_id: "sorted xs \<Longrightarrow> distinct xs \<Longrightarrow> sorted_set xs = xs"
  by (simp add: sorted_set_def sorted_sort_id distinct_remdups_id)

lemma length_sorted_set [simp]: "length (sorted_set xs) = card (set xs)"
  by (simp add: sorted_set_def length_remdups_card_conv)

lemma strings_map [simp]: "strings (map JStr xs) = Some xs"
  by (induction xs) simp_all

lemma ranking_found [simp]:
  "find (\<lambda>j. JStr (ranking_value k) = JStr (ranking_value j)) RANKINGS = Some k"
  by (cases k) (simp_all add: RANKINGS_def ranking_value_def)

lemma from_json_ok: "from_json repr raw = Inr r \<Longrightarrow> rule_ok r"
  by (auto simp: from_json_def rule_of_fields_def rule_ok_def MAX_WINDOW_DAYS_def MAX_ITEMS_def Let_def
      length_remdups_card_conv split: json.splits if_splits sum.splits)

lemma manual_ok: "rule_ok manual"
  by (simp add: rule_ok_def manual_def MAX_ITEMS_def)

lemma picked_ok: "picked items = Inr r \<Longrightarrow> rule_ok r"
  by (auto simp: picked_def rule_ok_def MAX_ITEMS_def Let_def Suc_le_eq card_gt_0_iff
      simp flip: length_sorted_set split: if_splits)

lemma to_json_get:
  "json_get (to_json r) ''unread_only'' v = JBool (unread_only r)"
  "json_get (to_json r) ''source_ids'' v = JList (map JStr (source_ids r))"
  "json_get (to_json r) ''window_days'' v = JInt (window_days r)"
  "json_get (to_json r) ''ranking'' v = JStr (ranking_value (ranking r))"
  "json_get (to_json r) ''max_items'' v = JInt (max_items r)"
  "json_get (to_json r) ''news_item_ids'' v = JList (map JStr (news_item_ids r))"
  by (simp_all add: json_get_def to_json_def)

lemma to_json_fields: "filter (\<lambda>k. k \<notin> set RULE_FIELDS) (map fst (to_json r)) = []"
  by (simp add: to_json_def RULE_FIELDS_def)

lemma strings_Some: "strings vs = Some xs \<longleftrightarrow> vs = map JStr xs"
  by (induction vs arbitrary: xs rule: strings.induct) auto

lemma json_int_Inr: "json_int body k d = Inr n \<longleftrightarrow> json_get body k (JInt d) = JInt n"
  by (simp add: json_int_def split: json.split)

lemma map_JStr [simp]: "map JStr xs = map JStr ys \<longleftrightarrow> xs = ys"
  by (metis strings_map option.inject)

lemma json_strings_Inr: "json_strings body k = Inr xs \<longleftrightarrow> json_get body k (JList []) = JList (map JStr xs)"
  by (auto simp: json_strings_def strings_Some split: json.split option.split)

lemma json_bool_Inr: "json_bool body k d = Inr b \<longleftrightarrow> json_get body k (JBool d) = JBool b"
  by (simp add: json_bool_def split: json.split)

lemma json_ranking_Inr:
  "json_ranking repr body = Inr k \<longleftrightarrow> json_get body ''ranking'' (JStr ''oldest_first'') = JStr (ranking_value k)"
proof -
  have "ranking_value j = ranking_value k \<longleftrightarrow> j = k" for j k
    by (cases j; cases k) (simp_all add: ranking_value_def)
  moreover have "ranking_value OldestFirst = ''oldest_first''" by (simp add: ranking_value_def)
  ultimately show ?thesis
    by (auto simp: json_ranking_def Let_def RANKINGS_def split: option.split if_splits) (metis ranking.exhaust)+
qed

lemma snapshot_reads_back:
  assumes "rule_ok r"
  shows "from_json repr (JObj (to_json r)) = Inr r"
proof -
  have "sorted_set [] = []" by (simp add: sorted_set_def)
  moreover have "json_int (to_json r) ''window_days'' d = Inr (window_days r)"
    "json_int (to_json r) ''max_items'' d = Inr (max_items r)"
    "json_ranking repr (to_json r) = Inr (ranking r)"
    "json_strings (to_json r) ''source_ids'' = Inr (source_ids r)"
    "json_strings (to_json r) ''news_item_ids'' = Inr (news_item_ids r)"
    "json_bool (to_json r) ''unread_only'' b = Inr (unread_only r)" for d b
    by (simp_all add: json_int_Inr json_ranking_Inr json_strings_Inr json_bool_Inr to_json_get)
  ultimately show ?thesis
    using assms by (simp add: from_json_def rule_of_fields_def Let_def to_json_fields rule_ok_def
        MAX_WINDOW_DAYS_def MAX_ITEMS_def sorted_set_id distinct_remdups_id)
qed

text \<open>A stored rule is the rule that was validated. Whatever \<open>from_json\<close> accepts, what \<open>manual\<close> builds
  and what \<open>picked\<close> builds is within the bounds, with sorted duplicate-free ids, and its snapshot
  parses back to it.\<close>

theorem rule_snapshot_roundtrip:
  assumes "from_json repr raw = Inr r \<or> r = manual \<or> picked items = Inr r"
  shows "rule_ok r \<and> from_json repr' (JObj (to_json r)) = Inr r"
  using assms from_json_ok manual_ok picked_ok snapshot_reads_back by blast

definition demo_rule_json :: payload where
  "demo_rule_json = [(''ranking'', JStr ''coverage''), (''source_ids'', JList [JStr ''b'', JStr ''a'', JStr ''b''])]"

lemma demo_rule:
  "from_json repr (JObj demo_rule_json) =
     Inr \<lparr>unread_only = True, source_ids = [''a'', ''b''], window_days = 2, ranking = Coverage,
          max_items = 100, news_item_ids = []\<rparr>"
proof -
  have "sorted_set [''b'', ''a'', ''b''] = [''a'', ''b'']" "sorted_set [] = []"
    by (simp_all add: sorted_set_def less_char_def)
  then show ?thesis
    by (simp add: from_json_def rule_of_fields_def demo_rule_json_def RULE_FIELDS_def json_int_def json_get_def
        json_ranking_def json_strings_def json_bool_def RANKINGS_def ranking_value_def DEFAULT_WINDOW_DAYS_def
        MAX_WINDOW_DAYS_def MAX_ITEMS_def Let_def)
qed

theorem rule_snapshot_roundtrip_witness:
  "case from_json (\<lambda>_. []) (JObj demo_rule_json) of
     Inl _ \<Rightarrow> False
   | Inr r \<Rightarrow> source_ids r = [''a'', ''b''] \<and> from_json (\<lambda>_. []) (JObj (to_json r)) = Inr r"
  using rule_snapshot_roundtrip [OF disjI1, OF demo_rule, of "\<lambda>_. []"] by (simp add: demo_rule)

text \<open>What a rule has to be, stated on the JSON value: known fields only, numbers in range (a boolean is
  no number), a known ranking, lists of strings, a boolean.\<close>

definition well_typed :: "payload \<Rightarrow> bool" where
  "well_typed body \<longleftrightarrow>
     fst ` set body \<subseteq> set RULE_FIELDS
     \<and> (\<exists>n. json_get body ''window_days'' (JInt 2) = JInt n \<and> 0 \<le> n \<and> n \<le> 30)
     \<and> (\<exists>n. json_get body ''max_items'' (JInt 100) = JInt n \<and> 1 \<le> n \<and> n \<le> 100)
     \<and> (\<exists>k. json_get body ''ranking'' (JStr ''oldest_first'') = JStr (ranking_value k))
     \<and> (\<exists>xs. json_get body ''source_ids'' (JList []) = JList (map JStr xs))
     \<and> (\<exists>xs. json_get body ''news_item_ids'' (JList []) = JList (map JStr xs) \<and> card (set xs) \<le> 100)
     \<and> (\<exists>b. json_get body ''unread_only'' (JBool True) = JBool b)"

lemma errors_are_rule_errors:
  "json_int body k d = Inl e \<Longrightarrow> \<exists>m. e = RuleError m"
  "json_strings body k = Inl e \<Longrightarrow> \<exists>m. e = RuleError m"
  "json_bool body k b = Inl e \<Longrightarrow> \<exists>m. e = RuleError m"
  "json_ranking repr body = Inl e \<Longrightarrow> \<exists>m. e = RuleError m"
  by (auto simp: json_int_def json_strings_def json_bool_def json_ranking_def Let_def
      split: json.splits option.splits)

text \<open>C39: \<open>from_json\<close> accepts exactly the well-typed rules, and refuses every other value, of any shape,
  with a \<open>RuleError\<close> and no other exception: a misspelled field, a boolean where a number belongs and
  a number out of range among them.\<close>

theorem rule_accepted_iff_well_typed:
  "case raw of
     JObj body \<Rightarrow> (if well_typed body then \<exists>r. from_json repr raw = Inr r
                   else \<exists>m. from_json repr raw = Inl (RuleError m))
   | _ \<Rightarrow> \<exists>m. from_json repr raw = Inl (RuleError m)"
proof (cases raw)
  case (JObj body)
  have unknown: "sorted_set (filter (\<lambda>k. k \<notin> set RULE_FIELDS) (map fst body)) = [] \<longleftrightarrow> fst ` set body \<subseteq> set RULE_FIELDS"
    by (auto simp: sorted_set_empty filter_empty_conv)
  have "(\<exists>r. from_json repr raw = Inr r) \<longleftrightarrow> well_typed body"
    by (simp add: JObj from_json_def rule_of_fields_def Let_def unknown well_typed_def MAX_WINDOW_DAYS_def
        MAX_ITEMS_def DEFAULT_WINDOW_DAYS_def not_less length_remdups_card_conv split: sum.split
        flip: json_int_Inr json_strings_Inr json_bool_Inr json_ranking_Inr [of repr]) fastforce
  moreover have "\<exists>m. e = RuleError m" if "from_json repr raw = Inl e" for e
    using that by (auto simp: JObj from_json_def rule_of_fields_def Let_def dest: errors_are_rule_errors
        split: sum.splits if_splits)
  ultimately show ?thesis
    by (cases "from_json repr raw") (auto simp: JObj)
qed (simp_all add: from_json_def)

section \<open>What a selection promises\<close>

text \<open>The contract of a ranking: it permutes the rows and puts them in an order \<open>before\<close> that is total
  among rows of distinct ids. From that alone, the ranked list is a function of the set of rows, and
  cutting it off keeps the best.\<close>

locale ranking_contract =
  fixes rank :: "'r list \<Rightarrow> 'r list"
    and ident :: "'r \<Rightarrow> 'i"
    and before :: "'r \<Rightarrow> 'r \<Rightarrow> bool"
  assumes rank_mset: "mset (rank xs) = mset xs"
    and rank_sorted: "distinct (map ident xs) \<Longrightarrow> sorted_wrt before (rank xs)"
    and before_asym: "before x y \<Longrightarrow> \<not> before y x"
begin

lemma rank_set [simp]: "set (rank xs) = set xs"
  by (metis rank_mset set_mset_mset)

lemma sorted_unique:
  "mset xs = mset ys \<Longrightarrow> sorted_wrt before xs \<Longrightarrow> sorted_wrt before ys \<Longrightarrow> xs = ys"
proof (induction xs arbitrary: ys)
  case Nil
  then show ?case by simp
next
  case (Cons x xs)
  then obtain y zs where ys: "ys = y # zs" by (cases ys) auto
  have "x = y"
  proof (rule ccontr)
    assume "x \<noteq> y"
    with Cons.prems(1) ys have "x \<in> set zs" "y \<in> set xs"
      by (metis set_mset_mset set_ConsD list.set_intros(1))+
    with Cons.prems(2,3) ys before_asym show False by auto
  qed
  with Cons ys show ?case by simp
qed

lemma rank_of_permutation:
  assumes "mset xs = mset ys" and "distinct (map ident xs)"
  shows "rank xs = rank ys"
proof -
  have "distinct (map ident ys)"
    using assms by (metis mset_eq_imp_distinct_iff mset_map)
  then show ?thesis
    using sorted_unique [of "rank xs" "rank ys"] rank_mset rank_sorted assms by metis
qed

lemma cut_keeps_best:
  assumes "distinct (map ident xs)" and "x \<in> set xs" and "x \<notin> set (take n (rank xs))"
    and "y \<in> set (take n (rank xs))"
  shows "before y x"
proof -
  have "x \<in> set (drop n (rank xs))"
    using assms(2,3) by (metis Un_iff append_take_drop_id rank_set set_append)
  moreover have "sorted_wrt before (take n (rank xs) @ drop n (rank xs))"
    using rank_sorted [OF assms(1)] by simp
  ultimately show ?thesis using assms(4) by (simp only: sorted_wrt_append)
qed

end

definition ranks_before :: "ranking \<Rightarrow> dom \<Rightarrow> news_item \<Rightarrow> news_item \<Rightarrow> bool" where
  "ranks_before k d x y =
     (case k of
        OldestFirst \<Rightarrow> by_age x < by_age y
      | NewestFirst \<Rightarrow> by_age y < by_age x
      | Coverage \<Rightarrow> source_count d y < source_count d x
                     \<or> source_count d x = source_count d y \<and> by_age x < by_age y)"

lemma sort_key_strict:
  assumes "\<And>x y. f x = f y \<Longrightarrow> ident x = ident y" and "distinct (map ident xs)"
  shows "sorted_wrt (\<lambda>x y. f x < f y) (sort_key f xs)"
proof -
  have d: "distinct xs" "inj_on ident (set xs)" using assms(2) by (simp_all add: distinct_map)
  moreover have "inj_on f (set xs)" by (rule inj_onI) (metis assms(1) d(2) inj_onD)
  ultimately have "distinct (map f (sort_key f xs))" by (simp add: distinct_map)
  then have "sorted_wrt (<) (map f (sort_key f xs))" by (simp add: strict_sorted_iff)
  then show ?thesis by (simp add: sorted_wrt_map)
qed

lemma by_age_ident: "by_age x = by_age y \<Longrightarrow> ni_id x = ni_id y"
  by (simp add: by_age_def)

interpretation selection: ranking_contract "order_by k d" ni_id "ranks_before k d" for k d
proof
  fix xs :: "news_item list"
  show "mset (order_by k d xs) = mset xs" by (cases k) (simp_all add: order_by_def)
  assume dist: "distinct (map ni_id xs)"
  note old = sort_key_strict [of by_age ni_id, OF by_age_ident dist]
  have "sorted_wrt (\<lambda>x y. by_coverage d x < by_coverage d y) (sort_key (by_coverage d) xs)"
    by (rule sort_key_strict [OF _ dist]) (simp add: by_coverage_def by_age_def)
  moreover have "ranks_before OldestFirst d = (\<lambda>x y. by_age x < by_age y)"
    "ranks_before NewestFirst d = (\<lambda>x y. by_age y < by_age x)"
    "ranks_before Coverage d = (\<lambda>x y. by_coverage d x < by_coverage d y)"
    by (auto simp: fun_eq_iff ranks_before_def by_coverage_def)
  ultimately show "sorted_wrt (ranks_before k d) (order_by k d xs)"
    using old by (cases k) (simp_all add: order_by_def sorted_wrt_rev)
next
  show "\<not> ranks_before k d y x" if "ranks_before k d x y" for x y
    using that by (cases k) (auto simp: ranks_before_def)
qed

text \<open>An episode built twice from one backlog contains the same stories. With distinct ids, the
  selection depends on the rows and not on the order the table gives them in; it holds only stories
  the rule matches, in the rule's order, as many as the rule allows or all of them; and no story it
  leaves out ranks ahead of one it takes.\<close>

theorem selection_keeps_best:
  assumes "distinct (map ni_id (news_items d))"
  shows "let sel = map st_item (select_for_rule now user rule d);
             matching = filter (rule_matches now user rule d) (news_items d) in
    (\<forall>rows. mset rows = mset (news_items d) \<longrightarrow> select_for_rule now user rule (d\<lparr>news_items := rows\<rparr>) = select_for_rule now user rule d)
    \<and> sorted_wrt (ranks_before (ranking rule) d) sel \<and> set sel \<subseteq> set matching
    \<and> length sel = min (nat (max_items rule)) (length matching)
    \<and> (\<forall>x \<in> set matching - set sel. \<forall>y \<in> set sel. ranks_before (ranking rule) d y x)"
proof -
  let ?m = "filter (rule_matches now user rule d) (news_items d)"
  let ?o = "order_by (ranking rule) d"
  have dist: "distinct (map ni_id ?m)" using assms by (simp add: distinct_map_filter)
  have sel: "map st_item (select_for_rule now user rule d) = take (nat (max_items rule)) (?o ?m)"
    by (simp add: select_for_rule_def attach_sources_def comp_def)
  have "select_for_rule now user rule (d\<lparr>news_items := rows\<rparr>) = select_for_rule now user rule d"
    if "mset rows = mset (news_items d)" for rows
  proof -
    have e: "source_count (d\<lparr>news_items := rows\<rparr>) = source_count d" "sources_of (d\<lparr>news_items := rows\<rparr>) = sources_of d"
      "rule_matches now user rule (d\<lparr>news_items := rows\<rparr>) = rule_matches now user rule d"
      by (simp_all add: fun_eq_iff source_count_def sources_of_def rule_matches_def from_sources_def)
    have "by_coverage (d\<lparr>news_items := rows\<rparr>) = by_coverage d"
      by (simp add: fun_eq_iff by_coverage_def [abs_def] e)
    then have "order_by k (d\<lparr>news_items := rows\<rparr>) = order_by k d" for k
      by (simp add: order_by_def [abs_def] cong: ranking.case_cong)
    moreover have "mset ?m = mset (filter (rule_matches now user rule d) rows)" using that by simp
    moreover have "?o ?m = ?o (filter (rule_matches now user rule d) rows)"
      by (rule selection.rank_of_permutation [OF _ dist]) fact
    ultimately show ?thesis by (simp add: select_for_rule_def attach_sources_def e)
  qed
  moreover have "sorted_wrt (ranks_before (ranking rule) d) (take (nat (max_items rule)) (?o ?m))"
    using selection.rank_sorted [OF dist, of "ranking rule" d] by (rule sorted_wrt_take)
  moreover have "length (?o ?m) = length ?m"
    by (metis selection.rank_mset size_mset)
  moreover have "set (take (nat (max_items rule)) (?o ?m)) \<subseteq> set ?m"
    by (metis selection.rank_set set_take_subset)
  ultimately show ?thesis
    using selection.cut_keeps_best [OF dist] unfolding Let_def sel by auto
qed


definition demo_item :: "string \<Rightarrow> time \<Rightarrow> time option \<Rightarrow> news_item" where
  "demo_item i t r =
     \<lparr>ni_id = i, ni_user = ''u'', ni_title = i, ni_summary = ''s'', ni_read_at = r, ni_created_at = t, ni_updated_at = t\<rparr>"

definition demo_backlog :: dom where
  "demo_backlog =
     \<lparr>source_items = [], news_items = [demo_item ''b'' 5 None, demo_item ''r'' 1 (Some 9), demo_item ''a'' 3 None],
      news_item_sources = [], episodes = [], segments = [], claims = [],
      source_rows = [], connectors = [], enrich_runs = [], browser_states = [], credentials = []\<rparr>"

theorem selection_keeps_best_witness:
  "distinct (map ni_id (news_items demo_backlog))
   \<and> map (ni_id \<circ> st_item) (select_for_rule 10 ''u'' manual demo_backlog) = [''a'', ''b'']
   \<and> sorted_wrt (ranks_before OldestFirst demo_backlog) (map st_item (select_for_rule 10 ''u'' manual demo_backlog))"
proof -
  have d: "distinct (map ni_id (news_items demo_backlog))"
    by (simp add: demo_backlog_def demo_item_def)
  have "sorted_wrt (ranks_before OldestFirst demo_backlog) (map st_item (select_for_rule 10 ''u'' manual demo_backlog))"
    using selection_keeps_best [OF d, of 10 "''u''" manual] by (simp add: Let_def manual_def)
  moreover have "map (ni_id \<circ> st_item) (select_for_rule 10 ''u'' manual demo_backlog) = [''a'', ''b'']"
    by (simp add: select_for_rule_def manual_def order_by_def rule_matches_def demo_backlog_def demo_item_def
        attach_sources_def MAX_ITEMS_def by_age_def)
  ultimately show ?thesis using d by simp
qed


end
