(* ===== verification/Episodes.thy ===== *)
theory Episodes
  imports Rules
begin

text \<open>
  The episode half of \<open>db/src/motet_db/repo.py\<close> and \<open>phase2.py\<close>: episodes, their segments and
  claims, publication, and playback progress, as functions of the tables of \<open>Domain\<close>. New ids are
  arguments: a segment's by its position, a claim's by its segment's position and its own.
\<close>

section \<open>Creating, reading, naming\<close>

definition create_episode ::
  "time \<Rightarrow> string \<Rightarrow> string \<Rightarrow> string \<Rightarrow> int \<Rightarrow> episode_kind \<Rightarrow> payload option \<Rightarrow> bool \<Rightarrow> dom \<Rightarrow> py_error + dom"
where
  "create_episode now new_id user title max_ms kind rule keep d =
     (if \<exists>e \<in> set (episodes d). ep_id e = new_id then Inl (IntegrityError ''episodes_pkey'')
      else if max_ms \<le> 0 then Inl (IntegrityError ''episodes_max_duration_ms_check'')
      else if kind = Smart \<and> rule = None then Inl (IntegrityError ''episodes_smart_has_rule'')
      else Inr (d\<lparr>episodes := episodes d @
             [\<lparr>ep_id = new_id, ep_user = user, ep_title = title, ep_state = EpPending, ep_kind = kind,
               ep_rule = rule, ep_max_duration_ms = max_ms, ep_duration_ms = 0, ep_audio_key = None,
               ep_audio_bytes = None, ep_audio_media_type = None, ep_last_error = None,
               ep_listened_through_ms = 0, ep_keep_in_backlog = keep, ep_rendered_segments = 0,
               ep_created_at = now, ep_updated_at = now, ep_published_at = None\<rparr>]\<rparr>))"

record stored_episode =
  se_row :: episode
  se_segments :: "stored_segment list"

definition claims_of :: "dom \<Rightarrow> string \<Rightarrow> segment_claim list" where
  "claims_of d sg = sort_key cl_position (filter (\<lambda>c. cl_segment c = sg) (claims d))"

definition segments_of :: "dom \<Rightarrow> string \<Rightarrow> segment_row list" where
  "segments_of d ep = sort_key sg_position (filter (\<lambda>s. sg_episode s = ep) (segments d))"

definition segments_for :: "dom \<Rightarrow> string \<Rightarrow> stored_segment list" where
  "segments_for d ep = map (\<lambda>s. \<lparr>st_segment = s, st_claims = claims_of d (sg_id s)\<rparr>) (segments_of d ep)"

definition episode_row :: "string \<Rightarrow> dom \<Rightarrow> episode option" where
  "episode_row i d = find (\<lambda>e. ep_id e = i) (episodes d)"

definition get_episode :: "string \<Rightarrow> string option \<Rightarrow> dom \<Rightarrow> stored_episode option" where
  "get_episode i user d =
     (case find (\<lambda>e. ep_id e = i \<and> (case user of None \<Rightarrow> True | Some u \<Rightarrow> ep_user e = u)) (episodes d) of
        None \<Rightarrow> None
      | Some e \<Rightarrow> Some \<lparr>se_row = e, se_segments = segments_for d (ep_id e)\<rparr>)"

definition list_episodes :: "string \<Rightarrow> dom \<Rightarrow> stored_episode list" where
  "list_episodes user d =
     map (\<lambda>e. \<lparr>se_row = e, se_segments = segments_for d (ep_id e)\<rparr>)
       (rev (sort_key (\<lambda>e. (ep_created_at e, ep_id e)) (filter (\<lambda>e. ep_user e = user) (episodes d))))"

text \<open>\<open>ORDER BY published_at DESC\<close>: a null, which a published episode does not have, would come first.\<close>

definition by_publication :: "episode \<Rightarrow> bool \<times> time \<times> string" where
  "by_publication e =
     (ep_published_at e = None, case ep_published_at e of None \<Rightarrow> 0 | Some t \<Rightarrow> t, ep_id e)"

definition list_published_episodes :: "string \<Rightarrow> dom \<Rightarrow> stored_episode list" where
  "list_published_episodes user d =
     map (\<lambda>e. \<lparr>se_row = e, se_segments = segments_for d (ep_id e)\<rparr>)
       (rev (sort_key by_publication
          (filter (\<lambda>e. ep_user e = user \<and> ep_state e = EpReady \<and> ep_audio_key e \<noteq> None) (episodes d))))"

definition update_episode :: "string \<Rightarrow> (episode \<Rightarrow> episode) \<Rightarrow> dom \<Rightarrow> dom" where
  "update_episode i f d = d\<lparr>episodes := update_where (\<lambda>e. ep_id e = i) f (episodes d)\<rparr>"

definition set_episode_state :: "time \<Rightarrow> string \<Rightarrow> episode_state \<Rightarrow> string option \<Rightarrow> dom \<Rightarrow> dom" where
  "set_episode_state now i st e =
     update_episode i (\<lambda>r. r\<lparr>ep_state := st, ep_last_error := e, ep_updated_at := now\<rparr>)"

definition rename_episode :: "string \<Rightarrow> string \<Rightarrow> string \<Rightarrow> dom \<Rightarrow> stored_episode option \<times> dom" where
  "rename_episode i user title d =
     (let hit = (\<lambda>e. ep_id e = i \<and> ep_user e = user);
          d' = d\<lparr>episodes := update_where hit (\<lambda>e. e\<lparr>ep_title := title\<rparr>) (episodes d)\<rparr>
      in if filter hit (episodes d) = [] then (None, d) else (get_episode i (Some user) d', d'))"

section \<open>Segments and claims\<close>

record claim_spec =
  cs_text :: string
  cs_source_item :: string
  cs_span_start :: int
  cs_span_end :: int

record segment_spec =
  ss_news_item :: string
  ss_text :: string
  ss_duration_ms :: int
  ss_claims :: "claim_spec list"

text \<open>The two \<open>INSERT\<close>s with the constraints of their tables.\<close>

definition insert_segment :: "segment_row \<Rightarrow> dom \<Rightarrow> py_error + dom" where
  "insert_segment r d =
     (if \<exists>s \<in> set (segments d). sg_id s = sg_id r then Inl (IntegrityError ''episode_segments_pkey'')
      else if \<exists>s \<in> set (segments d). sg_episode s = sg_episode r \<and> sg_position s = sg_position r
      then Inl (IntegrityError ''episode_segments_episode_id_position_key'')
      else if \<exists>s \<in> set (segments d). sg_episode s = sg_episode r \<and> sg_news_item s = sg_news_item r
      then Inl (IntegrityError ''episode_segments_episode_id_news_item_id_key'')
      else if \<not> (\<exists>e \<in> set (episodes d). ep_id e = sg_episode r) \<or> \<not> (\<exists>n \<in> set (news_items d). ni_id n = sg_news_item r)
      then Inl (IntegrityError ''episode_segments_fkey'')
      else Inr (d\<lparr>segments := segments d @ [r]\<rparr>))"

definition insert_claim :: "segment_claim \<Rightarrow> dom \<Rightarrow> py_error + dom" where
  "insert_claim r d =
     (if \<exists>c \<in> set (claims d). cl_id c = cl_id r then Inl (IntegrityError ''segment_claims_pkey'')
      else if \<exists>c \<in> set (claims d). cl_segment c = cl_segment r \<and> cl_position c = cl_position r
      then Inl (IntegrityError ''segment_claims_segment_id_position_key'')
      else if \<not> (0 \<le> cl_span_start r \<and> cl_span_start r < cl_span_end r)
      then Inl (IntegrityError ''segment_claims_span_is_real'')
      else if \<not> (\<exists>s \<in> set (segments d). sg_id s = cl_segment r) \<or> \<not> (\<exists>s \<in> set (source_items d). si_id s = cl_source_item r)
      then Inl (IntegrityError ''segment_claims_fkey'')
      else Inr (d\<lparr>claims := claims d @ [r]\<rparr>))"

text \<open>\<open>DELETE FROM episode_segments\<close>, which takes the claims with it.\<close>

definition delete_segments :: "string \<Rightarrow> dom \<Rightarrow> dom" where
  "delete_segments ep d =
     d\<lparr>segments := filter (\<lambda>s. sg_episode s \<noteq> ep) (segments d),
       claims := filter (\<lambda>c. \<forall>s \<in> set (segments d). sg_id s = cl_segment c \<longrightarrow> sg_episode s \<noteq> ep) (claims d)\<rparr>"

fun insert_claims :: "(nat \<Rightarrow> string) \<Rightarrow> string \<Rightarrow> nat \<Rightarrow> claim_spec list \<Rightarrow> dom \<Rightarrow> py_error + dom" where
  "insert_claims ids sg pos [] d = Inr d"
| "insert_claims ids sg pos (c # cs) d =
     and_then
       (insert_claim \<lparr>cl_id = ids pos, cl_segment = sg, cl_position = int pos, cl_text = cs_text c,
          cl_source_item = cs_source_item c, cl_span_start = cs_span_start c, cl_span_end = cs_span_end c,
          cl_start_ms = 0, cl_duration_ms = 0\<rparr> d)
       (insert_claims ids sg (Suc pos) cs)"

fun insert_segments ::
  "(nat \<Rightarrow> string) \<Rightarrow> (nat \<Rightarrow> nat \<Rightarrow> string) \<Rightarrow> string \<Rightarrow> nat \<Rightarrow> int \<Rightarrow> segment_spec list \<Rightarrow> dom \<Rightarrow> py_error + dom"
where
  "insert_segments sids cids ep pos start_ms [] d = Inr d"
| "insert_segments sids cids ep pos start_ms (s # ss) d =
     and_then
       (insert_segment \<lparr>sg_id = sids pos, sg_episode = ep, sg_news_item = ss_news_item s, sg_position = int pos,
          sg_text = ss_text s, sg_start_ms = start_ms, sg_duration_ms = ss_duration_ms s\<rparr> d)
       (\<lambda>d1. and_then (insert_claims (cids pos) (sids pos) 0 (ss_claims s) d1)
               (insert_segments sids cids ep (Suc pos) (start_ms + ss_duration_ms s) ss))"

definition replace_segments ::
  "(nat \<Rightarrow> string) \<Rightarrow> (nat \<Rightarrow> nat \<Rightarrow> string) \<Rightarrow> string \<Rightarrow> segment_spec list \<Rightarrow> dom \<Rightarrow> py_error + dom"
where
  "replace_segments sids cids ep ss d = insert_segments sids cids ep 0 0 ss (delete_segments ep d)"

fun write_durations :: "int \<Rightarrow> (segment_row \<times> int) list \<Rightarrow> dom \<Rightarrow> int \<times> dom" where
  "write_durations start_ms [] d = (start_ms, d)"
| "write_durations start_ms ((s, ms) # xs) d =
     write_durations (start_ms + ms) xs
       (d\<lparr>segments := update_where (\<lambda>r. sg_id r = sg_id s)
            (\<lambda>r. r\<lparr>sg_start_ms := start_ms, sg_duration_ms := ms\<rparr>) (segments d)\<rparr>)"

definition set_segment_durations :: "string \<Rightarrow> int list \<Rightarrow> dom \<Rightarrow> py_error + int \<times> dom" where
  "set_segment_durations ep durations d =
     (if length (segments_of d ep) \<noteq> length durations
      then Inl (ValueError (''episode '' @ ep @ '' has '' @ py_str (int (length (segments_of d ep)))
             @ '' segments but '' @ py_str (int (length durations)) @ '' durations were measured''))
      else Inr (write_durations 0 (zip (segments_of d ep) durations) d))"

fun set_claim_timings :: "(string \<times> int \<times> int) list \<Rightarrow> dom \<Rightarrow> dom" where
  "set_claim_timings [] d = d"
| "set_claim_timings ((i, start_ms, ms) # ts) d =
     set_claim_timings ts
       (d\<lparr>claims := update_where (\<lambda>c. cl_id c = i)
            (\<lambda>c. c\<lparr>cl_start_ms := start_ms, cl_duration_ms := ms\<rparr>) (claims d)\<rparr>)"

definition publish_episode ::
  "time \<Rightarrow> string \<Rightarrow> string \<Rightarrow> int \<Rightarrow> string \<Rightarrow> int \<Rightarrow> dom \<Rightarrow> dom"
where
  "publish_episode now i key n_bytes mt ms =
     update_episode i (\<lambda>r. r\<lparr>ep_state := EpReady, ep_audio_key := Some key, ep_audio_bytes := Some n_bytes,
       ep_audio_media_type := Some mt, ep_duration_ms := ms, ep_last_error := None,
       ep_published_at := (case ep_published_at r of None \<Rightarrow> Some now | Some t \<Rightarrow> Some t), ep_updated_at := now\<rparr>)"

definition record_rendered_segments :: "string \<Rightarrow> int \<Rightarrow> dom \<Rightarrow> dom" where
  "record_rendered_segments i n = update_episode i (\<lambda>r. r\<lparr>ep_rendered_segments := n\<rparr>)"

section \<open>Playback progress\<close>

definition passed_items :: "string \<Rightarrow> int \<Rightarrow> dom \<Rightarrow> string list" where
  "passed_items ep position d =
     map sg_news_item
       (filter (\<lambda>s. sg_episode s = ep \<and> 0 < sg_duration_ms s \<and> sg_start_ms s + sg_duration_ms s \<le> position)
          (segments d))"

definition record_listen_progress ::
  "time \<Rightarrow> string \<Rightarrow> string \<Rightarrow> int \<Rightarrow> dom \<Rightarrow> py_error + (int \<times> nat) \<times> dom"
where
  "record_listen_progress now user ep listened d =
     (let hit = (\<lambda>e. ep_id e = ep \<and> ep_user e = user);
          d' = d\<lparr>episodes := update_where hit
                 (\<lambda>e. e\<lparr>ep_listened_through_ms := max (ep_listened_through_ms e) (max 0 listened),
                        ep_updated_at := now\<rparr>) (episodes d)\<rparr>
      in case find hit (episodes d') of
           None \<Rightarrow> Inl (LookupError (''no episode '' @ quote @ ep @ quote @ '' for this user''))
         | Some e \<Rightarrow>
             let position = ep_listened_through_ms e in
             if ep_keep_in_backlog e then Inr ((position, 0), d')
             else (case mark_news_items_read now user (passed_items ep position d') d' of
                     (n, d'') \<Rightarrow> Inr ((position, n), d'')))"

section \<open>What replacing segments leaves\<close>

text \<open>The rows \<open>replace_segments\<close> means to write: the specs in order, each starting where the one
  before ends.\<close>

fun segment_rows :: "(nat \<Rightarrow> string) \<Rightarrow> string \<Rightarrow> nat \<Rightarrow> int \<Rightarrow> segment_spec list \<Rightarrow> segment_row list" where
  "segment_rows sids ep pos start_ms [] = []"
| "segment_rows sids ep pos start_ms (s # ss) =
     \<lparr>sg_id = sids pos, sg_episode = ep, sg_news_item = ss_news_item s, sg_position = int pos,
      sg_text = ss_text s, sg_start_ms = start_ms, sg_duration_ms = ss_duration_ms s\<rparr>
     # segment_rows sids ep (Suc pos) (start_ms + ss_duration_ms s) ss"

fun claim_rows :: "(nat \<Rightarrow> string) \<Rightarrow> string \<Rightarrow> nat \<Rightarrow> claim_spec list \<Rightarrow> segment_claim list" where
  "claim_rows ids sg pos [] = []"
| "claim_rows ids sg pos (c # cs) =
     \<lparr>cl_id = ids pos, cl_segment = sg, cl_position = int pos, cl_text = cs_text c,
      cl_source_item = cs_source_item c, cl_span_start = cs_span_start c, cl_span_end = cs_span_end c,
      cl_start_ms = 0, cl_duration_ms = 0\<rparr> # claim_rows ids sg (Suc pos) cs"

fun all_claim_rows :: "(nat \<Rightarrow> string) \<Rightarrow> (nat \<Rightarrow> nat \<Rightarrow> string) \<Rightarrow> nat \<Rightarrow> segment_spec list \<Rightarrow> segment_claim list" where
  "all_claim_rows sids cids pos [] = []"
| "all_claim_rows sids cids pos (s # ss) =
     claim_rows (cids pos) (sids pos) 0 (ss_claims s) @ all_claim_rows sids cids (Suc pos) ss"

fun contiguous :: "int \<Rightarrow> segment_row list \<Rightarrow> bool" where
  "contiguous t [] = True"
| "contiguous t (s # ss) \<longleftrightarrow> sg_start_ms s = t \<and> contiguous (t + sg_duration_ms s) ss"

lemma segment_rows_contiguous: "contiguous start_ms (segment_rows sids ep pos start_ms ss)"
  by (induction ss arbitrary: pos start_ms) simp_all

lemma segment_rows_facts [simp]:
  "map sg_duration_ms (segment_rows sids ep pos t ss) = map ss_duration_ms ss"
  "map sg_news_item (segment_rows sids ep pos t ss) = map ss_news_item ss"
  "map sg_text (segment_rows sids ep pos t ss) = map ss_text ss"
  "map sg_id (segment_rows sids ep pos t ss) = map sids [pos ..< pos + length ss]"
  "map sg_position (segment_rows sids ep pos t ss) = map int [pos ..< pos + length ss]"
  "length (segment_rows sids ep pos t ss) = length ss"
  by (induction ss arbitrary: pos t) (simp_all add: upt_rec)

lemma segment_rows_episode: "s \<in> set (segment_rows sids ep pos t ss) \<Longrightarrow> sg_episode s = ep"
  by (induction ss arbitrary: pos t) auto

lemma insert_segment_Inr:
  assumes "insert_segment r d = Inr d'"
  shows "d' = d\<lparr>segments := segments d @ [r]\<rparr>"
    and "sg_news_item r \<in> ni_id ` set (news_items d)" and "sg_episode r \<in> ep_id ` set (episodes d)"
    and "\<forall>s \<in> set (segments d). sg_id s \<noteq> sg_id r"
    and "\<forall>s \<in> set (segments d). sg_episode s = sg_episode r \<longrightarrow> sg_position s \<noteq> sg_position r \<and> sg_news_item s \<noteq> sg_news_item r"
  using assms by (auto simp: insert_segment_def image_iff eq_commute split: if_splits)

lemma insert_claim_Inr:
  assumes "insert_claim r d = Inr d'"
  shows "d' = d\<lparr>claims := claims d @ [r]\<rparr>"
    and "0 \<le> cl_span_start r" and "cl_span_start r < cl_span_end r"
    and "cl_segment r \<in> sg_id ` set (segments d)" and "cl_source_item r \<in> si_id ` set (source_items d)"
    and "\<forall>c \<in> set (claims d). cl_id c \<noteq> cl_id r \<and> (cl_segment c = cl_segment r \<longrightarrow> cl_position c \<noteq> cl_position r)"
  using assms by (auto simp: insert_claim_def image_iff eq_commute split: if_splits)

lemma insert_claims_Inr:
  "insert_claims ids sg pos cs d = Inr d' \<Longrightarrow> d' = d\<lparr>claims := claims d @ claim_rows ids sg pos cs\<rparr>"
proof (induction cs arbitrary: pos d)
  case Nil
  then show ?case by simp
next
  case (Cons c cs)
  from Cons.prems show ?case by (auto elim!: and_then_InrE dest!: insert_claim_Inr(1) Cons.IH)
qed

lemma insert_segments_Inr:
  "insert_segments sids cids ep pos t ss d = Inr d' \<Longrightarrow>
     d' = d\<lparr>segments := segments d @ segment_rows sids ep pos t ss, claims := claims d @ all_claim_rows sids cids pos ss\<rparr>"
proof (induction ss arbitrary: pos t d)
  case Nil
  then show ?case by simp
next
  case (Cons s ss)
  from Cons.prems show ?case
    by (auto elim!: and_then_InrE dest!: insert_segment_Inr(1) insert_claims_Inr Cons.IH)
qed

lemma delete_segments_simps [simp]:
  "segments (delete_segments ep d) = filter (\<lambda>s. sg_episode s \<noteq> ep) (segments d)"
  "episodes (delete_segments ep d) = episodes d" "news_items (delete_segments ep d) = news_items d"
  "source_items (delete_segments ep d) = source_items d"
  "news_item_sources (delete_segments ep d) = news_item_sources d"
  by (simp_all add: delete_segments_def)

lemma sorted_rows: "sorted (map sg_position (segment_rows sids ep pos t ss))"
  by (simp only: segment_rows_facts) (simp add: sorted_map sorted_wrt_iff_nth_less)

lemma replace_segments_Inr:
  assumes "replace_segments sids cids ep ss d = Inr d'"
  shows "d' = (delete_segments ep d)\<lparr>segments := filter (\<lambda>s. sg_episode s \<noteq> ep) (segments d) @ segment_rows sids ep 0 0 ss,
      claims := claims (delete_segments ep d) @ all_claim_rows sids cids 0 ss\<rparr>"
  using insert_segments_Inr [OF assms [unfolded replace_segments_def]] by simp

lemma replace_segments_rows:
  assumes "replace_segments sids cids ep ss d = Inr d'"
  shows "segments_of d' ep = segment_rows sids ep 0 0 ss"
    and "ep' \<noteq> ep \<Longrightarrow> segments_of d' ep' = segments_of d ep'"
proof -
  note d' = replace_segments_Inr [OF assms]
  have "filter (\<lambda>s. sg_episode s = ep) (segment_rows sids ep 0 0 ss) = segment_rows sids ep 0 0 ss"
    using segment_rows_episode by (intro filter_True) blast
  then show "segments_of d' ep = segment_rows sids ep 0 0 ss"
    by (simp add: segments_of_def d' sort_key_id_if_sorted [OF sorted_rows])
  assume "ep' \<noteq> ep"
  then have "filter (\<lambda>s. sg_episode s = ep') (segment_rows sids ep 0 0 ss) = []"
    using segment_rows_episode by (fastforce simp: filter_empty_conv)
  moreover have "filter (\<lambda>s. sg_episode s = ep') (filter (\<lambda>s. sg_episode s \<noteq> ep) (segments d))
      = filter (\<lambda>s. sg_episode s = ep') (segments d)"
    using \<open>ep' \<noteq> ep\<close> by (auto intro: filter_cong)
  ultimately show "segments_of d' ep' = segments_of d ep'"
    by (simp add: segments_of_def d')
qed


section \<open>The schema's constraints as an invariant\<close>

definition keys_ok :: "dom \<Rightarrow> bool" where
  "keys_ok d \<longleftrightarrow>
     distinct (map si_id (source_items d)) \<and> distinct (map ni_id (news_items d))
     \<and> distinct (map ln_source_item (news_item_sources d)) \<and> distinct (map ep_id (episodes d))
     \<and> distinct (map sg_id (segments d)) \<and> distinct (map (\<lambda>s. (sg_episode s, sg_position s)) (segments d))
     \<and> distinct (map (\<lambda>s. (sg_episode s, sg_news_item s)) (segments d))
     \<and> distinct (map cl_id (claims d)) \<and> distinct (map (\<lambda>c. (cl_segment c, cl_position c)) (claims d))"

definition refs_ok :: "dom \<Rightarrow> bool" where
  "refs_ok d \<longleftrightarrow>
     set (map ln_news_item (news_item_sources d)) \<subseteq> set (map ni_id (news_items d))
     \<and> set (map ln_source_item (news_item_sources d)) \<subseteq> set (map si_id (source_items d))
     \<and> set (map sg_episode (segments d)) \<subseteq> set (map ep_id (episodes d))
     \<and> set (map sg_news_item (segments d)) \<subseteq> set (map ni_id (news_items d))
     \<and> set (map cl_segment (claims d)) \<subseteq> set (map sg_id (segments d))
     \<and> set (map cl_source_item (claims d)) \<subseteq> set (map si_id (source_items d))"

definition checks_ok :: "dom \<Rightarrow> bool" where
  "checks_ok d \<longleftrightarrow>
     (\<forall>c \<in> set (claims d). 0 \<le> cl_span_start c \<and> cl_span_start c < cl_span_end c)
     \<and> (\<forall>e \<in> set (episodes d). 0 < ep_max_duration_ms e \<and> 0 \<le> ep_listened_through_ms e
          \<and> (ep_kind e = Smart \<longrightarrow> ep_rule e \<noteq> None))"

definition dom_ok :: "dom \<Rightarrow> bool" where
  "dom_ok d \<longleftrightarrow> keys_ok d \<and> refs_ok d \<and> checks_ok d"

lemmas dom_ok_defs = dom_ok_def keys_ok_def refs_ok_def checks_ok_def

lemma insert_segment_ok: "dom_ok d \<Longrightarrow> insert_segment r d = Inr d' \<Longrightarrow> dom_ok d'"
  using insert_segment_Inr [of r d d'] by (auto simp: dom_ok_defs)

lemma insert_claim_ok: "dom_ok d \<Longrightarrow> insert_claim r d = Inr d' \<Longrightarrow> dom_ok d'"
  using insert_claim_Inr [of r d d'] by (auto simp: dom_ok_defs)

lemma insert_claims_ok: "dom_ok d \<Longrightarrow> insert_claims ids sg pos cs d = Inr d' \<Longrightarrow> dom_ok d'"
  by (induction cs arbitrary: pos d) (auto elim!: and_then_InrE intro: insert_claim_ok)

lemma insert_segments_ok: "dom_ok d \<Longrightarrow> insert_segments sids cids ep pos t ss d = Inr d' \<Longrightarrow> dom_ok d'"
proof (induction ss arbitrary: pos t d)
  case Nil
  then show ?case by simp
next
  case (Cons s ss)
  from Cons.prems(2) obtain d1 d2 where "insert_segment \<lparr>sg_id = sids pos, sg_episode = ep,
      sg_news_item = ss_news_item s, sg_position = int pos, sg_text = ss_text s, sg_start_ms = t,
      sg_duration_ms = ss_duration_ms s\<rparr> d = Inr d1"
    "insert_claims (cids pos) (sids pos) 0 (ss_claims s) d1 = Inr d2"
    and rest: "insert_segments sids cids ep (Suc pos) (t + ss_duration_ms s) ss d2 = Inr d'"
    by (auto elim!: and_then_InrE)
  with Cons.prems(1) have "dom_ok d2" using insert_segment_ok insert_claims_ok by blast
  from Cons.IH [OF this rest] show ?case .
qed

lemma delete_segments_ok:
  assumes ok: "dom_ok d"
  shows "dom_ok (delete_segments ep d)"
proof -
  have "keys_ok (delete_segments ep d)" "checks_ok (delete_segments ep d)"
    using ok by (simp_all add: dom_ok_def keys_ok_def checks_ok_def delete_segments_def distinct_map_filter)
  moreover have "\<forall>c \<in> set (claims d). \<exists>s \<in> set (segments d). sg_id s = cl_segment c"
    using ok by (force simp: dom_ok_def refs_ok_def)
  then have "cl_segment ` set (claims (delete_segments ep d)) \<subseteq> sg_id ` set (segments (delete_segments ep d))"
    by (force simp: delete_segments_def image_subset_iff)
  then have "refs_ok (delete_segments ep d)"
    using ok by (auto simp: dom_ok_def refs_ok_def delete_segments_def)
  ultimately show ?thesis by (simp add: dom_ok_def)
qed

lemma replace_segments_ok: "dom_ok d \<Longrightarrow> replace_segments sids cids ep ss d = Inr d' \<Longrightarrow> dom_ok d'"
  unfolding replace_segments_def by (rule insert_segments_ok [OF delete_segments_ok])

text \<open>An \<open>UPDATE\<close> that leaves the key, reference and checked columns alone keeps the constraints.\<close>

lemma update_episodes_ok:
  assumes "dom_ok d" and "\<And>e. ep_id (f e) = ep_id e"
    and "\<And>e. ep_max_duration_ms (f e) = ep_max_duration_ms e \<and> ep_kind (f e) = ep_kind e \<and> ep_rule (f e) = ep_rule e"
    and "\<And>e. 0 \<le> ep_listened_through_ms e \<Longrightarrow> 0 \<le> ep_listened_through_ms (f e)"
  shows "dom_ok (d\<lparr>episodes := update_where p f (episodes d)\<rparr>)"
proof -
  have "map ep_id (update_where p f (episodes d)) = map ep_id (episodes d)"
    using assms(2) by (intro map_update_where)
  moreover have "\<forall>e \<in> set (update_where p f (episodes d)). 0 < ep_max_duration_ms e \<and> 0 \<le> ep_listened_through_ms e
      \<and> (ep_kind e = Smart \<longrightarrow> ep_rule e \<noteq> None)"
    using assms by (intro ball_update_where) (auto simp: dom_ok_def checks_ok_def)
  ultimately show ?thesis
    using assms(1) by (simp add: dom_ok_def keys_ok_def refs_ok_def checks_ok_def del: set_map)
qed

lemma update_episode_ok:
  assumes "dom_ok d" and "\<And>e. ep_id (f e) = ep_id e"
    and "\<And>e. ep_max_duration_ms (f e) = ep_max_duration_ms e \<and> ep_kind (f e) = ep_kind e \<and> ep_rule (f e) = ep_rule e"
    and "\<And>e. ep_listened_through_ms (f e) = ep_listened_through_ms e"
  shows "dom_ok (update_episode i f d)"
  unfolding update_episode_def using assms by (intro update_episodes_ok) simp_all

lemma update_segments_ok:
  assumes "dom_ok d"
    and "\<And>s. sg_id (f s) = sg_id s \<and> sg_episode (f s) = sg_episode s \<and> sg_position (f s) = sg_position s
        \<and> sg_news_item (f s) = sg_news_item s"
  shows "dom_ok (d\<lparr>segments := update_where p f (segments d)\<rparr>)"
  using assms by (simp add: dom_ok_def keys_ok_def refs_ok_def checks_ok_def map_update_where del: set_map)

lemma update_claims_ok:
  assumes "dom_ok d"
    and "\<And>c. cl_id (f c) = cl_id c \<and> cl_segment (f c) = cl_segment c \<and> cl_position (f c) = cl_position c
        \<and> cl_source_item (f c) = cl_source_item c \<and> cl_span_start (f c) = cl_span_start c \<and> cl_span_end (f c) = cl_span_end c"
  shows "dom_ok (d\<lparr>claims := update_where p f (claims d)\<rparr>)"
proof -
  have "\<forall>c \<in> set (update_where p f (claims d)). 0 \<le> cl_span_start c \<and> cl_span_start c < cl_span_end c"
    using assms by (intro ball_update_where) (auto simp: dom_ok_def checks_ok_def)
  then show ?thesis
    using assms by (simp add: dom_ok_def keys_ok_def refs_ok_def checks_ok_def map_update_where del: set_map)
qed

lemma update_news_items_ok:
  assumes "dom_ok d" and "\<And>n. ni_id (f n) = ni_id n"
  shows "dom_ok (d\<lparr>news_items := update_where p f (news_items d)\<rparr>)"
  using assms by (simp add: dom_ok_def keys_ok_def refs_ok_def checks_ok_def map_update_where del: set_map)

lemma write_durations_ok: "dom_ok d \<Longrightarrow> dom_ok (snd (write_durations t xs d))"
  by (induction t xs d rule: write_durations.induct) (simp_all add: update_segments_ok)

lemma set_segment_durations_ok: "dom_ok d \<Longrightarrow> set_segment_durations ep ms d = Inr (t, d') \<Longrightarrow> dom_ok d'"
  using write_durations_ok [of d 0 "zip (segments_of d ep) ms"]
  by (auto simp: set_segment_durations_def split: if_splits)

lemma set_claim_timings_ok: "dom_ok d \<Longrightarrow> dom_ok (set_claim_timings ts d)"
  by (induction ts d rule: set_claim_timings.induct) (simp_all add: update_claims_ok)

lemma set_episode_state_ok: "dom_ok d \<Longrightarrow> dom_ok (set_episode_state now i st e d)"
  unfolding set_episode_state_def by (rule update_episode_ok) simp_all

lemma publish_episode_ok: "dom_ok d \<Longrightarrow> dom_ok (publish_episode now i key n mt ms d)"
  unfolding publish_episode_def by (rule update_episode_ok) simp_all

lemma create_episode_ok:
  assumes ok: "dom_ok d" and c: "create_episode now i user title m kind rule keep d = Inr d'"
  shows "dom_ok d'"
proof -
  from c obtain e where e: "d' = d\<lparr>episodes := episodes d @ [e]\<rparr>" "ep_id e \<notin> ep_id ` set (episodes d)"
    "0 < ep_max_duration_ms e" "0 \<le> ep_listened_through_ms e" "ep_kind e = Smart \<longrightarrow> ep_rule e \<noteq> None"
    by (force simp: create_episode_def split: if_splits)
  from ok have "keys_ok d'" by (simp add: e dom_ok_def keys_ok_def)
  moreover from ok have "refs_ok d'" by (simp add: e dom_ok_def refs_ok_def subset_insertI2)
  moreover from ok e have "checks_ok d'" by (simp add: dom_ok_def checks_ok_def)
  ultimately show ?thesis by (simp add: dom_ok_def)
qed

lemma rename_episode_ok: "dom_ok d \<Longrightarrow> dom_ok (snd (rename_episode i user title d))"
  by (auto simp: rename_episode_def Let_def intro: update_episodes_ok)

lemma mark_read_ok: "dom_ok d \<Longrightarrow> dom_ok (snd (mark_news_items_read now user is d))"
  by (auto simp: mark_news_items_read_def Let_def intro: update_news_items_ok)

lemma set_read_ok: "dom_ok d \<Longrightarrow> dom_ok (set_news_item_read now user i read d)"
  by (auto simp: set_news_item_read_def intro: update_news_items_ok)

text \<open>The position written, and the marking that follows it.\<close>

definition progressed :: "time \<Rightarrow> string \<Rightarrow> string \<Rightarrow> int \<Rightarrow> dom \<Rightarrow> dom" where
  "progressed now user ep pos d =
     d\<lparr>episodes := update_where (\<lambda>e. ep_id e = ep \<and> ep_user e = user)
         (\<lambda>e. e\<lparr>ep_listened_through_ms := max (ep_listened_through_ms e) (max 0 pos), ep_updated_at := now\<rparr>)
         (episodes d)\<rparr>"

lemma listen_progress_eq:
  "record_listen_progress now user ep pos d =
     (case find (\<lambda>e. ep_id e = ep \<and> ep_user e = user) (episodes d) of
        None \<Rightarrow> Inl (LookupError (''no episode '' @ quote @ ep @ quote @ '' for this user''))
      | Some e \<Rightarrow>
          let position = max (ep_listened_through_ms e) (max 0 pos); d1 = progressed now user ep pos d
          in if ep_keep_in_backlog e then Inr ((position, 0), d1)
             else Inr ((position, fst (mark_news_items_read now user (passed_items ep position d) d1)),
                       snd (mark_news_items_read now user (passed_items ep position d) d1)))"
proof -
  define hit where "hit e \<longleftrightarrow> ep_id e = ep \<and> ep_user e = user" for e :: episode
  define f where "f e = e\<lparr>ep_listened_through_ms := max (ep_listened_through_ms e) (max 0 pos), ep_updated_at := now\<rparr>" for e :: episode
  have p: "passed_items ep position (progressed now user ep pos d) = passed_items ep position d" for position
    by (simp add: passed_items_def progressed_def)
  have d1: "d\<lparr>episodes := update_where hit f (episodes d)\<rparr> = progressed now user ep pos d"
    by (simp add: progressed_def hit_def [abs_def] f_def [abs_def])
  have "hit (f e) = hit e" for e by (simp add: hit_def f_def)
  then have "find hit (update_where hit f (episodes d)) = map_option f (find hit (episodes d))"
    by (subst find_update_where) (auto simp: find_Some_iff intro: option.map_cong0)
  then have found: "find hit (episodes (progressed now user ep pos d)) = map_option f (find hit (episodes d))"
    by (simp add: d1 [symmetric])
  show ?thesis
    unfolding record_listen_progress_def Let_def hit_def [abs_def, symmetric] f_def [abs_def, symmetric] d1 found p
    by (cases "find hit (episodes d)") (simp_all add: f_def p split: prod.split)
qed

lemma listen_progress_ok:
  assumes "dom_ok d" and "record_listen_progress now user ep pos d = Inr (r, d')"
  shows "dom_ok d'"
proof -
  have d1: "dom_ok (progressed now user ep pos d)"
    unfolding progressed_def using assms(1) by (rule update_episodes_ok) simp_all
  from assms(2) have "d' = progressed now user ep pos d
      \<or> (\<exists>is. d' = snd (mark_news_items_read now user is (progressed now user ep pos d)))"
    by (auto simp: listen_progress_eq Let_def split: option.splits if_splits)
  with d1 mark_read_ok show ?thesis by blast
qed

lemma link_source_Inr:
  assumes "link_source ni si pos d = Inr d'"
  shows "d' = d\<lparr>news_item_sources := news_item_sources d @
      [\<lparr>ln_news_item = ni, ln_source_item = si, ln_position = pos, ln_decision = None\<rparr>]\<rparr>"
    and "si \<notin> ln_source_item ` set (news_item_sources d)"
    and "ni \<in> ni_id ` set (news_items d)" and "si \<in> si_id ` set (source_items d)"
  using assms by (auto simp: link_source_def image_iff eq_commute split: if_splits)

lemma link_source_ok: "dom_ok d \<Longrightarrow> link_source ni si pos d = Inr d' \<Longrightarrow> dom_ok d'"
  using link_source_Inr [of ni si pos d d'] by (simp add: dom_ok_defs)

lemma insert_news_item_ok:
  assumes "dom_ok d" and "insert_news_item now i user title summary si d = Inr d'"
  shows "dom_ok d'"
proof -
  from assms(2) have new: "\<forall>r \<in> set (news_items d). ni_id r \<noteq> i"
    and l: "link_source i si 0 (d\<lparr>news_items := news_items d @ [\<lparr>ni_id = i, ni_user = user, ni_title = title,
        ni_summary = summary, ni_read_at = None, ni_created_at = now, ni_updated_at = now\<rparr>]\<rparr>) = Inr d'"
    by (auto simp: insert_news_item_def split: if_splits)
  from assms(1) new show ?thesis
    by (intro link_source_ok [OF _ l]) (auto simp: dom_ok_defs)
qed

lemma merge_source_ok:
  assumes "dom_ok d" and "merge_source_into_news_item now ni si title summary d = Inr d'"
  shows "dom_ok d'"
  using assms by (auto simp: merge_source_into_news_item_def split: sum.splits
      intro!: update_news_items_ok intro: link_source_ok)

lemma record_decision_ok: "dom_ok d \<Longrightarrow> dom_ok (record_dedup_decision now si dec d)"
  by (simp add: record_dedup_decision_def dom_ok_def keys_ok_def refs_ok_def checks_ok_def map_update_where del: set_map)

lemma mark_source_item_ok: "dom_ok d \<Longrightarrow> dom_ok (mark_source_item now i st e d)"
  by (simp add: mark_source_item_def dom_ok_def keys_ok_def refs_ok_def checks_ok_def map_update_where del: set_map)


text \<open>The writes of the domain tables, and the database before any.\<close>

inductive dom_write :: "dom \<Rightarrow> dom \<Rightarrow> bool" where
  source_item: "insert_source_item now i u s t x ls d = Inr d' \<Longrightarrow> dom_write d d'"
| source_state: "dom_write d (mark_source_item now i st e d)"
| news_item: "insert_news_item now i u t x si d = Inr d' \<Longrightarrow> dom_write d d'"
| merge: "merge_source_into_news_item now ni si t x d = Inr d' \<Longrightarrow> dom_write d d'"
| decision: "dom_write d (record_dedup_decision now si dec d)"
| read: "dom_write d (set_news_item_read now u i b d)"
| read_many: "dom_write d (snd (mark_news_items_read now u is d))"
| episode: "create_episode now i u t m kind rule keep d = Inr d' \<Longrightarrow> dom_write d d'"
| episode_state: "dom_write d (set_episode_state now i est e d)"
| rename: "dom_write d (snd (rename_episode i u t d))"
| replace: "replace_segments sids cids ep ss d = Inr d' \<Longrightarrow> dom_write d d'"
| durations: "set_segment_durations ep ms d = Inr (t', d') \<Longrightarrow> dom_write d d'"
| timings: "dom_write d (set_claim_timings ts d)"
| rendered: "dom_write d (record_rendered_segments i n d)"
| publish: "dom_write d (publish_episode now i key n mt ms d)"
| listen: "record_listen_progress now u ep pos d = Inr (r, d') \<Longrightarrow> dom_write d d'"

definition empty_dom :: dom where
  "empty_dom = \<lparr>source_items = [], news_items = [], news_item_sources = [], episodes = [], segments = [], claims = [],
     source_rows = [], connectors = [], enrich_runs = [], browser_states = [], credentials = []\<rparr>"

lemma insert_source_item_ok:
  assumes ok: "dom_ok d" and i: "insert_source_item now i u s t x ls d = Inr d'"
  shows "dom_ok d'"
proof -
  from i obtain r where r: "d' = d\<lparr>source_items := source_items d @ [r]\<rparr>" "si_id r \<notin> si_id ` set (source_items d)"
    by (force simp: insert_source_item_def split: if_splits)
  from ok have "keys_ok d'" "checks_ok d'" by (simp_all add: r dom_ok_def keys_ok_def checks_ok_def)
  moreover from ok have "refs_ok d'" by (simp add: r dom_ok_def refs_ok_def subset_insertI2)
  ultimately show ?thesis by (simp add: dom_ok_def)
qed

lemma record_rendered_ok: "dom_ok d \<Longrightarrow> dom_ok (record_rendered_segments i n d)"
  unfolding record_rendered_segments_def by (rule update_episode_ok) simp_all

lemmas dom_write_ok =
  insert_source_item_ok mark_source_item_ok insert_news_item_ok merge_source_ok record_decision_ok set_read_ok
  mark_read_ok create_episode_ok set_episode_state_ok rename_episode_ok replace_segments_ok
  set_segment_durations_ok set_claim_timings_ok record_rendered_ok publish_episode_ok listen_progress_ok

lemma dom_write_keeps_ok: "dom_write d d' \<Longrightarrow> dom_ok d \<Longrightarrow> dom_ok d'"
  by (induction rule: dom_write.induct) (blast intro: dom_write_ok)+


lemma demo_written:
  assumes "insert_source_item 1 ''s'' ''u'' ''src'' ''t'' ''x'' [] empty_dom = Inr d1"
    and "insert_news_item 2 ''n'' ''u'' ''t'' ''x'' ''s'' d1 = Inr d2"
  shows "dom_write\<^sup>*\<^sup>* empty_dom d2"
  using dom_write.source_item [OF assms(1)] dom_write.news_item [OF assms(2)] by (meson rtranclp.simps)


section \<open>What listening marks\<close>



definition demo_episode :: "bool \<Rightarrow> episode" where
  "demo_episode keep =
     \<lparr>ep_id = ''e'', ep_user = ''u'', ep_title = ''t'', ep_state = EpReady, ep_kind = Manual, ep_rule = None,
      ep_max_duration_ms = 5000, ep_duration_ms = 3000, ep_audio_key = Some ''k'', ep_audio_bytes = Some 9,
      ep_audio_media_type = Some ''audio/mpeg'', ep_last_error = None, ep_listened_through_ms = 0,
      ep_keep_in_backlog = keep, ep_rendered_segments = 2, ep_created_at = 1, ep_updated_at = 1, ep_published_at = Some 1\<rparr>"

definition demo_segment :: "string \<Rightarrow> string \<Rightarrow> int \<Rightarrow> int \<Rightarrow> int \<Rightarrow> segment_row" where
  "demo_segment i n pos start_ms ms =
     \<lparr>sg_id = i, sg_episode = ''e'', sg_news_item = n, sg_position = pos, sg_text = ''x'', sg_start_ms = start_ms,
      sg_duration_ms = ms\<rparr>"

definition demo_heard :: dom where
  "demo_heard =
     \<lparr>source_items = [], news_items = [demo_item ''a'' 1 None, demo_item ''b'' 2 None], news_item_sources = [],
      episodes = [demo_episode False],
      segments = [demo_segment ''s1'' ''a'' 0 0 1000, demo_segment ''s2'' ''b'' 1 1000 2000], claims = [],
      source_rows = [], connectors = [], enrich_runs = [], browser_states = [], credentials = []\<rparr>"



section \<open>What measured durations leave\<close>

text \<open>What \<open>write_durations\<close> makes of a row.\<close>

fun written :: "int \<Rightarrow> (segment_row \<times> int) list \<Rightarrow> segment_row \<Rightarrow> segment_row" where
  "written t [] r = r"
| "written t ((s, ms) # xs) r =
     (if sg_id r = sg_id s then r\<lparr>sg_start_ms := t, sg_duration_ms := ms\<rparr> else written (t + ms) xs r)"

lemma written_keeps [simp]:
  "sg_id (written t xs r) = sg_id r" "sg_episode (written t xs r) = sg_episode r"
  "sg_position (written t xs r) = sg_position r" "sg_news_item (written t xs r) = sg_news_item r"
  "sg_text (written t xs r) = sg_text r"
  by (induction t xs r rule: written.induct) simp_all

lemma written_other: "sg_id r \<notin> sg_id ` fst ` set xs \<Longrightarrow> written t xs r = r"
  by (induction t xs r rule: written.induct) auto

lemma write_durations_eq:
  "distinct (map (sg_id \<circ> fst) xs) \<Longrightarrow>
     write_durations t xs d = (t + sum_list (map snd xs), d\<lparr>segments := map (written t xs) (segments d)\<rparr>)"
proof (induction t xs d rule: write_durations.induct)
  case (2 t s ms xs d)
  have "map (written (t + ms) xs) (update_where (\<lambda>r. sg_id r = sg_id s) (\<lambda>r. r\<lparr>sg_start_ms := t, sg_duration_ms := ms\<rparr>) rs)
      = map (written t ((s, ms) # xs)) rs" for rs
    using "2.prems" by (auto simp: update_where_def image_image comp_def rev_image_eqI intro!: written_other)
  with 2 show ?case by (simp add: add.assoc)
next
  case (1 t d)
  have "written t [] = (\<lambda>r. r)" by (simp add: fun_eq_iff)
  then show ?case by simp
qed

lemma insort_key_map: "(\<And>x. f (g x) = f x) \<Longrightarrow> insort_key f (g x) (map g xs) = map g (insort_key f x xs)"
  by (induction xs) simp_all

lemma sort_key_map: "(\<And>x. f (g x) = f x) \<Longrightarrow> sort_key f (map g xs) = map g (sort_key f xs)"
  by (induction xs) (simp_all add: insort_key_map)

lemma segments_of_written:
  "segments_of (d\<lparr>segments := map (written t xs) (segments d)\<rparr>) ep = map (written t xs) (segments_of d ep)"
  by (simp add: segments_of_def filter_map comp_def sort_key_map)

lemma written_rows:
  "length gs = length ms \<Longrightarrow> distinct (map sg_id gs) \<Longrightarrow>
     contiguous t (map (written t (zip gs ms)) gs)
     \<and> map sg_duration_ms (map (written t (zip gs ms)) gs) = ms"
proof (induction gs ms arbitrary: t rule: list_induct2)
  case (Cons g gs m ms)
  have rest: "map (written t ((g, m) # zip gs ms)) gs = map (written (t + m) (zip gs ms)) gs"
    using Cons.prems by (intro map_cong) (auto simp: image_iff)
  have "map (written t (zip (g # gs) (m # ms))) (g # gs)
      = g\<lparr>sg_start_ms := t, sg_duration_ms := m\<rparr> # map (written (t + m) (zip gs ms)) gs"
    by (simp only: zip_Cons_Cons list.map rest) simp
  with Cons.IH [of "t + m"] Cons.prems show ?case
    by (simp only: list.map contiguous.simps) simp
qed simp

lemma set_segment_durations_rows:
  assumes "dom_ok d" and "set_segment_durations ep ms d = Inr (t, d')"
  shows "contiguous 0 (segments_of d' ep)" and "map sg_duration_ms (segments_of d' ep) = ms"
    and "t = sum_list ms" and "map sg_text (segments_of d' ep) = map sg_text (segments_of d ep)"
    and "map sg_id (segments_of d' ep) = map sg_id (segments_of d ep)" and "claims d' = claims d"
proof -
  let ?gs = "segments_of d ep"
  have len: "length ?gs = length ms" and w: "write_durations 0 (zip ?gs ms) d = (t, d')"
    using assms(2) by (auto simp: set_segment_durations_def split: if_splits)
  have "distinct (map sg_id (filter (\<lambda>s. sg_episode s = ep) (segments d)))"
    using assms(1) by (simp add: dom_ok_def keys_ok_def distinct_map_filter)
  then have dist: "distinct (map sg_id ?gs)"
    by (simp add: segments_of_def distinct_map)
  have "map (sg_id \<circ> fst) (zip ?gs ms) = map sg_id ?gs" using len by (simp add: map_fst_zip flip: map_map)
  with dist have eq: "(t, d') = (sum_list ms, d\<lparr>segments := map (written 0 (zip ?gs ms)) (segments d)\<rparr>)"
    using write_durations_eq [of "zip ?gs ms" 0 d] len w by simp
  then have rows: "segments_of d' ep = map (written 0 (zip ?gs ms)) ?gs" by (simp add: segments_of_written)
  show "contiguous 0 (segments_of d' ep)" "map sg_duration_ms (segments_of d' ep) = ms"
    using written_rows [OF len dist, of 0] by (simp_all only: rows)
  show "t = sum_list ms" "claims d' = claims d" using eq by simp_all
  show "map sg_text (segments_of d' ep) = map sg_text ?gs" "map sg_id (segments_of d' ep) = map sg_id ?gs"
    by (simp_all add: rows)
qed


end
