(* ===== verification/Narration.thy ===== *)
theory Narration
  imports Text
begin

text \<open>
  Measuring and joining synthesized audio, \<open>inference/src/motet_inference/audio.py\<close>, on the bytes:
  the RIFF chunk walk and the WAV join, the MPEG Layer III frame walk, the media type sniffer, and
  the estimate of how long a text takes to say. A quotient the code takes in floating point and
  rounds is taken in the rationals and rounded.
\<close>

section \<open>Audio and estimates\<close>

record audio =
  media_type :: string
  audio_data :: bytes
  audio_ms :: int

definition MPEG_MEDIA_TYPE :: string where "MPEG_MEDIA_TYPE = ''audio/mpeg''"
definition WAV_MEDIA_TYPE :: string where "WAV_MEDIA_TYPE = ''audio/wav''"
definition WORDS_PER_MINUTE :: int where "WORDS_PER_MINUTE = 150"
definition MPEG_SYNC_WINDOW :: nat where "MPEG_SYNC_WINDOW = 4096"

definition estimate_duration_ms :: "string \<Rightarrow> int" where
  "estimate_duration_ms t =
     (let words = length (py_split t)
      in if words = 0 then 0
         else max 1 (py_round (of_nat words / of_int WORDS_PER_MINUTE * 60000)))"

lemma estimate_duration_ms_eq: "estimate_duration_ms t = 400 * int (length (py_split t))"
proof -
  define n where "n = length (py_split t)"
  have "(of_nat n / of_int WORDS_PER_MINUTE * 60000 :: rat) = of_int (400 * int n)"
    by (simp add: WORDS_PER_MINUTE_def)
  then have "py_round (of_nat n / of_int WORDS_PER_MINUTE * 60000) = 400 * int n"
    using py_round_int [of "400 * int n"] by simp
  then show ?thesis
    by (simp add: estimate_duration_ms_def Let_def flip: n_def)
qed

section \<open>RIFF/WAVE\<close>

definition ascii :: "string \<Rightarrow> bytes" where
  "ascii s = map of_char s"

lemma length_ascii [simp]: "length (ascii s) = length s"
  by (simp add: ascii_def)

text \<open>\<open>struct.unpack("<I", bs)\<close> of four bytes, and \<open>struct.pack("<I", n)\<close>.\<close>

definition u32_le :: "bytes \<Rightarrow> nat" where
  "u32_le bs = foldr (\<lambda>b n. unat b + 256 * n) bs 0"

definition pack_u32 :: "nat \<Rightarrow> py_error + bytes" where
  "pack_u32 n =
     (if n < 2 ^ 32
      then Inr [word_of_nat n, word_of_nat (n div 256), word_of_nat (n div 65536),
                word_of_nat (n div 16777216)]
      else Inl StructError)"

text \<open>\<open>_chunks\<close>: the dictionary \<open>found\<close> is a map, \<open>setdefault\<close> keeps the first chunk of an id.\<close>

function walk_chunks :: "bytes \<Rightarrow> nat \<Rightarrow> (bytes \<rightharpoonup> bytes) \<Rightarrow> (bytes \<rightharpoonup> bytes)" where
  "walk_chunks data offset found =
     (if offset + 8 \<le> length data
      then let chunk_id = py_slice offset (offset + 4) data;
               size = u32_le (py_slice (offset + 4) (offset + 8) data);
               body = py_slice (offset + 8) (offset + 8 + size) data
           in walk_chunks data (offset + 8 + size + size mod 2)
                (if found chunk_id = None then found(chunk_id \<mapsto> body) else found)
      else found)"
  by pat_completeness auto
termination
  by (relation "measure (\<lambda>(data, offset, _). length data - offset)") auto

declare walk_chunks.simps [simp del]

definition is_riff_wave :: "bytes \<Rightarrow> bool" where
  "is_riff_wave data \<longleftrightarrow> py_slice 0 4 data = ascii ''RIFF'' \<and> py_slice 8 12 data = ascii ''WAVE''"

definition chunks :: "bytes \<Rightarrow> py_error + (bytes \<rightharpoonup> bytes)" where
  "chunks data =
     (if length data < 12 \<or> \<not> is_riff_wave data then Inl (AudioError ''not a RIFF/WAVE file'')
      else
        let found = walk_chunks data 12 Map.empty
        in if found (ascii ''fmt '') = None \<or> found (ascii ''data'') = None
           then Inl (AudioError ''WAV file has no fmt/data chunk'')
           else Inr found)"

text \<open>\<open>chunks[key]\<close> of a key \<open>_chunks\<close> made sure of.\<close>

definition chunk :: "string \<Rightarrow> (bytes \<rightharpoonup> bytes) \<Rightarrow> bytes" where
  "chunk key found = (case found (ascii key) of None \<Rightarrow> [] | Some body \<Rightarrow> body)"

fun wav_payload :: "bytes \<Rightarrow> audio list \<Rightarrow> py_error + bytes" where
  "wav_payload fmt [] = Inr []"
| "wav_payload fmt (p # ps) =
     (case chunks (audio_data p) of
        Inl e \<Rightarrow> Inl e
      | Inr found \<Rightarrow>
          if chunk ''fmt '' found \<noteq> fmt
          then Inl (AudioError ''cannot join WAV parts recorded with different formats'')
          else (case wav_payload fmt ps of
                  Inl e \<Rightarrow> Inl e | Inr rest \<Rightarrow> Inr (chunk ''data'' found @ rest)))"

definition wav_file :: "bytes \<Rightarrow> bytes \<Rightarrow> py_error + bytes" where
  "wav_file fmt payload =
     (case (pack_u32 (4 + 8 + length fmt + 8 + length payload), pack_u32 (length fmt),
            pack_u32 (length payload)) of
        (Inr riff_size, Inr fmt_size, Inr data_size) \<Rightarrow>
          Inr (ascii ''RIFF'' @ riff_size @ ascii ''WAVE'' @ ascii ''fmt '' @ fmt_size @ fmt
               @ ascii ''data'' @ data_size @ payload)
      | _ \<Rightarrow> Inl StructError)"

definition join_wav :: "audio list \<Rightarrow> py_error + bytes" where
  "join_wav parts =
     (case chunks (audio_data (hd parts)) of
        Inl e \<Rightarrow> Inl e
      | Inr found \<Rightarrow>
          let fmt = chunk ''fmt '' found
          in case wav_payload fmt parts of Inl e \<Rightarrow> Inl e | Inr payload \<Rightarrow> wav_file fmt payload)"

definition u16_le :: "bytes \<Rightarrow> nat" where
  "u16_le bs = u32_le (take 2 bs)"

definition wav_duration_ms :: "bytes \<Rightarrow> py_error + int" where
  "wav_duration_ms data =
     (case chunks data of
        Inl e \<Rightarrow> Inl e
      | Inr found \<Rightarrow>
          let fmt = chunk ''fmt '' found
          in if length fmt < 16 then Inl StructError
             else
               let channels = u16_le (py_slice 2 4 fmt); sample_rate = u32_le (py_slice 4 8 fmt);
                   bits = u16_le (py_slice 14 16 fmt); frame_bytes = channels * (bits div 8)
               in if frame_bytes = 0 \<or> sample_rate = 0
                  then Inl (AudioError ''WAV fmt chunk describes zero-width frames'')
                  else Inr (py_round (of_nat (length (chunk ''data'' found)) / of_nat frame_bytes
                                        / of_nat sample_rate * 1000)))"

section \<open>MPEG frames\<close>

definition BITRATES_V1 :: "nat list" where
  "BITRATES_V1 = [0, 32, 40, 48, 56, 64, 80, 96, 112, 128, 160, 192, 224, 256, 320, 0]"

definition BITRATES_V2 :: "nat list" where
  "BITRATES_V2 = [0, 8, 16, 24, 32, 40, 48, 56, 64, 80, 96, 112, 128, 144, 160, 0]"

definition SAMPLE_RATES :: "nat \<Rightarrow> nat list" where
  "SAMPLE_RATES version =
     (if version = 3 then [44100, 48000, 32000]
      else if version = 2 then [22050, 24000, 16000]
      else [11025, 12000, 8000])"

definition LAYER_III :: nat where "LAYER_III = 1"

definition bits_of :: "8 word \<Rightarrow> nat \<Rightarrow> 8 word \<Rightarrow> nat" where
  "bits_of b shift m = unat (and (drop_bit shift b) m)"

text \<open>\<open>_parse_frame\<close>: length in bytes, samples and sample rate of a Layer III frame.\<close>

definition parse_frame :: "bytes \<Rightarrow> (nat \<times> nat \<times> nat) option" where
  "parse_frame header =
     (let version = bits_of (header ! 1) 3 3; layer = bits_of (header ! 1) 1 3
      in if version = 1 \<or> layer \<noteq> LAYER_III then None
         else
           let bitrate_index = bits_of (header ! 2) 4 15; rate_index = bits_of (header ! 2) 2 3;
               padding = bits_of (header ! 2) 1 1
           in if rate_index = 3 then None
              else
                let is_v1 = (version = 3);
                    kbps = (if is_v1 then BITRATES_V1 else BITRATES_V2) ! bitrate_index
                in if kbps = 0 then None
                   else
                     let sample_rate = SAMPLE_RATES version ! rate_index;
                         samples = (if is_v1 then 1152 else 576);
                         frame_length = samples div 8 * kbps * 1000 div sample_rate + padding
                     in if frame_length \<le> 4 then None else Some (frame_length, samples, sample_rate))"

definition is_sync :: "bytes \<Rightarrow> bool" where
  "is_sync header \<longleftrightarrow> header ! 0 = 255 \<and> and (header ! 1) 224 = 224"

definition mpeg_frame_at :: "bytes \<Rightarrow> nat \<Rightarrow> (nat \<times> nat \<times> nat) option" where
  "mpeg_frame_at data offset =
     (let header = py_slice offset (offset + 4) data
      in if length header < 4 \<or> \<not> is_sync header then None else parse_frame header)"

definition skip_id3v2 :: "bytes \<Rightarrow> nat" where
  "skip_id3v2 data =
     (if length data < 10 \<or> py_slice 0 3 data \<noteq> ascii ''ID3'' then 0
      else 10 + foldl (\<lambda>size b. size * 128 + unat (and b 127)) 0 (py_slice 6 10 data))"

definition strip_id3v1 :: "bytes \<Rightarrow> nat" where
  "strip_id3v1 data =
     (if 128 \<le> length data \<and> py_slice (length data - 128) (length data - 125) data = ascii ''TAG''
      then length data - 128 else length data)"

lemma parse_frame_length: "parse_frame header = Some (n, samples, rate) \<Longrightarrow> 4 < n"
  by (auto simp: parse_frame_def Let_def split: if_splits)

text \<open>The \<open>while\<close> loop of \<open>mpeg_duration_ms\<close>: samples so far, and the rate of the last frame.\<close>

function walk_frames :: "bytes \<Rightarrow> nat \<Rightarrow> nat \<Rightarrow> nat \<Rightarrow> nat \<Rightarrow> nat \<times> nat" where
  "walk_frames data stop offset total_samples rate =
     (if offset + 4 \<le> stop
      then let header = py_slice offset (offset + 4) data
           in if \<not> is_sync header then walk_frames data stop (offset + 1) total_samples rate
              else (case parse_frame header of
                      None \<Rightarrow> walk_frames data stop (offset + 1) total_samples rate
                    | Some (frame_length, samples, rate') \<Rightarrow>
                        walk_frames data stop (offset + frame_length) (total_samples + samples) rate')
      else (total_samples, rate))"
  by pat_completeness auto
termination
  by (relation "measure (\<lambda>(data, stop, offset, _). stop - offset)") (auto dest: parse_frame_length)

declare walk_frames.simps [simp del]

definition mpeg_duration_ms :: "bytes \<Rightarrow> py_error + int" where
  "mpeg_duration_ms data =
     (case walk_frames data (strip_id3v1 data) (skip_id3v2 data) 0 0 of
        (total_samples, rate) \<Rightarrow>
          if total_samples = 0 \<or> rate = 0 then Inl (AudioError ''no MPEG audio frames found'')
          else Inr (py_round (of_nat total_samples / of_nat rate * 1000)))"

section \<open>Sniffing, measuring, joining\<close>

fun frame_found :: "bytes \<Rightarrow> nat \<Rightarrow> nat list \<Rightarrow> bool" where
  "frame_found data stop [] = False"
| "frame_found data stop (offset # offsets) =
     (case mpeg_frame_at data offset of
        None \<Rightarrow> frame_found data stop offsets
      | Some (frame_length, _) \<Rightarrow>
          let following = offset + frame_length
          in if stop < following + 4 then True else mpeg_frame_at data following \<noteq> None)"

definition mpeg_frames_begin_within :: "bytes \<Rightarrow> nat \<Rightarrow> bool" where
  "mpeg_frames_begin_within data window =
     (let start = skip_id3v2 data; stop = strip_id3v1 data
      in frame_found data stop [start ..< min (start + window) (stop - 3)])"

definition sniff_media_type :: "bytes \<Rightarrow> string option" where
  "sniff_media_type data =
     (if is_riff_wave data then Some WAV_MEDIA_TYPE
      else if mpeg_frames_begin_within data MPEG_SYNC_WINDOW then Some MPEG_MEDIA_TYPE
      else None)"

definition duration_ms :: "bytes \<Rightarrow> string \<Rightarrow> py_error + int" where
  "duration_ms data mt =
     (if mt = MPEG_MEDIA_TYPE then mpeg_duration_ms data
      else if mt = WAV_MEDIA_TYPE then wav_duration_ms data
      else Inl (AudioError ''do not know how to measure this audio''))"

definition join_audio :: "audio list \<Rightarrow> py_error + audio" where
  "join_audio parts =
     (if parts = [] then Inl (AudioError ''cannot join zero audio parts'')
      else if length (remdups (map media_type parts)) \<noteq> 1
      then Inl (AudioError ''cannot join audio of mixed media types'')
      else
        let mt = media_type (hd parts); total_ms = sum_list (map audio_ms parts)
        in if mt = MPEG_MEDIA_TYPE
           then Inr \<lparr>media_type = mt, audio_data = concat (map audio_data parts), audio_ms = total_ms\<rparr>
           else if mt = WAV_MEDIA_TYPE
           then (case join_wav parts of
                   Inl e \<Rightarrow> Inl e
                 | Inr joined \<Rightarrow> Inr \<lparr>media_type = mt, audio_data = joined, audio_ms = total_ms\<rparr>)
           else Inl (AudioError ''do not know how to join this audio''))"

section \<open>What a WAV join reads back as\<close>

lemma pack_u32_roundtrip:
  assumes "pack_u32 n = Inr bs"
  shows "length bs = 4" and "u32_le bs = n"
proof -
  from assms have n: "n < 4294967296"
    and bs: "bs = [word_of_nat n, word_of_nat (n div 256), word_of_nat (n div 65536), word_of_nat (n div 16777216)]"
    by (auto simp: pack_u32_def split: if_splits)
  then show "length bs = 4" by simp
  have "n div 256 div 256 = n div 65536" "n div 65536 div 256 = n div 16777216"
    by (simp_all flip: div_mult2_eq)
  moreover have "n div 16777216 < 256" using n by (simp add: less_mult_imp_div_less)
  ultimately have q: "n div 65536 = 256 * (n div 16777216) + n div 65536 mod 256"
    "n div 256 = 256 * (n div 65536) + n div 256 mod 256" "n = 256 * (n div 256) + n mod 256"
    and top: "n div 16777216 mod 256 = n div 16777216"
    by (metis mult_div_mod_eq mod_less)+
  have "u32_le bs = n mod 256 + 256 * (n div 256 mod 256 + 256 * (n div 65536 mod 256 + 256 * (n div 16777216)))"
    by (simp add: bs u32_le_def unat_of_nat top)
  also have "\<dots> = n" by (metis q add.commute)
  finally show "u32_le bs = n" .
qed

lemma walk_chunks_at:
  assumes data: "data = pre @ cid @ sz @ body @ rest"
    and len: "length cid = 4" "pack_u32 (length body) = Inr sz" "offset = length pre"
  shows "walk_chunks data offset found =
    walk_chunks data (offset + 8 + length body + length body mod 2)
      (if found cid = None then found(cid \<mapsto> body) else found)"
proof -
  note sz = pack_u32_roundtrip [OF len(2)]
  have "py_slice offset (offset + 4) data = cid"
    "py_slice (offset + 4) (offset + 8) data = sz"
    "py_slice (offset + 8) (offset + 8 + length body) data = body"
    using py_slice_append [of pre offset cid "offset + 4" "sz @ body @ rest"]
      py_slice_append [of "pre @ cid" "offset + 4" sz "offset + 8" "body @ rest"]
      py_slice_append [of "pre @ cid @ sz" "offset + 8" body "offset + 8 + length body" rest] len sz
    by (simp_all add: data)
  moreover have "offset + 8 \<le> length data" using len sz by (simp add: data)
  ultimately show ?thesis
    by (subst walk_chunks.simps) (simp add: sz Let_def)
qed

lemma walk_chunks_end: "length data < offset + 8 \<Longrightarrow> walk_chunks data offset found = found"
  by (subst walk_chunks.simps) simp

lemma wav_file_chunks:
  assumes f: "wav_file fmt payload = Inr data" and even: "even (length fmt)"
  shows "chunks data = Inr [ascii ''fmt '' \<mapsto> fmt, ascii ''data'' \<mapsto> payload]" and "is_riff_wave data"
proof -
  from f obtain r fs ds where p: "pack_u32 (4 + 8 + length fmt + 8 + length payload) = Inr r"
      "pack_u32 (length fmt) = Inr fs" "pack_u32 (length payload) = Inr ds"
    and data: "data = (ascii ''RIFF'' @ r @ ascii ''WAVE'') @ ascii ''fmt '' @ fs @ fmt @
        ascii ''data'' @ ds @ payload"
    by (auto simp: wav_file_def split: sum.splits)
  note len = pack_u32_roundtrip(1) [OF p(1)] pack_u32_roundtrip(1) [OF p(2)] pack_u32_roundtrip(1) [OF p(3)]
  have "py_slice 0 4 data = ascii ''RIFF''"
    using py_slice_append [of "[]" 0 "ascii ''RIFF''" 4] by (simp add: data)
  moreover have "py_slice 8 12 data = ascii ''WAVE''"
    using py_slice_append [of "ascii ''RIFF'' @ r" 8 "ascii ''WAVE''" 12] len by (simp add: data)
  ultimately show riff: "is_riff_wave data" by (simp add: is_riff_wave_def)
  have ne: "ascii ''data'' \<noteq> ascii ''fmt ''" by (simp add: ascii_def)
  have "walk_chunks data 12 Map.empty = walk_chunks data (20 + length fmt) [ascii ''fmt '' \<mapsto> fmt]"
    using walk_chunks_at [OF data _ p(2), of 12] len even by simp
  also have "\<dots> = [ascii ''fmt '' \<mapsto> fmt, ascii ''data'' \<mapsto> payload]"
    using walk_chunks_at [of data "(ascii ''RIFF'' @ r @ ascii ''WAVE'') @ ascii ''fmt '' @ fs @ fmt"
        "ascii ''data''" ds payload "[]" "20 + length fmt" "[ascii ''fmt '' \<mapsto> fmt]"] p(3) len ne
    by (simp add: data walk_chunks_end)
  finally have "walk_chunks data 12 Map.empty = [ascii ''fmt '' \<mapsto> fmt, ascii ''data'' \<mapsto> payload]" .
  with riff ne show "chunks data = Inr [ascii ''fmt '' \<mapsto> fmt, ascii ''data'' \<mapsto> payload]"
    using len by (simp add: chunks_def data)
qed

lemma wav_payload_ok:
  "wav_payload fmt ps = Inr payload \<Longrightarrow>
     \<exists>cs. list_all2 (\<lambda>p c. chunks (audio_data p) = Inr c \<and> chunk ''fmt '' c = fmt) ps cs
       \<and> payload = concat (map (chunk ''data'') cs)"
proof (induction ps arbitrary: payload)
  case Nil
  then show ?case by simp
next
  case (Cons p ps)
  then obtain c rest where c: "chunks (audio_data p) = Inr c" "chunk ''fmt '' c = fmt"
    "wav_payload fmt ps = Inr rest" "payload = chunk ''data'' c @ rest"
    by (auto split: sum.splits if_splits)
  with Cons.IH obtain cs where "list_all2 (\<lambda>p c. chunks (audio_data p) = Inr c \<and> chunk ''fmt '' c = fmt) ps cs"
    "rest = concat (map (chunk ''data'') cs)" by blast
  with c show ?case by (intro exI [of _ "c # cs"]) simp
qed

lemma join_audio_cases:
  assumes "join_audio parts = Inr a"
  shows "parts \<noteq> []" and "\<forall>p \<in> set parts. media_type p = media_type a"
    and "audio_ms a = sum_list (map audio_ms parts)"
    and "media_type a = MPEG_MEDIA_TYPE \<and> audio_data a = concat (map audio_data parts)
       \<or> media_type a = WAV_MEDIA_TYPE \<and> join_wav parts = Inr (audio_data a)"
proof -
  from assms show ne: "parts \<noteq> []" by (auto simp: join_audio_def)
  from assms ne have one: "length (remdups (map media_type parts)) = 1"
    and mt: "media_type a = media_type (hd parts)"
    by (auto simp: join_audio_def Let_def split: if_splits sum.splits)
  then obtain t where "remdups (map media_type parts) = [t]"
    by (metis One_nat_def length_0_conv length_Suc_conv)
  then have "set (map media_type parts) = {t}" by (metis set_remdups list.simps(15) list.set(1))
  with ne mt show "\<forall>p \<in> set parts. media_type p = media_type a" by (cases parts) auto
  from assms ne show "audio_ms a = sum_list (map audio_ms parts)"
    "media_type a = MPEG_MEDIA_TYPE \<and> audio_data a = concat (map audio_data parts)
       \<or> media_type a = WAV_MEDIA_TYPE \<and> join_wav parts = Inr (audio_data a)"
    by (auto simp: join_audio_def Let_def split: if_splits sum.splits)
qed

text \<open>A joined WAV file is a WAV file. Whenever \<open>join_audio\<close> joins WAV parts whose common format
  chunk has an even length, every part had the format of the first, and the file sniffs as WAV and
  reads back as that format and the parts' samples, in order and complete.\<close>

theorem joined_wav_reads_back:
  assumes "join_audio parts = Inr a" and "media_type a = WAV_MEDIA_TYPE"
    and "chunks (audio_data (hd parts)) = Inr c" and "even (length (chunk ''fmt '' c))"
  shows "\<exists>cs. list_all2 (\<lambda>p d. chunks (audio_data p) = Inr d \<and> chunk ''fmt '' d = chunk ''fmt '' c) parts cs
    \<and> sniff_media_type (audio_data a) = Some WAV_MEDIA_TYPE
    \<and> chunks (audio_data a) =
        Inr [ascii ''fmt '' \<mapsto> chunk ''fmt '' c, ascii ''data'' \<mapsto> concat (map (chunk ''data'') cs)]"
proof -
  have "join_wav parts = Inr (audio_data a)"
    using join_audio_cases(4) [OF assms(1)] assms(2) by (auto simp: MPEG_MEDIA_TYPE_def WAV_MEDIA_TYPE_def)
  with assms(3) obtain payload where "wav_payload (chunk ''fmt '' c) parts = Inr payload"
    and "wav_file (chunk ''fmt '' c) payload = Inr (audio_data a)"
    by (auto simp: join_wav_def Let_def split: sum.splits)
  with wav_payload_ok wav_file_chunks assms(4) show ?thesis
    by (fastforce simp: sniff_media_type_def)
qed

definition tiny_wav :: "bytes \<Rightarrow> audio" where
  "tiny_wav samples =
     \<lparr>media_type = WAV_MEDIA_TYPE,
      audio_data = (case wav_file [1, 0, 1, 0] samples of Inr d \<Rightarrow> d | Inl _ \<Rightarrow> []),
      audio_ms = 7\<rparr>"

lemma tiny_wav_file: "length samples < 8 \<Longrightarrow> wav_file [1, 0, 1, 0] samples = Inr (audio_data (tiny_wav samples))"
  by (simp add: tiny_wav_def wav_file_def pack_u32_def)

theorem joined_wav_reads_back_witness:
  "case join_audio [tiny_wav [5, 6, 7], tiny_wav [8, 9]] of
     Inl _ \<Rightarrow> False
   | Inr a \<Rightarrow> (case chunks (audio_data a) of Inl _ \<Rightarrow> False | Inr c \<Rightarrow> chunk ''data'' c = [5, 6, 7, 8, 9])"
proof -
  let ?f = "[1, 0, 1, 0] :: bytes"
  have ne: "ascii ''data'' \<noteq> ascii ''fmt ''" by (simp add: ascii_def)
  have c: "chunks (audio_data (tiny_wav s)) = Inr [ascii ''fmt '' \<mapsto> ?f, ascii ''data'' \<mapsto> s]" if "length s < 8" for s
    using wav_file_chunks(1) [OF tiny_wav_file [OF that]] by simp
  have k: "chunk ''fmt '' [ascii ''fmt '' \<mapsto> ?f, ascii ''data'' \<mapsto> s] = ?f"
    "chunk ''data'' [ascii ''fmt '' \<mapsto> ?f, ascii ''data'' \<mapsto> s] = s" for s
    using ne by (simp_all add: chunk_def)
  have "wav_payload ?f [tiny_wav [5, 6, 7], tiny_wav [8, 9]] = Inr [5, 6, 7, 8, 9]"
    by (simp add: c k)
  then have "join_wav [tiny_wav [5, 6, 7], tiny_wav [8, 9]] = Inr (audio_data (tiny_wav [5, 6, 7, 8, 9]))"
    using tiny_wav_file [of "[5, 6, 7, 8, 9]"] by (simp add: join_wav_def Let_def c k)
  then have j: "join_audio [tiny_wav [5, 6, 7], tiny_wav [8, 9]] =
      Inr \<lparr>media_type = WAV_MEDIA_TYPE, audio_data = audio_data (tiny_wav [5, 6, 7, 8, 9]), audio_ms = 14\<rparr>"
    by (simp add: join_audio_def tiny_wav_def WAV_MEDIA_TYPE_def MPEG_MEDIA_TYPE_def)
  from joined_wav_reads_back [OF j, of "[ascii ''fmt '' \<mapsto> ?f, ascii ''data'' \<mapsto> [5, 6, 7]]"]
  obtain cs where cs: "list_all2 (\<lambda>p d. chunks (audio_data p) = Inr d \<and> chunk ''fmt '' d = ?f)
      [tiny_wav [5, 6, 7], tiny_wav [8, 9]] cs"
    "chunks (audio_data (tiny_wav [5, 6, 7, 8, 9])) =
       Inr [ascii ''fmt '' \<mapsto> ?f, ascii ''data'' \<mapsto> concat (map (chunk ''data'') cs)]"
    by (auto simp: c k)
  then have "concat (map (chunk ''data'') cs) = [5, 6, 7, 8, 9]"
    by (auto simp: list_all2_Cons1 c k)
  with cs(2) show ?thesis by (simp add: j k)
qed


text \<open>The join writes no pad byte, so a format chunk of odd length makes a file its own reader refuses.\<close>

lemma odd_format_unreadable:
  "\<exists>d. wav_file [7] [1, 2] = Inr d \<and> chunks d = Inl (AudioError ''WAV file has no fmt/data chunk'')"
  by (simp add: wav_file_def pack_u32_def chunks_def walk_chunks.simps is_riff_wave_def py_slice_def
      ascii_def u32_le_def Let_def)

section \<open>What an MPEG join measures as\<close>

text \<open>A whole frame: a header that parses, and as many bytes as it says.\<close>

definition whole_frame :: "nat \<Rightarrow> bytes \<Rightarrow> bool" where
  "whole_frame rate f \<longleftrightarrow> (\<exists>samples. mpeg_frame_at f 0 = Some (length f, samples, rate))"

definition frame_samples :: "bytes \<Rightarrow> nat" where
  "frame_samples f = (case mpeg_frame_at f 0 of None \<Rightarrow> 0 | Some (_, samples, _) \<Rightarrow> samples)"

lemma mpeg_frame_at_append:
  assumes "4 \<le> length f" "offset = length pre"
  shows "mpeg_frame_at (pre @ f @ rest) offset = mpeg_frame_at f 0"
  using assms by (simp add: mpeg_frame_at_def py_slice_def)

lemma whole_frame_facts:
  assumes "whole_frame rate f"
  shows "4 < length f" "is_sync (py_slice 0 4 f)"
    "parse_frame (py_slice 0 4 f) = Some (length f, frame_samples f, rate)"
    "mpeg_frame_at f 0 = Some (length f, frame_samples f, rate)"
  using assms by (auto simp: whole_frame_def frame_samples_def mpeg_frame_at_def Let_def
      split: if_splits dest: parse_frame_length)

lemma walk_frames_frame:
  assumes f: "whole_frame rate f" and off: "offset = length pre"
    and stop: "stop = length (pre @ f @ rest)"
  shows "walk_frames (pre @ f @ rest) stop offset total_samples r =
    walk_frames (pre @ f @ rest) stop (offset + length f) (total_samples + frame_samples f) rate"
proof -
  note ff = whole_frame_facts [OF f]
  have "py_slice offset (offset + 4) (pre @ f @ rest) = py_slice 0 4 f"
    using ff(1) off by (simp add: py_slice_def)
  then show ?thesis
    using ff off stop by (subst walk_frames.simps) (simp add: Let_def)
qed

lemma walk_frames_concat:
  assumes "\<forall>f \<in> set fs. whole_frame rate f"
  shows "offset = length pre \<Longrightarrow> stop = length (pre @ concat fs) \<Longrightarrow>
    walk_frames (pre @ concat fs) stop offset t r
      = (t + sum_list (map frame_samples fs), if fs = [] then r else rate)"
  using assms
proof (induction fs arbitrary: pre t r offset)
  case Nil
  then show ?case by (subst walk_frames.simps) simp
next
  case (Cons f fs)
  have "walk_frames (pre @ concat (f # fs)) stop offset t r =
      walk_frames (pre @ f @ concat fs) stop (offset + length f) (t + frame_samples f) rate"
    using walk_frames_frame [of rate f offset pre stop "concat fs" t r] Cons.prems by simp
  also have "\<dots> = (t + frame_samples f + sum_list (map frame_samples fs), rate)"
    using Cons.IH [of "offset + length f" "pre @ f" "t + frame_samples f" rate] Cons.prems by simp
  finally show ?case by (simp add: add.assoc)
qed

lemma whole_frame_head:
  assumes "whole_frame rate f"
  shows "\<exists>rest. f = 255 # rest"
proof -
  from whole_frame_facts(1,2) [OF assms] show ?thesis
    by (cases f) (auto simp: is_sync_def py_slice_def)
qed

lemma frames_no_tag:
  assumes "\<forall>f \<in> set fs. whole_frame rate f"
  shows "skip_id3v2 (concat fs) = 0" and "\<not> is_riff_wave (concat fs)"
  using assms by (cases fs; force simp: skip_id3v2_def is_riff_wave_def py_slice_def ascii_def
      dest: whole_frame_head)+

lemma frames_sniff:
  assumes fs: "fs \<noteq> []" "\<forall>f \<in> set fs. whole_frame rate f" and tag: "strip_id3v1 (concat fs) = length (concat fs)"
  shows "sniff_media_type (concat fs) = Some MPEG_MEDIA_TYPE"
proof -
  obtain f gs where f: "fs = f # gs" using fs by (cases fs) auto
  note ff = whole_frame_facts [OF bspec [OF fs(2)], of f]
  have at0: "mpeg_frame_at (concat fs) 0 = Some (length f, frame_samples f, rate)"
    using mpeg_frame_at_append [of f 0 "[]" "concat gs"] ff f by simp
  have nxt: "mpeg_frame_at (concat fs) (length f) \<noteq> None" if long: "length f + 4 \<le> length (concat fs)"
  proof -
    obtain g hs where g: "gs = g # hs" using long f by (cases gs) auto
    then have "4 < length g" "mpeg_frame_at g 0 \<noteq> None"
      using whole_frame_facts [of rate g] fs(2) f by auto
    then show ?thesis using mpeg_frame_at_append [of g "length f" f "concat hs"] f g by simp
  qed
  have "0 < min MPEG_SYNC_WINDOW (length (concat fs) - 3)"
    using ff f by (simp add: MPEG_SYNC_WINDOW_def)
  then have "[0 ..< min MPEG_SYNC_WINDOW (length (concat fs) - 3)]
      = 0 # [Suc 0 ..< min MPEG_SYNC_WINDOW (length (concat fs) - 3)]"
    by (rule upt_conv_Cons)
  then have "mpeg_frames_begin_within (concat fs) MPEG_SYNC_WINDOW"
    using at0 nxt frames_no_tag(1) [OF fs(2)] tag
    by (simp add: mpeg_frames_begin_within_def Let_def not_less)
  then show ?thesis using frames_no_tag(2) [OF fs(2)] by (simp add: sniff_media_type_def)
qed

lemma bits_of_3: "bits_of b n 3 < 4"
  using word_and_le1 [of "drop_bit n b" "3 :: 8 word"] by (simp add: bits_of_def word_le_nat_alt)

lemma parse_frame_values:
  assumes "parse_frame header = Some (n, samples, rate)"
  shows "0 < samples" and "0 < rate"
proof -
  from assms show "0 < samples" by (auto simp: parse_frame_def Let_def split: if_splits)
  from assms have i: "bits_of (header ! 2) 2 3 \<noteq> 3"
    and rate: "rate = SAMPLE_RATES (bits_of (header ! 1) 3 3) ! bits_of (header ! 2) 2 3"
    by (auto simp: parse_frame_def Let_def split: if_splits)
  have "SAMPLE_RATES v ! i \<noteq> 0" if "i < 3" for v i
    using that by (auto simp: SAMPLE_RATES_def less_Suc_eq numeral_3_eq_3)
  moreover have "bits_of (header ! 2) 2 3 < 3" using i bits_of_3 [of "header ! 2" 2] by linarith
  ultimately show "0 < rate" using rate by simp
qed

lemma frame_samples_pos: "whole_frame rate f \<Longrightarrow> 0 < frame_samples f" "whole_frame rate f \<Longrightarrow> 0 < rate"
  using whole_frame_facts(3) parse_frame_values by blast+

lemma frames_positive:
  assumes "fs \<noteq> []" "\<forall>f \<in> set fs. whole_frame rate f"
  shows "0 < rate" and "0 < sum_list (map frame_samples fs)"
  using assms by (cases fs; force dest: frame_samples_pos)+

lemma frames_measure:
  assumes "fs \<noteq> []" "\<forall>f \<in> set fs. whole_frame rate f" "strip_id3v1 (concat fs) = length (concat fs)"
  shows "mpeg_duration_ms (concat fs)
    = Inr (py_round (of_nat (sum_list (map frame_samples fs)) / of_nat rate * 1000))"
proof -
  obtain n where n: "n = sum_list (map frame_samples fs)" by simp
  have "walk_frames (concat fs) (length (concat fs)) 0 0 0 = (n, rate)" "0 < n" "0 < rate"
    using walk_frames_concat [OF assms(2), of 0 "[]" "length (concat fs)" 0 0] frames_positive [OF assms(1,2)] assms(1)
    by (simp_all add: n)
  then show ?thesis
    using frames_no_tag(1) [OF assms(2)] assms(3) by (simp add: mpeg_duration_ms_def flip: n)
qed

lemma abs_diff_add: "\<bar>a - b\<bar> \<le> c \<Longrightarrow> \<bar>x - y\<bar> \<le> d \<Longrightarrow> \<bar>(a + x) - (b + y)\<bar> \<le> c + d"
  for a b c d x y :: rat
  by linarith

lemma abs_diff_via: "\<bar>a - s\<bar> \<le> c \<Longrightarrow> \<bar>b - s\<bar> \<le> d \<Longrightarrow> \<bar>a - b\<bar> \<le> c + d"
  for a b c d s :: rat
  by linarith

lemma sum_of_rounded:
  "\<bar>of_int (sum_list (map (\<lambda>p. py_round (g p)) ps)) - sum_list (map g ps)\<bar> \<le> of_nat (length ps) / 2"
proof (induction ps)
  case Nil
  then show ?case by simp
next
  case (Cons p ps)
  from abs_diff_add [OF py_round_near [of "g p"] Cons] show ?case
    by (simp add: add_divide_distrib)
qed

text \<open>A joined MPEG file is an MPEG file, as long as its parts. When the parts are runs of whole
  frames of one sample rate without trailing tags, each measured as it says, the joined bytes sniff
  as MPEG, and measuring them differs from the sum of the parts' durations by at most half a
  millisecond per part and half a millisecond: the rounding, and nothing else.\<close>

theorem joined_mpeg_measures:
  assumes join: "join_audio parts = Inr a" and mpeg: "media_type a = MPEG_MEDIA_TYPE"
    and parts: "\<forall>p \<in> set parts. (\<exists>fs. fs \<noteq> [] \<and> (\<forall>f \<in> set fs. whole_frame rate f) \<and> audio_data p = concat fs)
      \<and> mpeg_duration_ms (audio_data p) = Inr (audio_ms p)"
    and tags: "\<forall>p \<in> insert a (set parts). strip_id3v1 (audio_data p) = length (audio_data p)"
  shows "sniff_media_type (audio_data a) = Some MPEG_MEDIA_TYPE
    \<and> (\<exists>t. mpeg_duration_ms (audio_data a) = Inr t \<and> 2 * \<bar>t - audio_ms a\<bar> \<le> int (length parts) + 1)"
proof -
  have "\<forall>p \<in> set parts. \<exists>fs. fs \<noteq> [] \<and> (\<forall>f \<in> set fs. whole_frame rate f) \<and> audio_data p = concat fs"
    using parts by blast
  then obtain F where F: "\<And>p. p \<in> set parts \<Longrightarrow> F p \<noteq> [] \<and> (\<forall>f \<in> set (F p). whole_frame rate f) \<and> audio_data p = concat (F p)"
    by (metis (no_types))
  define fs where "fs = concat (map F parts)"
  define x where "x p = (of_nat (sum_list (map frame_samples (F p))) / of_nat rate * 1000 :: rat)" for p
  note j = join_audio_cases [OF join]
  have "audio_data a = concat (map audio_data parts)"
    using j(4) mpeg by (auto simp: MPEG_MEDIA_TYPE_def WAV_MEDIA_TYPE_def)
  also have "\<dots> = concat (map (\<lambda>p. concat (F p)) parts)"
    using F by (intro arg_cong [of _ _ concat] map_cong) auto
  also have "\<dots> = concat fs"
    unfolding fs_def by (induction parts) simp_all
  finally have data: "audio_data a = concat fs" .
  have whole1: "\<forall>f \<in> set fs. whole_frame rate f" using F by (auto simp: fs_def)
  have whole2: "fs \<noteq> []" using F j(1) by (cases parts) (simp_all add: fs_def)
  note whole = whole1 whole2
  have tag: "strip_id3v1 (concat fs) = length (concat fs)" using tags data by simp
  have x: "audio_ms p = py_round (x p)" if p: "p \<in> set parts" for p
  proof -
    from F [OF p] have d: "audio_data p = concat (F p)" by blast
    from F [OF p] have "F p \<noteq> []" "\<forall>f \<in> set (F p). whole_frame rate f" by auto
    moreover have "strip_id3v1 (concat (F p)) = length (concat (F p))" using tags p d by (metis insertI2)
    ultimately have "mpeg_duration_ms (audio_data p) = Inr (py_round (x p))"
      unfolding x_def d by (rule frames_measure)
    moreover have "mpeg_duration_ms (audio_data p) = Inr (audio_ms p)" using parts p by blast
    ultimately show ?thesis by simp
  qed
  then have ms: "audio_ms a = sum_list (map (\<lambda>p. py_round (x p)) parts)"
    using j(3) by (simp cong: map_cong)
  have "sum_list (map x ps) = of_nat (sum_list (map (\<lambda>p. sum_list (map frame_samples (F p))) ps)) / of_nat rate * 1000" for ps
    by (induction ps) (simp_all add: x_def add_divide_distrib distrib_right)
  moreover have "sum_list (map (\<lambda>p. sum_list (map frame_samples (F p))) ps) = sum_list (map frame_samples (concat (map F ps)))" for ps
    by (induction ps) simp_all
  ultimately have "sum_list (map x parts) = of_nat (sum_list (map frame_samples fs)) / of_nat rate * 1000"
    by (simp add: fs_def)
  then have m: "mpeg_duration_ms (audio_data a) = Inr (py_round (sum_list (map x parts)))"
    using frames_measure [OF whole(2,1) tag] data by simp
  define d where "d = py_round (sum_list (map x parts)) - audio_ms a"
  have "\<bar>of_int d :: rat\<bar> \<le> of_nat (length parts) / 2 + 1 / 2"
    using abs_diff_via [OF py_round_near [of "sum_list (map x parts)"] sum_of_rounded [of x parts]] ms
    by (simp add: d_def add.commute)
  then have "(of_int (2 * \<bar>d\<bar>) :: rat) \<le> of_int (int (length parts) + 1)" by simp
  then have "2 * \<bar>py_round (sum_list (map x parts)) - audio_ms a\<bar> \<le> int (length parts) + 1"
    by (simp only: of_int_le_iff d_def)
  with m data frames_sniff [OF whole(2,1) tag] show ?thesis by simp
qed


definition tiny_frame :: bytes where
  "tiny_frame = [255, 243, 20, 0] @ replicate 20 0"

definition tiny_mpeg :: audio where
  "tiny_mpeg = \<lparr>media_type = MPEG_MEDIA_TYPE, audio_data = tiny_frame, audio_ms = 24\<rparr>"

lemma tiny_frame_whole: "whole_frame 24000 tiny_frame" "frame_samples tiny_frame = 576"
proof -
  have "mpeg_frame_at tiny_frame 0 = Some (24, 576, 24000)"
    by (simp add: tiny_frame_def mpeg_frame_at_def py_slice_def is_sync_def parse_frame_def bits_of_def
        LAYER_III_def BITRATES_V2_def SAMPLE_RATES_def Let_def)
  then show "whole_frame 24000 tiny_frame" "frame_samples tiny_frame = 576"
    by (simp_all add: whole_frame_def frame_samples_def) (simp add: tiny_frame_def)
qed

lemma tiny_frame_measure: "mpeg_duration_ms tiny_frame = Inr 24"
proof -
  have "length tiny_frame = 24" by (simp add: tiny_frame_def)
  then have "strip_id3v1 tiny_frame = length tiny_frame" by (simp add: strip_id3v1_def)
  then show ?thesis
    using frames_measure [of "[tiny_frame]" 24000] tiny_frame_whole py_round_int [of 24] by simp
qed

theorem joined_mpeg_measures_witness:
  "case join_audio [tiny_mpeg, tiny_mpeg] of
     Inl _ \<Rightarrow> False
   | Inr a \<Rightarrow> sniff_media_type (audio_data a) = Some MPEG_MEDIA_TYPE \<and> length (audio_data a) = 48"
proof -
  let ?a = "\<lparr>media_type = MPEG_MEDIA_TYPE, audio_data = tiny_frame @ tiny_frame, audio_ms = 48\<rparr>"
  have len: "length tiny_frame = 24" by (simp add: tiny_frame_def)
  have j: "join_audio [tiny_mpeg, tiny_mpeg] = Inr ?a"
    by (simp add: join_audio_def tiny_mpeg_def)
  have "sniff_media_type (audio_data ?a) = Some MPEG_MEDIA_TYPE"
  proof (rule conjunct1 [OF joined_mpeg_measures [OF j]])
    show "\<forall>p \<in> set [tiny_mpeg, tiny_mpeg].
        (\<exists>fs. fs \<noteq> [] \<and> (\<forall>f \<in> set fs. whole_frame 24000 f) \<and> audio_data p = concat fs)
        \<and> mpeg_duration_ms (audio_data p) = Inr (audio_ms p)"
      using tiny_frame_whole tiny_frame_measure
      by (auto simp: tiny_mpeg_def intro: exI [of _ "[tiny_frame]"])
    show "\<forall>p \<in> insert ?a (set [tiny_mpeg, tiny_mpeg]). strip_id3v1 (audio_data p) = length (audio_data p)"
      by (simp add: strip_id3v1_def tiny_mpeg_def len)
  qed simp
  then show ?thesis by (simp add: j len)
qed


end
