(* ===== verification/Stages.thy ===== *)
theory Stages
  imports Episodes Narration Worker
begin

text \<open>
  What the pipeline's handlers share, \<open>workers/src/motet_workers/handlers.py\<close>: the value types of
  \<open>inference/src/motet_inference/types.py\<close> and \<open>interfaces.py\<close>, and the context of a run. The three
  inference stages and the object store are vendors behind interfaces: \<open>pipeline\<close> holds them as
  arguments, with \<open>now()\<close>, SHA-256 and the random ids of the run. A handler that raises commits
  nothing, so only a handler that returns gives a new state.
\<close>

section \<open>Value types\<close>

record source_doc =
  sd_id :: string
  sd_title :: string
  sd_text :: string

record news_doc =
  nd_id :: string
  nd_title :: string
  nd_summary :: string
  nd_source_ids :: "string list"

record script_claim =
  sc_text :: string
  sc_source_item :: string
  sc_start :: int
  sc_end :: int

record script_segment =
  sp_news_item :: string
  sp_claims :: "script_claim list"

definition script_text :: "script_segment \<Rightarrow> string" where
  "script_text g = py_join '' '' (map sc_text (sp_claims g))"

record dedup_decision =
  de_relation :: string
  de_reason :: string
  de_candidate :: "string option"
  de_model :: string
  de_second_look :: "bool option"

record integration_result =
  ir_news_item :: news_doc
  ir_merged :: bool
  ir_decision :: "dedup_decision option"

definition as_source_item :: "source_item \<Rightarrow> source_doc" where
  "as_source_item r = \<lparr>sd_id = si_id r, sd_title = si_title r, sd_text = si_text r\<rparr>"

definition as_news_item :: "stored_news_item \<Rightarrow> news_doc" where
  "as_news_item s =
     \<lparr>nd_id = ni_id (st_item s), nd_title = ni_title (st_item s), nd_summary = ni_summary (st_item s),
      nd_source_ids = st_source_ids s\<rparr>"

section \<open>The context of a run\<close>

record pipeline =
  pl_sha :: "string \<Rightarrow> 8 word list"
  pl_now :: time
  pl_repr :: "json \<Rightarrow> string"
  pl_integrate :: "source_doc \<Rightarrow> news_doc list \<Rightarrow> exn + integration_result"
  pl_script :: "news_doc list \<Rightarrow> (string \<rightharpoonup> source_doc) \<Rightarrow> exn + script_segment list"
  pl_speak :: "string \<Rightarrow> exn + audio"
  pl_put :: "string \<Rightarrow> bytes \<Rightarrow> string \<Rightarrow> exn option"
  pl_segment_id :: "nat \<Rightarrow> string"
  pl_claim_id :: "nat \<Rightarrow> nat \<Rightarrow> string"
  pl_news_id :: string

type_synonym stage = "pipeline \<Rightarrow> dom handler"

definition permanent :: "string \<Rightarrow> exn" where
  "permanent m = \<lparr>exn_kind = PermanentFailureExn, exn_name = ''PermanentFailure'', exn_text = m\<rparr>"

definition exn_of :: "py_error \<Rightarrow> exn" where
  "exn_of e =
     (let other = (\<lambda>n m. \<lparr>exn_kind = OtherExn, exn_name = n, exn_text = m\<rparr>)
      in case e of
           PermanentFailure m \<Rightarrow> permanent m
         | ValueError m \<Rightarrow> other ''ValueError'' m
         | IndexError \<Rightarrow> other ''IndexError'' ''list index out of range''
         | LookupError m \<Rightarrow> other ''LookupError'' m
         | RuleError m \<Rightarrow> other ''RuleError'' m
         | IntegrityError m \<Rightarrow> other ''IntegrityError'' m
         | OverflowError \<Rightarrow> other ''OverflowError'' []
         | AudioError m \<Rightarrow> other ''AudioError'' m
         | StructError \<Rightarrow> other ''error'' []
         | TypeError m \<Rightarrow> other ''TypeError'' m)"

definition raises :: "py_error + 'a \<Rightarrow> exn + 'a" where
  "raises r = (case r of Inl e \<Rightarrow> Inl (exn_of e) | Inr x \<Rightarrow> Inr x)"

lemma raises_Inr [simp]: "raises r = Inr x \<longleftrightarrow> r = Inr x"
  by (simp add: raises_def split: sum.split)

text \<open>\<open>_require\<close>.\<close>

definition require :: "(json \<Rightarrow> string) \<Rightarrow> string \<Rightarrow> payload \<Rightarrow> exn + string" where
  "require repr key p =
     (let missing = Inl (permanent (''job payload is missing a usable '' @ quote @ key @ quote @ '': '' @ repr (JObj p)))
      in case map_of p key of
           Some (JStr v) \<Rightarrow> if v = [] then missing else Inr v
         | _ \<Rightarrow> missing)"

definition payload_string :: "string \<Rightarrow> payload \<Rightarrow> string option" where
  "payload_string key p =
     (case map_of p key of Some (JStr v) \<Rightarrow> if v = [] then None else Some v | _ \<Rightarrow> None)"

lemma require_Inr: "require repr key p = Inr i \<longleftrightarrow> payload_string key p = Some i"
  by (simp add: require_def payload_string_def Let_def split: option.split json.split)

definition on_dom :: "dom \<Rightarrow> dom sys \<Rightarrow> dom sys" where
  "on_dom d s = s\<lparr>sys_dom := d\<rparr>"

lemma on_dom_simps [simp]:
  "sys_dom (on_dom d s) = d" "sys_jobs (on_dom d s) = sys_jobs s" "sys_heartbeats (on_dom d s) = sys_heartbeats s"
  by (simp_all add: on_dom_def)

definition enqueue_job :: "pipeline \<Rightarrow> queue \<Rightarrow> payload \<Rightarrow> string option \<Rightarrow> dom sys \<Rightarrow> dom sys" where
  "enqueue_job pl q p key = on_jobs (\<lambda>db. snd (enqueue (pl_sha pl) (pl_now pl) q p key 0 db))"

lemma enqueue_job_simps [simp]:
  "sys_dom (enqueue_job pl q p key s) = sys_dom s"
  "sys_heartbeats (enqueue_job pl q p key s) = sys_heartbeats s"
  "sys_jobs (enqueue_job pl q p key s) = snd (enqueue (pl_sha pl) (pl_now pl) q p key 0 (sys_jobs s))"
  by (simp_all add: enqueue_job_def)

lemma enqueue_job_extends: "extends_jobs (pl_sha pl) (sys_jobs s) (sys_jobs (enqueue_job pl q p key s))"
  by (simp add: extends_jobs_enqueue)

text \<open>What a stage did to the queue: at most one new job, without a key unless it says so.\<close>

definition enqueued :: "dom sys \<Rightarrow> dom sys \<Rightarrow> job_row list" where
  "enqueued s s' = drop (length (rows (sys_jobs s))) (rows (sys_jobs s'))"

lemma enqueued_job:
  "map (\<lambda>r. (row_queue r, row_payload r, row_serialize_key r)) (enqueued s (enqueue_job pl q p key (on_dom d s))) = [(q, p, key)]"
  by (simp add: enqueued_def enqueue_def)

section \<open>The work a jobs table asks for\<close>

definition work_of :: "jobs_db \<Rightarrow> (queue \<times> payload \<times> string option) list" where
  "work_of db = map (\<lambda>r. (row_queue r, row_payload r, row_serialize_key r)) (rows db)"

lemma work_of_update_row:
  assumes "\<And>r. row_queue (f r) = row_queue r \<and> row_payload (f r) = row_payload r \<and> row_serialize_key (f r) = row_serialize_key r"
  shows "work_of (update_row i f db) = work_of db"
  using assms by (simp add: work_of_def update_row_def map_update_where)

lemma work_of_enqueue [simp]: "work_of (snd (enqueue sha now q p key d db)) = work_of db @ [(q, p, key)]"
  by (simp add: work_of_def enqueue_def)

lemma work_of_settling [simp]:
  "work_of (complete now i db) = work_of db" "work_of (mark_work_committed now i n db) = work_of db"
  by (simp_all add: complete_def mark_work_committed_def complete_row_def mark_row_def work_of_update_row)

lemma work_of_fail: "fail m now j e db = Inr (b, db') \<Longrightarrow> work_of db' = work_of db"
  by (auto simp: fail_def give_up_row_def retry_row_def work_of_update_row split: if_splits sum.splits)

text \<open>What one run of a job leaves in the database, whatever its handler is.\<close>

lemma execute_effect:
  assumes ex: "execute t1 t2 h recs j s = Inr (out, s', after)" and fresh: "job_committed j = None"
  obtains (done') s1 where "h s (job_payload j) = Inr (s1, after)" "out = Completed" "sys_dom s' = sys_dom s1"
      "work_of (sys_jobs s') = work_of (sys_jobs s1)"
    | (retry) e where "h s (job_payload j) = Inl e" "out = Retrying" "sys_dom s' = sys_dom s"
      "work_of (sys_jobs s') = work_of (sys_jobs s)" "after = []"
    | (gave_up) e where "h s (job_payload j) = Inl e" "out \<in> {FailedOut, FailedPermanently}"
      "sys_dom s' = sys_dom (record_failure recs j (exn_message e) s)"
      "work_of (sys_jobs s') = work_of (sys_jobs (record_failure recs j (exn_message e) s))" "after = []"
proof (cases "h s (job_payload j)")
  case (Inr x)
  obtain s1 a where x: "x = (s1, a)" by (cases x)
  with Inr ex fresh have "after = a" "out = Completed" "sys_dom s' = sys_dom s1" "work_of (sys_jobs s') = work_of (sys_jobs s1)"
    by (auto simp: execute_def)
  with Inr x show thesis by (intro done') simp_all
next
  case (Inl e)
  define rec where "rec = record_failure recs j (exn_message e) s"
  have fl: "sys_dom s2 = sys_dom s0 \<and> work_of (sys_jobs s2) = work_of (sys_jobs s0) \<and> out2 = o' \<and> a = []"
    if "fail_in m t2 j msg o' s0 = Inr (out2, s2, a)" for m msg o' out2 a and s0 s2 :: "'a sys"
    using that by (auto simp: fail_in_def work_of_fail split: sum.splits)
  show thesis
  proof (cases "exn_kind e = OtherExn \<and> will_retry DEFAULT_MAX_ATTEMPTS j")
    case True
    with Inl ex fresh have "fail_in DEFAULT_MAX_ATTEMPTS t2 j (exn_message e) Retrying s = Inr (out, s', after)"
      by (simp add: execute_def Let_def)
    from fl [OF this] Inl show thesis by (intro retry) simp_all
  next
    case False
    with Inl ex fresh obtain m o' where "fail_in m t2 j (exn_message e) o' rec = Inr (out, s', after)"
        "o' \<in> {FailedOut, FailedPermanently}"
      by (cases "exn_kind e") (auto simp: execute_def Let_def rec_def split: if_splits)
    with fl [OF this(1)] Inl show thesis by (intro gave_up) (simp_all add: rec_def)
  qed
qed


end
