(* ===== verification/Labels.thy ===== *)
theory Labels
  imports Text "HOL-Library.List_Lexorder" "HOL-Library.Char_ord"
begin

text \<open>
  Label sync, \<open>sources/src/motet_sources/labels.py\<close>: the owner's two label names as they are typed,
  stored and read back, the label catalog cached on a source, and the resolution of names to the ids a
  write may use. \<open>repr\<close> is Python's \<open>repr\<close> of a JSON value. \<open>catalog_fetched_at\<close>, which parses a
  timestamp, is not modelled.
\<close>

section \<open>Settings\<close>

record label =
  lb_id :: string
  lb_name :: string
  lb_system :: bool

definition CONFIG_KEY :: string where "CONFIG_KEY = ''labels_on_ingest''"
definition CATALOG_KEY :: string where "CATALOG_KEY = ''label_catalog''"
definition MAX_LABEL_NAME_CHARS :: nat where "MAX_LABEL_NAME_CHARS = 225"

definition WRITABLE_SYSTEM_LABELS :: "string set" where
  "WRITABLE_SYSTEM_LABELS = {''INBOX'', ''UNREAD'', ''STARRED'', ''IMPORTANT''}"

definition GMAIL_SYSTEM_LABELS :: "string set" where
  "GMAIL_SYSTEM_LABELS =
     {''INBOX'', ''UNREAD'', ''STARRED'', ''IMPORTANT'', ''SENT'', ''DRAFT'', ''SPAM'', ''TRASH'', ''CHAT'',
      ''CATEGORY_PERSONAL'', ''CATEGORY_SOCIAL'', ''CATEGORY_PROMOTIONS'', ''CATEGORY_UPDATES'', ''CATEGORY_FORUMS''}"

definition FORBIDDEN_LABEL_IDS :: "string set" where
  "FORBIDDEN_LABEL_IDS = GMAIL_SYSTEM_LABELS - WRITABLE_SYSTEM_LABELS"

record label_settings =
  ls_remove :: "string option"
  ls_add :: "string option"

text \<open>\<open>_clean\<close>: a text with something in it, stripped. The argument is a JSON value or nothing.\<close>

definition clean_name :: "json option \<Rightarrow> string option" where
  "clean_name v =
     (case v of Some (JStr s) \<Rightarrow> if py_strip s = [] then None else Some (py_strip s) | _ \<Rightarrow> None)"

definition settings_of :: "string option \<Rightarrow> string option \<Rightarrow> label_settings option" where
  "settings_of r a = (if r = None \<and> a = None then None else Some \<lparr>ls_remove = r, ls_add = a\<rparr>)"

definition label_settings_from_config :: "payload \<Rightarrow> label_settings option" where
  "label_settings_from_config config =
     (case map_of config CONFIG_KEY of
        Some (JObj raw) \<Rightarrow>
          settings_of (clean_name (map_of raw ''remove'')) (clean_name (map_of raw ''add''))
      | _ \<Rightarrow> None)"

text \<open>What is wrong with one typed name, and \<open>LabelSettings.parse\<close>.\<close>

definition name_problem :: "string option \<Rightarrow> string option" where
  "name_problem n =
     (case n of
        None \<Rightarrow> None
      | Some s \<Rightarrow>
          if MAX_LABEL_NAME_CHARS < length s then Some ''A Gmail label name is at most 225 characters.''
          else if py_upper s \<in> GMAIL_SYSTEM_LABELS \<and> py_upper s \<notin> WRITABLE_SYSTEM_LABELS
          then Some (py_repr s @ '' is a Gmail system label Motet will not move mail into or out of. Allowed ''
                 @ ''system labels: IMPORTANT, INBOX, STARRED, UNREAD.'')
          else None)"

definition parse_label_settings ::
  "string option \<Rightarrow> string option \<Rightarrow> string + label_settings option"
where
  "parse_label_settings remove add =
     (let r = clean_name (map_option JStr remove); a = clean_name (map_option JStr add)
      in case name_problem r of
           Some e \<Rightarrow> Inl e
         | None \<Rightarrow>
             (case name_problem a of
                Some e \<Rightarrow> Inl e
              | None \<Rightarrow>
                  if r \<noteq> None \<and> a \<noteq> None \<and> py_casefold (the r) = py_casefold (the a)
                  then Inl ''The label to remove and the label to add are the same.''
                  else Inr (settings_of r a)))"

definition json_opt :: "string option \<Rightarrow> json" where
  "json_opt v = (case v of None \<Rightarrow> JNull | Some s \<Rightarrow> JStr s)"

definition label_settings_to_config :: "label_settings \<Rightarrow> payload" where
  "label_settings_to_config s = [(''remove'', json_opt (ls_remove s)), (''add'', json_opt (ls_add s))]"

definition label_names :: "label_settings \<Rightarrow> string list" where
  "label_names s = List.map_filter (\<lambda>n. n) [ls_remove s, ls_add s]"

section \<open>The cached catalog\<close>

definition catalog_to_sync_state :: "label list \<Rightarrow> string \<Rightarrow> payload" where
  "catalog_to_sync_state labels fetched_at =
     [(''fetched_at'', JStr fetched_at),
      (''labels'', JList (map (\<lambda>l. JObj [(''id'', JStr (lb_id l)), (''name'', JStr (lb_name l)),
                                         (''system'', JBool (lb_system l))]) labels))]"

text \<open>\<open>str(x)\<close> of a JSON value, and one entry of a cached catalog; entries that are not a mapping with a
  text id are skipped.\<close>

definition py_str_of :: "(json \<Rightarrow> string) \<Rightarrow> json \<Rightarrow> string" where
  "py_str_of repr v = (case v of JStr s \<Rightarrow> s | _ \<Rightarrow> repr v)"

definition catalog_entry :: "(json \<Rightarrow> string) \<Rightarrow> json \<Rightarrow> label option" where
  "catalog_entry repr item =
     (case item of
        JObj kvs \<Rightarrow>
          (case map_of kvs ''id'' of
             Some (JStr i) \<Rightarrow>
               Some \<lparr>lb_id = i,
                     lb_name = (case map_of kvs ''name'' of
                                  Some v \<Rightarrow> if truthy v then py_str_of repr v else i | None \<Rightarrow> i),
                     lb_system = (case map_of kvs ''system'' of Some v \<Rightarrow> truthy v | None \<Rightarrow> False)\<rparr>
           | _ \<Rightarrow> None)
      | _ \<Rightarrow> None)"

text \<open>\<open>for item in v\<close>: a list's members, a text's characters, a mapping's keys; anything else raises.\<close>

definition py_iter :: "json \<Rightarrow> py_error + json list" where
  "py_iter v =
     (case v of
        JList xs \<Rightarrow> Inr xs
      | JStr s \<Rightarrow> Inr (map (\<lambda>c. JStr [c]) s)
      | JObj kvs \<Rightarrow> Inr (map (\<lambda>(k, _). JStr k) kvs)
      | _ \<Rightarrow> Inl (TypeError ''object is not iterable''))"

definition catalog_from_sync_state :: "(json \<Rightarrow> string) \<Rightarrow> payload \<Rightarrow> py_error + label list" where
  "catalog_from_sync_state repr sync_state =
     (case map_of sync_state CATALOG_KEY of
        Some (JObj raw) \<Rightarrow>
          (case map_of raw ''labels'' of
             Some v \<Rightarrow> if truthy v then and_then (py_iter v) (\<lambda>xs. Inr (List.map_filter (catalog_entry repr) xs))
                      else Inr []
           | None \<Rightarrow> Inr [])
      | _ \<Rightarrow> Inr [])"

definition pickable :: "label list \<Rightarrow> string list" where
  "pickable catalog =
     sort_key py_casefold (map lb_name (filter (\<lambda>l. \<not> lb_system l) catalog))
     @ sort (map lb_name (filter (\<lambda>l. lb_system l \<and> lb_id l \<in> WRITABLE_SYSTEM_LABELS) catalog))"

section \<open>Resolution\<close>

record resolved =
  rs_add :: "string list"
  rs_remove :: "string list"
  rs_missing :: "string list"
  rs_refused :: "string list"

text \<open>The label a name means: the last of exactly that name (a dict keeps the last), else the first whose
  name folds to the same text.\<close>

definition label_named :: "label list \<Rightarrow> string \<Rightarrow> label option" where
  "label_named catalog n =
     (case find (\<lambda>l. lb_name l = n) (rev catalog) of
        Some l \<Rightarrow> Some l
      | None \<Rightarrow> find (\<lambda>l. py_casefold (lb_name l) = py_casefold n) catalog)"

definition refused_label :: "label \<Rightarrow> bool" where
  "refused_label l \<longleftrightarrow> lb_id l \<in> FORBIDDEN_LABEL_IDS \<or> lb_system l \<and> lb_id l \<notin> WRITABLE_SYSTEM_LABELS"

datatype looked_up = Nothing | Missing string | Refused string | Id string

definition resolve_one :: "label list \<Rightarrow> string option \<Rightarrow> looked_up" where
  "resolve_one catalog n =
     (case n of
        None \<Rightarrow> Nothing
      | Some s \<Rightarrow>
          (case label_named catalog s of
             None \<Rightarrow> Missing s
           | Some l \<Rightarrow> if refused_label l then Refused s else Id (lb_id l)))"

definition ids_of :: "looked_up \<Rightarrow> string list" where
  "ids_of u = (case u of Id i \<Rightarrow> [i] | _ \<Rightarrow> [])"

definition missing_of :: "looked_up \<Rightarrow> string list" where
  "missing_of u = (case u of Missing s \<Rightarrow> [s] | _ \<Rightarrow> [])"

definition refused_of :: "looked_up \<Rightarrow> string list" where
  "refused_of u = (case u of Refused s \<Rightarrow> [s] | _ \<Rightarrow> [])"

definition resolve :: "label_settings \<Rightarrow> label list \<Rightarrow> resolved" where
  "resolve settings catalog =
     (let remove = resolve_one catalog (ls_remove settings); add = resolve_one catalog (ls_add settings)
      in \<lparr>rs_add = ids_of add, rs_remove = ids_of remove,
          rs_missing = missing_of remove @ missing_of add, rs_refused = refused_of remove @ refused_of add\<rparr>)"

section \<open>What the settings and the resolution promise\<close>

lemma label_named_Some:
  assumes "label_named catalog n = Some l"
  shows "l \<in> set catalog" and "py_casefold (lb_name l) = py_casefold n"
  using assms by (auto simp: label_named_def split: option.splits dest!: find_SomeD)

lemma py_strip_idem [simp]: "py_strip (py_strip s) = py_strip s"
proof -
  define t where "t = dropWhile py_isspace s"
  define u where "u = dropWhile py_isspace (rev t)"
  have "dropWhile py_isspace (rev u) = rev u"
  proof (cases "rev u")
    case (Cons c cs)
    have "t = rev (takeWhile py_isspace (rev t) @ u)" unfolding u_def takeWhile_dropWhile_id by simp
    then have "t = c # cs @ rev (takeWhile py_isspace (rev t))" using Cons by simp
    then have "\<not> py_isspace c" using hd_dropWhile [of py_isspace s] by (metis list.sel(1) list.discI t_def)
    with Cons show ?thesis by simp
  qed simp
  moreover have "dropWhile py_isspace u = u" by (simp add: u_def dropWhile_idem)
  moreover have "py_strip s = rev u" by (simp add: py_strip_def t_def u_def)
  ultimately show ?thesis by (simp add: py_strip_def)
qed

lemma clean_name_idem: "clean_name (Some (json_opt (clean_name v))) = clean_name v"
  by (auto simp: clean_name_def json_opt_def split: option.splits json.splits if_splits)

text \<open>What a person typed and the code accepted is what the worker reads back from the source's
  configuration.\<close>

lemma label_settings_roundtrip:
  assumes "parse_label_settings r a = Inr (Some s)"
  shows "label_settings_from_config [(CONFIG_KEY, JObj (label_settings_to_config s))] = Some s"
proof -
  from assms have s: "settings_of (clean_name (map_option JStr r)) (clean_name (map_option JStr a)) = Some s"
    by (auto simp: parse_label_settings_def Let_def split: option.splits if_splits)
  then have fields: "ls_remove s = clean_name (map_option JStr r)" "ls_add s = clean_name (map_option JStr a)"
    and some: "settings_of (ls_remove s) (ls_add s) = Some s"
    by (auto simp: settings_of_def split: if_splits)
  then show ?thesis
    by (simp add: label_settings_from_config_def label_settings_to_config_def clean_name_idem)
qed

text \<open>A name the settings form accepts is never a system label outside the four writable ones.\<close>

lemma parsed_names_writable:
  assumes "parse_label_settings r a = Inr (Some s)" and "n \<in> set (label_names s)"
  shows "py_upper n \<in> GMAIL_SYSTEM_LABELS \<longrightarrow> py_upper n \<in> WRITABLE_SYSTEM_LABELS"
    and "length n \<le> MAX_LABEL_NAME_CHARS"
proof -
  from assms(1) have ok: "name_problem (ls_remove s) = None" "name_problem (ls_add s) = None"
    by (auto simp: parse_label_settings_def Let_def settings_of_def split: option.splits if_splits)
  from assms(2) have "Some n \<in> {ls_remove s, ls_add s}"
    by (auto simp: label_names_def List.map_filter_def split: if_splits)
  with ok have "name_problem (Some n) = None" by auto
  then show "py_upper n \<in> GMAIL_SYSTEM_LABELS \<longrightarrow> py_upper n \<in> WRITABLE_SYSTEM_LABELS"
    and "length n \<le> MAX_LABEL_NAME_CHARS"
    by (auto simp: name_problem_def split: if_splits)
qed

lemma catalog_entries_read_back:
  assumes "\<forall>l \<in> set labels. lb_name l \<noteq> []"
  shows "catalog_from_sync_state repr [(CATALOG_KEY, JObj (catalog_to_sync_state labels t))] = Inr labels"
proof -
  have "List.map_filter (catalog_entry repr) (map (\<lambda>l. JObj [(''id'', JStr (lb_id l)), (''name'', JStr (lb_name l)),
      (''system'', JBool (lb_system l))]) labels) = labels"
    using assms by (induction labels) (simp_all add: List.map_filter_def catalog_entry_def py_str_of_def)
  then show ?thesis
    by (cases labels) (simp_all add: catalog_from_sync_state_def catalog_to_sync_state_def py_iter_def)
qed

text \<open>The documentation promises that a malformed cache is a miss and never a crash; a cached \<open>labels\<close>
  that is a number is a crash.\<close>

lemma malformed_catalog_crashes:
  "catalog_from_sync_state repr [(CATALOG_KEY, JObj [(''labels'', JInt 5)])] = Inl (TypeError ''object is not iterable'')"
  by (simp add: catalog_from_sync_state_def py_iter_def)

lemma resolve_one_Id:
  assumes "resolve_one catalog n = Id i"
  obtains s l where "n = Some s" "l \<in> set catalog" "lb_id l = i" "py_casefold (lb_name l) = py_casefold s" "\<not> refused_label l"
proof -
  from assms obtain s l where "n = Some s" "label_named catalog s = Some l" "\<not> refused_label l" "lb_id l = i"
    by (auto simp: resolve_one_def split: option.splits if_splits)
  with label_named_Some show thesis by (intro that) auto
qed

text \<open>C38: A label write can only use labels the owner named and Motet may move mail with. Whatever catalog
  is cached, every id that \<open>resolve\<close> hands to a write is the id of a label of the catalog whose name
  folds to one of the owner's two names; it is none of the forbidden system labels (trash, spam, sent and
  the rest), and if the catalog calls it a system label it is one of the four writable ones. And no name
  is dropped silently: each of the owner's names is resolved, reported missing, or reported refused.\<close>

theorem resolved_labels_are_safe:
  "let r = resolve settings catalog in
     (\<forall>i \<in> set (rs_add r @ rs_remove r). \<exists>l \<in> set catalog. lb_id l = i
        \<and> py_casefold (lb_name l) \<in> py_casefold ` set (label_names settings)
        \<and> i \<notin> FORBIDDEN_LABEL_IDS \<and> (lb_system l \<longrightarrow> i \<in> WRITABLE_SYSTEM_LABELS))
     \<and> length (rs_add r) + length (rs_remove r) + length (rs_missing r) + length (rs_refused r)
         = length (label_names settings)"
proof -
  have named: "s \<in> set (label_names settings)" if "ls_remove settings = Some s \<or> ls_add settings = Some s" for s
    using that by (auto simp: label_names_def List.map_filter_def split: if_splits)
  have safe: "\<exists>l \<in> set catalog. lb_id l = i \<and> py_casefold (lb_name l) \<in> py_casefold ` set (label_names settings)
      \<and> i \<notin> FORBIDDEN_LABEL_IDS \<and> (lb_system l \<longrightarrow> i \<in> WRITABLE_SYSTEM_LABELS)"
    if "resolve_one catalog n = Id i" "n = ls_remove settings \<or> n = ls_add settings" for n i
    using that(1)
  proof (rule resolve_one_Id)
    fix s l assume "n = Some s" "l \<in> set catalog" "lb_id l = i" "py_casefold (lb_name l) = py_casefold s" "\<not> refused_label l"
    with that(2) named [of s] show ?thesis by (intro bexI [of _ l]) (auto simp: refused_label_def)
  qed
  have one: "i \<in> set (ids_of u) \<longleftrightarrow> u = Id i" for u i by (cases u) (auto simp: ids_of_def)
  have count: "length (ids_of u) + length (missing_of u) + length (refused_of u) = (if n = None then 0 else 1)"
    if "u = resolve_one catalog n" for u n
    using that by (simp add: resolve_one_def ids_of_def missing_of_def refused_of_def split: option.split)
  have names: "length (label_names settings)
      = (if ls_remove settings = None then 0 else 1) + (if ls_add settings = None then 0 else 1)"
    by (auto simp: label_names_def List.map_filter_def)
  show ?thesis
    unfolding Let_def
  proof (intro conjI ballI)
    fix i assume "i \<in> set (rs_add (resolve settings catalog) @ rs_remove (resolve settings catalog))"
    then show "\<exists>l \<in> set catalog. lb_id l = i \<and> py_casefold (lb_name l) \<in> py_casefold ` set (label_names settings)
        \<and> i \<notin> FORBIDDEN_LABEL_IDS \<and> (lb_system l \<longrightarrow> i \<in> WRITABLE_SYSTEM_LABELS)"
      using safe by (auto simp: resolve_def Let_def one)
  next
    show "length (rs_add (resolve settings catalog)) + length (rs_remove (resolve settings catalog))
        + length (rs_missing (resolve settings catalog)) + length (rs_refused (resolve settings catalog))
      = length (label_names settings)"
      using count [OF refl, of "ls_remove settings"] count [OF refl, of "ls_add settings"]
      unfolding names resolve_def Let_def resolved.simps length_append by linarith
  qed
qed

text \<open>Labels a person cannot name: a catalog that calls the trash an ordinary label does not help.\<close>

theorem resolved_labels_are_safe_witness:
  "(let s = \<lparr>ls_remove = Some ''Newsletters'', ls_add = Some ''trash''\<rparr>;
        c = [\<lparr>lb_id = ''L1'', lb_name = ''newsletters'', lb_system = False\<rparr>, \<lparr>lb_id = ''TRASH'', lb_name = ''Trash'', lb_system = False\<rparr>];
        r = resolve s c
    in rs_remove r = [''L1''] \<and> rs_refused r = [''trash'']
       \<and> length (rs_add r) + length (rs_remove r) + length (rs_missing r) + length (rs_refused r) = length (label_names s))"
proof -
  let ?s = "\<lparr>ls_remove = Some ''Newsletters'', ls_add = Some ''trash''\<rparr>"
  let ?c = "[\<lparr>lb_id = ''L1'', lb_name = ''newsletters'', lb_system = False\<rparr>, \<lparr>lb_id = ''TRASH'', lb_name = ''Trash'', lb_system = False\<rparr>]"
  have "py_casefold ''Newsletters'' = ''newsletters''" "py_casefold ''newsletters'' = ''newsletters''"
    "py_casefold ''trash'' = ''trash''" "py_casefold ''Trash'' = ''trash''"
    by code_simp+
  then have "rs_remove (resolve ?s ?c) = [''L1''] \<and> rs_refused (resolve ?s ?c) = [''trash'']"
    by (simp add: resolve_def resolve_one_def label_named_def refused_label_def FORBIDDEN_LABEL_IDS_def
        GMAIL_SYSTEM_LABELS_def WRITABLE_SYSTEM_LABELS_def ids_of_def
        refused_of_def)
  with resolved_labels_are_safe [of ?s ?c] show ?thesis by (simp only: Let_def)
qed


end
