(* ===== verification/Connectors.thy ===== *)
theory Connectors
  imports Domain Labels
begin

text \<open>
  The sites and MCP servers enrichment may use: \<open>db/src/motet_db/connectors.py\<close> (domains, the rows and
  their sealed secrets), the create request's checks in \<open>api/src/motet_api/connectors.py\<close>, and what both
  take from \<open>urllib.parse.urlsplit\<close>. \<open>netloc_ok\<close> says which network locations the standard library
  accepts after its own checks of bracketed addresses and Unicode normalization.
\<close>

section \<open>Domains\<close>

definition normalize_domain :: "string \<Rightarrow> string" where
  "normalize_domain raw =
     (let v0 = py_lower (py_strip raw);
          v1 = (case split_once ''://'' v0 of Some (_, r) \<Rightarrow> r | None \<Rightarrow> v0);
          v2 = before_char CHR ''#'' (before_char CHR ''?'' (before_char CHR ''/'' v1));
          v3 = before_char CHR '':'' (after_last CHR ''@'' v2);
          v4 = strip_set {CHR ''.''} v3
      in if prefix ''www.'' v4 then drop 4 v4 else v4)"

definition label_char :: "char \<Rightarrow> bool" where
  "label_char c \<longleftrightarrow> (let n = of_char c :: nat in 97 \<le> n \<and> n \<le> 122 \<or> 48 \<le> n \<and> n \<le> 57)"

definition valid_label :: "string \<Rightarrow> bool" where
  "valid_label l \<longleftrightarrow>
     l \<noteq> [] \<and> length l \<le> 63 \<and> label_char (hd l) \<and> label_char (List.last l)
     \<and> (\<forall>c \<in> set l. label_char c \<or> c = CHR ''-'')"

text \<open>\<open>_DOMAIN_RE\<close>. Its \<open>$\<close> also matches before a line feed that ends the text.\<close>

definition is_valid_domain :: "string \<Rightarrow> bool" where
  "is_valid_domain domain \<longleftrightarrow>
     (let s = (if domain \<noteq> [] \<and> List.last domain = CHR 0x0A then butlast domain else domain);
          ls = split_on CHR ''.'' s
      in 1 \<le> length s \<and> length s \<le> 253 \<and> 2 \<le> length ls \<and> (\<forall>l \<in> set ls. valid_label l)
         \<and> CHR ''a'' \<le> hd (List.last ls))"

definition domain_matches :: "string \<Rightarrow> string \<Rightarrow> bool" where
  "domain_matches host domain \<longleftrightarrow>
     (let h = normalize_domain host; d = normalize_domain domain
      in h \<noteq> [] \<and> d \<noteq> [] \<and> (h = d \<or> suffix (CHR ''.'' # d) h))"

section \<open>The parts of a URL\<close>

definition scheme_char :: "char \<Rightarrow> bool" where
  "scheme_char c \<longleftrightarrow> label_char (lower_char c) \<and> of_char c < (128::nat) \<or> c \<in> {CHR ''+'', CHR ''-'', CHR ''.''}"

definition ascii_alpha :: "char \<Rightarrow> bool" where
  "ascii_alpha c \<longleftrightarrow> (let n = of_char (lower_char c) :: nat in 97 \<le> n \<and> n \<le> 122)"

record split_url =
  su_scheme :: string
  su_netloc :: string

definition urlsplit :: "(string \<Rightarrow> bool) \<Rightarrow> string \<Rightarrow> py_error + split_url" where
  "urlsplit netloc_ok url =
     (let u0 = filter (\<lambda>c. c \<notin> {CHR 0x09, CHR 0x0A, CHR 0x0D}) (dropWhile (\<lambda>c. of_char c \<le> (32::nat)) url);
          before = before_char CHR '':'' u0;
          has = before \<noteq> [] \<and> length before < length u0 \<and> ascii_alpha (hd u0) \<and> (\<forall>c \<in> set before. scheme_char c);
          scheme = (if has then py_lower before else []);
          u1 = (if has then drop (Suc (length before)) u0 else u0);
          netloc = (if prefix ''//'' u1 then takeWhile (\<lambda>c. c \<notin> {CHR ''/'', CHR ''?'', CHR ''#''}) (drop 2 u1) else [])
      in if (CHR ''['' \<in> set netloc) \<noteq> (CHR '']'' \<in> set netloc) then Inl (ValueError ''Invalid IPv6 URL'')
         else if \<not> netloc_ok netloc then Inl (ValueError ''netloc'')
         else Inr \<lparr>su_scheme = scheme, su_netloc = netloc\<rparr>)"

definition hostname :: "split_url \<Rightarrow> string option" where
  "hostname u =
     (let info = after_last CHR ''@'' (su_netloc u);
          host = (if CHR ''['' \<in> set info
                  then before_char CHR '']'' (tl (dropWhile (\<lambda>c. c \<noteq> CHR ''['') info))
                  else before_char CHR '':'' info)
      in if host = [] then None
         else Some (py_lower (before_char CHR ''%'' host) @ dropWhile (\<lambda>c. c \<noteq> CHR ''%'') host))"

text \<open>\<open>_host_of\<close> of the enrichment stage.\<close>

definition host_of :: "(string \<Rightarrow> bool) \<Rightarrow> string \<Rightarrow> string option" where
  "host_of netloc_ok url =
     (case urlsplit netloc_ok url of Inl _ \<Rightarrow> None | Inr u \<Rightarrow> map_option py_lower (hostname u))"

section \<open>The create request\<close>

record connector_request =
  cr_kind :: connector_kind
  cr_label :: string
  cr_domain :: "string option"
  cr_domains :: "string list"
  cr_url :: "string option"
  cr_username :: "string option"
  cr_password :: "string option"
  cr_acknowledge_risk :: bool

record connector_spec =
  sp_kind :: connector_kind
  sp_label :: string
  sp_domain :: "string option"
  sp_domains :: "string list"
  sp_url :: "string option"
  sp_username :: "string option"
  sp_secret :: "string option"
  sp_risk_acknowledged :: bool

definition or_empty :: "string option \<Rightarrow> string" where
  "or_empty v = (case v of Some s \<Rightarrow> s | None \<Rightarrow> [])"

definition or_none :: "string \<Rightarrow> string option" where
  "or_none s = (if s = [] then None else Some s)"

fun request_domains :: "string list \<Rightarrow> string list \<Rightarrow> py_error + string list" where
  "request_domains acc [] = Inr acc"
| "request_domains acc (raw # raws) =
     (let d = normalize_domain raw
      in if d = [] then request_domains acc raws
         else if \<not> is_valid_domain d then Inl (ValueError (py_repr raw @ '' is not a domain such as example.com.''))
         else request_domains (if d \<in> set acc then acc else acc @ [d]) raws)"

definition site_spec :: "connector_request \<Rightarrow> py_error + connector_spec" where
  "site_spec body =
     (let label = py_strip (cr_label body); domain = normalize_domain (or_empty (cr_domain body));
          username = or_none (py_strip (or_empty (cr_username body)));
          password = or_none (or_empty (cr_password body))
      in if \<not> is_valid_domain domain
         then Inl (ValueError ''A site needs a domain such as example.com - a host name, not an address.'')
         else if password \<noteq> None \<and> username = None
         then Inl (ValueError ''A password needs the username it belongs to.'')
         else Inr \<lparr>sp_kind = SiteConnector, sp_label = (if label = [] then domain else label),
                sp_domain = Some domain, sp_domains = [], sp_url = None, sp_username = username,
                sp_secret = password, sp_risk_acknowledged = False\<rparr>)"

definition mcp_spec :: "(string \<Rightarrow> bool) \<Rightarrow> connector_request \<Rightarrow> py_error + connector_spec" where
  "mcp_spec netloc_ok body =
     (let label = py_strip (cr_label body); url = py_strip (or_empty (cr_url body))
      in and_then (urlsplit netloc_ok url) (\<lambda>parts.
           if su_scheme parts \<noteq> ''https'' \<or> hostname parts = None
           then Inl (ValueError ''An MCP server URL must be an https URL.'')
           else if CHR ''@'' \<in> set (su_netloc parts)
           then Inl (ValueError ''An MCP server URL must not carry a username or password.'')
           else if \<not> cr_acknowledge_risk body then Inl (ValueError ''MCP_RISK'')
           else and_then (request_domains [] (cr_domains body)) (\<lambda>ds.
             Inr \<lparr>sp_kind = McpConnector, sp_label = (if label = [] then the (hostname parts) else label),
                  sp_domain = None, sp_domains = ds, sp_url = Some url, sp_username = None, sp_secret = None,
                  sp_risk_acknowledged = True\<rparr>)))"

definition connector_spec_of :: "(string \<Rightarrow> bool) \<Rightarrow> connector_request \<Rightarrow> py_error + connector_spec" where
  "connector_spec_of netloc_ok body =
     (case cr_kind body of SiteConnector \<Rightarrow> site_spec body | McpConnector \<Rightarrow> mcp_spec netloc_ok body)"

section \<open>The rows\<close>

definition connector_aad :: "string \<Rightarrow> string \<Rightarrow> connector_kind \<Rightarrow> vault_exn + bytes" where
  "connector_aad user i kind = aad user i (case kind of SiteConnector \<Rightarrow> ''site'' | McpConnector \<Rightarrow> ''mcp'')"

text \<open>The table's constraints on one row, and the two unique keys.\<close>

definition connector_shape :: "connector \<Rightarrow> bool" where
  "connector_shape r \<longleftrightarrow>
     (case cn_kind r of
        SiteConnector \<Rightarrow> cn_domain r \<noteq> None \<and> cn_url r = None \<and> cn_risk_acknowledged_at r = None
          \<and> (cn_sealed r = None \<or> cn_username r \<noteq> None)
      | McpConnector \<Rightarrow> cn_url r \<noteq> None \<and> cn_domain r = None \<and> cn_username r = None
          \<and> cn_risk_acknowledged_at r \<noteq> None)"

definition insert_connector :: "connector \<Rightarrow> dom \<Rightarrow> py_error + dom" where
  "insert_connector r d =
     (if \<exists>c \<in> set (connectors d). cn_id c = cn_id r then Inl (IntegrityError ''connectors_pkey'')
      else if \<not> connector_shape r then Inl (IntegrityError ''connectors_kind_shape'')
      else if cn_kind r = SiteConnector
           \<and> (\<exists>c \<in> set (connectors d). cn_kind c = SiteConnector \<and> cn_user c = cn_user r \<and> cn_domain c = cn_domain r)
      then Inl (IntegrityError ''connectors_site_domain_idx'')
      else Inr (d\<lparr>connectors := connectors d @ [r]\<rparr>))"

datatype store_exn = FromVault vault_exn | FromPy py_error

definition from_vault :: "vault_exn + 'a \<Rightarrow> store_exn + 'a" where
  "from_vault r = (case r of Inl e \<Rightarrow> Inl (FromVault e) | Inr x \<Rightarrow> Inr x)"

definition from_py :: "py_error + 'a \<Rightarrow> store_exn + 'a" where
  "from_py r = (case r of Inl e \<Rightarrow> Inl (FromPy e) | Inr x \<Rightarrow> Inr x)"

lemma from_Inr [simp]: "from_vault r = Inr x \<longleftrightarrow> r = Inr x" "from_py q = Inr y \<longleftrightarrow> q = Inr y"
  by (simp_all add: from_vault_def from_py_def split: sum.split)

text \<open>The random bytes of one sealing: the key, its nonce, and what the key manager uses.\<close>

record entropy =
  rnd_dek :: bytes
  rnd_nonce :: bytes
  rnd_wrap :: bytes

definition seal_text :: "aead \<Rightarrow> key_manager \<Rightarrow> entropy \<Rightarrow> string \<Rightarrow> bytes \<Rightarrow> vault_exn + sealed_secret" where
  "seal_text A km rnd secret ad = seal A km (rnd_dek rnd) (rnd_nonce rnd) (rnd_wrap rnd) (utf8 secret) ad"

definition seal_optional ::
  "aead \<Rightarrow> key_manager \<Rightarrow> entropy \<Rightarrow> string option \<Rightarrow> vault_exn + bytes \<Rightarrow> vault_exn + sealed_secret option"
where
  "seal_optional A km rnd secret ad =
     (if secret = None \<or> secret = Some [] then Inr None
      else and_then ad (\<lambda>b. and_then (seal_text A km rnd (the secret) b) (\<lambda>x. Inr (Some x))))"

definition new_connector :: "time \<Rightarrow> string \<Rightarrow> string \<Rightarrow> connector_spec \<Rightarrow> sealed_secret option \<Rightarrow> connector" where
  "new_connector now new_id user sp sealed =
     \<lparr>cn_id = new_id, cn_user = user, cn_kind = sp_kind sp, cn_label = sp_label sp, cn_domain = sp_domain sp,
      cn_domains = sp_domains sp, cn_url = sp_url sp, cn_username = sp_username sp, cn_sealed = sealed,
      cn_secret_expires_at = None, cn_oauth = None,
      cn_risk_acknowledged_at = (if sp_kind sp = McpConnector then Some now else None),
      cn_status = (if sp_kind sp = SiteConnector then CnReady else CnNeedsAuth), cn_last_error = None,
      cn_created_at = now, cn_updated_at = now\<rparr>"

definition create_connector ::
  "aead \<Rightarrow> key_manager \<Rightarrow> entropy \<Rightarrow> time \<Rightarrow> string \<Rightarrow> string \<Rightarrow> connector_spec \<Rightarrow> dom \<Rightarrow> store_exn + dom"
where
  "create_connector A km rnd now new_id user sp d =
     (if sp_kind sp = McpConnector \<and> \<not> sp_risk_acknowledged sp
      then Inl (FromPy (ValueError ''an MCP connector needs the acknowledgement of its risk''))
      else and_then (from_vault (seal_optional A km rnd (sp_secret sp) (connector_aad user new_id (sp_kind sp))))
             (\<lambda>sealed. from_py (insert_connector (new_connector now new_id user sp sealed) d)))"

text \<open>\<open>ORDER BY kind DESC, created_at, id\<close>: sites before MCP servers.\<close>

definition connector_order :: "connector \<Rightarrow> nat \<times> time \<times> string" where
  "connector_order c = ((case cn_kind c of SiteConnector \<Rightarrow> 0 | McpConnector \<Rightarrow> 1), cn_created_at c, cn_id c)"

definition list_connectors :: "string \<Rightarrow> dom \<Rightarrow> connector list" where
  "list_connectors user d = sort_key connector_order (filter (\<lambda>c. cn_user c = user) (connectors d))"

definition get_connector :: "string \<Rightarrow> string \<Rightarrow> dom \<Rightarrow> connector option" where
  "get_connector i user d = find (\<lambda>c. cn_id c = i \<and> cn_user c = user) (connectors d)"

definition delete_connector :: "string \<Rightarrow> string \<Rightarrow> dom \<Rightarrow> bool \<times> dom" where
  "delete_connector user i d =
     (length (filter (\<lambda>c. cn_id c = i \<and> cn_user c = user) (connectors d)) = 1,
      d\<lparr>connectors := filter (\<lambda>c. \<not> (cn_id c = i \<and> cn_user c = user)) (connectors d)\<rparr>)"

definition update_connector :: "string \<Rightarrow> (connector \<Rightarrow> connector) \<Rightarrow> dom \<Rightarrow> dom" where
  "update_connector i f d = d\<lparr>connectors := update_where (\<lambda>c. cn_id c = i) f (connectors d)\<rparr>"

definition set_connector_oauth_client :: "time \<Rightarrow> string \<Rightarrow> connector_oauth \<Rightarrow> dom \<Rightarrow> dom" where
  "set_connector_oauth_client now i o' = update_connector i (\<lambda>c. c\<lparr>cn_oauth := Some o', cn_updated_at := now\<rparr>)"

definition set_connector_status ::
  "time \<Rightarrow> string \<Rightarrow> connector_status \<Rightarrow> string option \<Rightarrow> dom \<Rightarrow> dom"
where
  "set_connector_status now i st e = update_connector i (\<lambda>c. c\<lparr>cn_status := st, cn_last_error := e, cn_updated_at := now\<rparr>)"

text \<open>\<open>store_connector_secret\<close>: bound to the row's own user and kind. \<open>_one\<close> raises when no row is found.\<close>

definition store_connector_secret ::
  "aead \<Rightarrow> key_manager \<Rightarrow> entropy \<Rightarrow> time \<Rightarrow> string \<Rightarrow> string \<Rightarrow> time option \<Rightarrow> dom \<Rightarrow> store_exn + dom"
where
  "store_connector_secret A km rnd now i secret expires d =
     (case find (\<lambda>c. cn_id c = i) (connectors d) of
        None \<Rightarrow> Inl (FromPy (LookupError ''no row''))
      | Some r \<Rightarrow>
          and_then (from_vault (and_then (connector_aad (cn_user r) i (cn_kind r)) (seal_text A km rnd secret)))
            (\<lambda>sealed.
              if cn_kind r = SiteConnector \<and> cn_username r = None
              then Inl (FromPy (IntegrityError ''connectors_site_password_needs_username''))
              else Inr (update_connector i (\<lambda>c. c\<lparr>cn_sealed := Some sealed, cn_secret_expires_at := expires,
                     cn_status := CnReady, cn_last_error := None, cn_updated_at := now\<rparr>) d)))"

text \<open>Bytes that are not UTF-8 raise \<open>UnicodeDecodeError\<close>, which is a \<open>ValueError\<close>.\<close>

definition decode_text :: "bytes \<Rightarrow> store_exn + string" where
  "decode_text b = (case utf8_decode b of Some s \<Rightarrow> Inr s | None \<Rightarrow> Inl (FromPy (ValueError ''UnicodeDecodeError'')))"

definition load_connector_secret :: "aead \<Rightarrow> key_manager \<Rightarrow> string \<Rightarrow> dom \<Rightarrow> store_exn + string option" where
  "load_connector_secret A km i d =
     (case find (\<lambda>c. cn_id c = i) (connectors d) of
        None \<Rightarrow> Inr None
      | Some r \<Rightarrow>
          (case cn_sealed r of
             None \<Rightarrow> Inr None
           | Some s \<Rightarrow>
               and_then (from_vault (and_then (connector_aad (cn_user r) i (cn_kind r)) (open_sealed A km s)))
                 (\<lambda>b. and_then (decode_text b) (\<lambda>t. Inr (Some t)))))"

section \<open>What the create request and the rows promise\<close>

lemma request_domains_valid:
  "request_domains acc ds = Inr ds' \<Longrightarrow> \<forall>d \<in> set acc. is_valid_domain d \<Longrightarrow> distinct acc
   \<Longrightarrow> distinct ds' \<and> (\<forall>d \<in> set ds'. is_valid_domain d)"
proof (induction ds arbitrary: acc)
  case Nil
  then show ?case by simp
next
  case (Cons raw raws)
  define e where "e = normalize_domain raw"
  define acc' where "acc' = (if e = [] \<or> e \<in> set acc then acc else acc @ [e])"
  from Cons.prems(1) have "request_domains acc' raws = Inr ds'" and "e = [] \<or> is_valid_domain e"
    by (simp_all add: Let_def acc'_def flip: e_def split: if_splits)
  moreover from this(2) Cons.prems(2,3) have "\<forall>d \<in> set acc'. is_valid_domain d" "distinct acc'"
    by (auto simp: acc'_def)
  ultimately show ?case using Cons.IH by blast
qed

text \<open>A create request that passes the checks never breaks a constraint of the table: an accepted request
  fails only on a key that is taken or in the vault.\<close>

lemma accepted_request_shape:
  assumes "connector_spec_of ok body = Inr sp"
  shows "sp_kind sp = SiteConnector \<and> sp_domain sp \<noteq> None \<and> sp_url sp = None \<and> (sp_secret sp = None \<or> sp_username sp \<noteq> None)
      \<or> sp_kind sp = McpConnector \<and> sp_url sp \<noteq> None \<and> sp_domain sp = None \<and> sp_username sp = None \<and> sp_risk_acknowledged sp"
proof (cases "cr_kind body")
  case SiteConnector
  with assms show ?thesis by (auto simp: connector_spec_of_def site_spec_def Let_def split: if_splits)
next
  case McpConnector
  with assms show ?thesis by (auto simp: connector_spec_of_def mcp_spec_def Let_def and_then_Inr split: if_splits)
qed

lemma accepted_request_fits_table:
  assumes "connector_spec_of ok body = Inr sp" and "create_connector A km rnd now i user sp d = Inl (FromPy e)"
  shows "e \<in> {IntegrityError ''connectors_pkey'', IntegrityError ''connectors_site_domain_idx''}"
proof -
  note shape = accepted_request_shape [OF assms(1)]
  from assms(2) shape obtain sealed where
      sealed: "seal_optional A km rnd (sp_secret sp) (connector_aad user i (sp_kind sp)) = Inr sealed"
    and ins: "insert_connector (new_connector now i user sp sealed) d = Inl e"
    by (auto simp: create_connector_def and_then_def from_vault_def from_py_def split: sum.splits if_splits)
  from sealed have "sp_secret sp = None \<longrightarrow> sealed = None" by (auto simp: seal_optional_def)
  with shape have "connector_shape (new_connector now i user sp sealed)"
    by (auto simp: connector_shape_def new_connector_def)
  with ins show ?thesis by (auto simp: insert_connector_def split: if_splits)
qed

lemma connectors_update_ids [simp]:
  "(\<And>c. cn_id (f c) = cn_id c) \<Longrightarrow> map cn_id (connectors (update_connector i f d)) = map cn_id (connectors d)"
  by (simp add: update_connector_def map_update_where)

text \<open>A domain that is normalized twice can lose two leading labels \<open>www\<close>. \<open>www.www.com\<close> is accepted as
  the site \<open>www.com\<close>, and matching normalizes that once more, to \<open>com\<close>: every host of the top-level
  domain then belongs to the site.\<close>

lemma double_www_opens_top_level_domain:
  "normalize_domain ''https://www.www.com/'' = ''www.com''" "is_valid_domain ''www.com''"
  "domain_matches ''news.example.com'' ''www.com''"
  by code_simp+

text \<open>A line feed inside the typed domain survives normalization and passes the check.\<close>

lemma line_feed_passes_domain_check:
  "normalize_domain (''example.com'' @ [CHR 0x0A] @ ''/x'') = ''example.com'' @ [CHR 0x0A]"
  "is_valid_domain (''example.com'' @ [CHR 0x0A])"
  by code_simp+


end
