(* ===== verification/Enrichment.thy ===== *)
theory Enrichment
  imports Stages Connectors
begin

text \<open>
  Agentic enrichment: the links of an item (\<open>find_links\<close> and \<open>merge_links\<close> of
  \<open>sources/src/motet_sources/extract.py\<close>), the rows of \<open>db/src/motet_db/enrichment.py\<close>, and the stage
  itself, \<open>workers/src/motet_workers/enrich.py\<close>, with the messages of
  \<open>enrich/src/motet_enrich/contract.py\<close>. The agent behind the service, the HTTP client, AES-GCM and the
  key manager are arguments, as are \<open>json.loads\<close>, \<open>float\<close> and the printing of a dollar amount. Money is
  a rational number.
\<close>

section \<open>Links\<close>

definition MAX_LINKS :: nat where "MAX_LINKS = 200"

definition URL_TRAILERS :: "char set" where
  "URL_TRAILERS = set ''.,;:!?)]}>'' \<union> {CHR 0x22, CHR 0x27}"

definition link_char :: "char \<Rightarrow> bool" where
  "link_char c \<longleftrightarrow> \<not> py_isspace c \<and> c \<notin> {CHR ''<'', CHR ''>'', CHR 0x22, CHR 0x27}"

definition url_scheme :: "string \<Rightarrow> nat option" where
  "url_scheme s =
     (if py_lower (take 8 s) = ''https://'' then Some 8
      else if py_lower (take 7 s) = ''http://'' then Some 7 else None)"

text \<open>The matches of \<open>https?://[^\s<>"']+\<close>, found from the left.\<close>

function find_urls :: "string \<Rightarrow> string list" where
  "find_urls s =
     (if s = [] then []
      else case url_scheme s of
             None \<Rightarrow> find_urls (tl s)
           | Some n \<Rightarrow>
               (let body = takeWhile link_char (drop n s)
                in if body = [] then find_urls (tl s)
                   else (take n s @ body) # find_urls (drop (n + length body) s)))"
  by pat_completeness auto

termination
proof (relation "measure length")
  fix s n body
  assume "s \<noteq> []" "url_scheme s = Some n"
  then show "(drop (n + length (body :: string)) s, s) \<in> measure length"
    by (auto simp: url_scheme_def split: if_splits)
qed simp_all

declare find_urls.simps [simp del]

definition find_links :: "string \<Rightarrow> string list" where
  "find_links t = map (rstrip_set URL_TRAILERS) (find_urls t)"

definition merge_links :: "string list list \<Rightarrow> string list" where
  "merge_links groups = take MAX_LINKS (py_unique (concat groups))"

section \<open>Configuration\<close>

text \<open>A Python float, as far as \<open>_number\<close> and the caps look at it.\<close>

datatype py_float = Num rat | Infinite | NaN

record enrich_config =
  cf_enabled :: bool
  cf_service_url :: string
  cf_service_token :: string
  cf_max_usd_per_item :: py_float
  cf_max_usd_per_day :: py_float
  cf_max_tool_calls :: int
  cf_timeout_seconds :: int

definition DEFAULT_MAX_USD_PER_ITEM :: rat where "DEFAULT_MAX_USD_PER_ITEM = 1 / 2"
definition DEFAULT_MAX_USD_PER_DAY :: rat where "DEFAULT_MAX_USD_PER_DAY = 5"
definition DEFAULT_MAX_TOOL_CALLS :: rat where "DEFAULT_MAX_TOOL_CALLS = 40"
definition DEFAULT_TIMEOUT_SECONDS :: rat where "DEFAULT_TIMEOUT_SECONDS = 600"
definition MIN_ARTICLE_CHARS :: nat where "MIN_ARTICLE_CHARS = 400"
definition MAX_CANDIDATE_URLS :: nat where "MAX_CANDIDATE_URLS = 5"

text \<open>\<open>_number\<close>: \<open>parse\<close> is \<open>float(raw)\<close>, \<open>None\<close> where it raises. A NaN is not \<open><= 0\<close>.\<close>

definition env_get :: "(string \<rightharpoonup> string) \<Rightarrow> string \<Rightarrow> string" where
  "env_get env name = py_strip (case env name of Some v \<Rightarrow> v | None \<Rightarrow> [])"

definition number :: "(string \<Rightarrow> py_float option) \<Rightarrow> (string \<rightharpoonup> string) \<Rightarrow> string \<Rightarrow> rat \<Rightarrow> py_float" where
  "number parse env name dflt =
     (let raw = env_get env name
      in if raw = [] then Num dflt
         else case parse raw of
                None \<Rightarrow> Num dflt
              | Some (Num x) \<Rightarrow> if x \<le> 0 then Num dflt else Num x
              | Some v \<Rightarrow> v)"

definition int_of_float :: "py_float \<Rightarrow> py_error + int" where
  "int_of_float v =
     (case v of Num x \<Rightarrow> Inr (py_int x) | Infinite \<Rightarrow> Inl OverflowError
      | NaN \<Rightarrow> Inl (ValueError ''cannot convert float NaN to integer''))"

definition load_config :: "(string \<Rightarrow> py_float option) \<Rightarrow> (string \<rightharpoonup> string) \<Rightarrow> py_error + enrich_config" where
  "load_config parse env =
     and_then (int_of_float (number parse env ''MOTET_ENRICH_MAX_TOOL_CALLS'' DEFAULT_MAX_TOOL_CALLS)) (\<lambda>calls.
     and_then (int_of_float (number parse env ''MOTET_ENRICH_TIMEOUT_SECONDS'' DEFAULT_TIMEOUT_SECONDS)) (\<lambda>secs'.
     Inr \<lparr>cf_enabled = py_lower (env_get env ''MOTET_ENRICH'') \<in> {''1'', ''on'', ''true'', ''yes''},
          cf_service_url = rstrip_set {CHR ''/''} (env_get env ''MOTET_ENRICH_SERVICE_URL''),
          cf_service_token = env_get env ''MOTET_ENRICH_SERVICE_TOKEN'',
          cf_max_usd_per_item = number parse env ''MOTET_ENRICH_MAX_USD_PER_ITEM'' DEFAULT_MAX_USD_PER_ITEM,
          cf_max_usd_per_day = number parse env ''MOTET_ENRICH_MAX_USD_PER_DAY'' DEFAULT_MAX_USD_PER_DAY,
          cf_max_tool_calls = calls, cf_timeout_seconds = secs'\<rparr>))"

definition usable :: "enrich_config \<Rightarrow> bool" where
  "usable cf \<longleftrightarrow> cf_enabled cf \<and> cf_service_url cf \<noteq> []"

text \<open>\<open>RunCaps\<close>: every cap has to be positive.\<close>

record run_caps =
  rc_max_usd :: py_float
  rc_max_tool_calls :: int
  rc_timeout_seconds :: int

definition positive :: "py_float \<Rightarrow> bool" where
  "positive v = (case v of Num x \<Rightarrow> 0 < x | Infinite \<Rightarrow> True | NaN \<Rightarrow> False)"

definition caps :: "enrich_config \<Rightarrow> py_error + run_caps" where
  "caps cf =
     (if positive (cf_max_usd_per_item cf) \<and> 0 < cf_max_tool_calls cf \<and> 0 < cf_timeout_seconds cf
      then Inr \<lparr>rc_max_usd = cf_max_usd_per_item cf, rc_max_tool_calls = cf_max_tool_calls cf,
                rc_timeout_seconds = cf_timeout_seconds cf\<rparr>
      else Inl (ValueError ''RunCaps''))"

section \<open>The rule\<close>

record enrich_target =
  et_connector_id :: string
  et_domain :: string
  et_urls :: "string list"

definition enrichment_sites :: "enrich_config \<Rightarrow> string \<Rightarrow> dom \<Rightarrow> connector list" where
  "enrichment_sites cf user d =
     (if \<not> cf_enabled cf then []
      else filter (\<lambda>c. cn_kind c = SiteConnector \<and> cn_domain c \<noteq> None \<and> cn_domain c \<noteq> Some [] \<and> cn_status c = CnReady)
             (list_connectors user d))"

definition on_domain :: "(string \<Rightarrow> bool) \<Rightarrow> string \<Rightarrow> string \<Rightarrow> bool" where
  "on_domain netloc_ok dm link = (case host_of netloc_ok link of Some h \<Rightarrow> domain_matches h dm | None \<Rightarrow> False)"

definition site_domain :: "connector \<Rightarrow> string" where
  "site_domain c = or_empty (cn_domain c)"

fun plan_loop :: "(string \<Rightarrow> bool) \<Rightarrow> connector list \<Rightarrow> string list \<Rightarrow> string list \<Rightarrow> enrich_target option" where
  "plan_loop ok sites carried [] = None"
| "plan_loop ok sites carried (l # ls) =
     (case find (\<lambda>c. on_domain ok (site_domain c) l) sites of
        None \<Rightarrow> plan_loop ok sites carried ls
      | Some c \<Rightarrow> Some \<lparr>et_connector_id = cn_id c, et_domain = site_domain c,
                         et_urls = take MAX_CANDIDATE_URLS (filter (on_domain ok (site_domain c)) carried)\<rparr>)"

definition plan_enrichment ::
  "(string \<Rightarrow> bool) \<Rightarrow> enrich_config \<Rightarrow> connector list \<Rightarrow> string list \<Rightarrow> enrich_target option"
where
  "plan_enrichment ok cf sites links = (if \<not> cf_enabled cf then None else plan_loop ok sites links links)"

definition site_still_allowed :: "enrich_config \<Rightarrow> string \<Rightarrow> string \<Rightarrow> dom \<Rightarrow> bool" where
  "site_still_allowed cf user dm d \<longleftrightarrow> (\<exists>c \<in> set (enrichment_sites cf user d). domain_matches dm (site_domain c))"

lemma plan_loop_None:
  "plan_loop ok sites carried ls = None \<Longrightarrow> \<forall>l \<in> set ls. \<forall>c \<in> set sites. \<not> on_domain ok (site_domain c) l"
  by (induction ls) (auto simp: find_None_iff split: option.splits)

lemma plan_loop_Some:
  assumes "plan_loop ok sites carried ls = Some t"
  obtains before l after c where "ls = before @ l # after"
    and "\<forall>l' \<in> set before. \<forall>c' \<in> set sites. \<not> on_domain ok (site_domain c') l'"
    and "find (\<lambda>c. on_domain ok (site_domain c) l) sites = Some c"
    and "t = \<lparr>et_connector_id = cn_id c, et_domain = site_domain c,
              et_urls = take MAX_CANDIDATE_URLS (filter (on_domain ok (site_domain c)) carried)\<rparr>"
  using assms
proof (induction ls arbitrary: thesis)
  case Nil
  then show ?case by simp
next
  case (Cons l ls)
  show ?case
  proof (cases "find (\<lambda>c. on_domain ok (site_domain c) l) sites")
    case None
    with Cons.prems(2) have "plan_loop ok sites carried ls = Some t" by simp
    then obtain before l' after c where r: "ls = before @ l' # after"
        "\<forall>l' \<in> set before. \<forall>c' \<in> set sites. \<not> on_domain ok (site_domain c') l'"
        "find (\<lambda>c. on_domain ok (site_domain c) l') sites = Some c"
        "t = \<lparr>et_connector_id = cn_id c, et_domain = site_domain c,
              et_urls = take MAX_CANDIDATE_URLS (filter (on_domain ok (site_domain c)) carried)\<rparr>"
      by (rule Cons.IH [rotated])
    with None show ?thesis
      by (intro Cons.prems(1) [of "l # before" l' after c]) (auto simp: find_None_iff)
  next
    case (Some c)
    with Cons.prems(2) show ?thesis by (intro Cons.prems(1) [of "[]" l ls c]) auto
  qed
qed

lemma enrichment_sites_facts:
  assumes "c \<in> set (enrichment_sites cf user d)"
  shows "c \<in> set (connectors d)" and "cn_user c = user" and "cn_kind c = SiteConnector" and "cn_status c = CnReady"
    and "cn_domain c = Some (site_domain c)" and "site_domain c \<noteq> []" and "cf_enabled cf"
  using assms by (auto simp: enrichment_sites_def list_connectors_def site_domain_def or_empty_def split: if_splits)

text \<open>The enrichment rule. For a ready site of the owner: an item is sent to the agent exactly when one of
  its links is on one of the owner's sites; the site is the first (in the order of the list) that the
  earliest such link is on; the agent gets the item's links on that site in their own order, at least that
  one and at most five; and every link it gets is on that site.\<close>

theorem plan_follows_first_link:
  assumes "cf_enabled cf"
  shows "case plan_enrichment ok cf (enrichment_sites cf user d) links of
      None \<Rightarrow> \<forall>l \<in> set links. \<forall>c \<in> set (enrichment_sites cf user d). \<not> on_domain ok (site_domain c) l
    | Some t \<Rightarrow> \<exists>before l after c. links = before @ l # after
        \<and> (\<forall>l' \<in> set before. \<forall>c' \<in> set (enrichment_sites cf user d). \<not> on_domain ok (site_domain c') l')
        \<and> find (\<lambda>c. on_domain ok (site_domain c) l) (enrichment_sites cf user d) = Some c
        \<and> cn_user c = user \<and> cn_kind c = SiteConnector \<and> cn_status c = CnReady \<and> c \<in> set (connectors d)
        \<and> et_connector_id t = cn_id c \<and> Some (et_domain t) = cn_domain c
        \<and> et_urls t = take 5 (filter (on_domain ok (et_domain t)) links)
        \<and> hd (et_urls t) = l \<and> et_urls t \<noteq> [] \<and> length (et_urls t) \<le> 5
        \<and> (\<forall>u \<in> set (et_urls t). on_domain ok (et_domain t) u)"
proof (cases "plan_enrichment ok cf (enrichment_sites cf user d) links")
  case None
  with assms show ?thesis by (auto simp: plan_enrichment_def dest: plan_loop_None)
next
  case (Some t)
  with assms have "plan_loop ok (enrichment_sites cf user d) links links = Some t" by (simp add: plan_enrichment_def)
  then obtain before l after c where l: "links = before @ l # after"
    and none: "\<forall>l' \<in> set before. \<forall>c' \<in> set (enrichment_sites cf user d). \<not> on_domain ok (site_domain c') l'"
    and c: "find (\<lambda>c. on_domain ok (site_domain c) l) (enrichment_sites cf user d) = Some c"
    and t: "t = \<lparr>et_connector_id = cn_id c, et_domain = site_domain c,
              et_urls = take MAX_CANDIDATE_URLS (filter (on_domain ok (site_domain c)) links)\<rparr>"
    by (rule plan_loop_Some)
  from find_SomeD [OF c] have site: "c \<in> set (enrichment_sites cf user d)" and on: "on_domain ok (site_domain c) l"
    by simp_all
  from none site have "filter (on_domain ok (site_domain c)) before = []" by (auto simp: filter_empty_conv)
  with l on have urls: "filter (on_domain ok (site_domain c)) links
      = l # filter (on_domain ok (site_domain c)) after" by simp
  have all: "\<forall>u \<in> set (et_urls t). on_domain ok (et_domain t) u" by (auto simp: t dest: in_set_takeD)
  have first: "et_urls t = take 5 (filter (on_domain ok (et_domain t)) links)" "hd (et_urls t) = l"
    "et_urls t \<noteq> []" "length (et_urls t) \<le> 5" "et_connector_id t = cn_id c" "Some (et_domain t) = cn_domain c"
    using enrichment_sites_facts(5) [OF site] by (simp_all add: t urls MAX_CANDIDATE_URLS_def)
  show ?thesis
    unfolding Some option.case
    using l none c enrichment_sites_facts(1-4) [OF site] first all by blast
qed

definition demo_connector :: "string \<Rightarrow> connector_kind \<Rightarrow> string \<Rightarrow> sealed_secret option \<Rightarrow> connector" where
  "demo_connector i k dm sealed =
     \<lparr>cn_id = i, cn_user = ''u'', cn_kind = k, cn_label = dm, cn_domain = (if k = SiteConnector then Some dm else None),
      cn_domains = [], cn_url = (if k = McpConnector then Some ''https://mcp.example'' else None),
      cn_username = (if k = SiteConnector then Some ''me'' else None), cn_sealed = sealed, cn_secret_expires_at = None,
      cn_oauth = None, cn_risk_acknowledged_at = (if k = McpConnector then Some 1 else None), cn_status = CnReady,
      cn_last_error = None, cn_created_at = 1, cn_updated_at = 1\<rparr>"

definition demo_config :: enrich_config where
  "demo_config =
     \<lparr>cf_enabled = True, cf_service_url = ''https://enrich.example'', cf_service_token = [], cf_max_usd_per_item = Num (1 / 2),
      cf_max_usd_per_day = Num 5, cf_max_tool_calls = 40, cf_timeout_seconds = 600\<rparr>"

definition demo_sites :: dom where
  "demo_sites = empty_dom\<lparr>connectors := [demo_connector ''cn_1'' SiteConnector ''example.com'' None]\<rparr>"

definition demo_links :: "string list" where
  "demo_links = [''https://other.org/x'', ''https://url3.Example.com/a'', ''https://notexample.com/b'', ''http://example.com/c'']"

theorem plan_follows_first_link_witness:
  "map_option et_urls (plan_enrichment (\<lambda>_. True) demo_config (enrichment_sites demo_config ''u'' demo_sites) demo_links)
     = Some [''https://url3.Example.com/a'', ''http://example.com/c'']"
proof -
  have sites: "enrichment_sites demo_config ''u'' demo_sites = [demo_connector ''cn_1'' SiteConnector ''example.com'' None]"
    by (simp add: enrichment_sites_def demo_config_def list_connectors_def demo_sites_def demo_connector_def)
  have on: "filter (on_domain (\<lambda>_. True) ''example.com'') demo_links = [''https://url3.Example.com/a'', ''http://example.com/c'']"
    "\<exists>l \<in> set demo_links. on_domain (\<lambda>_. True) ''example.com'' l"
    by code_simp+
  have dm: "site_domain (demo_connector ''cn_1'' SiteConnector ''example.com'' None) = ''example.com''"
    "cn_domain (demo_connector ''cn_1'' SiteConnector ''example.com'' None) = Some ''example.com''"
    by (simp_all add: site_domain_def or_empty_def demo_connector_def)
  have "cf_enabled demo_config" by (simp add: demo_config_def)
  from plan_follows_first_link [OF this, where ok = "\<lambda>_. True" and user = "''u''" and d = demo_sites and links = demo_links] show ?thesis
    using on(2) by (auto simp: sites dm on(1) split: option.splits if_splits)
qed

section \<open>The rows\<close>

definition update_source_item :: "string \<Rightarrow> (source_item \<Rightarrow> source_item) \<Rightarrow> dom \<Rightarrow> dom" where
  "update_source_item i f d = d\<lparr>source_items := update_where (\<lambda>r. si_id r = i) f (source_items d)\<rparr>"

definition mark_enrichment_queued :: "string \<Rightarrow> string \<Rightarrow> string \<Rightarrow> dom \<Rightarrow> dom" where
  "mark_enrichment_queued i url dm =
     update_source_item i (\<lambda>r. r\<lparr>si_enrich_status := Some EnQueued, si_article_url := Some url,
       si_enrich_domain := Some dm, si_enrich_error := None\<rparr>)"

definition mark_enrichment_running :: "string \<Rightarrow> dom \<Rightarrow> dom" where
  "mark_enrichment_running i =
     update_source_item i (\<lambda>r. if si_enrich_status r = Some EnDone then r else r\<lparr>si_enrich_status := Some EnRunning\<rparr>)"

definition provenance_url :: "string \<Rightarrow> string" where
  "provenance_url url =
     (let u = before_char CHR ''#'' (before_char CHR ''?'' url) in if u = [] then url else u)"

text \<open>The line that says where the article came from, a blank line, the article.\<close>

definition article_text :: "string \<Rightarrow> string \<Rightarrow> string" where
  "article_text url article =
     ''Full article fetched from '' @ provenance_url url @ [CHR 0x0A, CHR 0x0A] @ article"

definition apply_enriched_article :: "time \<Rightarrow> string \<Rightarrow> string \<Rightarrow> string \<Rightarrow> dom \<Rightarrow> dom" where
  "apply_enriched_article clock i url article =
     update_source_item i (\<lambda>r. r\<lparr>
       si_original_text := Some (case si_original_text r of Some t \<Rightarrow> t | None \<Rightarrow> si_text r),
       si_text := article_text url article, si_enrich_status := Some EnDone, si_enrich_error := None,
       si_enriched_at := Some clock\<rparr>)"

definition mark_enrichment_finished :: "string \<Rightarrow> enrich_status \<Rightarrow> string option \<Rightarrow> dom \<Rightarrow> dom" where
  "mark_enrichment_finished i st e =
     update_source_item i (\<lambda>r. r\<lparr>si_enrich_status := Some st, si_enrich_error := e\<rparr>)"

definition source_item_links_for :: "string list \<Rightarrow> dom \<Rightarrow> string \<rightharpoonup> string list" where
  "source_item_links_for is d =
     map_of (map (\<lambda>r. (si_id r, si_links r)) (filter (\<lambda>r. si_id r \<in> set is) (source_items d)))"

text \<open>The \<open>numeric(10, 6)\<close> column: six digits, halves away from zero. The id is random and taken to be new.\<close>

definition numeric6 :: "rat \<Rightarrow> rat" where
  "numeric6 x =
     (let scaled = \<bar>x\<bar> * 1000000; n = of_int \<lfloor>scaled + 1 / 2\<rfloor> / 1000000 in if x < 0 then - n else n)"

definition record_enrich_run :: "enrich_run \<Rightarrow> dom \<Rightarrow> dom" where
  "record_enrich_run r d = d\<lparr>enrich_runs := enrich_runs d @ [r\<lparr>run_cost_usd := numeric6 (run_cost_usd r)\<rparr>]\<rparr>"

definition spend_since :: "time \<Rightarrow> string \<Rightarrow> dom \<Rightarrow> rat" where
  "spend_since now user d =
     sum_list (map run_cost_usd (filter (\<lambda>r. run_user r = user \<and> now - secs 86400 < run_started_at r) (enrich_runs d)))"

definition browser_state_aad :: "string \<Rightarrow> string \<Rightarrow> vault_exn + bytes" where
  "browser_state_aad user dm = aad user dm ''browser_state''"

definition store_browser_state ::
  "aead \<Rightarrow> key_manager \<Rightarrow> entropy \<Rightarrow> string \<Rightarrow> string \<Rightarrow> string \<Rightarrow> int \<Rightarrow> dom \<Rightarrow> vault_exn + dom"
where
  "store_browser_state A km rnd user dm state cookies d =
     and_then (and_then (browser_state_aad user dm) (seal_text A km rnd state)) (\<lambda>sealed.
       let row = \<lparr>bs_user = user, bs_domain = dm, bs_sealed = sealed, bs_cookies = cookies\<rparr>;
           same = (\<lambda>b. bs_user b = user \<and> bs_domain b = dm)
       in Inr (d\<lparr>browser_states := (if \<exists>b \<in> set (browser_states d). same b
                                      then update_where same (\<lambda>_. row) (browser_states d)
                                      else browser_states d @ [row])\<rparr>))"

definition load_browser_state ::
  "aead \<Rightarrow> key_manager \<Rightarrow> string \<Rightarrow> string \<Rightarrow> dom \<Rightarrow> store_exn + string option"
where
  "load_browser_state A km user dm d =
     (case find (\<lambda>b. bs_user b = user \<and> bs_domain b = dm) (browser_states d) of
        None \<Rightarrow> Inr None
      | Some b \<Rightarrow>
          and_then (from_vault (and_then (browser_state_aad user dm) (open_sealed A km (bs_sealed b))))
            (\<lambda>x. and_then (decode_text x) (\<lambda>t. Inr (Some t))))"

section \<open>The messages\<close>

record site_login =
  lg_domain :: string
  lg_username :: "string option"
  lg_password :: "string option"

record mcp_server =
  ms_name :: string
  ms_url :: string
  ms_access_token :: string

record enrich_request =
  rq_item_id :: string
  rq_title :: string
  rq_preview_text :: string
  rq_candidate_urls :: "string list"
  rq_site :: site_login
  rq_mcp_servers :: "mcp_server list"
  rq_browser_state :: "string option"
  rq_caps :: run_caps

record enrich_result =
  an_status :: run_status
  an_article_url :: "string option"
  an_article_markdown :: "string option"
  an_login_performed :: bool
  an_tool_calls :: int
  an_cost_usd :: rat
  an_browser_state :: "string option"
  an_transcript :: "json list"
  an_error :: "string option"

type_synonym enrich_client = "enrich_request \<Rightarrow> run_caps \<Rightarrow> exn + enrich_result"

text \<open>What one run of the stage has: the worker's clock, hashing and \<open>repr\<close> (\<open>ec_pl\<close>), its configuration,
  the client of the context and the HTTP one, the vault, and whether the write on the side connection
  that says the run has started was committed.\<close>

record enrich_ctx =
  ec_pl :: pipeline
  ec_config :: "py_error + enrich_config"
  ec_client :: "enrich_client option"
  ec_http :: enrich_client
  ec_aead :: aead
  ec_manager :: "vault_exn + key_manager"
  ec_rnd :: entropy
  ec_json_loads :: "string \<Rightarrow> json option"
  ec_money :: "py_float \<Rightarrow> string"
  ec_announced :: bool
  ec_started :: time
  ec_clock :: time
  ec_run_id :: string


section \<open>Opening what one run needs\<close>

definition other_exn :: "string \<Rightarrow> string \<Rightarrow> exn" where
  "other_exn n m = \<lparr>exn_kind = OtherExn, exn_name = n, exn_text = m\<rparr>"

definition exn_of_vault :: "vault_exn \<Rightarrow> exn" where
  "exn_of_vault e =
     (case e of VaultError m \<Rightarrow> other_exn ''VaultError'' m | VaultConfigError m \<Rightarrow> other_exn ''VaultConfigError'' m
      | DecryptionError m \<Rightarrow> other_exn ''DecryptionError'' m | ConfigValueError m \<Rightarrow> other_exn ''ValueError'' m)"

definition exn_of_store :: "store_exn \<Rightarrow> exn" where
  "exn_of_store e = (case e of FromVault v \<Rightarrow> exn_of_vault v | FromPy p \<Rightarrow> exn_of p)"

definition is_vault_error :: "store_exn \<Rightarrow> bool" where
  "is_vault_error e = (case e of FromVault (ConfigValueError _) \<Rightarrow> False | FromVault _ \<Rightarrow> True | FromPy _ \<Rightarrow> False)"

text \<open>A read that gives up to \<open>None\<close> on a \<open>VaultError\<close> and lets anything else escape.\<close>

definition unless_vault_error :: "store_exn + string option \<Rightarrow> exn + string option" where
  "unless_vault_error r =
     (case r of Inr v \<Rightarrow> Inr v | Inl e \<Rightarrow> if is_vault_error e then Inr None else Inl (exn_of_store e))"

definition payload_text :: "(json \<Rightarrow> string) \<Rightarrow> string \<Rightarrow> payload \<Rightarrow> string" where
  "payload_text repr key p =
     (case map_of p key of Some v \<Rightarrow> if truthy v then py_str_of repr v else [] | None \<Rightarrow> [])"

definition site_credential ::
  "enrich_ctx \<Rightarrow> key_manager \<Rightarrow> payload \<Rightarrow> string \<Rightarrow> string \<Rightarrow> dom \<Rightarrow> exn + site_login"
where
  "site_credential c km p dm user d =
     (let i = payload_text (pl_repr (ec_pl c)) ''connector_id'' p;
          bare = Inr \<lparr>lg_domain = dm, lg_username = None, lg_password = None\<rparr>
      in if i = [] then bare
         else case get_connector i user d of
                None \<Rightarrow> bare
              | Some r \<Rightarrow>
                  and_then (if cn_sealed r = None then Inr None
                            else unless_vault_error (load_connector_secret (ec_aead c) km i d))
                    (\<lambda>pw. Inr \<lparr>lg_domain = dm, lg_username = cn_username r, lg_password = pw\<rparr>))"

definition mcp_access_token :: "enrich_ctx \<Rightarrow> key_manager \<Rightarrow> string \<Rightarrow> dom \<Rightarrow> store_exn + string option" where
  "mcp_access_token c km i d =
     and_then (load_connector_secret (ec_aead c) km i d) (\<lambda>sealed.
       Inr (case sealed of
              None \<Rightarrow> None
            | Some t \<Rightarrow>
                (case ec_json_loads c t of
                   Some (JObj kvs) \<Rightarrow>
                     (case map_of kvs ''access_token'' of
                        Some a \<Rightarrow> if truthy a then Some (py_str_of (pl_repr (ec_pl c)) a) else None
                      | None \<Rightarrow> None)
                 | _ \<Rightarrow> None)))"

definition server_slug :: "string \<Rightarrow> string" where
  "server_slug i = take 32 (map (\<lambda>x. if x = CHR ''_'' then CHR ''-'' else x) i)"

definition server_name_ok :: "string \<Rightarrow> bool" where
  "server_name_ok n \<longleftrightarrow>
     n \<noteq> [] \<and> length n \<le> 32 \<and> label_char (hd n) \<and> (\<forall>x \<in> set n. label_char x \<or> x \<in> {CHR ''_'', CHR ''-''})"

definition mcp_in_scope :: "string \<Rightarrow> connector \<Rightarrow> bool" where
  "mcp_in_scope dm r \<longleftrightarrow>
     cn_kind r = McpConnector \<and> cn_status r = CnReady
     \<and> (cn_domains r = [] \<or> (\<exists>s \<in> set (cn_domains r). domain_matches dm s))"

fun mcp_loop :: "enrich_ctx \<Rightarrow> key_manager \<Rightarrow> string \<Rightarrow> dom \<Rightarrow> connector list \<Rightarrow> exn + mcp_server list" where
  "mcp_loop c km dm d [] = Inr []"
| "mcp_loop c km dm d (r # rs) =
     (if \<not> mcp_in_scope dm r then mcp_loop c km dm d rs
      else case (mcp_access_token c km (cn_id r) d, cn_url r) of
             (Inr (Some token), Some url) \<Rightarrow>
               if url = [] then mcp_loop c km dm d rs
               else if \<not> server_name_ok (server_slug (cn_id r))
               then Inl (other_exn ''ValidationError'' ''name'')
               else and_then (mcp_loop c km dm d rs) (\<lambda>ms.
                 Inr (\<lparr>ms_name = server_slug (cn_id r), ms_url = url, ms_access_token = token\<rparr> # ms))
           | _ \<Rightarrow> mcp_loop c km dm d rs)"

definition mcp_servers :: "enrich_ctx \<Rightarrow> key_manager \<Rightarrow> string \<Rightarrow> string \<Rightarrow> dom \<Rightarrow> exn + mcp_server list" where
  "mcp_servers c km user dm d = mcp_loop c km dm d (list_connectors user d)"

definition candidate_urls :: "payload \<Rightarrow> py_error + string list" where
  "candidate_urls p =
     and_then (case map_of p ''candidate_urls'' of None \<Rightarrow> Inr [] | Some v \<Rightarrow> py_iter v) (\<lambda>xs.
       Inr (concat (map (\<lambda>v. case v of JStr u \<Rightarrow> if py_strip u = [] then [] else [py_strip u] | _ \<Rightarrow> []) xs)))"

definition build_request ::
  "enrich_ctx \<Rightarrow> source_item \<Rightarrow> payload \<Rightarrow> string \<Rightarrow> enrich_config \<Rightarrow> dom \<Rightarrow> exn + enrich_request"
where
  "build_request c it p dm cf d =
     and_then (case ec_manager c of Inl e \<Rightarrow> Inl (exn_of_vault e) | Inr km \<Rightarrow> Inr km) (\<lambda>km.
     and_then (raises (candidate_urls p)) (\<lambda>urls.
       if urls = []
       then Inl (permanent (''enrich job for '' @ si_id it @ '' names no candidate URL: '' @ pl_repr (ec_pl c) (JObj p)))
       else and_then (site_credential c km p dm (si_user it) d) (\<lambda>login.
            and_then (mcp_servers c km (si_user it) dm d) (\<lambda>servers.
            and_then (unless_vault_error (load_browser_state (ec_aead c) km (si_user it) dm d)) (\<lambda>state.
            and_then (raises (caps cf)) (\<lambda>cs.
              Inr \<lparr>rq_item_id = si_id it, rq_title = si_title it, rq_preview_text = take 4000 (si_text it),
                   rq_candidate_urls = urls, rq_site = login, rq_mcp_servers = servers, rq_browser_state = state,
                   rq_caps = cs\<rparr>))))))"

section \<open>Recording what happened\<close>

definition DELIBERATE_KEY :: string where "DELIBERATE_KEY = ''deliberate''"
definition ENRICHED_KEY :: string where "ENRICHED_KEY = ''enriched''"

definition integrate_body :: "string \<Rightarrow> payload option \<Rightarrow> bool \<Rightarrow> bool \<Rightarrow> payload" where
  "integrate_body i p deliberate enriched =
     [(''source_item_id'', JStr i)]
     @ (if deliberate \<or> (\<exists>q v. p = Some q \<and> map_of q DELIBERATE_KEY = Some v \<and> truthy v)
        then [(DELIBERATE_KEY, JBool True)] else [])
     @ (if enriched then [(ENRICHED_KEY, JBool True)] else [])"

definition enqueue_integrate_job ::
  "pipeline \<Rightarrow> string \<Rightarrow> string \<Rightarrow> payload option \<Rightarrow> bool \<Rightarrow> bool \<Rightarrow> dom sys \<Rightarrow> dom sys"
where
  "enqueue_integrate_job pl user i p deliberate enriched =
     enqueue_job pl INTEGRATE (integrate_body i p deliberate enriched) (Some user)"

definition queue_integration :: "enrich_ctx \<Rightarrow> string \<Rightarrow> string \<Rightarrow> payload \<Rightarrow> dom sys \<Rightarrow> dom sys" where
  "queue_integration c user i p = enqueue_integrate_job (ec_pl c) user i (Some p) False True"

definition blank_run :: "enrich_ctx \<Rightarrow> source_item \<Rightarrow> string \<Rightarrow> run_status \<Rightarrow> string option \<Rightarrow> enrich_run" where
  "blank_run c it dm st e =
     \<lparr>run_id = ec_run_id c, run_source_item = si_id it, run_user = si_user it, run_domain = dm, run_status = st,
      run_tool_calls = 0, run_cost_usd = 0, run_article_chars = 0, run_login_performed = False, run_transcript = [],
      run_error = e, run_started_at = ec_clock c, run_finished_at = Some (ec_clock c)\<rparr>"

definition status_of_run :: "run_status \<Rightarrow> enrich_status" where
  "status_of_run st = (if st = RunSkipped then EnSkipped else EnFailed)"

text \<open>\<open>_record_skip\<close>, \<open>_finish\<close> and \<open>_queue_integration\<close>, the way out that every unhappy path takes.\<close>

definition declined ::
  "enrich_ctx \<Rightarrow> source_item \<Rightarrow> string \<Rightarrow> string \<Rightarrow> run_status \<Rightarrow> payload \<Rightarrow> dom sys \<Rightarrow> dom sys"
where
  "declined c it dm m st p s =
     queue_integration c (si_user it) (si_id it) p
       (on_dom (mark_enrichment_finished (si_id it) (status_of_run st) (Some m)
                  (record_enrich_run (blank_run c it dm st (Some m)) (sys_dom s))) s)"

definition count_cookies :: "enrich_ctx \<Rightarrow> string \<Rightarrow> int" where
  "count_cookies c state =
     (case ec_json_loads c state of
        Some (JObj kvs) \<Rightarrow> (case map_of kvs ''cookies'' of Some (JList xs) \<Rightarrow> int (length xs) | _ \<Rightarrow> 0)
      | _ \<Rightarrow> 0)"

definition keep_browser_state :: "enrich_ctx \<Rightarrow> string \<Rightarrow> string \<Rightarrow> enrich_result \<Rightarrow> dom \<Rightarrow> dom" where
  "keep_browser_state c user dm r d =
     (case (an_browser_state r, ec_manager c) of
        (Some state, Inr km) \<Rightarrow>
          if state = [] then d
          else (case store_browser_state (ec_aead c) km (ec_rnd c) user dm state (count_cookies c state) d of
                  Inl _ \<Rightarrow> d
                | Inr d' \<Rightarrow> d')
      | _ \<Rightarrow> d)"

definition article_ok :: "enrich_result \<Rightarrow> bool" where
  "article_ok r \<longleftrightarrow> an_status r = RunOk \<and> MIN_ARTICLE_CHARS \<le> length (py_strip (or_empty (an_article_markdown r)))"

definition run_of :: "enrich_ctx \<Rightarrow> source_item \<Rightarrow> string \<Rightarrow> enrich_result \<Rightarrow> enrich_run" where
  "run_of c it dm r =
     \<lparr>run_id = ec_run_id c, run_source_item = si_id it, run_user = si_user it, run_domain = dm,
      run_status = (if an_status r = RunOk \<and> \<not> article_ok r then RunFailed else an_status r),
      run_tool_calls = an_tool_calls r, run_cost_usd = an_cost_usd r,
      run_article_chars = int (length (or_empty (an_article_markdown r))), run_login_performed = an_login_performed r,
      run_transcript = an_transcript r, run_error = an_error r, run_started_at = ec_started c,
      run_finished_at = Some (ec_clock c)\<rparr>"

definition apply_result :: "enrich_ctx \<Rightarrow> source_item \<Rightarrow> string \<Rightarrow> enrich_result \<Rightarrow> dom \<Rightarrow> dom" where
  "apply_result c it dm r d =
     (let d1 = (if article_ok r
                then apply_enriched_article (ec_clock c) (si_id it) (or_empty (an_article_url r))
                       (py_strip (or_empty (an_article_markdown r))) d
                else mark_enrichment_finished (si_id it) EnFailed
                       (Some (if or_empty (an_error r) = [] then ''the article was not retrieved'' else or_empty (an_error r))) d)
      in keep_browser_state c (si_user it) dm r (record_enrich_run (run_of c it dm r) d1))"

section \<open>The handler\<close>

definition FINISHED_STATES :: "enrich_status option set" where
  "FINISHED_STATES = {Some EnDone, Some EnFailed, Some EnSkipped}"

definition context_client :: "enrich_ctx \<Rightarrow> enrich_config \<Rightarrow> enrich_client option" where
  "context_client c cf =
     (case ec_client c of Some f \<Rightarrow> Some f | None \<Rightarrow> if usable cf then Some (ec_http c) else None)"

text \<open>Whether the daily cap is reached, \<open>spent >= config.max_usd_per_day\<close>.\<close>

definition cap_spent :: "rat \<Rightarrow> py_float \<Rightarrow> bool" where
  "cap_spent spent cap = (case cap of Num x \<Rightarrow> x \<le> spent | _ \<Rightarrow> False)"

text \<open>The handler up to the agent: either everything is settled, or the agent is to be started with a
  request, for an item and a domain.\<close>

datatype enrich_gate =
    Settled "dom sys"
  | Start source_item string enrich_request enrich_client

definition gate_after_state :: "enrich_ctx \<Rightarrow> source_item \<Rightarrow> payload \<Rightarrow> dom sys \<Rightarrow> exn + enrich_gate" where
  "gate_after_state c it p s =
     (let named = payload_text (pl_repr (ec_pl c)) ''domain'' p;
          dm = (if named = [] then or_empty (si_enrich_domain it) else named);
          d = sys_dom s
      in and_then (raises (ec_config c)) (\<lambda>cf.
         case context_client c cf of
           None \<Rightarrow> Inr (Settled (declined c it (if dm = [] then ''unknown'' else dm)
                            ''enrichment is not configured on this worker'' RunSkipped p s))
         | Some f \<Rightarrow>
             if dm = []
             then Inr (Settled (declined c it ''unknown'' ''the enrich job names no site domain'' RunSkipped p s))
             else if \<not> site_still_allowed cf (si_user it) dm d
             then Inr (Settled (declined c it dm (dm @ '' is no longer a site this account has added'') RunSkipped p s))
             else if cap_spent (spend_since (pl_now (ec_pl c)) (si_user it) d) (cf_max_usd_per_day cf)
             then Inr (Settled (declined c it dm
                    (''the rolling 24h enrichment cap is spent ($'' @ ec_money c (Num (spend_since (pl_now (ec_pl c)) (si_user it) d))
                     @ '' of $'' @ ec_money c (cf_max_usd_per_day cf) @ '')'') RunSkipped p s))
             else and_then (build_request c it p dm cf d) (\<lambda>rq. Inr (Start it dm rq f))))"

definition enrich_gate :: "enrich_ctx \<Rightarrow> payload \<Rightarrow> dom sys \<Rightarrow> exn + enrich_gate" where
  "enrich_gate c p s =
     and_then (require (pl_repr (ec_pl c)) ''source_item_id'' p) (\<lambda>i.
     case get_source_item i (sys_dom s) of
       None \<Rightarrow> Inl (permanent (''source item '' @ i @ '' no longer exists''))
     | Some it \<Rightarrow>
         if si_state it \<noteq> SiPending then Inr (Settled s)
         else if si_enrich_status it \<in> FINISHED_STATES
         then Inr (Settled (queue_integration c (si_user it) (si_id it) p s))
         else if si_enrich_status it = Some EnRunning
         then Inr (Settled (declined c it
                (case si_enrich_domain it of Some dm \<Rightarrow> if dm = [] then ''unknown'' else dm | None \<Rightarrow> ''unknown'')
                ''a previous run was interrupted; not starting a second one for this item'' RunFailed p s))
         else gate_after_state c it p s)"

text \<open>The agent's answer, an exception included, applied to what the database holds by then.\<close>

definition enrich_answer ::
  "enrich_ctx \<Rightarrow> source_item \<Rightarrow> string \<Rightarrow> exn + enrich_result \<Rightarrow> payload \<Rightarrow> dom sys \<Rightarrow> dom sys"
where
  "enrich_answer c it dm answer p s =
     (case answer of
        Inl e \<Rightarrow> declined c it dm (''the enrichment service did not answer: '' @ exn_message e) RunFailed p s
      | Inr r \<Rightarrow> queue_integration c (si_user it) (si_id it) p (on_dom (apply_result c it dm r (sys_dom s)) s))"

definition announced :: "source_item \<Rightarrow> dom sys \<Rightarrow> dom sys" where
  "announced it s = on_dom (mark_enrichment_running (si_id it) (sys_dom s)) s"

definition handle_enrich :: "enrich_ctx \<Rightarrow> dom handler" where
  "handle_enrich c s p =
     and_then (enrich_gate c p s) (\<lambda>g.
       case g of
         Settled s' \<Rightarrow> Inr (s', [])
       | Start it dm rq f \<Rightarrow>
           if ec_announced c then Inr (enrich_answer c it dm (f rq (rq_caps rq)) p (announced it s), [])
           else Inr (declined c it dm ''could not record that a run had started, so no run was started'' RunFailed p s, []))"

text \<open>The failure recorder.\<close>

definition record_enrich_failure :: "enrich_ctx \<Rightarrow> dom recorder" where
  "record_enrich_failure c p m s =
     (case map_of p ''source_item_id'' of
        Some (JStr i) \<Rightarrow>
          if i = [] then s
          else (case get_source_item i (sys_dom s) of
                  None \<Rightarrow> s
                | Some it \<Rightarrow>
                    if si_state it \<noteq> SiPending then s
                    else declined c it (let dm = payload_text (pl_repr (ec_pl c)) ''domain'' p
                                        in if dm = [] then ''unknown'' else dm) m RunFailed p s)
      | _ \<Rightarrow> s)"

section \<open>Queueing an enrichment\<close>

definition enrich_payload :: "string \<Rightarrow> enrich_target \<Rightarrow> payload \<Rightarrow> payload" where
  "enrich_payload i t extra =
     dict_update (filter (\<lambda>(k, _). k \<noteq> ''source_item_id'') extra)
       [(''source_item_id'', JStr i), (''connector_id'', JStr (et_connector_id t)), (''domain'', JStr (et_domain t)),
        (''article_url'', JStr (hd (et_urls t))), (''candidate_urls'', JList (map JStr (et_urls t)))]"

definition enqueue_enrichment ::
  "pipeline \<Rightarrow> string \<Rightarrow> string \<Rightarrow> enrich_target \<Rightarrow> payload \<Rightarrow> dom sys \<Rightarrow> dom sys"
where
  "enqueue_enrichment pl user i t extra s =
     enqueue_job pl ENRICH (enrich_payload i t extra) (Some user)
       (on_dom (mark_enrichment_queued i (hd (et_urls t)) (et_domain t) (sys_dom s)) s)"


section \<open>Reading the rows back\<close>

lemma get_source_item_update:
  "(\<And>r. si_id (f r) = si_id r) \<Longrightarrow>
     get_source_item k (update_source_item i f d) = map_option (\<lambda>r. if si_id r = i then f r else r) (get_source_item k d)"
  by (simp add: get_source_item_def update_source_item_def find_update_where)

lemma get_source_item_cong: "source_items d = source_items d' \<Longrightarrow> get_source_item k d = get_source_item k d'"
  by (simp add: get_source_item_def)

lemma get_source_itemD: "get_source_item i d = Some it \<Longrightarrow> it \<in> set (source_items d) \<and> si_id it = i"
  unfolding get_source_item_def by (rule find_SomeD)

lemma get_source_item_other_tables [simp]:
  "get_source_item k (record_enrich_run r d) = get_source_item k d"
  "get_source_item k (keep_browser_state c u dm a d) = get_source_item k d"
  by (auto simp: record_enrich_run_def keep_browser_state_def store_browser_state_def Let_def
      intro!: get_source_item_cong split: option.split sum.split elim!: and_then_InrE)

lemma get_source_item_marks:
  "get_source_item k (mark_enrichment_queued i u dm d) = map_option (\<lambda>r. if si_id r = i then
      r\<lparr>si_enrich_status := Some EnQueued, si_article_url := Some u, si_enrich_domain := Some dm, si_enrich_error := None\<rparr> else r)
      (get_source_item k d)"
  "get_source_item k (mark_enrichment_running i d) = map_option (\<lambda>r. if si_id r = i then
      (if si_enrich_status r = Some EnDone then r else r\<lparr>si_enrich_status := Some EnRunning\<rparr>) else r) (get_source_item k d)"
  "get_source_item k (mark_enrichment_finished i st e d) = map_option (\<lambda>r. if si_id r = i then
      r\<lparr>si_enrich_status := Some st, si_enrich_error := e\<rparr> else r) (get_source_item k d)"
  "get_source_item k (apply_enriched_article t i u a d) = map_option (\<lambda>r. if si_id r = i then
      r\<lparr>si_original_text := Some (case si_original_text r of Some x \<Rightarrow> x | None \<Rightarrow> si_text r), si_text := article_text u a,
        si_enrich_status := Some EnDone, si_enrich_error := None, si_enriched_at := Some t\<rparr> else r) (get_source_item k d)"
  by (simp_all add: mark_enrichment_queued_def mark_enrichment_running_def mark_enrichment_finished_def
      apply_enriched_article_def get_source_item_update)

lemma status_of_run_finished [simp]: "Some (status_of_run st) \<in> FINISHED_STATES"
  by (simp add: status_of_run_def FINISHED_STATES_def)

text \<open>What the two ways out of the stage leave: the way without an article, and the agent's answer.\<close>

lemma declined_work [simp]:
  "work_of (sys_jobs (declined c it dm m st p s)) =
     work_of (sys_jobs s) @ [(INTEGRATE, integrate_body (si_id it) (Some p) False True, Some (si_user it))]"
  by (simp add: declined_def queue_integration_def enqueue_integrate_job_def)

lemma declined_item:
  "get_source_item k (sys_dom (declined c it dm m st p s)) = map_option (\<lambda>r. if si_id r = si_id it then
      r\<lparr>si_enrich_status := Some (status_of_run st), si_enrich_error := Some m\<rparr> else r) (get_source_item k (sys_dom s))"
  by (simp add: declined_def queue_integration_def enqueue_integrate_job_def get_source_item_marks)

lemma queue_integration_facts [simp]:
  "work_of (sys_jobs (queue_integration c u i p s)) =
     work_of (sys_jobs s) @ [(INTEGRATE, integrate_body i (Some p) False True, Some u)]"
  "sys_dom (queue_integration c u i p s) = sys_dom s"
  by (simp_all add: queue_integration_def enqueue_integrate_job_def)

lemma enrich_answer_work [simp]:
  "work_of (sys_jobs (enrich_answer c it dm a p s)) =
     work_of (sys_jobs s) @ [(INTEGRATE, integrate_body (si_id it) (Some p) False True, Some (si_user it))]"
  by (simp add: enrich_answer_def split: sum.split)

text \<open>The item after the stage: still waiting, its enrichment over, its text the preview it had or an
  article beside the preview.\<close>

definition still_whole :: "source_item \<Rightarrow> source_item \<Rightarrow> bool" where
  "still_whole it it' \<longleftrightarrow>
     si_id it' = si_id it \<and> si_user it' = si_user it \<and> si_title it' = si_title it \<and> si_state it' = si_state it
     \<and> (si_text it' = si_text it \<and> si_original_text it' = si_original_text it
        \<or> (\<exists>url article. si_text it' = article_text url article \<and> MIN_ARTICLE_CHARS \<le> length article
             \<and> si_original_text it' = Some (case si_original_text it of Some x \<Rightarrow> x | None \<Rightarrow> si_text it)))"

lemma still_whole_refl [simp]: "still_whole it it"
  by (simp add: still_whole_def)

lemma declined_whole:
  assumes "get_source_item (si_id it) (sys_dom s) = Some r"
  shows "\<exists>r'. get_source_item (si_id it) (sys_dom (declined c it dm m st p s)) = Some r'
    \<and> still_whole r r' \<and> si_enrich_status r' \<in> FINISHED_STATES"
  using get_source_itemD [OF assms] by (simp add: declined_item assms still_whole_def)

lemma enrich_answer_whole:
  assumes "get_source_item (si_id it) (sys_dom s) = Some r"
  shows "\<exists>r'. get_source_item (si_id it) (sys_dom (enrich_answer c it dm a p s)) = Some r'
    \<and> still_whole r r' \<and> si_enrich_status r' \<in> FINISHED_STATES"
proof (cases a)
  case (Inl e)
  then show ?thesis using declined_whole [OF assms] by (simp add: enrich_answer_def)
next
  case (Inr x)
  have "MIN_ARTICLE_CHARS \<le> length (py_strip (or_empty (an_article_markdown x)))" if "article_ok x"
    using that by (simp add: article_ok_def)
  then show ?thesis
    using get_source_itemD [OF assms]
    by (auto simp: Inr enrich_answer_def apply_result_def Let_def get_source_item_marks assms still_whole_def FINISHED_STATES_def)
qed

lemma announced_item:
  assumes "get_source_item (si_id it) (sys_dom s) = Some it"
  shows "\<exists>r. get_source_item (si_id it) (sys_dom (announced it s)) = Some r \<and> still_whole it r
    \<and> si_text r = si_text it \<and> si_original_text r = si_original_text it"
  by (simp add: announced_def get_source_item_marks assms still_whole_def)

lemma still_whole_trans: "still_whole a b \<Longrightarrow> si_text b = si_text a \<Longrightarrow> si_original_text b = si_original_text a
    \<Longrightarrow> still_whole b c \<Longrightarrow> still_whole a c"
  by (auto simp: still_whole_def cong: option.case_cong)


section \<open>No item is lost to enrichment\<close>

lemma build_request_Inr_item: "build_request c it p dm cf d = Inr rq \<Longrightarrow> rq_item_id rq = si_id it"
  by (auto simp: build_request_def elim!: and_then_InrE split: if_splits)

text \<open>What the part of the handler before the agent can come to, for an item that is waiting.\<close>

lemma enrich_gate_cases:
  assumes "enrich_gate c p s = Inr g" and "payload_string ''source_item_id'' p = Some i"
    and "get_source_item i (sys_dom s) = Some it" and "si_state it = SiPending"
  obtains (replay) "si_enrich_status it \<in> FINISHED_STATES" "g = Settled (queue_integration c (si_user it) (si_id it) p s)"
    | (declined') dm m st where "si_enrich_status it \<notin> FINISHED_STATES" "g = Settled (declined c it dm m st p s)"
    | (start) dm rq f cf where "si_enrich_status it \<notin> FINISHED_STATES" "si_enrich_status it \<noteq> Some EnRunning"
      "g = Start it dm rq f" "ec_config c = Inr cf" "context_client c cf = Some f"
      "dm \<noteq> []" "site_still_allowed cf (si_user it) dm (sys_dom s)"
      "\<not> cap_spent (spend_since (pl_now (ec_pl c)) (si_user it) (sys_dom s)) (cf_max_usd_per_day cf)"
      "build_request c it p dm cf (sys_dom s) = Inr rq"
proof -
  have r: "require (pl_repr (ec_pl c)) ''source_item_id'' p = Inr i" using assms(2) by (simp add: require_Inr)
  note gate = assms(1) [unfolded enrich_gate_def, simplified r and_then_simps assms(3) option.case assms(4), simplified]
  show thesis
  proof (cases "si_enrich_status it \<in> FINISHED_STATES")
    case True
    with gate show thesis by (intro replay) simp_all
  next
    case False
    note fin = this
    show thesis
    proof (cases "si_enrich_status it = Some EnRunning")
      case True
      with fin gate show thesis by (intro declined') auto
    next
      case False
      with fin gate have "gate_after_state c it p s = Inr g" by simp
      then obtain cf where cf: "ec_config c = Inr cf"
        by (auto simp: gate_after_state_def Let_def elim!: and_then_InrE)
      show thesis
      proof (cases "\<exists>s'. g = Settled s'")
        case True
        with cf fin \<open>gate_after_state c it p s = Inr g\<close> show thesis
          by (auto simp: gate_after_state_def raises_def Let_def elim!: and_then_InrE split: option.splits if_splits
              intro: declined')
      next
        case settled: False
        with cf fin False \<open>gate_after_state c it p s = Inr g\<close> show thesis
          by (auto simp: gate_after_state_def raises_def Let_def elim!: and_then_InrE split: option.splits if_splits
              intro: start)
      qed
    qed
  qed
qed

lemma handle_enrich_waiting:
  assumes "handle_enrich c s p = Inr (s', after)" and "payload_string ''source_item_id'' p = Some i"
    and "get_source_item i (sys_dom s) = Some it" and "si_state it = SiPending"
  shows "after = [] \<and> work_of (sys_jobs s') = work_of (sys_jobs s) @ [(INTEGRATE, integrate_body i (Some p) False True, Some (si_user it))]
    \<and> (\<exists>it'. get_source_item i (sys_dom s') = Some it' \<and> still_whole it it' \<and> si_enrich_status it' \<in> FINISHED_STATES)"
proof -
  have i: "si_id it = i" using get_source_itemD [OF assms(3)] by simp
  have it: "get_source_item (si_id it) (sys_dom s) = Some it" using assms(3) i by simp
  from assms(1) obtain g where g: "enrich_gate c p s = Inr g"
    and rest: "(case g of Settled s' \<Rightarrow> Inr (s', []) | Start it dm rq f \<Rightarrow>
        if ec_announced c then Inr (enrich_answer c it dm (f rq (rq_caps rq)) p (announced it s), [])
        else Inr (declined c it dm ''could not record that a run had started, so no run was started'' RunFailed p s, []))
      = (Inr (s', after) :: exn + _)"
    unfolding handle_enrich_def by (rule and_then_InrE)
  from g assms(2-4) show ?thesis
  proof (cases rule: enrich_gate_cases)
    case replay
    with rest it i show ?thesis by auto
  next
    case (declined' dm m st)
    with rest declined_whole [OF it] show ?thesis by (auto simp: i)
  next
    case (start dm rq f cf)
    show ?thesis
    proof (cases "ec_announced c")
      case True
      with rest start have s': "s' = enrich_answer c it dm (f rq (rq_caps rq)) p (announced it s)" "after = []" by simp_all
      from announced_item [OF it] obtain r where r: "get_source_item (si_id it) (sys_dom (announced it s)) = Some r"
        "still_whole it r" "si_text r = si_text it" "si_original_text r = si_original_text it" by blast
      from enrich_answer_whole [OF r(1)] still_whole_trans [OF r(2-4)]
      have "\<exists>it'. get_source_item i (sys_dom s') = Some it' \<and> still_whole it it' \<and> si_enrich_status it' \<in> FINISHED_STATES"
        unfolding s'(1) i by blast
      then show ?thesis by (simp add: s' i announced_def)
    next
      case False
      with rest start declined_whole [OF it] show ?thesis by (auto simp: i)
    qed
  qed
qed

lemma record_enrich_failure_waiting:
  assumes "payload_string ''source_item_id'' p = Some i"
    and "get_source_item i (sys_dom s) = Some it" and "si_state it = SiPending"
  shows "work_of (sys_jobs (record_enrich_failure c p m s)) = work_of (sys_jobs s) @ [(INTEGRATE, integrate_body i (Some p) False True, Some (si_user it))]
    \<and> (\<exists>it'. get_source_item i (sys_dom (record_enrich_failure c p m s)) = Some it' \<and> still_whole it it'
         \<and> si_enrich_status it' \<in> FINISHED_STATES)"
proof -
  have i: "si_id it = i" using get_source_itemD [OF assms(2)] by simp
  then have it: "get_source_item (si_id it) (sys_dom s) = Some it" using assms(2) by simp
  from assms(1) have p: "map_of p ''source_item_id'' = Some (JStr i)" "i \<noteq> []"
    by (auto simp: payload_string_def split: option.splits json.splits if_splits)
  obtain dm where d: "record_enrich_failure c p m s = declined c it dm m RunFailed p s"
    using p assms by (simp add: record_enrich_failure_def)
  with declined_whole [OF it] show ?thesis by (simp add: i)
qed

text \<open>C8: Enrichment costs at most the article and never the item. However the run of an \<open>enrich\<close> job of a
  waiting item ends, with an article, declined, refused by the service, or given up after an exception,
  the item is still waiting, with its title and owner, its enrichment is over, and its text is the preview
  it had, or an article long enough to be one with the preview kept beside it; and exactly one job was
  added, the item's integrate job, under its owner's serialization key, carrying the owner's own
  \<open>deliberate\<close> flag if the enrich job had it. A run that will be retried changes nothing.\<close>

theorem enrichment_never_loses_item:
  assumes ex: "execute t1 t2 (handle_enrich c) recorders j s = Inr (out, s', after)"
    and fresh: "job_committed j = None" "job_queue j = ENRICH" "recorders ENRICH = Some (record_enrich_failure c')"
    and item: "payload_string ''source_item_id'' (job_payload j) = Some i"
      "get_source_item i (sys_dom s) = Some it" "si_state it = SiPending"
  shows "after = [] \<and>
    (if out = Retrying then sys_dom s' = sys_dom s \<and> work_of (sys_jobs s') = work_of (sys_jobs s)
     else work_of (sys_jobs s') = work_of (sys_jobs s)
            @ [(INTEGRATE, integrate_body i (Some (job_payload j)) False True, Some (si_user it))]
        \<and> (\<exists>it'. get_source_item i (sys_dom s') = Some it' \<and> si_state it' = SiPending \<and> still_whole it it'
             \<and> si_enrich_status it' \<in> FINISHED_STATES))"
  using ex fresh(1)
proof (cases rule: execute_effect)
  case (done' s1)
  from handle_enrich_waiting [OF done'(1) item] done' item(3) show ?thesis
    by (auto simp: get_source_item_def still_whole_def)
next
  case (retry e)
  then show ?thesis by simp
next
  case (gave_up e)
  have "record_failure recorders j (exn_message e) s = record_enrich_failure c' (job_payload j) (exn_message e) s"
    using fresh by (simp add: record_failure_def)
  with record_enrich_failure_waiting [OF item, of c' "exn_message e"] gave_up item(3) show ?thesis
    by (auto simp: still_whole_def)
qed


definition demo_stage :: pipeline where
  "demo_stage =
     \<lparr>pl_sha = (\<lambda>_. [0]), pl_now = 100, pl_repr = (\<lambda>_. ''?''),
      pl_integrate = (\<lambda>d _. Inr \<lparr>ir_news_item = \<lparr>nd_id = ''new'', nd_title = sd_title d, nd_summary = sd_text d, nd_source_ids = [sd_id d]\<rparr>,
                                    ir_merged = False, ir_decision = None\<rparr>),
      pl_script = (\<lambda>_ _. Inr []), pl_speak = (\<lambda>_. Inl (other_exn ''HTTPError'' [])), pl_put = (\<lambda>_ _ _. None),
      pl_segment_id = (\<lambda>_. ''g''), pl_claim_id = (\<lambda>_ _. ''c''), pl_news_id = ''n1''\<rparr>"

definition demo_article :: string where
  "demo_article = replicate 400 CHR ''x''"

definition demo_answer :: "rat \<Rightarrow> enrich_result" where
  "demo_answer cost =
     \<lparr>an_status = RunOk, an_article_url = Some ''http://example.com/a'', an_article_markdown = Some demo_article,
      an_login_performed = False, an_tool_calls = 3, an_cost_usd = cost, an_browser_state = None, an_transcript = [],
      an_error = None\<rparr>"

definition demo_enrich :: enrich_ctx where
  "demo_enrich =
     \<lparr>ec_pl = demo_stage, ec_config = Inr demo_config, ec_client = Some (\<lambda>_ _. Inr (demo_answer (1 / 4))),
      ec_http = (\<lambda>_ _. Inl (other_exn ''HTTPError'' [])), ec_aead = demo_aead,
      ec_manager = Inr (local_key_manager demo_aead (\<lambda>b. b) (replicate 32 7)),
      ec_rnd = \<lparr>rnd_dek = replicate 32 1, rnd_nonce = replicate 12 2, rnd_wrap = replicate 12 3\<rparr>,
      ec_json_loads = (\<lambda>_. None), ec_money = (\<lambda>_. ''5.00''), ec_announced = True, ec_started = 100, ec_clock = 200,
      ec_run_id = ''er_1''\<rparr>"

definition demo_source :: "string \<Rightarrow> source_item" where
  "demo_source i =
     \<lparr>si_id = i, si_user = ''u'', si_source = ''src'', si_title = ''t'', si_text = ''preview'', si_state = SiPending,
      si_error = None, si_received_at = 1, si_integrated_at = None, si_links = [''http://example.com/a''],
      si_external_id = None, si_enrich_status = None, si_article_url = None, si_enrich_domain = None,
      si_enrich_error = None, si_enriched_at = None, si_original_text = None, si_label_synced_at = None, si_label_error = None,
      si_label_attempted_at = None\<rparr>"

definition demo_inbox :: "dom sys" where
  "demo_inbox =
     \<lparr>sys_jobs = \<lparr>rows = [], next_id = 0\<rparr>, sys_heartbeats = Map.empty,
      sys_dom = demo_sites\<lparr>source_items := [demo_source ''s'']\<rparr>\<rparr>"

definition demo_enrich_payload :: payload where
  "demo_enrich_payload =
     [(''source_item_id'', JStr ''s''), (''domain'', JStr ''example.com''),
      (''candidate_urls'', JList [JStr ''http://example.com/a'']), (''deliberate'', JBool True)]"

definition demo_request :: enrich_request where
  "demo_request =
     \<lparr>rq_item_id = ''s'', rq_title = ''t'', rq_preview_text = ''preview'', rq_candidate_urls = [''http://example.com/a''],
      rq_site = \<lparr>lg_domain = ''example.com'', lg_username = None, lg_password = None\<rparr>, rq_mcp_servers = [],
      rq_browser_state = None, rq_caps = \<lparr>rc_max_usd = Num (1 / 2), rc_max_tool_calls = 40, rc_timeout_seconds = 600\<rparr>\<rparr>"

lemma demo_payload_facts:
  "payload_string ''source_item_id'' demo_enrich_payload = Some ''s''"
  "payload_text r ''domain'' demo_enrich_payload = ''example.com''" "payload_text r ''connector_id'' demo_enrich_payload = []"
  "candidate_urls demo_enrich_payload = Inr [''http://example.com/a'']"
  by (simp_all add: payload_string_def payload_text_def demo_enrich_payload_def py_str_of_def candidate_urls_def py_iter_def
      py_strip_def py_isspace_def)

lemma demo_inbox_facts:
  "get_source_item ''s'' (sys_dom demo_inbox) = Some (demo_source ''s'')"
  "list_connectors ''u'' (sys_dom demo_inbox) = [demo_connector ''cn_1'' SiteConnector ''example.com'' None]"
  "browser_states (sys_dom demo_inbox) = []" "enrich_runs (sys_dom demo_inbox) = []"
  by (simp_all add: get_source_item_def demo_inbox_def demo_source_def list_connectors_def demo_sites_def demo_connector_def
      empty_dom_def)

lemma demo_request_built:
  "build_request demo_enrich (demo_source ''s'') demo_enrich_payload ''example.com'' demo_config (sys_dom demo_inbox) = Inr demo_request"
proof -
  have "mcp_in_scope ''example.com'' (demo_connector ''cn_1'' SiteConnector ''example.com'' None) = False"
    by (simp add: mcp_in_scope_def demo_connector_def)
  then have "mcp_servers demo_enrich km ''u'' ''example.com'' (sys_dom demo_inbox) = Inr []" for km
    by (simp add: mcp_servers_def demo_inbox_facts)
  moreover have "load_browser_state A km ''u'' ''example.com'' (sys_dom demo_inbox) = Inr None" for A km
    by (simp add: load_browser_state_def demo_inbox_facts)
  moreover have "caps demo_config = Inr \<lparr>rc_max_usd = Num (1 / 2), rc_max_tool_calls = 40, rc_timeout_seconds = 600\<rparr>"
    by (simp add: caps_def demo_config_def positive_def)
  moreover have "ec_manager demo_enrich = Inr (local_key_manager demo_aead (\<lambda>b. b) (replicate 32 7))"
    by (simp add: demo_enrich_def)
  moreover have "si_user (demo_source ''s'') = ''u''" "si_id (demo_source ''s'') = ''s''" "si_title (demo_source ''s'') = ''t''"
    "si_text (demo_source ''s'') = ''preview''"
    by (simp_all add: demo_source_def)
  ultimately show ?thesis
    by (simp add: build_request_def demo_payload_facts raises_def site_credential_def unless_vault_error_def demo_request_def)
qed

lemma demo_allowed: "site_still_allowed demo_config ''u'' ''example.com'' (sys_dom demo_inbox)"
proof -
  have "domain_matches ''example.com'' ''example.com''" by code_simp
  then show ?thesis
    by (simp add: site_still_allowed_def enrichment_sites_def demo_inbox_facts demo_config_def) (simp add: demo_connector_def site_domain_def or_empty_def)
qed

lemma demo_gate_any:
  assumes "sys_dom s = sys_dom demo_inbox"
  shows "enrich_gate demo_enrich demo_enrich_payload s
     = Inr (Start (demo_source ''s'') ''example.com'' demo_request (\<lambda>_ _. Inr (demo_answer (1 / 4))))"
proof -
  have it: "si_state (demo_source ''s'') = SiPending" "si_enrich_status (demo_source ''s'') = None" "si_user (demo_source ''s'') = ''u''"
    by (simp_all add: demo_source_def)
  have c: "ec_config demo_enrich = Inr demo_config"
    "context_client demo_enrich demo_config = Some (\<lambda>_ _. Inr (demo_answer (1 / 4)))"
    "cf_max_usd_per_day demo_config = Num 5"
    by (simp_all add: demo_enrich_def context_client_def demo_config_def)
  have "spend_since t u (sys_dom demo_inbox) = 0" for t u by (simp add: spend_since_def demo_inbox_facts)
  then show ?thesis
    by (simp add: enrich_gate_def assms require_Inr [THEN iffD2, OF demo_payload_facts(1)] demo_inbox_facts it FINISHED_STATES_def
        gate_after_state_def c demo_payload_facts raises_def Let_def demo_allowed demo_request_built cap_spent_def)
qed

lemmas demo_gate = demo_gate_any [OF refl]

definition demo_enrich_job :: job where
  "demo_enrich_job =
     \<lparr>job_id = 7, job_queue = ENRICH, job_payload = demo_enrich_payload, job_attempts = 1, job_key = Some ''u'', job_committed = None\<rparr>"

definition demo_after :: "dom sys" where
  "demo_after = enrich_answer demo_enrich (demo_source ''s'') ''example.com'' (Inr (demo_answer (1 / 4))) demo_enrich_payload
     (announced (demo_source ''s'') demo_inbox)"

lemma demo_handled: "handle_enrich demo_enrich demo_inbox demo_enrich_payload = Inr (demo_after, [])"
proof -
  have "ec_announced demo_enrich" by (simp add: demo_enrich_def)
  then show ?thesis by (simp add: handle_enrich_def demo_gate demo_after_def)
qed

lemma demo_article_ok: "article_ok (demo_answer q)" "py_strip demo_article = demo_article"
proof -
  have "\<not> py_isspace CHR ''x''" by (simp add: py_isspace_def)
  then show "py_strip demo_article = demo_article"
    by (simp add: py_strip_def demo_article_def dropWhile_replicate)
  then show "article_ok (demo_answer q)"
    by (simp add: article_ok_def demo_answer_def or_empty_def MIN_ARTICLE_CHARS_def) (simp add: demo_article_def)
qed

theorem enrichment_never_loses_item_witness:
  "case execute 100 200 (handle_enrich demo_enrich) [ENRICH \<mapsto> record_enrich_failure demo_enrich] demo_enrich_job demo_inbox of
     Inl _ \<Rightarrow> False
   | Inr (out, s', after) \<Rightarrow> out = Completed
       \<and> work_of (sys_jobs s') = [(INTEGRATE, [(''source_item_id'', JStr ''s''), (''deliberate'', JBool True), (''enriched'', JBool True)], Some ''u'')]
       \<and> map_option si_original_text (get_source_item ''s'' (sys_dom s')) = Some (Some ''preview'')"
proof -
  have j: "job_committed demo_enrich_job = None" "job_queue demo_enrich_job = ENRICH" "job_payload demo_enrich_job = demo_enrich_payload"
    by (simp_all add: demo_enrich_job_def)
  obtain s' where ex: "execute 100 200 (handle_enrich demo_enrich) [ENRICH \<mapsto> record_enrich_failure demo_enrich] demo_enrich_job demo_inbox
      = Inr (Completed, s', [])" and dom: "sys_dom s' = sys_dom demo_after"
    by (simp add: execute_def j demo_handled)
  have empty: "work_of (sys_jobs demo_inbox) = []" by (simp add: work_of_def demo_inbox_def)
  have it: "si_state (demo_source ''s'') = SiPending" "si_user (demo_source ''s'') = ''u''" "si_id (demo_source ''s'') = ''s''"
    "si_original_text (demo_source ''s'') = None" "si_text (demo_source ''s'') = ''preview''" "si_enrich_status (demo_source ''s'') = None"
    by (simp_all add: demo_source_def)
  have body: "integrate_body ''s'' (Some demo_enrich_payload) False True
      = [(''source_item_id'', JStr ''s''), (''deliberate'', JBool True), (''enriched'', JBool True)]"
    by (simp add: integrate_body_def demo_enrich_payload_def DELIBERATE_KEY_def ENRICHED_KEY_def)
  have "map_option si_original_text (get_source_item ''s'' (sys_dom demo_after)) = Some (Some ''preview'')"
    by (simp add: demo_after_def enrich_answer_def apply_result_def demo_article_ok Let_def it get_source_item_marks
        announced_def demo_inbox_facts)
  moreover have "work_of (sys_jobs s') = [(INTEGRATE, integrate_body ''s'' (Some demo_enrich_payload) False True, Some ''u'')]"
    using enrichment_never_loses_item [OF ex j(1,2), of demo_enrich "''s''" "demo_source ''s''"] demo_payload_facts(1)
      demo_inbox_facts(1) it(1,2) by (simp add: j(3) empty)
  ultimately show ?thesis by (simp add: ex dom body)
qed

section \<open>The daily cap\<close>

lemma numeric6_mono: "0 \<le> x \<Longrightarrow> x \<le> y \<Longrightarrow> numeric6 x \<le> numeric6 y"
  by (simp add: numeric6_def Let_def divide_right_mono floor_mono)

lemma numeric6_0 [simp]: "numeric6 0 = 0"
  by (simp add: numeric6_def floor_eq_iff)

lemma spend_since_run [simp]:
  "spend_since now u (record_enrich_run r d) = spend_since now u d
     + (if run_user r = u \<and> now - secs 86400 < run_started_at r then numeric6 (run_cost_usd r) else 0)"
  by (simp add: spend_since_def record_enrich_run_def)

lemma spend_since_cong: "enrich_runs d = enrich_runs d' \<Longrightarrow> spend_since now u d = spend_since now u d'"
  by (simp add: spend_since_def)

lemma spend_since_marks [simp]:
  "spend_since now u (mark_enrichment_running i d) = spend_since now u d"
  "spend_since now u (mark_enrichment_finished i st e d) = spend_since now u d"
  "spend_since now u (apply_enriched_article t i url a d) = spend_since now u d"
  "spend_since now u (keep_browser_state c v dm r d) = spend_since now u d"
  by (auto simp: mark_enrichment_running_def mark_enrichment_finished_def apply_enriched_article_def update_source_item_def
      keep_browser_state_def store_browser_state_def Let_def intro!: spend_since_cong split: option.split sum.split
      elim!: and_then_InrE)

lemma declined_spend [simp]: "spend_since now u (sys_dom (declined c it dm m st p s)) = spend_since now u (sys_dom s)"
  by (simp add: declined_def blank_run_def)

lemma enrich_answer_spend:
  "spend_since now u (sys_dom (enrich_answer c it dm a p s)) = spend_since now u (sys_dom s)
     + (case a of Inr r \<Rightarrow> if si_user it = u \<and> now - secs 86400 < ec_started c then numeric6 (an_cost_usd r) else 0 | Inl _ \<Rightarrow> 0)"
  by (simp add: enrich_answer_def apply_result_def Let_def run_of_def split: sum.split)

text \<open>C36: The daily cap is never passed by more than one run. Whatever an \<open>enrich\<close> job does, for every user
  the spend of the rolling day is left as it was, or it was below the cap and grows by at most the largest
  amount one run costs, rounded as the column rounds it. The hypothesis on the agent is the bound its
  service promises for one run.\<close>

theorem daily_cap_bounds_spend:
  assumes "handle_enrich c s p = Inr (s', after)" and "ec_config c = Inr cf" and "cf_max_usd_per_day cf = Num cap"
    and agent: "\<And>f rq r. context_client c cf = Some f \<Longrightarrow> f rq (rq_caps rq) = Inr r \<Longrightarrow> 0 \<le> an_cost_usd r \<and> an_cost_usd r \<le> m"
  defines "spent \<equiv> spend_since (pl_now (ec_pl c))"
  shows "spent u (sys_dom s') = spent u (sys_dom s)
    \<or> spent u (sys_dom s) < cap \<and> spent u (sys_dom s') \<le> spent u (sys_dom s) + numeric6 m"
proof -
  from assms(1) obtain g where g: "enrich_gate c p s = Inr g"
    and rest: "(case g of Settled s' \<Rightarrow> Inr (s', []) | Start it dm rq f \<Rightarrow>
        if ec_announced c then Inr (enrich_answer c it dm (f rq (rq_caps rq)) p (announced it s), [])
        else Inr (declined c it dm ''could not record that a run had started, so no run was started'' RunFailed p s, []))
      = (Inr (s', after) :: exn + _)"
    unfolding handle_enrich_def by (rule and_then_InrE)
  from g obtain i it where i: "payload_string ''source_item_id'' p = Some i" and it: "get_source_item i (sys_dom s) = Some it"
    by (auto simp: enrich_gate_def require_Inr elim!: and_then_InrE split: option.splits)
  show ?thesis
  proof (cases "si_state it = SiPending")
    case False
    with g i it have "g = Settled s" by (auto simp: enrich_gate_def require_Inr elim!: and_then_InrE)
    with rest show ?thesis by simp
  next
    case True
    from g i it True show ?thesis
    proof (cases rule: enrich_gate_cases)
      case replay
      with rest show ?thesis by (auto simp: spent_def)
    next
      case (declined' dm msg st)
      with rest show ?thesis by (auto simp: spent_def)
    next
      case (start dm rq f cf')
      with assms(2,3) have cf: "context_client c cf = Some f" and below: "spent (si_user it) (sys_dom s) < cap"
        by (simp_all add: cap_spent_def spent_def)
      show ?thesis
      proof (cases "ec_announced c")
        case True
        with rest start have s': "s' = enrich_answer c it dm (f rq (rq_caps rq)) p (announced it s)" by simp
        have "spent u (sys_dom (announced it s)) = spent u (sys_dom s)" by (simp add: announced_def spent_def)
        with agent [OF cf, of rq] below numeric6_mono [of _ m] show ?thesis
          by (auto simp: s' spent_def enrich_answer_spend split: sum.split)
      next
        case False
        with rest start show ?thesis by (auto simp: spent_def)
      qed
    qed
  qed
qed

theorem daily_cap_bounds_spend_witness:
  "case handle_enrich demo_enrich demo_inbox demo_enrich_payload of
     Inl _ \<Rightarrow> False
   | Inr (s', _) \<Rightarrow> spend_since 100 ''u'' (sys_dom demo_inbox) = 0 \<and> spend_since 100 ''u'' (sys_dom s') = 1 / 4
       \<and> spend_since 100 ''u'' (sys_dom s') \<le> numeric6 (1 / 2)"
proof -
  have c: "ec_config demo_enrich = Inr demo_config" "cf_max_usd_per_day demo_config = Num 5" "pl_now (ec_pl demo_enrich) = 100"
    by (simp_all add: demo_enrich_def demo_config_def demo_stage_def)
  have agent: "0 \<le> an_cost_usd r \<and> an_cost_usd r \<le> 1 / 2"
    if "context_client demo_enrich demo_config = Some f" "f rq (rq_caps rq) = Inr r" for f rq r
    using that by (auto simp: context_client_def demo_enrich_def demo_answer_def)
  have zero: "spend_since 100 ''u'' (sys_dom demo_inbox) = 0" by (simp add: spend_since_def demo_inbox_facts)
  have "spend_since 100 ''u'' (sys_dom demo_after) = numeric6 (1 / 4)"
    by (simp add: demo_after_def enrich_answer_spend announced_def zero demo_source_def demo_enrich_def demo_answer_def secs_def)
  moreover have "numeric6 (1 / 4) = (1 / 4 :: rat)" by (simp add: numeric6_def)
  moreover have "spend_since 100 ''u'' (sys_dom demo_after) = spend_since 100 ''u'' (sys_dom demo_inbox)
      \<or> spend_since 100 ''u'' (sys_dom demo_inbox) < 5
        \<and> spend_since 100 ''u'' (sys_dom demo_after) \<le> spend_since 100 ''u'' (sys_dom demo_inbox) + numeric6 (1 / 2)"
    by (rule daily_cap_bounds_spend [OF demo_handled c(1,2), unfolded c(3)]) (rule agent)
  then have "spend_since 100 ''u'' (sys_dom demo_after) \<le> numeric6 (1 / 2)"
    using zero by (auto simp: numeric6_def)
  ultimately show ?thesis by (simp add: demo_handled zero)
qed


section \<open>What a run may open\<close>

text \<open>A text is what a sealed record holds: opened under the associated data of its own row.\<close>

definition holds_secret :: "aead \<Rightarrow> key_manager \<Rightarrow> vault_exn + bytes \<Rightarrow> sealed_secret option \<Rightarrow> string \<Rightarrow> bool" where
  "holds_secret A km ad sealed t \<longleftrightarrow>
     (\<exists>x b p. sealed = Some x \<and> ad = Inr b \<and> open_sealed A km x b = Inr p \<and> utf8_decode p = Some t)"

lemma load_connector_secret_holds:
  assumes "load_connector_secret A km i d = Inr (Some t)"
  obtains r where "r \<in> set (connectors d)" "cn_id r = i"
    "holds_secret A km (connector_aad (cn_user r) i (cn_kind r)) (cn_sealed r) t"
proof -
  from assms obtain r where r: "find (\<lambda>c. cn_id c = i) (connectors d) = Some r"
    and "holds_secret A km (connector_aad (cn_user r) i (cn_kind r)) (cn_sealed r) t"
    by (auto simp: load_connector_secret_def holds_secret_def decode_text_def split: option.splits elim!: and_then_InrE)
  with find_SomeD [OF r] that show thesis by blast
qed

lemma mcp_loop_servers:
  assumes "mcp_loop c km dm d rs = Inr ms" and "m \<in> set ms"
  obtains r t where "r \<in> set rs" "mcp_in_scope dm r" "ms_name m = server_slug (cn_id r)" "cn_url r = Some (ms_url m)"
    "mcp_access_token c km (cn_id r) d = Inr (Some (ms_access_token m))"
  using assms
proof (induction rs arbitrary: ms thesis)
  case Nil
  then show ?case by simp
next
  case (Cons r rs)
  show ?case
  proof (cases "\<exists>ms'. mcp_loop c km dm d rs = Inr ms' \<and> m \<in> set ms'")
    case True
    then show ?thesis using Cons.IH Cons.prems(1) by (metis list.set_intros(2))
  next
    case False
    with Cons.prems(2,3) show ?thesis
      by (intro Cons.prems(1) [of r]) (auto elim!: and_then_InrE split: if_splits sum.splits option.splits)
  qed
qed

lemma mcp_access_token_Some:
  assumes "mcp_access_token c km i d = Inr (Some token)"
  obtains t kvs a where "load_connector_secret (ec_aead c) km i d = Inr (Some t)" "ec_json_loads c t = Some (JObj kvs)"
    "map_of kvs ''access_token'' = Some a" "token = py_str_of (pl_repr (ec_pl c)) a"
  using assms by (auto simp: mcp_access_token_def elim!: and_then_InrE split: option.splits json.splits if_splits)



definition demo_km :: key_manager where
  "demo_km = local_key_manager demo_aead (\<lambda>b. b) (replicate 32 7)"

definition demo_ad :: bytes where
  "demo_ad = utf8 ''u:cn_1:site''"

definition demo_sealed :: sealed_secret where
  "demo_sealed =
     \<lparr>ss_ciphertext = ae_encrypt demo_aead (replicate 32 1) (replicate 12 2) (utf8 ''pw'') demo_ad,
      ss_nonce = replicate 12 2,
      ss_wrapped_dek = replicate 12 3 @ ae_encrypt demo_aead (replicate 32 7) (replicate 12 3) (replicate 32 1) demo_ad,
      ss_backend = km_backend demo_km, ss_key_name = km_key_name demo_km\<rparr>"

definition demo_vaulted :: dom where
  "demo_vaulted = demo_sites\<lparr>connectors := [demo_connector ''cn_1'' SiteConnector ''example.com'' (Some demo_sealed)]\<rparr>"

definition demo_login_payload :: payload where
  "demo_login_payload = (''connector_id'', JStr ''cn_1'') # demo_enrich_payload"

lemma demo_password:
  "load_connector_secret demo_aead demo_km ''cn_1'' demo_vaulted = Inr (Some ''pw'')"
proof -
  have "seal demo_aead demo_km (replicate 32 1) (replicate 12 2) (replicate 12 3) (utf8 ''pw'') demo_ad = Inr demo_sealed"
    by (simp add: seal_def demo_sealed_def demo_km_def local_key_manager_def utf8_def utf8_char_def)
  then have "open_sealed demo_aead demo_km demo_sealed demo_ad = Inr (utf8 ''pw'')"
    unfolding demo_km_def by (intro sealed_opens demo_aead_laws) (simp_all add: NONCE_BYTES_def)
  moreover have "connector_aad ''u'' ''cn_1'' SiteConnector = Inr demo_ad"
    by (simp add: connector_aad_def aad_Inr ambiguous_def demo_ad_def)
  ultimately show ?thesis
    by (simp add: load_connector_secret_def demo_vaulted_def demo_connector_def decode_text_def from_vault_def)
qed



end
