(* ===== verification/Integrate.thy ===== *)
theory Integrate
  imports Enrichment
begin

text \<open>
  Dedup and what leads to it: \<open>handle_integrate\<close> of \<open>workers/src/motet_workers/handlers.py\<close> with its title
  backstop and decision record, the held items of \<open>db/src/motet_db/repo.py\<close> that wait for their owner,
  \<open>enqueue_paste\<close> and \<open>enqueue_integration\<close>, and \<open>schedule\<close> of \<open>workers/src/motet_workers/labels.py\<close>. The
  integrator (\<open>pl_integrate\<close>) and the label write-back, an after-commit step, are arguments. The last
  section is the inbox as a state machine: requests, enrichment runs that can die at any moment, and
  integration, over one database.
\<close>

section \<open>Dedup's decision\<close>

definition normalize_title :: "string \<Rightarrow> string" where
  "normalize_title t = py_casefold (py_join '' '' (py_split t))"

definition merge_target ::
  "integration_result \<Rightarrow> stored_news_item list \<Rightarrow> string option \<times> string \<times> string"
where
  "merge_target result window =
     (let n = ir_news_item result; proposed = normalize_title (nd_title n)
      in if ir_merged result then (Some (nd_id n), nd_title n, nd_summary n)
         else case (if proposed = [] then None
                    else find (\<lambda>x. ni_read_at (st_item x) = None \<and> normalize_title (ni_title (st_item x)) = proposed) window) of
                None \<Rightarrow> (None, nd_title n, nd_summary n)
              | Some twin \<Rightarrow> (Some (ni_id (st_item twin)), ni_title (st_item twin), ni_summary (st_item twin)))"

definition decision_record ::
  "integration_result \<Rightarrow> bool \<Rightarrow> string \<Rightarrow> string \<Rightarrow> dedup_decision_record"
where
  "decision_record result backstop title summary =
     \<lparr>dd_relation = map_option de_relation (ir_decision result),
      dd_reason = (case ir_decision result of None \<Rightarrow> None | Some d \<Rightarrow> or_none (de_reason d)),
      dd_candidate = (case ir_decision result of None \<Rightarrow> None | Some d \<Rightarrow> de_candidate d),
      dd_model = map_option de_model (ir_decision result),
      dd_basis = (if backstop then ''title_backstop''
                  else if (case ir_decision result of None \<Rightarrow> False | Some d \<Rightarrow> de_second_look d \<noteq> None)
                  then ''second_look'' else ''first_pass''),
      dd_title = title, dd_summary = summary\<rparr>"

section \<open>The handler\<close>

definition get_source :: "string \<Rightarrow> dom \<Rightarrow> source_row option" where
  "get_source i d = find (\<lambda>r. so_id r = i) (source_rows d)"

text \<open>\<open>labels.schedule\<close>: the step is registered for a deliberate ingest from a Gmail source with label
  settings. \<open>payload.get(DELIBERATE_KEY) is not True\<close> asks for the value itself.\<close>

definition schedule :: "(string \<Rightarrow> dom step) \<Rightarrow> source_item \<Rightarrow> payload \<Rightarrow> dom \<Rightarrow> dom step list" where
  "schedule write_back it p d =
     (if map_of p DELIBERATE_KEY \<noteq> Some (JBool True) then []
      else case get_source (si_source it) d of
             None \<Rightarrow> []
           | Some r \<Rightarrow>
               if so_kind r \<noteq> ''gmail'' \<or> label_settings_from_config (so_config r) = None then []
               else [write_back (si_id it)])"

definition fold_in ::
  "pipeline \<Rightarrow> source_item \<Rightarrow> string option \<Rightarrow> string \<Rightarrow> string \<Rightarrow> dom \<Rightarrow> py_error + dom"
where
  "fold_in pl it into title summary d =
     (case into of
        Some n \<Rightarrow> merge_source_into_news_item (pl_now pl) n (si_id it) title summary d
      | None \<Rightarrow> insert_news_item (pl_now pl) (pl_news_id pl) (si_user it) title summary (si_id it) d)"

definition integrate_into ::
  "pipeline \<Rightarrow> source_item \<Rightarrow> integration_result \<Rightarrow> stored_news_item list \<Rightarrow> dom \<Rightarrow> py_error + dom"
where
  "integrate_into pl it result window d =
     (case merge_target result window of
        (into, title, summary) \<Rightarrow>
          and_then (fold_in pl it into title summary d) (\<lambda>d1.
            Inr (mark_source_item (pl_now pl) (si_id it) SiIntegrated None
                   (record_dedup_decision (pl_now pl) (si_id it)
                      (decision_record result (into \<noteq> None \<and> \<not> ir_merged result) title summary) d1))))"

definition handle_integrate :: "(string \<Rightarrow> dom step) \<Rightarrow> pipeline \<Rightarrow> dom handler" where
  "handle_integrate write_back pl s p =
     and_then (require (pl_repr pl) ''source_item_id'' p) (\<lambda>i.
     case get_source_item i (sys_dom s) of
       None \<Rightarrow> Inl (permanent (''source item '' @ i @ '' no longer exists''))
     | Some it \<Rightarrow>
         if si_state it = SiIntegrated \<or> si_state it = SiDismissed then Inr (s, [])
         else let window = news_item_window (pl_now pl) (si_user it) WINDOW_MAX_ITEMS (sys_dom s)
              in and_then (pl_integrate pl (as_source_item it) (map as_news_item window)) (\<lambda>result.
                 and_then (raises (integrate_into pl it result window (sys_dom s))) (\<lambda>d.
                 Inr (on_dom d s, schedule write_back it p d))))"

definition source_item_failed :: "pipeline \<Rightarrow> dom recorder" where
  "source_item_failed pl p e s =
     (case payload_string ''source_item_id'' p of
        Some i \<Rightarrow> on_dom (mark_source_item (pl_now pl) i SiFailed (Some (take 2000 e)) (sys_dom s)) s
      | None \<Rightarrow> s)"

section \<open>Held items\<close>

text \<open>\<open>payload ->> 'source_item_id'\<close>. The text of a nested value or of a fraction is not modelled: no id is
  such a text.\<close>

definition json_text :: "json \<Rightarrow> string option" where
  "json_text v =
     (case v of JStr s \<Rightarrow> Some s | JInt n \<Rightarrow> Some (py_str n) | JBool b \<Rightarrow> Some (if b then ''true'' else ''false'')
      | _ \<Rightarrow> None)"

definition item_job :: "string \<Rightarrow> queue \<times> payload \<times> string option \<Rightarrow> bool" where
  "item_job i w \<longleftrightarrow>
     fst w \<in> {INTEGRATE, ENRICH}
     \<and> (case map_of (fst (snd w)) ''source_item_id'' of Some v \<Rightarrow> json_text v = Some i | None \<Rightarrow> False)"

definition held :: "string \<Rightarrow> jobs_db \<Rightarrow> source_item \<Rightarrow> bool" where
  "held user jobs it \<longleftrightarrow>
     si_user it = user \<and> si_state it = SiPending \<and> \<not> (\<exists>w \<in> set (work_of jobs). item_job (si_id it) w)"

record held_source_item =
  hs_id :: string
  hs_title :: string
  hs_source_id :: string
  hs_source_kind :: string
  hs_source_name :: string
  hs_received_at :: time
  hs_chars :: int
  hs_preview :: string

definition HELD_PREVIEW_CHARS :: nat where "HELD_PREVIEW_CHARS = 200"
definition HELD_MAX_ITEMS :: nat where "HELD_MAX_ITEMS = 500"

text \<open>\<open>regexp_replace(t, '\s+', ' ', 'g')\<close>.\<close>

definition pg_space :: "char \<Rightarrow> bool" where
  "pg_space c \<longleftrightarrow> (let n = of_char c :: nat in 9 \<le> n \<and> n \<le> 13 \<or> n = 32)"

fun collapse_spaces :: "bool \<Rightarrow> string \<Rightarrow> string" where
  "collapse_spaces inside [] = []"
| "collapse_spaces inside (c # cs) =
     (if pg_space c then (if inside then [] else '' '') @ collapse_spaces True cs else c # collapse_spaces False cs)"

definition held_order :: "source_item \<Rightarrow> time \<times> string" where
  "held_order it = (si_received_at it, si_id it)"

definition list_held_source_items :: "string \<Rightarrow> dom sys \<Rightarrow> held_source_item list" where
  "list_held_source_items user s =
     take HELD_MAX_ITEMS
       (concat (map (\<lambda>it. case get_source (si_source it) (sys_dom s) of
             None \<Rightarrow> []
           | Some src \<Rightarrow>
               [\<lparr>hs_id = si_id it, hs_title = si_title it, hs_source_id = si_source it, hs_source_kind = so_kind src,
                 hs_source_name = so_name src, hs_received_at = si_received_at it, hs_chars = int (length (si_text it)),
                 hs_preview = py_strip (take HELD_PREVIEW_CHARS (collapse_spaces False (take (HELD_PREVIEW_CHARS * 4) (si_text it))))\<rparr>])
          (sort_key held_order (filter (held user (sys_jobs s)) (source_items (sys_dom s))))))"

definition claim_held_source_items :: "string \<Rightarrow> string list \<Rightarrow> dom sys \<Rightarrow> string list" where
  "claim_held_source_items user ids s =
     (if ids = [] then []
      else map si_id (sort_key held_order
             (filter (\<lambda>it. si_id it \<in> set (py_unique ids) \<and> held user (sys_jobs s) it) (source_items (sys_dom s)))))"

definition dismiss_held_source_items :: "string \<Rightarrow> string list \<Rightarrow> dom sys \<Rightarrow> string list \<times> dom sys" where
  "dismiss_held_source_items user ids s =
     (if ids = [] then ([], s)
      else let hit = (\<lambda>it. si_id it \<in> set (py_unique ids) \<and> held user (sys_jobs s) it)
           in (map si_id (filter hit (source_items (sys_dom s))),
               on_dom ((sys_dom s)\<lparr>source_items := update_where hit (\<lambda>it. it\<lparr>si_state := SiDismissed\<rparr>) (source_items (sys_dom s))\<rparr>) s))"

section \<open>Asking for integration\<close>

definition PASTE_SOURCE_ID :: string where "PASTE_SOURCE_ID = ''src_paste''"

definition enqueue_paste :: "pipeline \<Rightarrow> string \<Rightarrow> string \<Rightarrow> string \<Rightarrow> string \<Rightarrow> dom sys \<Rightarrow> py_error + dom sys" where
  "enqueue_paste pl new_id user title t s =
     and_then (insert_source_item (pl_now pl) new_id user PASTE_SOURCE_ID title t (merge_links [find_links t]) (sys_dom s))
       (\<lambda>d. Inr (enqueue_job pl INTEGRATE [(''source_item_id'', JStr new_id)] (Some user) (on_dom d s)))"

definition ingest_item ::
  "(string \<Rightarrow> bool) \<Rightarrow> enrich_ctx \<Rightarrow> enrich_config \<Rightarrow> connector list \<Rightarrow> (string \<rightharpoonup> string list) \<Rightarrow> string
   \<Rightarrow> string \<Rightarrow> dom sys \<Rightarrow> dom sys"
where
  "ingest_item ok c cf sites links user i s =
     (case plan_enrichment ok cf sites (case links i of Some ls \<Rightarrow> ls | None \<Rightarrow> []) of
        None \<Rightarrow> enqueue_integrate_job (ec_pl c) user i None True False s
      | Some t \<Rightarrow> enqueue_enrichment (ec_pl c) user i t [(DELIBERATE_KEY, JBool True)] s)"

definition enqueue_integration ::
  "(string \<Rightarrow> bool) \<Rightarrow> enrich_ctx \<Rightarrow> string \<Rightarrow> string list \<Rightarrow> dom sys \<Rightarrow> py_error + string list \<times> dom sys"
where
  "enqueue_integration ok c user ids s =
     (let claimed = claim_held_source_items user ids s
      in and_then (ec_config c) (\<lambda>cf.
           let sites = enrichment_sites cf user (sys_dom s);
               links = (if sites = [] then Map.empty else source_item_links_for claimed (sys_dom s))
           in Inr (claimed, fold (ingest_item ok c cf sites links user) claimed s)))"

section \<open>A held item moves once\<close>

text \<open>The job a claim writes: on one of the two queues, naming the item, under the owner's key, deliberate.\<close>

definition ingest_work :: "string \<Rightarrow> string \<Rightarrow> queue \<times> payload \<times> string option \<Rightarrow> bool" where
  "ingest_work user i w \<longleftrightarrow>
     fst w \<in> {INTEGRATE, ENRICH} \<and> map_of (fst (snd w)) ''source_item_id'' = Some (JStr i)
     \<and> map_of (fst (snd w)) DELIBERATE_KEY = Some (JBool True) \<and> snd (snd w) = Some user"

lemma ingest_work_item_job: "ingest_work user i w \<Longrightarrow> item_job i w"
  by (simp add: ingest_work_def item_job_def json_text_def)

definition item_core :: "dom \<Rightarrow> (string \<times> string \<times> source_item_state) list" where
  "item_core d = map (\<lambda>r. (si_id r, si_user r, si_state r)) (source_items d)"

lemma item_core_update:
  "(\<And>r. si_id (f r) = si_id r \<and> si_user (f r) = si_user r \<and> si_state (f r) = si_state r)
   \<Longrightarrow> item_core (update_source_item i f d) = item_core d"
  by (simp add: item_core_def update_source_item_def map_update_where)

lemma item_core_marks [simp]:
  "item_core (mark_enrichment_queued i u dm d) = item_core d" "item_core (mark_enrichment_running i d) = item_core d"
  "item_core (mark_enrichment_finished i st e d) = item_core d" "item_core (apply_enriched_article t i u a d) = item_core d"
  "item_core (record_enrich_run run d) = item_core d"
  by (simp_all add: mark_enrichment_queued_def mark_enrichment_running_def mark_enrichment_finished_def
      apply_enriched_article_def item_core_update) (simp add: item_core_def record_enrich_run_def)

lemma held_core: "(\<exists>it \<in> set (source_items d). si_id it = i \<and> held user jobs it)
    \<longleftrightarrow> (i, user, SiPending) \<in> set (item_core d) \<and> \<not> (\<exists>w \<in> set (work_of jobs). item_job i w)"
  by (auto simp: item_core_def held_def)

lemma claim_held_set:
  "set (claim_held_source_items user ids s) =
     {i \<in> set ids. (i, user, SiPending) \<in> set (item_core (sys_dom s)) \<and> \<not> (\<exists>w \<in> set (work_of (sys_jobs s)). item_job i w)}"
  by (auto simp: claim_held_source_items_def item_core_def held_def image_iff)

lemma distinct_map_sort_key: "distinct (map f (sort_key k xs)) \<longleftrightarrow> distinct (map f xs)"
  by (metis mset_eq_imp_distinct_iff mset_map mset_sort)

lemma claim_held_distinct: "distinct (map si_id (source_items (sys_dom s))) \<Longrightarrow> distinct (claim_held_source_items user ids s)"
  by (simp add: claim_held_source_items_def distinct_map_sort_key distinct_map_filter)

lemma enrich_payload_fields:
  "map_of (enrich_payload i t [(DELIBERATE_KEY, JBool True)]) ''source_item_id'' = Some (JStr i)"
  "map_of (enrich_payload i t [(DELIBERATE_KEY, JBool True)]) DELIBERATE_KEY = Some (JBool True)"
  by (simp_all add: enrich_payload_def map_of_dict_update DELIBERATE_KEY_def)

lemma integrate_body_fields:
  "map_of (integrate_body i p True e) ''source_item_id'' = Some (JStr i)"
  "map_of (integrate_body i p True e) DELIBERATE_KEY = Some (JBool True)"
  "map_of (integrate_body i p b e) ''source_item_id'' = Some (JStr i)"
  by (simp_all add: integrate_body_def DELIBERATE_KEY_def)

lemma ingest_item_effect:
  "\<exists>w. work_of (sys_jobs (ingest_item ok c cf sites links user i s)) = work_of (sys_jobs s) @ [w] \<and> ingest_work user i w"
  "item_core (sys_dom (ingest_item ok c cf sites links user i s)) = item_core (sys_dom s)"
  by (auto simp: ingest_item_def enqueue_integrate_job_def enqueue_enrichment_def ingest_work_def integrate_body_fields
      enrich_payload_fields split: option.split)

lemma ingest_items_effect:
  "\<exists>ws. work_of (sys_jobs (fold (ingest_item ok c cf sites links user) is s)) = work_of (sys_jobs s) @ ws
     \<and> list_all2 (ingest_work user) is ws"
  "item_core (sys_dom (fold (ingest_item ok c cf sites links user) is s)) = item_core (sys_dom s)"
proof (induction "is" arbitrary: s)
  case (Cons i "is")
  {
    case 1
    obtain w where "work_of (sys_jobs (ingest_item ok c cf sites links user i s)) = work_of (sys_jobs s) @ [w]" "ingest_work user i w"
      using ingest_item_effect(1) by blast
    with Cons.IH(1) [of "ingest_item ok c cf sites links user i s"] show ?case
      by (fastforce simp: list_all2_Cons1)
  next
    case 2
    show ?case using Cons.IH(2) [of "ingest_item ok c cf sites links user i s"] by (simp add: ingest_item_effect)
  }
qed simp_all

text \<open>C22: A held item leaves the held list once. An \<open>ingest now\<close> request takes exactly those of its ids that
  are the caller's own, still pending and without a job, each once; for each it writes one job, on the
  enrichment or the integration queue, naming the item, deliberate, under the owner's key, and no other
  job. From then on no request, by anyone, over any ids, claims or dismisses one of them while that job is
  there. And what a dismiss request takes it takes from the same set, and no later claim gets it.\<close>

theorem held_items_move_once:
  assumes "distinct (map si_id (source_items (sys_dom s)))"
  shows "(case enqueue_integration ok c user ids s of
      Inl _ \<Rightarrow> True
    | Inr (claimed, s') \<Rightarrow>
        distinct claimed
        \<and> set claimed = {i \<in> set ids. \<exists>it \<in> set (source_items (sys_dom s)). si_id it = i \<and> held user (sys_jobs s) it}
        \<and> (\<exists>ws. work_of (sys_jobs s') = work_of (sys_jobs s) @ ws \<and> list_all2 (ingest_work user) claimed ws)
        \<and> (\<forall>user' ids'. set claimed \<inter> set (claim_held_source_items user' ids' s') = {}
              \<and> set claimed \<inter> set (fst (dismiss_held_source_items user' ids' s')) = {}))
    \<and> (case dismiss_held_source_items user ids s of (gone, s') \<Rightarrow>
        set gone = {i \<in> set ids. \<exists>it \<in> set (source_items (sys_dom s)). si_id it = i \<and> held user (sys_jobs s) it}
        \<and> sys_jobs s' = sys_jobs s \<and> (\<forall>user' ids'. set gone \<inter> set (claim_held_source_items user' ids' s') = {}))"
    (is "?claims \<and> ?dismisses")
proof -
  have dismiss_set: "set (fst (dismiss_held_source_items u is t)) = {i \<in> set is. (i, u, SiPending) \<in> set (item_core (sys_dom t))
      \<and> \<not> (\<exists>w \<in> set (work_of (sys_jobs t)). item_job i w)}" for u "is" t
    by (auto simp: dismiss_held_source_items_def Let_def item_core_def held_def image_iff)
  have ?claims
  proof (cases "ec_config c")
    case (Inl e)
    then show ?thesis by (simp add: enqueue_integration_def Let_def)
  next
    case (Inr cf)
    define claimed where "claimed = claim_held_source_items user ids s"
    define sites where "sites = enrichment_sites cf user (sys_dom s)"
    define links where "links = (if sites = [] then Map.empty else source_item_links_for claimed (sys_dom s))"
    define s' where "s' = fold (ingest_item ok c cf sites links user) claimed s"
    have r: "enqueue_integration ok c user ids s = Inr (claimed, s')"
      using Inr by (simp add: enqueue_integration_def Let_def claimed_def sites_def links_def s'_def)
    obtain ws where ws: "work_of (sys_jobs s') = work_of (sys_jobs s) @ ws" "list_all2 (ingest_work user) claimed ws"
      using ingest_items_effect(1) unfolding s'_def by blast
    have "\<exists>w \<in> set (work_of (sys_jobs s')). item_job i w" if "i \<in> set claimed" for i
      using list_all2_mem [OF ws(2) that] ingest_work_item_job unfolding ws(1) set_append by blast
    then have "set claimed \<inter> set (claim_held_source_items user' ids' s') = {}
        \<and> set claimed \<inter> set (fst (dismiss_held_source_items user' ids' s')) = {}" for user' ids'
      by (auto simp: claim_held_set dismiss_set)
    moreover have "set claimed = {i \<in> set ids. \<exists>it \<in> set (source_items (sys_dom s)). si_id it = i \<and> held user (sys_jobs s) it}"
      by (simp add: claimed_def claim_held_set held_core)
    ultimately show ?thesis
      using claim_held_distinct [OF assms, of user ids] ws by (auto simp: r claimed_def)
  qed
  moreover have ?dismisses
  proof -
    define gone where "gone = fst (dismiss_held_source_items user ids s)"
    define s' where "s' = snd (dismiss_held_source_items user ids s)"
    have "(i, u, SiPending) \<notin> set (item_core (sys_dom s'))" if "i \<in> set gone" for i u
    proof
      assume "(i, u, SiPending) \<in> set (item_core (sys_dom s'))"
      then obtain it where it: "it \<in> set (source_items (sys_dom s))" "si_id it = i"
          "\<not> (si_id it \<in> set ids \<and> held user (sys_jobs s) it)"
        using that by (auto simp: s'_def gone_def dismiss_held_source_items_def item_core_def Let_def set_update_where
            split: if_splits)
      moreover from that obtain it' where "it' \<in> set (source_items (sys_dom s))" "si_id it' = i" "i \<in> set ids"
          "held user (sys_jobs s) it'"
        by (auto simp: gone_def dismiss_set item_core_def held_def)
      moreover from this it assms have "it = it'" by (auto simp: distinct_map inj_on_def)
      ultimately show False by simp
    qed
    then have "set gone \<inter> set (claim_held_source_items user' ids' s') = {}" for user' ids'
      by (auto simp: claim_held_set)
    moreover have "sys_jobs s' = sys_jobs s" by (auto simp: s'_def dismiss_held_source_items_def Let_def)
    moreover have "set gone = {i \<in> set ids. \<exists>it \<in> set (source_items (sys_dom s)). si_id it = i \<and> held user (sys_jobs s) it}"
      by (simp add: gone_def dismiss_set held_core)
    moreover have "dismiss_held_source_items user ids s = (gone, s')" by (simp add: gone_def s'_def)
    ultimately show ?thesis by simp
  qed
  ultimately show ?thesis by blast
qed

theorem held_items_move_once_witness:
  "distinct (map si_id (source_items (sys_dom demo_inbox)))
   \<and> (case enqueue_integration (\<lambda>_. True) demo_enrich ''u'' [''s'', ''z'', ''s''] demo_inbox of
        Inl _ \<Rightarrow> False
      | Inr (claimed, s') \<Rightarrow> claimed = [''s''] \<and> claim_held_source_items ''u'' [''s''] s' = [])"
proof -
  have items: "source_items (sys_dom demo_inbox) = [demo_source ''s'']" and si: "si_id (demo_source ''s'') = ''s''"
    and held: "held ''u'' (sys_jobs demo_inbox) (demo_source ''s'')"
    by (simp_all add: demo_inbox_def demo_source_def held_def work_of_def)
  have dist: "distinct (map si_id (source_items (sys_dom demo_inbox)))" by (simp add: items)
  have "ec_config demo_enrich = Inr demo_config" by (simp add: demo_enrich_def)
  then obtain claimed s' where r: "enqueue_integration (\<lambda>_. True) demo_enrich ''u'' [''s'', ''z'', ''s''] demo_inbox = Inr (claimed, s')"
    by (auto simp: enqueue_integration_def Let_def)
  note once = conjunct1 [OF held_items_move_once [OF dist, where ok = "\<lambda>_. True" and c = demo_enrich and user = "''u''"
      and ids = "[''s'', ''z'', ''s'']"], unfolded r sum.case prod.case items]
  have c1: "distinct claimed" using once by (rule conjunct1)
  have "set claimed = {i \<in> set [''s'', ''z'', ''s'']. \<exists>it \<in> set [demo_source ''s'']. si_id it = i \<and> held ''u'' (sys_jobs demo_inbox) it}"
    using once by (elim conjE)
  also have "\<dots> = {''s''}" using si held by auto
  finally have c: "distinct claimed" "set claimed = {''s''}" using c1 by simp_all
  have none: "set claimed \<inter> set (claim_held_source_items ''u'' [''s''] s') = {}"
    using once by (elim conjE) blast
  from c have "claimed = [''s'']" by (cases claimed) (auto simp: subset_singleton_iff)
  moreover have none_left: "X = {}" if "C \<inter> X = {}" "C = {a}" "X \<subseteq> {a}" for X C and a :: string
    using that by blast
  have "set (claim_held_source_items ''u'' [''s''] s') \<subseteq> {''s''}" unfolding claim_held_set by auto
  then have "set (claim_held_source_items ''u'' [''s''] s') = {}" by (rule none_left [OF none c(2)])
  ultimately have "claimed = [''s''] \<and> claim_held_source_items ''u'' [''s''] s' = []" by simp
  then show ?thesis using dist r by simp
qed

section \<open>Integration happens once\<close>

text \<open>The link row one integration writes, and the news items it leaves.\<close>

definition new_link :: "source_item \<Rightarrow> string \<Rightarrow> int \<Rightarrow> dedup_decision_record \<Rightarrow> time \<Rightarrow> news_item_source" where
  "new_link it n pos dec now = \<lparr>ln_news_item = n, ln_source_item = si_id it, ln_position = pos, ln_decision = Some (dec, now)\<rparr>"

definition fresh_news :: "pipeline \<Rightarrow> string \<Rightarrow> string \<Rightarrow> string \<Rightarrow> news_item" where
  "fresh_news pl user title summary =
     \<lparr>ni_id = pl_news_id pl, ni_user = user, ni_title = title, ni_summary = summary, ni_read_at = None,
      ni_created_at = pl_now pl, ni_updated_at = pl_now pl\<rparr>"

lemma fold_in_Inr:
  assumes "fold_in pl it into title summary d = Inr d'"
  shows "source_items d' = source_items d \<and> source_rows d' = source_rows d
    \<and> si_id it \<notin> ln_source_item ` set (news_item_sources d)
    \<and> (case into of
        None \<Rightarrow> pl_news_id pl \<notin> ni_id ` set (news_items d)
          \<and> news_items d' = news_items d @ [fresh_news pl (si_user it) title summary]
          \<and> news_item_sources d' = news_item_sources d @ [\<lparr>ln_news_item = pl_news_id pl, ln_source_item = si_id it,
                ln_position = 0, ln_decision = None\<rparr>]
      | Some n \<Rightarrow> n \<in> ni_id ` set (news_items d)
          \<and> news_items d' = update_where (\<lambda>r. ni_id r = n)
                (\<lambda>r. r\<lparr>ni_title := title, ni_summary := summary, ni_updated_at := pl_now pl\<rparr>) (news_items d)
          \<and> news_item_sources d' = news_item_sources d @ [\<lparr>ln_news_item = n, ln_source_item = si_id it,
                ln_position = next_position n d, ln_decision = None\<rparr>])"
proof (cases into)
  case None
  with assms have new: "pl_news_id pl \<notin> ni_id ` set (news_items d)"
    and l: "link_source (pl_news_id pl) (si_id it) 0 (d\<lparr>news_items := news_items d @ [fresh_news pl (si_user it) title summary]\<rparr>) = Inr d'"
    by (auto simp: fold_in_def insert_news_item_def fresh_news_def split: if_splits)
  from link_source_Inr [OF l] new None show ?thesis by simp
next
  case (Some n)
  with assms obtain d1 where l: "link_source n (si_id it) (next_position n d) d = Inr d1"
    and d': "d' = d1\<lparr>news_items := update_where (\<lambda>r. ni_id r = n)
                (\<lambda>r. r\<lparr>ni_title := title, ni_summary := summary, ni_updated_at := pl_now pl\<rparr>) (news_items d1)\<rparr>"
    by (auto simp: fold_in_def merge_source_into_news_item_def split: sum.splits)
  from link_source_Inr [OF l] Some d' show ?thesis by simp
qed

lemma integrate_into_Inr:
  assumes "integrate_into pl it result window d = Inr d'" and "merge_target result window = (into, title, summary)"
  obtains d1 where "fold_in pl it into title summary d = Inr d1"
    and "d' = mark_source_item (pl_now pl) (si_id it) SiIntegrated None
           (record_dedup_decision (pl_now pl) (si_id it)
              (decision_record result (into \<noteq> None \<and> \<not> ir_merged result) title summary) d1)"
  using assms by (auto simp: integrate_into_def elim!: and_then_InrE)

lemma handle_integrate_Inr:
  assumes "handle_integrate wb pl s p = Inr (s', after)"
  obtains i it where "payload_string ''source_item_id'' p = Some i" "get_source_item i (sys_dom s) = Some it"
    "si_state it \<in> {SiIntegrated, SiDismissed} \<and> s' = s \<and> after = []
     \<or> si_state it \<in> {SiPending, SiFailed} \<and> (\<exists>window result d.
          window = news_item_window (pl_now pl) (si_user it) WINDOW_MAX_ITEMS (sys_dom s)
          \<and> pl_integrate pl (as_source_item it) (map as_news_item window) = Inr result
          \<and> integrate_into pl it result window (sys_dom s) = Inr d
          \<and> s' = on_dom d s \<and> after = schedule wb it p d)"
proof -
  from assms obtain i where i: "payload_string ''source_item_id'' p = Some i"
    by (auto simp: handle_integrate_def require_Inr elim!: and_then_InrE)
  then have r: "require (pl_repr pl) ''source_item_id'' p = Inr i" by (simp add: require_Inr)
  with assms obtain it where it: "get_source_item i (sys_dom s) = Some it"
    by (auto simp: handle_integrate_def split: option.splits)
  have st: "si_state it \<in> {SiPending, SiFailed}" if "si_state it \<noteq> SiIntegrated" "si_state it \<noteq> SiDismissed"
    using that by (cases "si_state it") simp_all
  show thesis
    using assms st
    by (intro that [OF i it]) (auto simp: handle_integrate_def r it Let_def elim!: and_then_InrE split: if_splits)
qed

lemma marked_integrated:
  "get_source_item k (mark_source_item now i st e d) = map_option (\<lambda>r. if si_id r = i then
     r\<lparr>si_state := st, si_error := e, si_integrated_at := (if st = SiIntegrated then Some now else si_integrated_at r)\<rparr> else r)
     (get_source_item k d)"
  by (simp add: get_source_item_def mark_source_item_def find_update_where)

lemma update_where_none: "(\<And>r. r \<in> set rs \<Longrightarrow> \<not> p r) \<Longrightarrow> update_where p f rs = rs"
  by (simp add: update_where_def map_idI)

lemma next_position_above:
  assumes "l \<in> set (news_item_sources d)" and "ln_news_item l = n"
  shows "ln_position l < next_position n d"
proof -
  define ps where "ps = map ln_position (filter (\<lambda>l. ln_news_item l = n) (news_item_sources d))"
  have m: "ln_position l \<in> set ps" using assms by (auto simp: ps_def)
  then obtain q qs where ps: "ps = q # qs" by (cases ps) auto
  have "ln_position l \<le> Max (set (q # qs))" using m by (simp only: ps) (rule Max_ge, simp_all)
  also have "Max (set (q # qs)) = fold max qs q" by (rule Max.set_eq_fold)
  finally show ?thesis using ps by (simp add: next_position_def ps_def)
qed

text \<open>The news item an integration writes: an old one with new copy, the link at its end, or a new one.\<close>

definition folded_in :: "pipeline \<Rightarrow> source_item \<Rightarrow> dom \<Rightarrow> dom \<Rightarrow> string \<Rightarrow> dedup_decision_record \<Rightarrow> bool" where
  "folded_in pl it d d' n dec \<longleftrightarrow>
     n \<in> ni_id ` set (news_items d)
       \<and> news_items d' = update_where (\<lambda>r. ni_id r = n) (\<lambda>r. r\<lparr>ni_title := dd_title dec, ni_summary := dd_summary dec,
             ni_updated_at := pl_now pl\<rparr>) (news_items d)
       \<and> (\<exists>pos. news_item_sources d' = news_item_sources d @ [new_link it n pos dec (pl_now pl)]
            \<and> (\<forall>l \<in> set (news_item_sources d). ln_news_item l = n \<longrightarrow> ln_position l < pos))
     \<or> n = pl_news_id pl \<and> n \<notin> ni_id ` set (news_items d)
       \<and> news_items d' = news_items d @ [fresh_news pl (si_user it) (dd_title dec) (dd_summary dec)]
       \<and> news_item_sources d' = news_item_sources d @ [new_link it n 0 dec (pl_now pl)]"

lemma integrate_into_effect:
  assumes "integrate_into pl it result window d = Inr d'"
  shows "(\<exists>n dec. folded_in pl it d d' n dec) \<and> si_id it \<notin> ln_source_item ` set (news_item_sources d)
    \<and> source_items d' = update_where (\<lambda>r. si_id r = si_id it)
        (\<lambda>r. r\<lparr>si_state := SiIntegrated, si_error := None, si_integrated_at := Some (pl_now pl)\<rparr>) (source_items d)"
proof -
  obtain into title summary where m: "merge_target result window = (into, title, summary)"
    by (cases "merge_target result window") auto
  define dec where "dec = decision_record result (into \<noteq> None \<and> \<not> ir_merged result) title summary"
  have dec: "dd_title dec = title" "dd_summary dec = summary" by (simp_all add: dec_def decision_record_def)
  obtain d1 where f: "fold_in pl it into title summary d = Inr d1"
    and d': "d' = mark_source_item (pl_now pl) (si_id it) SiIntegrated None (record_dedup_decision (pl_now pl) (si_id it) dec d1)"
    using integrate_into_Inr [OF assms m] unfolding dec_def by blast
  note eff = fold_in_Inr [OF f]
  have links: "update_where (\<lambda>l. ln_source_item l = si_id it) f (news_item_sources d @ [x])
      = news_item_sources d @ [if ln_source_item x = si_id it then f x else x]" for f x
    by (simp add: update_where_def) (use eff in \<open>auto intro!: map_idI simp: image_iff\<close>)
  have items: "news_items d' = news_items d1"
    "news_item_sources d' = update_where (\<lambda>l. ln_source_item l = si_id it) (\<lambda>l. l\<lparr>ln_decision := Some (dec, pl_now pl)\<rparr>)
       (news_item_sources d1)"
    by (simp_all add: d' mark_source_item_def record_dedup_decision_def)
  have "folded_in pl it d d' (case into of None \<Rightarrow> pl_news_id pl | Some n \<Rightarrow> n) dec"
  proof (cases into)
    case None
    with eff have "news_items d' = news_items d @ [fresh_news pl (si_user it) title summary]"
      "news_item_sources d' = news_item_sources d @ [new_link it (pl_news_id pl) 0 dec (pl_now pl)]"
      "pl_news_id pl \<notin> ni_id ` set (news_items d)"
      by (simp_all add: items links new_link_def)
    with None dec show ?thesis by (simp add: folded_in_def)
  next
    case (Some n)
    with eff have "news_items d' = update_where (\<lambda>r. ni_id r = n)
          (\<lambda>r. r\<lparr>ni_title := title, ni_summary := summary, ni_updated_at := pl_now pl\<rparr>) (news_items d)"
      "news_item_sources d' = news_item_sources d @ [new_link it n (next_position n d) dec (pl_now pl)]"
      "n \<in> ni_id ` set (news_items d)"
      by (simp_all add: items links new_link_def)
    moreover have "\<forall>l \<in> set (news_item_sources d). ln_news_item l = n \<longrightarrow> ln_position l < next_position n d"
      by (simp add: next_position_above)
    ultimately show ?thesis using Some dec by (simp add: folded_in_def) blast
  qed
  moreover have "source_items d' = update_where (\<lambda>r. si_id r = si_id it)
        (\<lambda>r. r\<lparr>si_state := SiIntegrated, si_error := None, si_integrated_at := Some (pl_now pl)\<rparr>) (source_items d)"
    using eff by (simp add: d' mark_source_item_def record_dedup_decision_def)
  ultimately show ?thesis using eff by blast
qed

lemma get_source_item_id: "get_source_item i d = Some it \<Longrightarrow> si_id it = i"
  by (auto simp: get_source_item_def dest: find_SomeD)

lemma handle_integrate_settled:
  assumes "payload_string ''source_item_id'' p = Some i" and "get_source_item i (sys_dom s) = Some it"
    and "si_state it \<in> {SiIntegrated, SiDismissed}"
  shows "handle_integrate wb pl s p = Inr (s, [])"
proof -
  from assms(1) have "require (pl_repr pl) ''source_item_id'' p = Inr i" by (simp add: require_Inr)
  with assms(2,3) show ?thesis by (auto simp: handle_integrate_def)
qed

lemma integrated_once_items:
  assumes "handle_integrate wb pl s p = Inr (s', after)" and "payload_string ''source_item_id'' p = Some i"
    and "get_source_item i (sys_dom s) = Some it"
  shows "si_state it \<in> {SiIntegrated, SiDismissed} \<and> s' = s \<and> after = []
    \<or> si_state it \<in> {SiPending, SiFailed} \<and> sys_jobs s' = sys_jobs s
      \<and> i \<notin> ln_source_item ` set (news_item_sources (sys_dom s))
      \<and> (\<exists>n dec. folded_in pl it (sys_dom s) (sys_dom s') n dec)
      \<and> source_items (sys_dom s') = update_where (\<lambda>r. si_id r = i)
          (\<lambda>r. r\<lparr>si_state := SiIntegrated, si_error := None, si_integrated_at := Some (pl_now pl)\<rparr>) (source_items (sys_dom s))"
proof -
  note id = get_source_item_id [OF assms(3)]
  from assms consider "si_state it \<in> {SiIntegrated, SiDismissed} \<and> s' = s \<and> after = []"
    | result window d where "si_state it \<in> {SiPending, SiFailed}"
        "integrate_into pl it result window (sys_dom s) = Inr d" "s' = on_dom d s"
    by (elim handle_integrate_Inr) auto
  then show ?thesis
  proof cases
    case 2
    with integrate_into_effect [OF 2(2), unfolded id] show ?thesis by simp
  qed simp
qed

text \<open>C9: A source item is integrated once. When the integrate job of an item returns, either the item was
  already integrated or dismissed and nothing changed; or it had no link before and now has exactly one,
  with dedup's decision and the copy it wrote recorded on it; the item is marked integrated at that
  moment, and every other item and link is as it was. The item joined an existing news item, whose title
  and summary are the new copy and where it comes after all its earlier sources, or it opened an unread news
  item of its owner under the fresh id; all other news items are as they were. No job is added, and running
  the job again, with any integrator, changes nothing more.\<close>

theorem integrated_once:
  assumes "handle_integrate wb pl s p = Inr (s', after)" and "payload_string ''source_item_id'' p = Some i"
    and "get_source_item i (sys_dom s) = Some it"
  shows "(si_state it \<in> {SiIntegrated, SiDismissed} \<and> s' = s \<and> after = [])
    \<or> (si_state it \<in> {SiPending, SiFailed}
        \<and> i \<notin> ln_source_item ` set (news_item_sources (sys_dom s))
        \<and> (\<exists>n dec. folded_in pl it (sys_dom s) (sys_dom s') n dec)
        \<and> source_items (sys_dom s') = update_where (\<lambda>r. si_id r = i)
             (\<lambda>r. r\<lparr>si_state := SiIntegrated, si_error := None, si_integrated_at := Some (pl_now pl)\<rparr>) (source_items (sys_dom s))
        \<and> sys_jobs s' = sys_jobs s
        \<and> handle_integrate wb' pl' s' p = Inr (s', []))"
  using integrated_once_items [OF assms]
proof (elim disjE conjE)
  assume st: "si_state it \<in> {SiPending, SiFailed}" and items: "source_items (sys_dom s') = update_where (\<lambda>r. si_id r = i)
      (\<lambda>r. r\<lparr>si_state := SiIntegrated, si_error := None, si_integrated_at := Some (pl_now pl)\<rparr>) (source_items (sys_dom s))"
    and rest: "sys_jobs s' = sys_jobs s" "i \<notin> ln_source_item ` set (news_item_sources (sys_dom s))"
      "\<exists>n dec. folded_in pl it (sys_dom s) (sys_dom s') n dec"
  have "get_source_item i (sys_dom s') = map_option (\<lambda>r. if si_id r = i then r\<lparr>si_state := SiIntegrated,
      si_error := None, si_integrated_at := Some (pl_now pl)\<rparr> else r) (get_source_item i (sys_dom s))"
    by (simp add: items get_source_item_def find_update_where)
  then have "get_source_item i (sys_dom s') = Some (it\<lparr>si_state := SiIntegrated, si_error := None,
      si_integrated_at := Some (pl_now pl)\<rparr>)" by (simp add: assms(3) get_source_item_id [OF assms(3)])
  then have "handle_integrate wb' pl' s' p = Inr (s', [])" using assms(2) by (simp add: handle_integrate_settled)
  with st items rest show ?thesis by simp
qed simp

definition demo_integrate :: payload where
  "demo_integrate = [(''source_item_id'', JStr ''s'')]"

lemma demo_integrates:
  "\<exists>d. handle_integrate (\<lambda>_. Pair None) demo_stage demo_inbox demo_integrate = Inr (on_dom d demo_inbox, [])"
proof -
  define result where "result = \<lparr>ir_news_item = \<lparr>nd_id = ''new'', nd_title = ''t'', nd_summary = ''preview'', nd_source_ids = [''s'']\<rparr>,
      ir_merged = False, ir_decision = None\<rparr>"
  have it: "si_state (demo_source ''s'') = SiPending" "si_id (demo_source ''s'') = ''s''" "si_source (demo_source ''s'') = ''src''"
    by (simp_all add: demo_source_def)
  have items: "source_items (sys_dom demo_inbox) = [demo_source ''s'']" by (simp add: demo_inbox_def)
  have none: "news_items (sys_dom demo_inbox) = []" "news_item_sources (sys_dom demo_inbox) = []" "source_rows (sys_dom demo_inbox) = []"
    by (simp_all add: demo_inbox_def demo_sites_def empty_dom_def)
  have p: "require r ''source_item_id'' demo_integrate = Inr ''s''" for r
    by (simp add: require_Inr demo_integrate_def payload_string_def)
  have i: "pl_integrate demo_stage (as_source_item (demo_source ''s'')) w = Inr result" for w
    by (simp add: demo_stage_def as_source_item_def demo_source_def result_def)
  have "\<exists>d. integrate_into demo_stage (demo_source ''s'') result [] (sys_dom demo_inbox) = Inr d"
    by (simp add: integrate_into_def merge_target_def Let_def result_def fold_in_def insert_news_item_def link_source_def none items)
  then obtain d where d: "integrate_into demo_stage (demo_source ''s'') result [] (sys_dom demo_inbox) = Inr d" by blast
  have w: "news_item_window t u n (sys_dom demo_inbox) = []" for t u n by (simp add: news_item_window_def attach_sources_def none)
  have "schedule wb (demo_source ''s'') demo_integrate d = []" for wb :: "string \<Rightarrow> dom step"
    by (simp add: schedule_def demo_integrate_def DELIBERATE_KEY_def)
  then have "handle_integrate (\<lambda>_. Pair None) demo_stage demo_inbox demo_integrate = Inr (on_dom d demo_inbox, [])"
    by (simp add: handle_integrate_def p demo_inbox_facts it Let_def w i d raises_def)
  then show ?thesis by blast
qed

theorem integrated_once_witness:
  "\<exists>s'. handle_integrate (\<lambda>_. Pair None) demo_stage demo_inbox demo_integrate = Inr (s', [])
     \<and> source_items (sys_dom s') = [(demo_source ''s'')\<lparr>si_state := SiIntegrated, si_error := None,
                                       si_integrated_at := Some (pl_now demo_stage)\<rparr>]
     \<and> handle_integrate (\<lambda>_. Pair None) demo_stage s' demo_integrate = Inr (s', [])"
proof -
  obtain s' where s': "handle_integrate (\<lambda>_. Pair None) demo_stage demo_inbox demo_integrate = Inr (s', [])"
    using demo_integrates by blast
  have p: "payload_string ''source_item_id'' demo_integrate = Some ''s''"
    by (simp add: demo_integrate_def payload_string_def)
  have it: "si_state (demo_source ''s'') = SiPending" "si_id (demo_source ''s'') = ''s''" 
    "source_items (sys_dom demo_inbox) = [demo_source ''s'']"
    by (simp_all add: demo_source_def demo_inbox_def)
  from integrated_once [OF s' p demo_inbox_facts(1), where wb' = "\<lambda>_. Pair None" and pl' = demo_stage] s'
  show ?thesis by (simp add: it update_where_def)
qed

end
