(* ===== verification/Mailbox.thy ===== *)
theory Mailbox
  imports Integrate
begin

text \<open>
  A connected mailbox: the \<open>sources\<close> and \<open>source_credentials\<close> statements of \<open>db/src/motet_db/phase2.py\<close>, and
  what \<open>workers/src/motet_workers/ingest.py\<close> does before it reads or writes one: the access token
  (\<open>_access_token\<close>, \<open>mint_token\<close>) and the check that a new grant reaches the mailbox the source is
  (\<open>mailbox_check_due\<close>, \<open>check_mailbox\<close>). The mail service, the token service, the vault's cipher and
  the text form of a moment are arguments. A refresh is a network call: \<open>mx_meanwhile\<close> is what other
  transactions commit while it is under way. An exception carries no state: it leaves the transaction, which
  rolls back.
\<close>

section \<open>Sources\<close>

definition create_source :: "time \<Rightarrow> string \<Rightarrow> string \<Rightarrow> string \<Rightarrow> string \<Rightarrow> payload \<Rightarrow> dom \<Rightarrow> py_error + dom" where
  "create_source now new_id user kind name config d =
     (if new_id \<in> so_id ` set (source_rows d) then Inl (IntegrityError ''sources_pkey'')
      else Inr (d\<lparr>source_rows := source_rows d @
             [\<lparr>so_id = new_id, so_user = user, so_kind = kind, so_name = name, so_config = config, so_sync_state = [],
               so_active = True, so_last_polled_at = None, so_last_error = None, so_created_at = now,
               so_disconnected_at = None\<rparr>]\<rparr>))"

definition list_sources :: "string \<Rightarrow> dom \<Rightarrow> source_row list" where
  "list_sources user d = sort_key (\<lambda>r. (so_created_at r, so_id r)) (filter (\<lambda>r. so_user r = user) (source_rows d))"

definition list_pollable_sources :: "string \<Rightarrow> dom \<Rightarrow> source_row list" where
  "list_pollable_sources kind d = sort_key so_id (filter (\<lambda>r. so_kind r = kind \<and> so_active r) (source_rows d))"

definition update_source :: "string \<Rightarrow> (source_row \<Rightarrow> source_row) \<Rightarrow> dom \<Rightarrow> dom" where
  "update_source i f d = d\<lparr>source_rows := update_where (\<lambda>r. so_id r = i) f (source_rows d)\<rparr>"

definition set_source_sync_state :: "time \<Rightarrow> string \<Rightarrow> payload \<Rightarrow> string option \<Rightarrow> dom \<Rightarrow> dom" where
  "set_source_sync_state now i sync_state e =
     update_source i (\<lambda>r. r\<lparr>so_sync_state := sync_state, so_last_polled_at := Some now, so_last_error := e\<rparr>)"

definition set_source_active :: "string \<Rightarrow> bool \<Rightarrow> dom \<Rightarrow> dom" where
  "set_source_active i active = update_source i (\<lambda>r. r\<lparr>so_active := active\<rparr>)"

definition mark_source_disconnected :: "time \<Rightarrow> string \<Rightarrow> dom \<Rightarrow> dom" where
  "mark_source_disconnected now i =
     update_source i (\<lambda>r. r\<lparr>so_active := False,
       so_disconnected_at := Some (case so_disconnected_at r of Some t \<Rightarrow> t | None \<Rightarrow> now)\<rparr>)"

definition set_source_error :: "string \<Rightarrow> string option \<Rightarrow> dom \<Rightarrow> dom" where
  "set_source_error i e =
     update_source i (\<lambda>r. r\<lparr>so_last_error := (case e of None \<Rightarrow> None | Some m \<Rightarrow> if m = [] then None else Some (take 2000 m))\<rparr>)"

definition set_source_config_key :: "string \<Rightarrow> string \<Rightarrow> json option \<Rightarrow> dom \<Rightarrow> dom" where
  "set_source_config_key i key v =
     update_source i (\<lambda>r. r\<lparr>so_config := (case v of None \<Rightarrow> AList.delete key (so_config r) | Some x \<Rightarrow> dict_update (so_config r) [(key, x)])\<rparr>)"

definition merge_source_sync_state :: "string \<Rightarrow> string \<Rightarrow> json \<Rightarrow> dom \<Rightarrow> dom" where
  "merge_source_sync_state i key v = update_source i (\<lambda>r. r\<lparr>so_sync_state := dict_update (so_sync_state r) [(key, v)]\<rparr>)"

definition carry_source_sync_state_key :: "string \<Rightarrow> string \<Rightarrow> string \<Rightarrow> string \<Rightarrow> dom \<Rightarrow> dom" where
  "carry_source_sync_state_key i key old new =
     update_source i (\<lambda>r. if (case map_of (so_sync_state r) key of Some v \<Rightarrow> json_text v = Some old | None \<Rightarrow> False)
                          then r\<lparr>so_sync_state := dict_update (so_sync_state r) [(key, JStr new)]\<rparr> else r)"

section \<open>Credentials\<close>

definition PROVIDER :: string where "PROVIDER = ''gmail''"
definition REFRESH :: string where "REFRESH = ''refresh''"
definition ACCESS :: string where "ACCESS = ''access''"
definition GMAIL_READONLY_SCOPE :: string where "GMAIL_READONLY_SCOPE = ''https://www.googleapis.com/auth/gmail.readonly''"
definition GMAIL_MODIFY_SCOPE :: string where "GMAIL_MODIFY_SCOPE = ''https://www.googleapis.com/auth/gmail.modify''"

definition credential_of :: "string \<Rightarrow> string \<Rightarrow> credential \<Rightarrow> bool" where
  "credential_of src purpose c \<longleftrightarrow> cr_source c = src \<and> cr_purpose c = purpose"

definition get_source_credential :: "string \<Rightarrow> string \<Rightarrow> dom \<Rightarrow> credential option" where
  "get_source_credential src purpose d = find (credential_of src purpose) (credentials d)"

definition scopes_of :: "credential \<Rightarrow> string list" where
  "scopes_of c = (if cr_scopes c = [] then [] else py_split (cr_scopes c))"

definition EXPIRY_SKEW_SECONDS :: int where "EXPIRY_SKEW_SECONDS = 120"

definition expired_credential :: "time \<Rightarrow> credential \<Rightarrow> bool" where
  "expired_credential now c = (case cr_expires_at c of None \<Rightarrow> False | Some t \<Rightarrow> t \<le> now + secs EXPIRY_SKEW_SECONDS)"

text \<open>\<open>ON CONFLICT (source_id, purpose) DO UPDATE\<close>: the row keeps its id, user and provider.\<close>

definition store_source_credential ::
  "aead \<Rightarrow> key_manager \<Rightarrow> entropy \<Rightarrow> time \<Rightarrow> string \<Rightarrow> string \<Rightarrow> string \<Rightarrow> string \<Rightarrow> string \<Rightarrow> string \<Rightarrow> string list
   \<Rightarrow> time option \<Rightarrow> dom \<Rightarrow> vault_exn + dom"
where
  "store_source_credential A km rnd now new_id user src provider purpose secret scopes expires d =
     and_then (and_then (aad user src provider) (seal_text A km rnd secret)) (\<lambda>sealed.
       Inr (d\<lparr>credentials :=
         (if get_source_credential src purpose d = None
          then credentials d @ [\<lparr>cr_id = new_id, cr_user = user, cr_source = src, cr_provider = provider, cr_purpose = purpose,
                 cr_sealed = sealed, cr_scopes = py_join '' '' scopes, cr_expires_at = expires, cr_updated_at = now\<rparr>]
          else update_where (credential_of src purpose)
                 (\<lambda>c. c\<lparr>cr_sealed := sealed, cr_scopes := py_join '' '' scopes, cr_expires_at := expires, cr_updated_at := now\<rparr>)
                 (credentials d))\<rparr>))"

definition load_source_credential :: "aead \<Rightarrow> key_manager \<Rightarrow> string \<Rightarrow> string \<Rightarrow> dom \<Rightarrow> store_exn + string option" where
  "load_source_credential A km src purpose d =
     (case get_source_credential src purpose d of
        None \<Rightarrow> Inr None
      | Some c \<Rightarrow>
          and_then (from_vault (and_then (aad (cr_user c) (cr_source c) (cr_provider c)) (open_sealed A km (cr_sealed c))))
            (\<lambda>b. and_then (decode_text b) (\<lambda>t. Inr (Some t))))"

definition delete_source_credentials :: "string \<Rightarrow> dom \<Rightarrow> dom" where
  "delete_source_credentials src d = d\<lparr>credentials := filter (\<lambda>c. cr_source c \<noteq> src) (credentials d)\<rparr>"

section \<open>The services\<close>

text \<open>The errors of \<open>sources/src/motet_sources/interfaces.py\<close>, the queue's \<open>PermanentFailure\<close>, and anything
  else. \<open>SourceAuthError\<close> and \<open>StaleReferenceError\<close> are kinds of \<open>SourceError\<close>; a stale reference says
  which, the message, a label, or neither.\<close>

datatype mail_exn =
    SourceError string
  | SourceAuthError string
  | StaleReferenceError string string
  | Permanent string
  | OtherError exn

definition exn_of_mail :: "mail_exn \<Rightarrow> exn" where
  "exn_of_mail e =
     (case e of SourceError m \<Rightarrow> other_exn ''SourceError'' m | SourceAuthError m \<Rightarrow> other_exn ''SourceAuthError'' m
      | StaleReferenceError m _ \<Rightarrow> other_exn ''StaleReferenceError'' m | Permanent m \<Rightarrow> permanent m | OtherError x \<Rightarrow> x)"

definition mail_raises :: "mail_exn + 'a \<Rightarrow> exn + 'a" where
  "mail_raises r = (case r of Inl e \<Rightarrow> Inl (exn_of_mail e) | Inr x \<Rightarrow> Inr x)"

lemma mail_raises_Inr [simp]: "mail_raises r = Inr x \<longleftrightarrow> r = Inr x"
  by (simp add: mail_raises_def split: sum.split)

definition in_vault :: "vault_exn + 'a \<Rightarrow> mail_exn + 'a" where
  "in_vault r = (case r of Inl e \<Rightarrow> Inl (OtherError (exn_of_vault e)) | Inr x \<Rightarrow> Inr x)"

definition in_store :: "store_exn + 'a \<Rightarrow> mail_exn + 'a" where
  "in_store r = (case r of Inl e \<Rightarrow> Inl (OtherError (exn_of_store e)) | Inr x \<Rightarrow> Inr x)"

lemma in_simps [simp]: "in_vault (Inr x) = Inr x" "in_store (Inr y) = Inr y" "mail_raises (Inr z) = Inr z"
  by (simp_all add: in_vault_def in_store_def mail_raises_def)

lemma in_Inr [simp]: "in_vault r = Inr x \<longleftrightarrow> r = Inr x" "in_store q = Inr y \<longleftrightarrow> q = Inr y"
  by (simp_all add: in_vault_def in_store_def split: sum.split)

record mail_page =
  pg_messages :: "string list"
  pg_cursor :: "string option"
  pg_more :: bool
  pg_first_sync_days :: "int option"

record token_grant =
  tg_access_token :: string
  tg_expires_in_seconds :: int
  tg_scopes :: "string list"
  tg_refresh_token :: "string option"

text \<open>A mail client: what the service answers to the \<open>n\<close>-th call of a kind, \<open>n\<close> from 0, so that answers to equal
  calls may differ.\<close>

record mail_client =
  mc_list :: "nat \<Rightarrow> string \<Rightarrow> string option \<Rightarrow> int option \<Rightarrow> mail_exn + mail_page"
  mc_fetch :: "string \<Rightarrow> mail_exn + bytes"
  mc_labels :: "nat \<Rightarrow> mail_exn + label list"
  mc_address :: "mail_exn + string option"
  mc_modify :: "nat \<Rightarrow> string \<Rightarrow> string list \<Rightarrow> string list \<Rightarrow> mail_exn option"

record extracted_message =
  xm_title :: string
  xm_text :: string
  xm_date :: string
  xm_links :: "string list"

text \<open>What one run has: the transaction's clock, hashing and \<open>repr\<close> (\<open>mx_pl\<close>), this process's clock, the text form of a
  moment and its reading, the vault with the entropy of the run's sealings, the token service, what is
  committed during its answer, the client of a token, and \<open>extract_newsletter\<close>.\<close>

record mail_ctx =
  mx_pl :: pipeline
  mx_clock :: time
  mx_iso :: "time \<Rightarrow> string"
  mx_read :: "string \<Rightarrow> time option"
  mx_aead :: aead
  mx_manager :: "vault_exn + key_manager"
  mx_rnd :: "nat \<Rightarrow> entropy"
  mx_new_id :: "nat \<Rightarrow> string"
  mx_refresh :: "string \<Rightarrow> mail_exn + token_grant"
  mx_meanwhile :: "dom \<Rightarrow> dom"
  mx_client :: "string \<Rightarrow> mail_client"
  mx_extract :: "bytes \<Rightarrow> string + extracted_message"

section \<open>A token to read with\<close>

definition grant_stamp :: "mail_ctx \<Rightarrow> credential \<Rightarrow> string" where
  "grant_stamp mx c = mx_iso mx (cr_updated_at c)"

definition MAILBOX_ADDRESS_KEY :: string where "MAILBOX_ADDRESS_KEY = ''mailbox_address''"
definition MAILBOX_VERIFIED_FOR_KEY :: string where "MAILBOX_VERIFIED_FOR_KEY = ''mailbox_verified_for''"

definition no_refresh_credential :: "string \<Rightarrow> mail_exn" where
  "no_refresh_credential src = Permanent (''source '' @ src
     @ '' has no refresh credential, so it cannot be polled. The mailbox needs to be reconnected.'')"

definition recorded_scopes :: "credential \<Rightarrow> string list" where
  "recorded_scopes c = (if scopes_of c = [] then [GMAIL_READONLY_SCOPE] else scopes_of c)"

definition granted_scopes :: "credential \<Rightarrow> token_grant \<Rightarrow> string list" where
  "granted_scopes c g =
     (let both = filter (\<lambda>x. x \<in> set (recorded_scopes c)) (tg_scopes g) in if both = [] then recorded_scopes c else both)"

text \<open>The part of \<open>mint_token\<close> after the service has answered, on the database as it is then.\<close>

definition store_minted ::
  "mail_ctx \<Rightarrow> key_manager \<Rightarrow> string \<Rightarrow> string \<Rightarrow> credential \<Rightarrow> string \<Rightarrow> token_grant \<Rightarrow> dom \<Rightarrow> mail_exn + string \<times> dom"
where
  "store_minted mx km src user grant_row refresh_token g d =
     (let now = pl_now (mx_pl mx)
      in and_then (in_vault (store_source_credential (mx_aead mx) km (mx_rnd mx 0) now (mx_new_id mx 0) user src PROVIDER ACCESS
              (tg_access_token g) (granted_scopes grant_row g) (Some (mx_clock mx + secs (tg_expires_in_seconds g))) d)) (\<lambda>d1.
         (case tg_refresh_token g of
            None \<Rightarrow> Inr (grant_stamp mx grant_row, d1)
          | Some t \<Rightarrow>
              if t = [] \<or> t = refresh_token then Inr (grant_stamp mx grant_row, d1)
              else and_then (in_vault (store_source_credential (mx_aead mx) km (mx_rnd mx 1) now (mx_new_id mx 1) user src
                       PROVIDER REFRESH t (recorded_scopes grant_row) None d1)) (\<lambda>d2.
                     Inr (mx_iso mx now,
                          carry_source_sync_state_key src MAILBOX_VERIFIED_FOR_KEY (grant_stamp mx grant_row) (mx_iso mx now) d2)))))"

definition mint_token :: "mail_ctx \<Rightarrow> string \<Rightarrow> string \<Rightarrow> dom \<Rightarrow> mail_exn + string \<times> string \<times> dom" where
  "mint_token mx src user d =
     and_then (in_vault (mx_manager mx)) (\<lambda>km.
     and_then (in_store (load_source_credential (mx_aead mx) km src REFRESH d)) (\<lambda>token.
     case (get_source_credential src REFRESH d, token) of
       (Some grant_row, Some refresh_token) \<Rightarrow>
         if refresh_token = [] then Inl (no_refresh_credential src)
         else (case mx_refresh mx refresh_token of
             Inl (SourceAuthError m) \<Rightarrow> Inl (Permanent (''source '' @ src @ '' needs reconnecting: '' @ m))
           | Inl e \<Rightarrow> Inl e
           | Inr g \<Rightarrow>
               let d1 = mx_meanwhile mx d
               in if map_option cr_updated_at (get_source_credential src REFRESH d1) \<noteq> Some (cr_updated_at grant_row)
                  then Inl (SourceError (''source '' @ src @ (CHR 0x27 # ''s grant was replaced while a token was being minted from ''
                         @ ''the previous one; not storing it, and retrying with the new grant'')))
                  else and_then (store_minted mx km src user grant_row refresh_token g d1)
                         (\<lambda>(stamp, d2). Inr (tg_access_token g, stamp, d2)))
     | _ \<Rightarrow> Inl (no_refresh_credential src)))"

definition access_token ::
  "mail_ctx \<Rightarrow> string \<Rightarrow> string \<Rightarrow> string option \<Rightarrow> dom \<Rightarrow> mail_exn + string \<times> dom"
where
  "access_token mx src user required d =
     and_then (in_vault (mx_manager mx)) (\<lambda>km.
       let minted = and_then (mint_token mx src user d) (\<lambda>(token, _, d1). Inr (token, d1))
       in case get_source_credential src ACCESS d of
            Some c \<Rightarrow>
              if \<not> expired_credential (mx_clock mx) c \<and> (case required of None \<Rightarrow> True | Some x \<Rightarrow> x \<in> set (scopes_of c))
              then and_then (in_store (load_source_credential (mx_aead mx) km src ACCESS d)) (\<lambda>t.
                     case t of Some token \<Rightarrow> if token = [] then minted else Inr (token, d) | None \<Rightarrow> minted)
              else minted
          | None \<Rightarrow> minted)"

section \<open>Whether it is the same mailbox\<close>

text \<open>A key of \<open>sync_state\<close> that is a text with something in it.\<close>

definition state_text :: "string \<Rightarrow> payload \<Rightarrow> string option" where
  "state_text = payload_string"

definition mailbox_check_due :: "mail_ctx \<Rightarrow> source_row \<Rightarrow> dom \<Rightarrow> string option" where
  "mailbox_check_due mx r d =
     (case get_source_credential (so_id r) REFRESH d of
        None \<Rightarrow> None
      | Some grant \<Rightarrow>
          let stamp = grant_stamp mx grant
          in if state_text MAILBOX_ADDRESS_KEY (so_sync_state r) \<noteq> None
                \<and> map_of (so_sync_state r) MAILBOX_VERIFIED_FOR_KEY = Some (JStr stamp)
             then None else Some stamp)"

definition mismatch_reason :: "string \<Rightarrow> string \<Rightarrow> string" where
  "mismatch_reason address expected =
     ''this source was re-authorized with a different Gmail account ('' @ address @ '') than the one it was connected with (''
     @ expected @ ''), so it has been disconnected rather than read. Connect '' @ expected @ '' again from the Sources screen.''"

definition disconnect_source :: "time \<Rightarrow> string \<Rightarrow> string \<Rightarrow> dom \<Rightarrow> dom" where
  "disconnect_source now src reason d =
     set_source_error src (Some reason) (mark_source_disconnected now src (delete_source_credentials src d))"

text \<open>The reason the source was disconnected, if it was; else the keys to write.\<close>

definition check_mailbox ::
  "mail_ctx \<Rightarrow> source_row \<Rightarrow> mail_client \<Rightarrow> string \<Rightarrow> dom \<Rightarrow> mail_exn + (string option \<times> payload) \<times> dom"
where
  "check_mailbox mx r client stamp d =
     and_then (mc_address client) (\<lambda>answer.
       let address = or_empty answer
       in if address = []
          then Inl (SourceError (''Gmail did not say which mailbox source '' @ so_id r @ (CHR 0x27 # ''s grant reaches; not reading ''
                 @ ''or writing it until it does'')))
          else (case state_text MAILBOX_ADDRESS_KEY (so_sync_state r) of
                  Some expected \<Rightarrow>
                    if py_casefold address \<noteq> py_casefold expected
                    then let reason = mismatch_reason address expected
                         in Inr ((Some reason, []), disconnect_source (pl_now (mx_pl mx)) (so_id r) reason d)
                    else Inr ((None, [(MAILBOX_ADDRESS_KEY, JStr address), (MAILBOX_VERIFIED_FOR_KEY, JStr stamp)]), d)
                | None \<Rightarrow> Inr ((None, [(MAILBOX_ADDRESS_KEY, JStr address), (MAILBOX_VERIFIED_FOR_KEY, JStr stamp)]), d)))"

section \<open>Reading the rows back\<close>

lemma update_source_tables [simp]:
  "source_items (update_source i f d) = source_items d" "credentials (update_source i f d) = credentials d"
  "get_source_credential src purpose (update_source i f d) = get_source_credential src purpose d"
  by (simp_all add: update_source_def get_source_credential_def)

lemma get_credential_of: "get_source_credential src purpose d = Some c \<Longrightarrow> c \<in> set (credentials d) \<and> credential_of src purpose c"
  by (auto simp: get_source_credential_def dest: find_SomeD)

lemma store_source_credential_Inr:
  assumes "store_source_credential A km rnd now new_id user src provider purpose secret scopes expires d = Inr d'"
  obtains c where "get_source_credential src purpose d' = Some c" "cr_scopes c = py_join '' '' scopes" "cr_expires_at c = expires"
    "cr_updated_at c = now" "source_items d' = source_items d" "source_rows d' = source_rows d"
    "\<And>src' p'. (src', p') \<noteq> (src, purpose) \<Longrightarrow> get_source_credential src' p' d' = get_source_credential src' p' d"
proof -
  from assms obtain sealed where d': "d' = d\<lparr>credentials :=
         (if get_source_credential src purpose d = None
          then credentials d @ [\<lparr>cr_id = new_id, cr_user = user, cr_source = src, cr_provider = provider, cr_purpose = purpose,
                 cr_sealed = sealed, cr_scopes = py_join '' '' scopes, cr_expires_at = expires, cr_updated_at = now\<rparr>]
          else update_where (credential_of src purpose)
                 (\<lambda>c. c\<lparr>cr_sealed := sealed, cr_scopes := py_join '' '' scopes, cr_expires_at := expires, cr_updated_at := now\<rparr>)
                 (credentials d))\<rparr>"
    by (auto simp: store_source_credential_def elim!: and_then_InrE)
  define f where "f = (\<lambda>c. c\<lparr>cr_sealed := sealed, cr_scopes := py_join '' '' scopes, cr_expires_at := expires, cr_updated_at := now\<rparr>
      :: credential)"
  have keep: "credential_of s p (f c) = credential_of s p c" for s p c by (simp add: f_def credential_of_def)
  have append: "find P (xs @ ys) = (case find P xs of Some x \<Rightarrow> Some x | None \<Rightarrow> find P ys)" for P and xs ys :: "credential list"
    by (induction xs) auto
  show thesis
  proof (cases "get_source_credential src purpose d")
    case None
    then show ?thesis
      by (intro that) (auto simp: d' get_source_credential_def append credential_of_def split: option.split)
  next
    case (Some c)
    have g: "get_source_credential s p d' = map_option (\<lambda>c. if credential_of src purpose c then f c else c) (get_source_credential s p d)"
      for s p
      using Some by (simp add: d' get_source_credential_def find_update_where keep flip: f_def)
    show ?thesis
    proof (rule that)
      show "get_source_credential src purpose d' = Some (f c)"
        using Some get_credential_of [OF Some] by (simp add: g)
      show "get_source_credential s p d' = get_source_credential s p d" if "(s, p) \<noteq> (src, purpose)" for s p
        using that by (cases "get_source_credential s p d") (auto simp: g credential_of_def dest!: get_credential_of)
    qed (simp_all add: f_def d')
  qed
qed

lemma mint_token_Inr:
  assumes "mint_token mx src user d = Inr (token, stamp, d')"
  obtains km c rt g where "mx_manager mx = Inr km" "load_source_credential (mx_aead mx) km src REFRESH d = Inr (Some rt)" "rt \<noteq> []"
    "get_source_credential src REFRESH d = Some c" "mx_refresh mx rt = Inr g" "token = tg_access_token g"
    "map_option cr_updated_at (get_source_credential src REFRESH (mx_meanwhile mx d)) = Some (cr_updated_at c)"
    "store_minted mx km src user c rt g (mx_meanwhile mx d) = Inr (stamp, d')"
  using assms
  by (auto simp: mint_token_def Let_def elim!: and_then_InrE split: option.splits if_splits sum.splits mail_exn.splits)


definition demo_credential :: "string \<Rightarrow> string \<Rightarrow> credential" where
  "demo_credential purpose secret =
     \<lparr>cr_id = purpose, cr_user = ''u'', cr_source = ''src'', cr_provider = PROVIDER, cr_purpose = purpose,
      cr_sealed = (case seal demo_aead demo_km (replicate 32 1) (replicate 12 2) (replicate 12 3) (utf8 secret) (utf8 ''u:src:gmail'') of
          Inr x \<Rightarrow> x),
      cr_scopes = GMAIL_READONLY_SCOPE, cr_expires_at = None, cr_updated_at = 50\<rparr>"

definition demo_row :: "payload \<Rightarrow> source_row" where
  "demo_row state =
     \<lparr>so_id = ''src'', so_user = ''u'', so_kind = ''gmail'', so_name = ''mail'', so_config = [], so_sync_state = state,
      so_active = True, so_last_polled_at = None, so_last_error = None, so_created_at = 1, so_disconnected_at = None\<rparr>"

definition demo_box :: "payload \<Rightarrow> dom" where
  "demo_box state =
     empty_dom\<lparr>source_rows := [demo_row state],
       credentials := [demo_credential REFRESH ''grant'', demo_credential ACCESS ''token'']\<rparr>"

definition demo_client :: mail_client where
  "demo_client =
     \<lparr>mc_list = (\<lambda>n q c w. if n = 0 then Inr \<lparr>pg_messages = [''m1'', ''m2'', ''m1''], pg_cursor = Some ''c1'', pg_more = True,
                                                pg_first_sync_days = Some 30\<rparr>
                            else Inr \<lparr>pg_messages = [''m2'', ''m3''], pg_cursor = Some ''c2'', pg_more = False, pg_first_sync_days = None\<rparr>),
      mc_fetch = (\<lambda>m. Inr (utf8 m)), mc_labels = (\<lambda>_. Inr []), mc_address = Inr (Some ''other@example.com''),
      mc_modify = (\<lambda>_ _ _ _. None)\<rparr>"

definition demo_grant :: token_grant where
  "demo_grant = \<lparr>tg_access_token = ''minted'', tg_expires_in_seconds = 3600, tg_scopes = [GMAIL_READONLY_SCOPE, ''other''],
     tg_refresh_token = None\<rparr>"

definition demo_mail :: mail_ctx where
  "demo_mail =
     \<lparr>mx_pl = demo_stage, mx_clock = 200, mx_iso = (\<lambda>t. if t = 50 then ''fifty'' else ''later''), mx_read = (\<lambda>_. None),
      mx_aead = demo_aead, mx_manager = Inr demo_km,
      mx_rnd = (\<lambda>_. \<lparr>rnd_dek = replicate 32 1, rnd_nonce = replicate 12 2, rnd_wrap = replicate 12 3\<rparr>),
      mx_new_id = (\<lambda>_. ''cred''), mx_refresh = (\<lambda>t. if t = ''grant'' then Inr demo_grant else Inl (SourceError ''unknown'')),
      mx_meanwhile = (\<lambda>d. d), mx_client = (\<lambda>_. demo_client), mx_extract = (\<lambda>b. Inl ''a receipt'')\<rparr>"

lemma demo_mail_simps:
  "mx_manager demo_mail = Inr demo_km" "mx_aead demo_mail = demo_aead" "mx_client demo_mail t = demo_client"
  "mx_meanwhile demo_mail d = d" "mx_refresh demo_mail ''grant'' = Inr demo_grant" "mx_pl demo_mail = demo_stage"
  "mx_iso demo_mail 50 = ''fifty''" "mx_clock demo_mail = 200"
  by (simp_all add: demo_mail_def)

lemma demo_box_credential:
  "get_source_credential ''src'' REFRESH (demo_box st) = Some (demo_credential REFRESH ''grant'')"
  "get_source_credential ''src'' ACCESS (demo_box st) = Some (demo_credential ACCESS ''token'')"
  by (simp_all add: get_source_credential_def demo_box_def credential_of_def demo_credential_def REFRESH_def ACCESS_def)

lemma demo_credential_opens:
  assumes "secret \<noteq> []" and "get_source_credential ''src'' purpose d = Some (demo_credential purpose secret)"
  shows "load_source_credential demo_aead demo_km ''src'' purpose d = Inr (Some secret)"
proof -
  let ?ad = "utf8 ''u:src:gmail''"
  have "utf8 secret \<noteq> []" using assms(1) utf8_inject [of secret "[]"] by (metis utf8_def list.simps(8) concat.simps(1))
  then obtain s where s: "seal demo_aead demo_km (replicate 32 1) (replicate 12 2) (replicate 12 3) (utf8 secret) ?ad = Inr s"
    by (simp add: seal_def demo_km_def local_key_manager_def)
  then have "open_sealed demo_aead demo_km s ?ad = Inr (utf8 secret)"
    unfolding demo_km_def by (intro sealed_opens demo_aead_laws) (simp_all add: NONCE_BYTES_def)
  moreover have "aad ''u'' ''src'' PROVIDER = Inr ?ad" by (simp add: aad_Inr ambiguous_def PROVIDER_def)
  ultimately show ?thesis
    by (simp add: load_source_credential_def assms(2) demo_credential_def s from_vault_def decode_text_def)
qed

lemma demo_mints:
  "\<exists>d'. mint_token demo_mail ''src'' ''u'' (demo_box st) = Inr (''minted'', ''fifty'', d') \<and> source_rows d' = source_rows (demo_box st)"
proof -
  have load: "load_source_credential demo_aead demo_km ''src'' REFRESH (demo_box st) = Inr (Some ''grant'')"
    by (rule demo_credential_opens) (simp_all add: demo_box_credential)
  have g: "tg_access_token demo_grant = ''minted''" "tg_refresh_token demo_grant = None" by (simp_all add: demo_grant_def)
  have stamp: "grant_stamp demo_mail (demo_credential REFRESH ''grant'') = ''fifty''"
    by (simp add: grant_stamp_def demo_credential_def demo_mail_simps)
  have "aad ''u'' ''src'' PROVIDER = Inr (utf8 ''u:src:gmail'')" by (simp add: aad_Inr ambiguous_def PROVIDER_def)
  then obtain d' where st: "store_source_credential demo_aead demo_km (mx_rnd demo_mail 0) (pl_now demo_stage) (mx_new_id demo_mail 0) ''u'' ''src''
      PROVIDER ACCESS ''minted'' (granted_scopes (demo_credential REFRESH ''grant'') demo_grant) (Some (200 + secs (tg_expires_in_seconds demo_grant)))
      (demo_box st) = Inr d'"
    by (simp add: store_source_credential_def seal_text_def seal_def demo_km_def local_key_manager_def utf8_def utf8_char_def demo_mail_def)
  then have "source_rows d' = source_rows (demo_box st)" by (rule store_source_credential_Inr)
  moreover have "store_minted demo_mail demo_km ''src'' ''u'' (demo_credential REFRESH ''grant'') ''grant'' demo_grant (demo_box st) = Inr (''fifty'', d')"
    by (simp add: store_minted_def demo_mail_simps g st stamp in_vault_def)
  ultimately show ?thesis
    by (simp add: mint_token_def demo_mail_simps load demo_box_credential g)
qed


end
