(* ===== verification/Inbox.thy ===== *)
theory Inbox
  imports Integrate
begin

text \<open>
  The inbox as a state machine: what requests, the enrich and integrate stages and the queue itself do to
  one database, one committed transaction at a time, in any order. A worker that runs an agent
  (\<open>handle_enrich\<close> of \<open>workers/src/motet_workers/enrich.py\<close>) is a run that is under way: it started with a
  committed mark on its item (\<open>_announce_running\<close>), it may answer, and it may die at any moment. The
  serialization key of \<open>Fleet\<close> makes the stage up to the mark one step here.
\<close>

section \<open>The queue under the stages\<close>

text \<open>A job of one of the two stages that has not committed its work, and is not given up.\<close>

definition live_row :: "job_row \<Rightarrow> bool" where
  "live_row r \<longleftrightarrow> row_state r \<in> {JReady, JRunning} \<and> row_committed r = None"

definition stage_row :: "string \<Rightarrow> job_row \<Rightarrow> bool" where
  "stage_row i r \<longleftrightarrow> row_queue r \<in> {INTEGRATE, ENRICH} \<and> map_of (row_payload r) ''source_item_id'' = Some (JStr i)"

definition live :: "string \<Rightarrow> jobs_db \<Rightarrow> bool" where
  "live i db \<longleftrightarrow> (\<exists>r \<in> set (rows db). live_row r \<and> stage_row i r)"

definition jobs_ok :: "jobs_db \<Rightarrow> bool" where
  "jobs_ok db \<longleftrightarrow>
     distinct (map row_id (rows db))
     \<and> (\<forall>r \<in> set (rows db). row_id r < next_id db
          \<and> (row_queue r \<in> {INTEGRATE, ENRICH} \<longrightarrow> (\<exists>i. stage_row i r \<and> i \<noteq> [])))"

text \<open>What the queue does to a row without the work of either stage: claims, lease touches, deferrals,
  retries, the completion of committed work, the retention sweep, and the other stages' jobs.\<close>

inductive queue_move :: "jobs_db \<Rightarrow> jobs_db \<Rightarrow> bool" where
  move_claim: "queue_move db (snd (claim now taken busy q db))"
| move_touch: "queue_move db (snd (touch now i n db))"
| move_defer: "queue_move db (defer_job wait now j db)"
| move_retry: "fail m now j e db = Inr (True, db') \<Longrightarrow> queue_move db db'"
| move_complete: "find_row i db = Some r \<Longrightarrow> row_committed r \<noteq> None \<Longrightarrow> queue_move db (complete now i db)"
| move_sweep: "st \<in> {JDone, JFailed} \<Longrightarrow> queue_move db (snd (prune_batch e st wait n db))"
| move_enqueue: "q \<notin> {INTEGRATE, ENRICH} \<Longrightarrow> queue_move db (snd (enqueue sha now q p key delay db))"

section \<open>The steps\<close>

record agent_run =
  ag_row :: nat
  ag_item :: source_item
  ag_domain :: string
  ag_payload :: payload

record inbox =
  ib_sys :: "dom sys"
  ib_running :: "agent_run list"
  ib_started :: "string list"

definition with_jobs :: "jobs_db \<Rightarrow> dom sys \<Rightarrow> dom sys" where
  "with_jobs db s = s\<lparr>sys_jobs := db\<rparr>"

lemma with_jobs_simps [simp]:
  "sys_jobs (with_jobs db s) = db" "sys_dom (with_jobs db s) = sys_dom s"
  by (simp_all add: with_jobs_def)

text \<open>The work of attempt \<open>n\<close> of job \<open>i\<close> is committed: \<open>mark_work_committed\<close>, in the handler's transaction.\<close>

definition commits :: "time \<Rightarrow> nat \<Rightarrow> int \<Rightarrow> dom sys \<Rightarrow> dom sys" where
  "commits now i n s = with_jobs (mark_work_committed now i n (sys_jobs s)) s"

text \<open>The job of row \<open>r\<close> is given up: the failure is recorded and the row is failed, in one transaction.\<close>

definition gives_up :: "time \<Rightarrow> string \<Rightarrow> job_row \<Rightarrow> dom recorder \<Rightarrow> dom sys \<Rightarrow> dom sys" where
  "gives_up now e r recorder s =
     (let s' = recorder (row_payload r) e s
      in with_jobs (update_row (row_id r) (give_up_row now e) (sys_jobs s')) s')"

inductive inbox_step :: "inbox \<Rightarrow> inbox \<Rightarrow> bool" where
  ingest: "enqueue_integration ok c user ids (ib_sys w) = Inr (claimed, s')
     \<Longrightarrow> inbox_step w (w\<lparr>ib_sys := s'\<rparr>)"
| dismiss: "inbox_step w (w\<lparr>ib_sys := snd (dismiss_held_source_items user ids (ib_sys w))\<rparr>)"
| arrives: "insert_source_item now i user source title t links (sys_dom (ib_sys w)) = Inr d \<Longrightarrow> i \<noteq> []
     \<Longrightarrow> inbox_step w (w\<lparr>ib_sys := on_dom d (ib_sys w)\<rparr>)"
| paste: "enqueue_paste pl i user title t (ib_sys w) = Inr s' \<Longrightarrow> i \<noteq> []
     \<Longrightarrow> inbox_step w (w\<lparr>ib_sys := s'\<rparr>)"
| queue: "queue_move (sys_jobs (ib_sys w)) db
     \<Longrightarrow> inbox_step w (w\<lparr>ib_sys := with_jobs db (ib_sys w)\<rparr>)"
| integrates: "r \<in> set (rows (sys_jobs (ib_sys w))) \<Longrightarrow> live_row r \<Longrightarrow> row_queue r = INTEGRATE
     \<Longrightarrow> handle_integrate wb pl (ib_sys w) (row_payload r) = Inr (s', after)
     \<Longrightarrow> inbox_step w (w\<lparr>ib_sys := commits now (row_id r) (row_attempts r) s'\<rparr>)"
| integrate_fails: "r \<in> set (rows (sys_jobs (ib_sys w))) \<Longrightarrow> live_row r \<Longrightarrow> row_queue r = INTEGRATE
     \<Longrightarrow> inbox_step w (w\<lparr>ib_sys := gives_up now e r (source_item_failed pl) (ib_sys w)\<rparr>)"
| enrich_settles: "r \<in> set (rows (sys_jobs (ib_sys w))) \<Longrightarrow> live_row r \<Longrightarrow> row_queue r = ENRICH
     \<Longrightarrow> enrich_gate c (row_payload r) (ib_sys w) = Inr (Settled s')
     \<Longrightarrow> inbox_step w (w\<lparr>ib_sys := commits now (row_id r) (row_attempts r) s'\<rparr>)"
| agent_starts: "r \<in> set (rows (sys_jobs (ib_sys w))) \<Longrightarrow> live_row r \<Longrightarrow> row_queue r = ENRICH
     \<Longrightarrow> enrich_gate c (row_payload r) (ib_sys w) = Inr (Start it dm rq f)
     \<Longrightarrow> inbox_step w (w\<lparr>ib_sys := announced it (ib_sys w), ib_started := ib_started w @ [rq_item_id rq],
           ib_running := \<lparr>ag_row = row_id r, ag_item = it, ag_domain = dm, ag_payload = row_payload r\<rparr> # ib_running w\<rparr>)"
| agent_answers: "a \<in> set (ib_running w)
     \<Longrightarrow> inbox_step w (w\<lparr>ib_sys := commits now (ag_row a) n (enrich_answer c (ag_item a) (ag_domain a) answer (ag_payload a) (ib_sys w)),
           ib_running := remove1 a (ib_running w)\<rparr>)"
| worker_dies: "inbox_step w (w\<lparr>ib_running := remove1 a (ib_running w)\<rparr>)"
| enrich_fails: "r \<in> set (rows (sys_jobs (ib_sys w))) \<Longrightarrow> live_row r \<Longrightarrow> row_queue r = ENRICH
     \<Longrightarrow> inbox_step w (w\<lparr>ib_sys := gives_up now e r (record_enrich_failure c) (ib_sys w)\<rparr>)"

definition items_ok :: "dom \<Rightarrow> bool" where
  "items_ok d \<longleftrightarrow> distinct (map si_id (source_items d)) \<and> [] \<notin> si_id ` set (source_items d)"

definition inbox_start :: "inbox \<Rightarrow> bool" where
  "inbox_start w \<longleftrightarrow> ib_started w = [] \<and> ib_running w = [] \<and> jobs_ok (sys_jobs (ib_sys w)) \<and> items_ok (sys_dom (ib_sys w))"

inductive inbox_reachable :: "inbox \<Rightarrow> bool" where
  inbox_init: "inbox_start w \<Longrightarrow> inbox_reachable w"
| inbox_next: "inbox_reachable w \<Longrightarrow> inbox_step w w' \<Longrightarrow> inbox_reachable w'"


section \<open>What a step may do to the queue\<close>

definition idents :: "jobs_db \<Rightarrow> (nat \<times> queue \<times> payload) list" where
  "idents db = map (\<lambda>r. (row_id r, row_queue r, row_payload r)) (rows db)"

definition stage_payload :: "queue \<Rightarrow> payload \<Rightarrow> bool" where
  "stage_payload q p \<longleftrightarrow>
     (q \<in> {INTEGRATE, ENRICH} \<longrightarrow> (\<exists>i. map_of p ''source_item_id'' = Some (JStr i) \<and> i \<noteq> []))"

lemma jobs_ok_idents:
  "jobs_ok db \<longleftrightarrow> distinct (map fst (idents db)) \<and> (\<forall>(n, q, p) \<in> set (idents db). n < next_id db \<and> stage_payload q p)"
  by (auto simp: jobs_ok_def idents_def comp_def stage_payload_def stage_row_def)

text \<open>The queue evolves, with only the items of \<open>D\<close> losing the last of their work: rows keep what they
  are, new rows have new ids, and every other item that had a live job has one.\<close>

definition evolves :: "string set \<Rightarrow> jobs_db \<Rightarrow> jobs_db \<Rightarrow> bool" where
  "evolves D db db' \<longleftrightarrow>
     jobs_ok db' \<and> next_id db \<le> next_id db'
     \<and> (\<forall>x \<in> set (idents db'). x \<in> set (idents db) \<or> next_id db \<le> fst x)
     \<and> (\<forall>i. live i db \<and> i \<notin> D \<longrightarrow> live i db')"

lemma evolves_refl: "jobs_ok db \<Longrightarrow> evolves D db db"
  by (simp add: evolves_def)

lemma evolves_trans:
  assumes "evolves D a b" and "evolves E b c"
  shows "evolves (D \<union> E) a c"
  unfolding evolves_def
proof (intro conjI ballI allI impI)
  fix x assume "x \<in> set (idents c)"
  then have "x \<in> set (idents b) \<or> next_id b \<le> fst x" using assms(2) unfolding evolves_def by blast
  then show "x \<in> set (idents a) \<or> next_id a \<le> fst x"
    using assms(1) unfolding evolves_def by (meson le_trans)
qed (use assms in \<open>auto simp: evolves_def\<close>)

lemma evolves_mono: "evolves D a b \<Longrightarrow> D \<subseteq> E \<Longrightarrow> evolves E a b"
  by (auto simp: evolves_def)

lemma evolves_update:
  assumes "jobs_ok db" and "row_op f"
    and "\<And>r i. r \<in> set (rows db) \<Longrightarrow> row_id r = n \<Longrightarrow> live_row r \<Longrightarrow> stage_row i r \<Longrightarrow> i \<in> D \<or> live_row (f r)"
  shows "evolves D db (update_row n f db)"
proof -
  have keep: "row_id (f r) = row_id r" "row_queue (f r) = row_queue r" "row_payload (f r) = row_payload r" for r
    using assms(2) by (simp_all add: row_op_def)
  then have ids: "idents (update_row n f db) = idents db"
    by (simp add: idents_def update_row_def map_update_where)
  have nid: "next_id (update_row n f db) = next_id db" by (simp add: update_row_def)
  have "live i (update_row n f db)" if "live i db" "i \<notin> D" for i
  proof -
    from that obtain r where r: "r \<in> set (rows db)" "live_row r" "stage_row i r" by (auto simp: live_def)
    let ?r = "if row_id r = n then f r else r"
    have "?r \<in> set (rows (update_row n f db))" using r(1) by (auto simp: update_row_def set_update_where)
    moreover have "stage_row i ?r" using r(3) by (simp add: stage_row_def keep)
    moreover have "live_row ?r" using assms(3) [of r i] r that(2) by auto
    ultimately show ?thesis unfolding live_def by blast
  qed
  with assms(1) show ?thesis by (simp add: evolves_def jobs_ok_idents ids nid)
qed

text \<open>A live job of a row written since the ids stood at \<open>n\<close>; settling an older row leaves it.\<close>

definition live_from :: "nat \<Rightarrow> string \<Rightarrow> jobs_db \<Rightarrow> bool" where
  "live_from n i db \<longleftrightarrow> (\<exists>r \<in> set (rows db). live_row r \<and> stage_row i r \<and> n \<le> row_id r)"

lemma live_from_live: "live_from n i db \<Longrightarrow> live i db"
  by (auto simp: live_from_def live_def)

lemma live_from_update:
  assumes "live_from n i db" and "m < n"
  shows "live_from n i (update_row m f db)"
proof -
  from assms obtain r where r: "r \<in> set (rows db)" "live_row r" "stage_row i r" "n \<le> row_id r" by (auto simp: live_from_def)
  with assms(2) have "r \<in> set (rows (update_row m f db))" by (auto simp: update_row_def set_update_where image_iff intro!: bexI [of _ r])
  with r show ?thesis by (auto simp: live_from_def)
qed

lemma evolves_enqueue:
  assumes "jobs_ok db" and "stage_payload q p"
  shows "evolves D db (snd (enqueue sha now q p key delay db))"
    and "q \<in> {INTEGRATE, ENRICH} \<Longrightarrow> map_of p ''source_item_id'' = Some (JStr i)
      \<Longrightarrow> live_from (next_id db) i (snd (enqueue sha now q p key delay db))"
proof -
  define row where "row = \<lparr>row_id = next_id db, row_queue = q, row_payload = p, row_state = JReady,
             row_attempts = 0, row_last_error = None, row_run_at = now + secs delay,
             row_locked_at = None, row_serialize_key = key,
             row_lock_key = map_option (lock_key sha) key, row_committed = None,
             row_created_at = now, row_updated_at = now\<rparr>"
  have e: "snd (enqueue sha now q p key delay db) = db\<lparr>rows := rows db @ [row], next_id := Suc (next_id db)\<rparr>"
    by (simp add: enqueue_def row_def)
  have fresh: "next_id db \<notin> fst ` set (idents db)" using assms(1) by (fastforce simp: jobs_ok_idents)
  have "idents (db\<lparr>rows := rows db @ [row], next_id := Suc (next_id db)\<rparr>) = idents db @ [(next_id db, q, p)]"
    by (simp add: idents_def row_def)
  with assms fresh show "evolves D db (snd (enqueue sha now q p key delay db))"
    unfolding e evolves_def jobs_ok_idents by (auto simp: live_def)
  show "live_from (next_id db) i (snd (enqueue sha now q p key delay db))"
    if "q \<in> {INTEGRATE, ENRICH}" "map_of p ''source_item_id'' = Some (JStr i)"
    unfolding e live_from_def using that by (intro bexI [of _ row]) (auto simp: row_def live_row_def stage_row_def)
qed

lemma sweep_evolves:
  assumes "jobs_ok db" and "st \<in> {JDone, JFailed}"
  shows "evolves {} db (snd (prune_batch e st n k db))"
proof -
  obtain c db' where p: "prune_batch e st n k db = (c, db')" by fastforce
  have d: "distinct (map row_id (rows db))" using assms(1) by (simp add: jobs_ok_def)
  from prune_batch_facts(3) [OF d p] obtain keep where k: "rows db' = filter keep (rows db)"
    and gone: "\<And>r. r \<in> set (rows db) \<Longrightarrow> \<not> keep r \<Longrightarrow> expired (fst e) (snd e) st n r" by blast
  have "next_id db' = next_id db" by (rule prune_batch_facts(2) [OF d p])
  moreover have "keep r" if "r \<in> set (rows db)" "live_row r" for r
    using gone [OF that(1)] that(2) assms(2) by (cases "keep r") (auto simp: live_row_def expired_def)
  then have "live i db'" if "live i db" for i
    using that by (auto simp: live_def k)
  moreover have "jobs_ok db'" using assms(1) \<open>next_id db' = next_id db\<close>
    by (auto simp: jobs_ok_def k distinct_map_filter)
  ultimately show ?thesis by (auto simp: p evolves_def idents_def k)
qed

lemma queue_move_evolves: "queue_move db db' \<Longrightarrow> jobs_ok db \<Longrightarrow> evolves {} db db'"
proof (induction rule: queue_move.induct)
  case (move_claim db now taken busy q)
  have "evolves {} db (update_row n (claim_row now) db)" for n
    by (rule evolves_update [OF move_claim claim_op.row_op_axioms]) (auto simp: claim_row_def live_row_def)
  with move_claim show ?case by (simp add: claim_def evolves_refl split: option.split)
next
  case (move_touch db now i n)
  have "evolves {} db (update_row i (touch_row now n) db)"
    by (rule evolves_update [OF move_touch touch_op.row_op_axioms]) (auto simp: touch_row_def live_row_def)
  with move_touch show ?case by (simp add: touch_def evolves_refl)
next
  case (move_defer db wait now j)
  then show ?case unfolding defer_job_def
    by (intro evolves_update defer_op.row_op_axioms) (auto simp: defer_row_def live_row_def)
next
  case (move_retry m now j e db db')
  have "evolves {} db (update_row n (retry_row now d e) db)" for n d
    by (rule evolves_update [OF move_retry(2) retry_op.row_op_axioms]) (auto simp: retry_row_def live_row_def)
  with move_retry show ?case by (auto simp: fail_def split: if_splits sum.splits)
next
  case (move_complete i db r now)
  have "x = r" if "x \<in> set (rows db)" "row_id x = i" for x
    using find_row_of_mem [of db x] that move_complete by (simp add: jobs_ok_def)
  then show ?case unfolding complete_def
    using move_complete by (intro evolves_update complete_op.row_op_axioms) (auto simp: live_row_def)
next
  case (move_sweep st db e wait n)
  then show ?case by (rule sweep_evolves [rotated])
next
  case (move_enqueue q db sha now p key delay)
  then show ?case by (intro evolves_enqueue) (auto simp: stage_payload_def)
qed

section \<open>The invariant\<close>

definition begun :: "enrich_status option set" where
  "begun = insert (Some EnRunning) FINISHED_STATES"

definition started_ok :: "dom sys \<Rightarrow> string \<Rightarrow> bool" where
  "started_ok s i \<longleftrightarrow>
     (\<exists>it. get_source_item i (sys_dom s) = Some it \<and> si_enrich_status it \<in> begun
        \<and> (si_state it = SiPending \<longrightarrow> live i (sys_jobs s)))"

definition row_names :: "nat \<Rightarrow> string \<Rightarrow> jobs_db \<Rightarrow> bool" where
  "row_names n i db \<longleftrightarrow>
     (\<forall>r \<in> set (rows db). row_id r = n \<longrightarrow> map_of (row_payload r) ''source_item_id'' = Some (JStr i))"

definition agent_ok :: "jobs_db \<Rightarrow> agent_run \<Rightarrow> bool" where
  "agent_ok db a \<longleftrightarrow> si_id (ag_item a) \<noteq> [] \<and> ag_row a < next_id db \<and> row_names (ag_row a) (si_id (ag_item a)) db"

definition inbox_inv :: "inbox \<Rightarrow> bool" where
  "inbox_inv w \<longleftrightarrow>
     jobs_ok (sys_jobs (ib_sys w)) \<and> items_ok (sys_dom (ib_sys w)) \<and> distinct (ib_started w)
     \<and> (\<forall>i \<in> set (ib_started w). started_ok (ib_sys w) i) \<and> (\<forall>a \<in> set (ib_running w). agent_ok (sys_jobs (ib_sys w)) a)"

lemma row_names_evolves:
  assumes "row_names n i db" and "n < next_id db" and "evolves D db db'"
  shows "row_names n i db'"
  unfolding row_names_def
proof (intro ballI impI)
  fix r assume r: "r \<in> set (rows db')" "row_id r = n"
  then have "(n, row_queue r, row_payload r) \<in> set (idents db')" by (auto simp: idents_def)
  with assms(2,3) have "(n, row_queue r, row_payload r) \<in> set (idents db)" by (auto simp: evolves_def)
  then obtain x where "x \<in> set (rows db)" "row_id x = n" "row_payload x = row_payload r" by (auto simp: idents_def)
  with assms(1) show "map_of (row_payload r) ''source_item_id'' = Some (JStr i)" by (auto simp: row_names_def)
qed

lemma agent_ok_evolves: "agent_ok db a \<Longrightarrow> evolves D db db' \<Longrightarrow> agent_ok db' a"
  using row_names_evolves [of "ag_row a" "si_id (ag_item a)" db D db'] by (simp add: agent_ok_def evolves_def)

lemma inbox_inv_sys:
  assumes "inbox_inv w" and "evolves D (sys_jobs (ib_sys w)) (sys_jobs s)" and "items_ok (sys_dom s)"
    and "\<And>i. i \<in> set (ib_started w) \<Longrightarrow> started_ok s i" and "set run \<subseteq> set (ib_running w)"
  shows "inbox_inv (w\<lparr>ib_sys := s, ib_running := run\<rparr>)"
proof -
  have "agent_ok (sys_jobs s) a" if "a \<in> set run" for a
    using agent_ok_evolves [OF _ assms(2)] assms(1,5) that by (auto simp: inbox_inv_def)
  with assms show ?thesis unfolding inbox_inv_def by (simp add: evolves_def)
qed

lemma items_ok_core:
  "items_ok d \<longleftrightarrow> distinct (map fst (item_core d)) \<and> [] \<notin> fst ` set (item_core d)"
  by (simp add: items_ok_def item_core_def comp_def image_image)

lemma started_ok_same:
  "started_ok s i \<Longrightarrow> evolves D (sys_jobs s) (sys_jobs s') \<Longrightarrow> i \<notin> D
     \<Longrightarrow> get_source_item i (sys_dom s') = get_source_item i (sys_dom s) \<Longrightarrow> started_ok s' i"
  by (auto simp: started_ok_def evolves_def)

lemma live_item_job: "live i db \<Longrightarrow> \<exists>w \<in> set (work_of db). item_job i w"
  by (fastforce simp: live_def stage_row_def work_of_def item_job_def json_text_def)

lemma get_source_item_mem:
  assumes "items_ok d" and "it \<in> set (source_items d)"
  shows "get_source_item (si_id it) d = Some it"
proof -
  have "find (\<lambda>r. si_id r = si_id it) xs = Some it" if "distinct (map si_id xs)" "it \<in> set xs" for xs
    using that by (induction xs) (auto intro: rev_image_eqI)
  with assms show ?thesis by (simp add: get_source_item_def items_ok_def)
qed

text \<open>A started item is not held: while it waits it has a live job.\<close>

lemma started_not_held:
  assumes "items_ok (sys_dom s)" and "started_ok s i" and "it \<in> set (source_items (sys_dom s))" and "si_id it = i"
  shows "\<not> held user (sys_jobs s) it"
  using get_source_item_mem [OF assms(1,3)] assms(2,4) live_item_job [of i "sys_jobs s"]
  by (auto simp: started_ok_def held_def)

lemma ingest_item_evolves:
  assumes "jobs_ok (sys_jobs s)" and "i \<noteq> []"
  shows "evolves {} (sys_jobs s) (sys_jobs (ingest_item ok c cf sites links user i s))"
    and "k \<noteq> i \<Longrightarrow> get_source_item k (sys_dom (ingest_item ok c cf sites links user i s)) = get_source_item k (sys_dom s)"
  using assms
  by (auto simp: ingest_item_def enqueue_integrate_job_def enqueue_enrichment_def stage_payload_def integrate_body_fields
      enrich_payload_fields get_source_item_marks map_option_case intro!: evolves_enqueue
      dest: get_source_itemD split: option.split)

lemma ingest_fold_evolves:
  assumes "jobs_ok (sys_jobs s)" and "[] \<notin> set is"
  shows "evolves {} (sys_jobs s) (sys_jobs (fold (ingest_item ok c cf sites links user) is s))"
    and "k \<notin> set is \<Longrightarrow> get_source_item k (sys_dom (fold (ingest_item ok c cf sites links user) is s)) = get_source_item k (sys_dom s)"
  using assms
proof (induction "is" arbitrary: s)
  case (Cons i "is")
  {
    case 1
    have e: "evolves {} (sys_jobs s) (sys_jobs (ingest_item ok c cf sites links user i s))"
      using 1 by (intro ingest_item_evolves) auto
    then have "jobs_ok (sys_jobs (ingest_item ok c cf sites links user i s))" by (simp add: evolves_def)
    with Cons.IH(1) 1 have "evolves {} (sys_jobs (ingest_item ok c cf sites links user i s))
        (sys_jobs (fold (ingest_item ok c cf sites links user) is (ingest_item ok c cf sites links user i s)))" by simp
    from evolves_trans [OF e this] show ?case by simp
  next
    case 2
    have e: "evolves {} (sys_jobs s) (sys_jobs (ingest_item ok c cf sites links user i s))"
      using 2 by (intro ingest_item_evolves) auto
    then have "jobs_ok (sys_jobs (ingest_item ok c cf sites links user i s))" by (simp add: evolves_def)
    with Cons.IH(2) 2 ingest_item_evolves(2) [of s i k] show ?case by auto
  }
qed (simp_all add: evolves_refl)

section \<open>Every step keeps it\<close>

lemma inbox_invD:
  "inbox_inv w \<Longrightarrow> jobs_ok (sys_jobs (ib_sys w))" "inbox_inv w \<Longrightarrow> items_ok (sys_dom (ib_sys w))"
  "inbox_inv w \<Longrightarrow> i \<in> set (ib_started w) \<Longrightarrow> started_ok (ib_sys w) i"
  by (simp_all add: inbox_inv_def)

lemma inbox_inv_sys':
  assumes "inbox_inv w" and "evolves D (sys_jobs (ib_sys w)) (sys_jobs s)" and "items_ok (sys_dom s)"
    and "\<And>i. i \<in> set (ib_started w) \<Longrightarrow> started_ok s i"
  shows "inbox_inv (w\<lparr>ib_sys := s\<rparr>)"
  using inbox_inv_sys [OF assms, where run = "ib_running w"] by simp

lemma ingest_keeps_inv:
  assumes inv: "inbox_inv w" and r: "enqueue_integration ok c user ids (ib_sys w) = Inr (claimed, s')"
  shows "inbox_inv (w\<lparr>ib_sys := s'\<rparr>)"
proof -
  let ?s = "ib_sys w"
  obtain cf sites links where claimed: "claimed = claim_held_source_items user ids ?s"
    and s': "s' = fold (ingest_item ok c cf sites links user) claimed ?s"
    using r by (auto simp: enqueue_integration_def Let_def elim!: and_then_InrE)
  have held: "\<exists>it \<in> set (source_items (sys_dom ?s)). si_id it = i \<and> held user (sys_jobs ?s) it" if "i \<in> set claimed" for i
    using that by (simp add: claimed claim_held_set held_core)
  have nonempty: "[] \<notin> set claimed" using held [of "[]"] inbox_invD(2) [OF inv] by (force simp: items_ok_def)
  note e = ingest_fold_evolves [OF inbox_invD(1) [OF inv] nonempty]
  have "started_ok s' i" if "i \<in> set (ib_started w)" for i
  proof -
    note st = inbox_invD(3) [OF inv that]
    have "i \<notin> set claimed" using held [of i] started_not_held [OF inbox_invD(2) [OF inv] st] by blast
    from started_ok_same [OF st, of "{}" s'] e(1) e(2) [OF this] show ?thesis by (simp add: s')
  qed
  moreover have "items_ok (sys_dom s')"
    using inbox_invD(2) [OF inv] by (simp add: s' items_ok_core ingest_items_effect)
  ultimately show ?thesis using inbox_inv_sys' [OF inv, of "{}" s'] e(1) by (simp add: s')
qed

lemma dismiss_keeps_inv:
  assumes inv: "inbox_inv w"
  shows "inbox_inv (w\<lparr>ib_sys := snd (dismiss_held_source_items user ids (ib_sys w))\<rparr>)"
proof -
  let ?s = "ib_sys w"
  define s' where "s' = snd (dismiss_held_source_items user ids ?s)"
  define hit where "hit = (\<lambda>it. si_id it \<in> set (py_unique ids) \<and> held user (sys_jobs ?s) it \<and> ids \<noteq> [])"
  have jobs: "sys_jobs s' = sys_jobs ?s" by (simp add: s'_def dismiss_held_source_items_def Let_def)
  have items: "source_items (sys_dom s') = update_where hit (\<lambda>it. it\<lparr>si_state := SiDismissed\<rparr>) (source_items (sys_dom ?s))"
    by (auto simp: s'_def dismiss_held_source_items_def Let_def hit_def update_where_none)
  have "started_ok s' i" if "i \<in> set (ib_started w)" for i
  proof -
    from inbox_invD(3) [OF inv that] obtain it where it: "get_source_item i (sys_dom ?s) = Some it"
      "si_enrich_status it \<in> begun" "si_state it = SiPending \<longrightarrow> live i (sys_jobs ?s)" by (auto simp: started_ok_def)
    have "get_source_item i (sys_dom s') = Some (if hit it then it\<lparr>si_state := SiDismissed\<rparr> else it)"
      using it(1) by (simp add: get_source_item_def items find_update_where)
    with it show ?thesis by (auto simp: started_ok_def jobs)
  qed
  moreover have "items_ok (sys_dom s')"
    using inbox_invD(2) [OF inv] by (auto simp: items_ok_def items map_update_where set_update_where image_iff)
  ultimately show ?thesis
    using inbox_inv_sys' [OF inv, of "{}" s'] evolves_refl [OF inbox_invD(1) [OF inv]] unfolding jobs
    by (simp add: s'_def)
qed

lemma inserted_item:
  assumes "insert_source_item now i user source title t links d = Inr d'" and "items_ok d" and "i \<noteq> []"
  shows "items_ok d'" and "get_source_item k d = Some it \<Longrightarrow> get_source_item k d' = Some it"
proof -
  from assms obtain x where x: "source_items d' = source_items d @ [x]" "si_id x = i" "i \<notin> si_id ` set (source_items d)"
    by (force simp: insert_source_item_def split: if_splits)
  with assms(2,3) show "items_ok d'" by (auto simp: items_ok_def)
  show "get_source_item k d' = Some it" if "get_source_item k d = Some it"
  proof -
    have "find P (xs @ ys) = Some it" if "find P xs = Some it" for P xs and ys :: "source_item list"
      using that by (induction xs) (auto split: if_splits)
    with that show ?thesis by (simp add: get_source_item_def x)
  qed
qed

lemma arrives_keeps_inv:
  assumes inv: "inbox_inv w" and r: "insert_source_item now i user source title t links (sys_dom (ib_sys w)) = Inr d" and "i \<noteq> []"
    and e: "evolves {} (sys_jobs (ib_sys w)) db"
  shows "inbox_inv (w\<lparr>ib_sys := with_jobs db (on_dom d (ib_sys w))\<rparr>)"
proof (rule inbox_inv_sys' [OF inv])
  note new = inserted_item [OF r inbox_invD(2) [OF inv] assms(3)]
  show "evolves {} (sys_jobs (ib_sys w)) (sys_jobs (with_jobs db (on_dom d (ib_sys w))))" using e by simp
  show "items_ok (sys_dom (with_jobs db (on_dom d (ib_sys w))))" using new(1) by simp
  show "started_ok (with_jobs db (on_dom d (ib_sys w))) k" if "k \<in> set (ib_started w)" for k
    using inbox_invD(3) [OF inv that] e new(2) [of k] by (auto simp: started_ok_def evolves_def)
qed

text \<open>Committing the work of a row of item \<open>i\<close>, or giving it up, takes at most \<open>i\<close>'s live job away.\<close>

lemma settle_evolves:
  assumes "jobs_ok db" and "row_names n i db" and "row_op f"
  shows "evolves {i} db (update_row n f db)"
proof (rule evolves_update [OF assms(1,3)])
  fix r j assume "r \<in> set (rows db)" "row_id r = n" "stage_row j r"
  with assms(2) show "j \<in> {i} \<or> live_row (f r)" by (simp add: row_names_def stage_row_def)
qed

lemma commits_evolves:
  "jobs_ok (sys_jobs s) \<Longrightarrow> row_names n i (sys_jobs s) \<Longrightarrow> evolves {i} (sys_jobs s) (sys_jobs (commits now n k s))"
  by (simp add: commits_def mark_work_committed_def settle_evolves mark_op.row_op_axioms)

lemma commits_dom [simp]: "sys_dom (commits now n k s) = sys_dom s"
  by (simp add: commits_def)

text \<open>The row a stage runs on, and its item.\<close>

lemma stage_row_item:
  assumes "jobs_ok db" and "r \<in> set (rows db)" and "row_queue r \<in> {INTEGRATE, ENRICH}"
  obtains i where "payload_string ''source_item_id'' (row_payload r) = Some i" "stage_row i r" "row_names (row_id r) i db"
    "row_id r < next_id db"
proof -
  from assms obtain i where i: "stage_row i r" "i \<noteq> []" unfolding jobs_ok_def by blast
  have "x = r" if "x \<in> set (rows db)" "row_id x = row_id r" for x
    using assms(1,2) that by (auto simp: jobs_ok_def distinct_map dest: inj_onD)
  then have "row_names (row_id r) i db" using i(1) by (auto simp: row_names_def stage_row_def)
  moreover have "payload_string ''source_item_id'' (row_payload r) = Some i"
    using i by (simp add: stage_row_def payload_string_def)
  moreover have "row_id r < next_id db" using assms(1,2) by (simp add: jobs_ok_def)
  ultimately show thesis using i(1) that by blast
qed

text \<open>What a stage does to its item: it names one item, and every other is as it was.\<close>

definition only_item :: "string \<Rightarrow> dom \<Rightarrow> dom \<Rightarrow> bool" where
  "only_item i d d' \<longleftrightarrow>
     map si_id (source_items d') = map si_id (source_items d)
     \<and> (\<forall>k. k \<noteq> i \<longrightarrow> get_source_item k d' = get_source_item k d)"

lemma only_item_refl [simp]: "only_item i d d"
  by (simp add: only_item_def)

lemma only_item_trans: "only_item i a b \<Longrightarrow> only_item i b c \<Longrightarrow> only_item i a c"
  by (simp add: only_item_def)

lemma only_item_update:
  assumes "source_items d' = update_where (\<lambda>r. si_id r = i) f (source_items d)" and "\<And>r. si_id (f r) = si_id r"
  shows "only_item i d d'"
proof -
  have "get_source_item k d' = get_source_item k d" if "k \<noteq> i" for k
    using that by (cases "get_source_item k d")
      (auto simp: get_source_item_def assms find_update_where dest: find_SomeD)
  then show ?thesis by (simp add: only_item_def assms map_update_where)
qed

lemma only_item_cong: "source_items d' = source_items d \<Longrightarrow> only_item i d d'"
  by (simp add: only_item_def get_source_item_def)

lemma stage_keeps_inv:
  assumes inv: "inbox_inv w" and e: "evolves {i} (sys_jobs (ib_sys w)) (sys_jobs s)"
    and only: "only_item i (sys_dom (ib_sys w)) (sys_dom s)"
    and i: "started_ok (ib_sys w) i \<Longrightarrow> started_ok s i" and run: "set run \<subseteq> set (ib_running w)"
  shows "inbox_inv (w\<lparr>ib_sys := s, ib_running := run\<rparr>)"
proof (rule inbox_inv_sys [OF inv e _ _ run])
  have "set (map si_id (source_items (sys_dom s))) = set (map si_id (source_items (sys_dom (ib_sys w))))"
    using only by (simp only: only_item_def)
  then show "items_ok (sys_dom s)" using inbox_invD(2) [OF inv] only by (simp add: items_ok_def only_item_def)
  show "started_ok s k" if "k \<in> set (ib_started w)" for k
  proof (cases "k = i")
    case True
    then show ?thesis using i inbox_invD(3) [OF inv that] by simp
  next
    case False
    then show ?thesis
      using started_ok_same [OF inbox_invD(3) [OF inv that] e] only by (simp add: only_item_def)
  qed
qed

lemma handle_integrate_item:
  assumes h: "handle_integrate wb pl s p = Inr (s', after)" and p: "payload_string ''source_item_id'' p = Some i"
  shows "sys_jobs s' = sys_jobs s \<and> only_item i (sys_dom s) (sys_dom s')
    \<and> (\<exists>it it'. get_source_item i (sys_dom s) = Some it \<and> get_source_item i (sys_dom s') = Some it'
         \<and> si_enrich_status it' = si_enrich_status it \<and> si_state it' \<noteq> SiPending)"
proof -
  from h p obtain it where it: "get_source_item i (sys_dom s) = Some it"
    by (elim handle_integrate_Inr) simp
  from integrated_once_items [OF h p it] it show ?thesis
    by (elim disjE conjE) (auto simp: get_source_item_def find_update_where dest: find_SomeD intro: only_item_update)
qed

lemma integrates_keeps_inv:
  assumes inv: "inbox_inv w" and row: "r \<in> set (rows (sys_jobs (ib_sys w)))" "row_queue r = INTEGRATE"
    and h: "handle_integrate wb pl (ib_sys w) (row_payload r) = Inr (s', after)"
  shows "inbox_inv (w\<lparr>ib_sys := commits now (row_id r) n s'\<rparr>)"
proof -
  obtain i where i: "payload_string ''source_item_id'' (row_payload r) = Some i" "row_names (row_id r) i (sys_jobs (ib_sys w))"
    using stage_row_item [OF inbox_invD(1) [OF inv] row(1)] row(2) by blast
  note eff = handle_integrate_item [OF h i(1)]
  have "evolves {i} (sys_jobs (ib_sys w)) (sys_jobs (commits now (row_id r) n s'))"
    using commits_evolves [of s' "row_id r" i] inbox_invD(1) [OF inv] i(2) eff by simp
  moreover have "started_ok (commits now (row_id r) n s') i" if "started_ok (ib_sys w) i"
    using that eff by (auto simp: started_ok_def)
  ultimately show ?thesis
    using stage_keeps_inv [OF inv, of i _ "ib_running w"] eff by simp
qed

lemma gives_up_evolves:
  assumes "evolves {i} db (sys_jobs (recorder (row_payload r) e s))" and "row_names (row_id r) i db" and "row_id r < next_id db"
  shows "evolves {i} db (sys_jobs (gives_up now e r recorder s))"
proof -
  have "evolves {i} (sys_jobs (recorder (row_payload r) e s)) (sys_jobs (gives_up now e r recorder s))"
    using settle_evolves [OF _ row_names_evolves [OF assms(2,3,1)] give_up_op.row_op_axioms] assms(1)
    by (simp add: gives_up_def Let_def evolves_def)
  from evolves_trans [OF assms(1) this] show ?thesis by simp
qed

lemma gives_up_dom [simp]: "sys_dom (gives_up now e r recorder s) = sys_dom (recorder (row_payload r) e s)"
  by (simp add: gives_up_def Let_def)

lemma integrate_fails_keeps_inv:
  assumes inv: "inbox_inv w" and row: "r \<in> set (rows (sys_jobs (ib_sys w)))" "row_queue r = INTEGRATE"
  shows "inbox_inv (w\<lparr>ib_sys := gives_up now e r (source_item_failed pl) (ib_sys w)\<rparr>)"
proof -
  let ?s = "ib_sys w" and ?s' = "gives_up now e r (source_item_failed pl) (ib_sys w)"
  note ok = inbox_invD(1) [OF inv]
  obtain i where i: "payload_string ''source_item_id'' (row_payload r) = Some i" "row_names (row_id r) i (sys_jobs ?s)"
      "row_id r < next_id (sys_jobs ?s)"
    using stage_row_item [OF ok row(1)] row(2) by blast
  have f: "source_item_failed pl (row_payload r) e ?s = on_dom (mark_source_item (pl_now pl) i SiFailed (Some (take 2000 e)) (sys_dom ?s)) ?s"
    by (simp add: source_item_failed_def i)
  have "evolves {i} (sys_jobs ?s) (sys_jobs ?s')" by (rule gives_up_evolves) (simp_all add: f evolves_refl ok i)
  moreover have "only_item i (sys_dom ?s) (sys_dom ?s')"
    by (rule only_item_update [where f = "\<lambda>r. r\<lparr>si_state := SiFailed, si_error := Some (take 2000 e),
          si_integrated_at := si_integrated_at r\<rparr>"]) (simp_all add: f mark_source_item_def)
  moreover have "started_ok ?s' i" if "started_ok ?s i"
  proof -
    from that obtain it where "get_source_item i (sys_dom ?s) = Some it" "si_enrich_status it \<in> begun" by (auto simp: started_ok_def)
    then show ?thesis by (auto simp: started_ok_def f marked_integrated dest: get_source_item_id)
  qed
  ultimately show ?thesis
    using stage_keeps_inv [OF inv, of i _ "ib_running w"] by simp
qed

text \<open>Every way out of the enrich stage: one integrate job more, for the item, on a new row.\<close>

definition hands_on :: "string \<Rightarrow> dom sys \<Rightarrow> dom sys \<Rightarrow> bool" where
  "hands_on i s s' \<longleftrightarrow>
     evolves {} (sys_jobs s) (sys_jobs s') \<and> live_from (next_id (sys_jobs s)) i (sys_jobs s')
     \<and> only_item i (sys_dom s) (sys_dom s')
     \<and> (\<forall>it. get_source_item i (sys_dom s) = Some it \<and> si_enrich_status it \<in> begun
          \<longrightarrow> (\<exists>it'. get_source_item i (sys_dom s') = Some it' \<and> si_enrich_status it' \<in> begun))"

lemma hands_on_queue:
  assumes "jobs_ok (sys_jobs s)" and "i \<noteq> []" and "sys_jobs s1 = sys_jobs s"
    and "source_items (sys_dom s1) = update_where (\<lambda>r. si_id r = i) f (source_items (sys_dom s))"
    and "\<And>r. si_id (f r) = si_id r" and "\<And>r. si_enrich_status r \<in> begun \<Longrightarrow> si_enrich_status (f r) \<in> begun"
  shows "hands_on i s (queue_integration c u i p s1)"
proof -
  have q: "sys_jobs (queue_integration c u i p s1) = snd (enqueue (pl_sha (ec_pl c)) (pl_now (ec_pl c)) INTEGRATE
      (integrate_body i (Some p) False True) (Some u) 0 (sys_jobs s))"
    by (simp add: queue_integration_def enqueue_integrate_job_def assms(3))
  have "stage_payload INTEGRATE (integrate_body i (Some p) False True)"
    using assms(2) by (simp add: stage_payload_def integrate_body_fields)
  note e = evolves_enqueue [OF assms(1) this]
  have "\<exists>it'. get_source_item i (sys_dom s1) = Some it' \<and> si_enrich_status it' \<in> begun"
    if "get_source_item i (sys_dom s) = Some it" "si_enrich_status it \<in> begun" for it
    using that assms(6) get_source_item_id [OF that(1)]
    by (auto simp: get_source_item_def assms(4,5) find_update_where)
  with e only_item_update [OF assms(4,5)] show ?thesis
    by (simp add: hands_on_def q integrate_body_fields)
qed

lemma finished_begun [simp]: "Some (status_of_run st) \<in> begun" "Some EnFailed \<in> begun" "Some EnDone \<in> begun" "Some EnRunning \<in> begun"
  by (simp_all add: begun_def FINISHED_STATES_def status_of_run_def)

lemma declined_hands_on:
  "jobs_ok (sys_jobs s) \<Longrightarrow> si_id it \<noteq> [] \<Longrightarrow> hands_on (si_id it) s (declined c it dm m st p s)"
  unfolding declined_def
  by (rule hands_on_queue [where f = "\<lambda>r. r\<lparr>si_enrich_status := Some (status_of_run st), si_enrich_error := Some m\<rparr>"])
    (simp_all add: mark_enrichment_finished_def update_source_item_def record_enrich_run_def)

lemma replay_hands_on:
  "jobs_ok (sys_jobs s) \<Longrightarrow> i \<noteq> [] \<Longrightarrow> hands_on i s (queue_integration c u i p s)"
  by (rule hands_on_queue [where f = "\<lambda>r. r"]) (simp_all add: update_where_def)

lemma kept_source_items [simp]: "source_items (keep_browser_state c u dm r d) = source_items d"
  "source_items (record_enrich_run x d) = source_items d"
  by (auto simp: keep_browser_state_def store_browser_state_def record_enrich_run_def Let_def
      split: option.split sum.split elim!: and_then_InrE)

lemma answer_hands_on:
  assumes "jobs_ok (sys_jobs s)" and "si_id it \<noteq> []"
  shows "hands_on (si_id it) s (enrich_answer c it dm a p s)"
proof (cases a)
  case (Inl e)
  then show ?thesis using declined_hands_on [OF assms] by (simp add: enrich_answer_def)
next
  case (Inr x)
  define f :: "source_item \<Rightarrow> source_item" where "f = (\<lambda>r. if article_ok x
      then r\<lparr>si_original_text := Some (case si_original_text r of Some x \<Rightarrow> x | None \<Rightarrow> si_text r),
             si_text := article_text (or_empty (an_article_url x)) (py_strip (or_empty (an_article_markdown x))),
             si_enrich_status := Some EnDone, si_enrich_error := None, si_enriched_at := Some (ec_clock c)\<rparr>
      else r\<lparr>si_enrich_status := Some EnFailed, si_enrich_error :=
               Some (if or_empty (an_error x) = [] then ''the article was not retrieved'' else or_empty (an_error x))\<rparr>)"
  have "source_items (apply_result c it dm x (sys_dom s)) = update_where (\<lambda>r. si_id r = si_id it) f (source_items (sys_dom s))"
    by (simp add: apply_result_def Let_def f_def mark_enrichment_finished_def apply_enriched_article_def update_source_item_def)
  then show ?thesis unfolding enrich_answer_def Inr sum.case
    by (intro hands_on_queue [OF assms, where f = f]) (simp_all add: f_def)
qed

text \<open>After the hand-on, settling the stage's own row leaves the new job.\<close>

lemma hands_on_keeps_inv:
  assumes inv: "inbox_inv w" and h: "hands_on i (ib_sys w) s"
    and n: "row_names n i (sys_jobs (ib_sys w))" "n < next_id (sys_jobs (ib_sys w))" and f: "row_op f"
    and run: "set run \<subseteq> set (ib_running w)"
  shows "inbox_inv (w\<lparr>ib_sys := with_jobs (update_row n f (sys_jobs s)) s, ib_running := run\<rparr>)"
proof (rule stage_keeps_inv [OF inv _ _ _ run, where i = i])
  let ?s = "with_jobs (update_row n f (sys_jobs s)) s"
  from h have e: "evolves {} (sys_jobs (ib_sys w)) (sys_jobs s)" and ok: "jobs_ok (sys_jobs s)" by (simp_all add: hands_on_def evolves_def)
  from evolves_trans [OF e settle_evolves [OF ok row_names_evolves [OF n e] f]]
  show "evolves {i} (sys_jobs (ib_sys w)) (sys_jobs ?s)" by simp
  show "only_item i (sys_dom (ib_sys w)) (sys_dom ?s)" using h by (simp add: hands_on_def)
  have "live i (sys_jobs ?s)"
    using h live_from_live [OF live_from_update [OF _ n(2)]] by (simp add: hands_on_def)
  then show "started_ok ?s i" if "started_ok (ib_sys w) i"
    using that h by (auto simp: started_ok_def hands_on_def)
qed

lemma settled_keeps_inv:
  assumes inv: "inbox_inv w" and n: "row_names n i (sys_jobs (ib_sys w))" and f: "row_op f"
    and gone: "\<And>it. get_source_item i (sys_dom (ib_sys w)) = Some it \<Longrightarrow> si_state it \<noteq> SiPending"
  shows "inbox_inv (w\<lparr>ib_sys := with_jobs (update_row n f (sys_jobs (ib_sys w))) (ib_sys w)\<rparr>)"
proof -
  let ?s = "with_jobs (update_row n f (sys_jobs (ib_sys w))) (ib_sys w)"
  have "started_ok ?s i" if "started_ok (ib_sys w) i"
    using that gone by (auto simp: started_ok_def)
  then show ?thesis
    using stage_keeps_inv [OF inv, of i ?s "ib_running w"] settle_evolves [OF inbox_invD(1) [OF inv] n f] by simp
qed

lemma enrich_settles_keeps_inv:
  assumes inv: "inbox_inv w" and row: "r \<in> set (rows (sys_jobs (ib_sys w)))" "row_queue r = ENRICH"
    and g: "enrich_gate c (row_payload r) (ib_sys w) = Inr (Settled s')"
  shows "inbox_inv (w\<lparr>ib_sys := commits now (row_id r) n s'\<rparr>)"
proof -
  let ?s = "ib_sys w"
  note ok = inbox_invD(1) [OF inv]
  obtain i where i: "payload_string ''source_item_id'' (row_payload r) = Some i" "row_names (row_id r) i (sys_jobs ?s)"
      "row_id r < next_id (sys_jobs ?s)"
    using stage_row_item [OF ok row(1)] row(2) by blast
  have ne: "i \<noteq> []" using i(1) by (auto simp: payload_string_def split: option.splits json.splits if_splits)
  have "require (pl_repr (ec_pl c)) ''source_item_id'' (row_payload r) = Inr i" using i(1) by (simp add: require_Inr)
  with g obtain it where it: "get_source_item i (sys_dom ?s) = Some it"
    and waits: "si_state it \<noteq> SiPending \<Longrightarrow> s' = ?s"
    by (auto simp: enrich_gate_def split: option.splits if_splits)
  have id: "si_id it = i" by (rule get_source_item_id [OF it])
  show ?thesis
  proof (cases "si_state it = SiPending")
    case False
    with settled_keeps_inv [OF inv i(2) mark_op.row_op_axioms] waits it
    show ?thesis by (simp add: commits_def mark_work_committed_def)
  next
    case True
    from g i(1) it True have "hands_on i ?s s'"
    proof (cases rule: enrich_gate_cases)
      case replay
      then show ?thesis using replay_hands_on [OF ok, of i] ne by (simp add: id)
    next
      case (declined' dm m st)
      then show ?thesis using declined_hands_on [OF ok, of it] ne by (simp add: id)
    qed simp
    from hands_on_keeps_inv [OF inv this i(2,3) mark_op.row_op_axioms, where run = "ib_running w"]
    show ?thesis by (simp add: commits_def mark_work_committed_def)
  qed
qed

lemma enrich_fails_keeps_inv:
  assumes inv: "inbox_inv w" and row: "r \<in> set (rows (sys_jobs (ib_sys w)))" "row_queue r = ENRICH"
  shows "inbox_inv (w\<lparr>ib_sys := gives_up now e r (record_enrich_failure c) (ib_sys w)\<rparr>)"
proof -
  let ?s = "ib_sys w"
  note ok = inbox_invD(1) [OF inv]
  obtain i where i: "payload_string ''source_item_id'' (row_payload r) = Some i" "row_names (row_id r) i (sys_jobs ?s)"
      "row_id r < next_id (sys_jobs ?s)"
    using stage_row_item [OF ok row(1)] row(2) by blast
  have p: "map_of (row_payload r) ''source_item_id'' = Some (JStr i)" and ne: "i \<noteq> []"
    using i(1) by (auto simp: payload_string_def split: option.splits json.splits if_splits)
  show ?thesis
  proof (cases "\<exists>it. get_source_item i (sys_dom ?s) = Some it \<and> si_state it = SiPending")
    case True
    then obtain it dm where it: "get_source_item i (sys_dom ?s) = Some it"
      and d: "record_enrich_failure c (row_payload r) e ?s = declined c it dm e RunFailed (row_payload r) ?s"
      by (auto simp: record_enrich_failure_def p ne)
    have "hands_on i ?s (record_enrich_failure c (row_payload r) e ?s)"
      using declined_hands_on [OF ok, of it] ne get_source_item_id [OF it] by (simp add: d)
    from hands_on_keeps_inv [OF inv this i(2,3) give_up_op.row_op_axioms, where run = "ib_running w"]
    show ?thesis by (simp add: gives_up_def Let_def)
  next
    case False
    then have "record_enrich_failure c (row_payload r) e ?s = ?s"
      by (auto simp: record_enrich_failure_def p ne split: option.split)
    with settled_keeps_inv [OF inv i(2) give_up_op.row_op_axioms] False
    show ?thesis by (auto simp: gives_up_def Let_def)
  qed
qed

lemma agent_starts_keeps_inv:
  assumes inv: "inbox_inv w" and row: "r \<in> set (rows (sys_jobs (ib_sys w)))" "live_row r" "row_queue r = ENRICH"
    and g: "enrich_gate c (row_payload r) (ib_sys w) = Inr (Start it dm rq f)"
  shows "inbox_inv (w\<lparr>ib_sys := announced it (ib_sys w), ib_started := ib_started w @ [rq_item_id rq],
           ib_running := \<lparr>ag_row = row_id r, ag_item = it, ag_domain = dm, ag_payload = row_payload r\<rparr> # ib_running w\<rparr>)"
proof -
  let ?s = "ib_sys w"
  note ok = inbox_invD(1,2) [OF inv]
  obtain i where i: "payload_string ''source_item_id'' (row_payload r) = Some i" "row_names (row_id r) i (sys_jobs ?s)"
      "row_id r < next_id (sys_jobs ?s)" "stage_row i r"
    using stage_row_item [OF ok(1) row(1)] row(3) by blast
  have ne: "i \<noteq> []" using i(1) by (auto simp: payload_string_def split: option.splits json.splits if_splits)
  have "require (pl_repr (ec_pl c)) ''source_item_id'' (row_payload r) = Inr i" using i(1) by (simp add: require_Inr)
  with g obtain it0 where it0: "get_source_item i (sys_dom ?s) = Some it0" "si_state it0 = SiPending"
    by (auto simp: enrich_gate_def split: option.splits if_splits)
  from g i(1) it0 have "it0 = it \<and> si_enrich_status it \<notin> begun \<and> rq_item_id rq = si_id it"
  proof (cases rule: enrich_gate_cases)
    case (start dm' rq' f' cf)
    then show ?thesis by (auto simp: begun_def build_request_Inr_item)
  qed simp_all
  then have it: "get_source_item i (sys_dom ?s) = Some it" "si_enrich_status it \<notin> begun" and rq: "rq_item_id rq = i"
    and id: "si_id it = i" using it0(1) get_source_item_id [OF it0(1)] by auto
  have fresh: "i \<notin> set (ib_started w)" using inbox_invD(3) [OF inv, of i] it by (auto simp: started_ok_def)
  have items: "source_items (sys_dom (announced it ?s)) = update_where (\<lambda>r. si_id r = i)
      (\<lambda>r. if si_enrich_status r = Some EnDone then r else r\<lparr>si_enrich_status := Some EnRunning\<rparr>) (source_items (sys_dom ?s))"
    by (simp add: announced_def mark_enrichment_running_def update_source_item_def id)
  have jobs: "sys_jobs (announced it ?s) = sys_jobs ?s" by (simp add: announced_def)
  have "live i (sys_jobs ?s)" using row i(4) by (auto simp: live_def)
  moreover have "\<exists>it'. get_source_item i (sys_dom (announced it ?s)) = Some it' \<and> si_enrich_status it' \<in> begun"
    using it id by (auto simp: get_source_item_def items find_update_where)
  ultimately have new: "started_ok (announced it ?s) i" by (auto simp: started_ok_def jobs)
  have "inbox_inv (w\<lparr>ib_sys := announced it ?s, ib_running := ib_running w\<rparr>)"
    by (rule stage_keeps_inv [OF inv, where i = i])
      (use new only_item_update [OF items] in \<open>auto simp: jobs evolves_refl ok(1)\<close>)
  with fresh new rq ne i id show ?thesis by (simp add: inbox_inv_def agent_ok_def jobs)
qed

lemma agent_answers_keeps_inv:
  assumes inv: "inbox_inv w" and a: "a \<in> set (ib_running w)"
  shows "inbox_inv (w\<lparr>ib_sys := commits now (ag_row a) n (enrich_answer c (ag_item a) dm x p (ib_sys w)),
           ib_running := remove1 a (ib_running w)\<rparr>)"
proof -
  from inv a have ok: "si_id (ag_item a) \<noteq> []" "row_names (ag_row a) (si_id (ag_item a)) (sys_jobs (ib_sys w))"
    "ag_row a < next_id (sys_jobs (ib_sys w))" by (simp_all add: inbox_inv_def agent_ok_def)
  from hands_on_keeps_inv [OF inv answer_hands_on [OF inbox_invD(1) [OF inv] ok(1)] ok(2,3) mark_op.row_op_axioms]
  show ?thesis by (simp add: commits_def mark_work_committed_def set_remove1_subset)
qed

lemma inbox_step_keeps_inv: "inbox_step w w' \<Longrightarrow> inbox_inv w \<Longrightarrow> inbox_inv w'"
proof (induction rule: inbox_step.induct)
  case (arrives now i user source title t links w d)
  then show ?case
    using arrives_keeps_inv [of w now i user source title t links d "sys_jobs (ib_sys w)"]
    by (simp add: evolves_refl inbox_invD(1) with_jobs_def on_dom_def)
next
  case (paste pl i user title t w s')
  then obtain d where d: "insert_source_item (pl_now pl) i user PASTE_SOURCE_ID title t (merge_links [find_links t])
        (sys_dom (ib_sys w)) = Inr d"
      "s' = enqueue_job pl INTEGRATE [(''source_item_id'', JStr i)] (Some user) (on_dom d (ib_sys w))"
    by (auto simp: enqueue_paste_def elim!: and_then_InrE)
  have "evolves {} (sys_jobs (ib_sys w)) (sys_jobs s')"
    using paste(2) inbox_invD(1) [OF paste(3)] by (auto simp: d(2) stage_payload_def intro!: evolves_enqueue)
  from arrives_keeps_inv [OF paste(3) d(1) paste(2) this] show ?case
    by (simp add: d(2) enqueue_job_def on_jobs_def on_dom_def with_jobs_def)
next
  case (queue w db)
  note e = queue_move_evolves [OF queue(1) inbox_invD(1) [OF queue(2)]]
  show ?case
    by (rule inbox_inv_sys' [OF queue(2), where D = "{}"])
      (use e inbox_invD(2,3) [OF queue(2)] started_ok_same [of "ib_sys w" _ "{}"] in simp_all)
next
  case (worker_dies w a)
  have "set (remove1 a (ib_running w)) \<subseteq> set (ib_running w)" by (rule set_remove1_subset)
  with worker_dies show ?case by (auto simp: inbox_inv_def)
qed (simp_all add: ingest_keeps_inv dismiss_keeps_inv integrates_keeps_inv integrate_fails_keeps_inv
    enrich_settles_keeps_inv agent_starts_keeps_inv agent_answers_keeps_inv enrich_fails_keeps_inv)

lemma inbox_reachable_inv: "inbox_reachable w \<Longrightarrow> inbox_inv w"
proof (induction rule: inbox_reachable.induct)
  case (inbox_init w)
  then show ?case by (simp add: inbox_start_def inbox_inv_def)
next
  case (inbox_next w w')
  then show ?case by (blast intro: inbox_step_keeps_inv)
qed


definition demo_queue :: "dom sys" where
  "demo_queue = enqueue_job demo_stage ENRICH demo_enrich_payload (Some ''u'') demo_inbox"

definition demo_run :: inbox where
  "demo_run = \<lparr>ib_sys = announced (demo_source ''s'') demo_queue,
     ib_running = [\<lparr>ag_row = 0, ag_item = demo_source ''s'', ag_domain = ''example.com'', ag_payload = demo_enrich_payload\<rparr>],
     ib_started = [''s'']\<rparr>"

lemma demo_run_reachable: "inbox_reachable demo_run"
proof -
  define r where "r = hd (rows (sys_jobs demo_queue))"
  define w where "w = \<lparr>ib_sys = demo_queue, ib_running = [], ib_started = []\<rparr>"
  have rows: "rows (sys_jobs demo_queue) = [r]" and nid: "next_id (sys_jobs demo_queue) = 1"
    and dom: "sys_dom demo_queue = sys_dom demo_inbox"
    by (simp_all add: r_def demo_queue_def demo_inbox_def enqueue_def)
  have r: "row_id r = 0" "row_queue r = ENRICH" "row_payload r = demo_enrich_payload" "live_row r"
    by (simp_all add: r_def demo_queue_def demo_inbox_def enqueue_def live_row_def)
  have "stage_row ''s'' r" by (simp add: stage_row_def r demo_enrich_payload_def)
  then have "jobs_ok (sys_jobs demo_queue)" by (auto simp: jobs_ok_def rows nid r)
  moreover have "items_ok (sys_dom demo_queue)"
    unfolding dom by (simp add: items_ok_def demo_inbox_def demo_source_def)
  ultimately have "inbox_reachable w" by (intro inbox_init) (simp add: inbox_start_def w_def)
  moreover have g: "enrich_gate demo_enrich (row_payload r) (ib_sys w)
     = Inr (Start (demo_source ''s'') ''example.com'' demo_request (\<lambda>_ _. Inr (demo_answer (1 / 4))))"
    by (simp add: r w_def demo_gate_any [OF dom])
  have "inbox_step w demo_run"
    using agent_starts [OF _ r(4,2) g] by (simp add: w_def rows demo_run_def r demo_request_def)
  ultimately show ?thesis by (rule inbox_next)
qed


end
