(* ===== verification/Ingest.thy ===== *)
theory Ingest
  imports Mailbox Inbox
begin

text \<open>
  The \<open>poll\<close> and \<open>extract\<close> stages of \<open>workers/src/motet_workers/ingest.py\<close>, with the statements of
  \<open>db/src/motet_db/phase2.py\<close> they run: which messages are new, a fetched message as a source item, a
  poll already waiting, and the running totals of a sync. The mail client and the extraction of a
  message's text are arguments (see \<open>Mailbox\<close>).
\<close>

section \<open>Constants and small readers\<close>

definition POLL_PAGE_SIZE :: nat where "POLL_PAGE_SIZE = 50"
definition MAX_PAGES_PER_POLL :: nat where "MAX_PAGES_PER_POLL = 10"
definition RESYNC_REQUESTED_CONFIG_KEY :: string where "RESYNC_REQUESTED_CONFIG_KEY = ''resync_requested_at''"
definition RESYNC_DONE_KEY :: string where "RESYNC_DONE_KEY = ''resync_done_at''"
definition SYNC_RUN_KEY :: string where "SYNC_RUN_KEY = ''sync_run''"
definition DEFAULT_QUERY :: string where "DEFAULT_QUERY = ''category:updates OR category:promotions''"
definition CATALOG_MAX_AGE :: int where "CATALOG_MAX_AGE = secs (24 * 3600)"

definition config_first_sync_days :: "payload \<Rightarrow> int option" where
  "config_first_sync_days config =
     (case map_of config ''first_sync_days'' of Some (JInt n) \<Rightarrow> if n \<le> 0 then None else Some n | _ \<Rightarrow> None)"

definition source_query :: "payload \<Rightarrow> string" where
  "source_query config =
     (case map_of config ''query'' of
        Some (JStr q) \<Rightarrow> if py_strip q = [] then DEFAULT_QUERY else py_strip q
      | _ \<Rightarrow> DEFAULT_QUERY)"

definition as_moment :: "mail_ctx \<Rightarrow> json option \<Rightarrow> time option" where
  "as_moment mx v = (case v of Some (JStr s) \<Rightarrow> if s = [] then None else mx_read mx s | _ \<Rightarrow> None)"

text \<open>The request this poll is to honour: asked for, and not done at or after that moment.\<close>

definition pending_resync :: "mail_ctx \<Rightarrow> source_row \<Rightarrow> string option" where
  "pending_resync mx r =
     (let requested = map_of (so_config r) RESYNC_REQUESTED_CONFIG_KEY
      in case as_moment mx requested of
           None \<Rightarrow> None
         | Some asked \<Rightarrow>
             (case as_moment mx (map_of (so_sync_state r) RESYNC_DONE_KEY) of
                Some finished \<Rightarrow> if asked \<le> finished then None else payload_string RESYNC_REQUESTED_CONFIG_KEY (so_config r)
              | None \<Rightarrow> payload_string RESYNC_REQUESTED_CONFIG_KEY (so_config r)))"

definition sent_at :: "mail_ctx \<Rightarrow> string \<Rightarrow> time option" where
  "sent_at mx date = (if date = [] then None else mx_read mx date)"

section \<open>Statements\<close>

definition source_item_exists :: "string \<Rightarrow> string \<Rightarrow> dom \<Rightarrow> bool" where
  "source_item_exists src ext d \<longleftrightarrow> (\<exists>r \<in> set (source_items d). si_source r = src \<and> si_external_id r = Some ext)"

text \<open>An \<open>extract\<close> job of the message, in any state.\<close>

definition payload_is :: "string \<Rightarrow> string \<Rightarrow> payload \<Rightarrow> bool" where
  "payload_is key v p \<longleftrightarrow> (case map_of p key of Some x \<Rightarrow> json_text x = Some v | None \<Rightarrow> False)"

definition extract_work :: "string \<Rightarrow> string \<Rightarrow> queue \<times> payload \<times> string option \<Rightarrow> bool" where
  "extract_work src m w \<longleftrightarrow> fst w = EXTRACT \<and> payload_is ''source_id'' src (fst (snd w)) \<and> payload_is ''message_id'' m (fst (snd w))"

definition handed_on :: "string \<Rightarrow> string \<Rightarrow> dom sys \<Rightarrow> bool" where
  "handed_on src m s \<longleftrightarrow>
     source_item_exists src m (sys_dom s) \<or> (\<exists>w \<in> set (work_of (sys_jobs s)). extract_work src m w)"

fun first_occurrences :: "'a list \<Rightarrow> 'a list \<Rightarrow> 'a list" where
  "first_occurrences out [] = out"
| "first_occurrences out (x # xs) = first_occurrences (if x \<in> set out then out else out @ [x]) xs"

definition unqueued_message_ids :: "string \<Rightarrow> string list \<Rightarrow> dom sys \<Rightarrow> string list" where
  "unqueued_message_ids src ids s =
     (if ids = [] then [] else first_occurrences [] (filter (\<lambda>m. \<not> handed_on src m s) ids))"

definition poll_waiting :: "string \<Rightarrow> jobs_db \<Rightarrow> bool" where
  "poll_waiting src db \<longleftrightarrow>
     (\<exists>r \<in> set (rows db). row_queue r = POLL \<and> row_state r = JReady \<and> payload_is ''source_id'' src (row_payload r))"

text \<open>\<open>ON CONFLICT (source_id, external_id) DO NOTHING\<close>. \<open>received_at\<close> is clamped to the database's now.\<close>

definition insert_polled_source_item ::
  "time \<Rightarrow> string \<Rightarrow> string \<Rightarrow> string \<Rightarrow> string \<Rightarrow> string \<Rightarrow> string \<Rightarrow> time option \<Rightarrow> string list \<Rightarrow> dom
   \<Rightarrow> py_error + string option \<times> dom"
where
  "insert_polled_source_item now new_id user src ext title t received links d =
     (if source_item_exists src ext d then Inr (None, d)
      else if new_id \<in> si_id ` set (source_items d) then Inl (IntegrityError ''source_items_pkey'')
      else Inr (Some new_id, d\<lparr>source_items := source_items d @
             [\<lparr>si_id = new_id, si_user = user, si_source = src, si_title = title, si_text = t,
               si_state = SiPending, si_error = None,
               si_received_at = (case received of None \<Rightarrow> now | Some r \<Rightarrow> min r now),
               si_integrated_at = None, si_links = links, si_external_id = Some ext, si_enrich_status = None,
               si_article_url = None, si_enrich_domain = None, si_enrich_error = None, si_enriched_at = None,
               si_original_text = None, si_label_synced_at = None, si_label_error = None,
               si_label_attempted_at = None\<rparr>]\<rparr>))"

section \<open>The totals of a sync\<close>

definition continuing_sync_run :: "payload \<Rightarrow> payload option" where
  "continuing_sync_run state =
     (case map_of state SYNC_RUN_KEY of
        Some (JObj run) \<Rightarrow> if map_of run ''status'' = Some (JStr ''listing'') then Some run else None
      | _ \<Rightarrow> None)"

definition run_total :: "payload option \<Rightarrow> string \<Rightarrow> int" where
  "run_total run key =
     (case run of None \<Rightarrow> 0 | Some kvs \<Rightarrow> (case map_of kvs key of Some (JInt n) \<Rightarrow> n | _ \<Rightarrow> 0))"

definition advance_sync_run ::
  "mail_ctx \<Rightarrow> payload option \<Rightarrow> nat \<Rightarrow> nat \<Rightarrow> nat \<Rightarrow> bool \<Rightarrow> payload"
where
  "advance_sync_run mx run listed queued pages further =
     (let now = mx_iso mx (pl_now (mx_pl mx))
      in [(''started_at'', case (case run of None \<Rightarrow> None | Some kvs \<Rightarrow> map_of kvs ''started_at'') of
                             Some (JStr t) \<Rightarrow> JStr t | _ \<Rightarrow> JStr now),
          (''updated_at'', JStr now),
          (''listed'', JInt (run_total run ''listed'' + int listed)),
          (''queued'', JInt (run_total run ''queued'' + int queued)),
          (''pages'', JInt (run_total run ''pages'' + int pages)),
          (''status'', JStr (if further then ''listing'' else ''listed'')),
          (''error'', JNull)])"

definition end_sync_run :: "mail_ctx \<Rightarrow> source_row \<Rightarrow> string \<Rightarrow> dom \<Rightarrow> dom" where
  "end_sync_run mx r reason d =
     (case continuing_sync_run (so_sync_state r) of
        None \<Rightarrow> d
      | Some run \<Rightarrow>
          merge_source_sync_state (so_id r) SYNC_RUN_KEY
            (JObj (dict_update run [(''updated_at'', JStr (mx_iso mx (pl_now (mx_pl mx)))), (''status'', JStr ''failed''),
                                    (''error'', JStr reason)])) d)"

section \<open>Polling\<close>

definition poll_key :: "string \<Rightarrow> string" where
  "poll_key src = ''poll:'' @ src"

definition enqueue_source_poll :: "pipeline \<Rightarrow> string \<Rightarrow> dom sys \<Rightarrow> dom sys" where
  "enqueue_source_poll pl src = enqueue_job pl POLL [(''source_id'', JStr src)] (Some (poll_key src))"

definition enqueue_extract :: "pipeline \<Rightarrow> string \<Rightarrow> string \<Rightarrow> dom sys \<Rightarrow> dom sys" where
  "enqueue_extract pl src m = enqueue_job pl EXTRACT [(''source_id'', JStr src), (''message_id'', JStr m)] None"

text \<open>The loop over pages. \<open>n\<close> counts the pages read; the first argument is what is left of
  \<open>MAX_PAGES_PER_POLL\<close>.\<close>

record poll_progress =
  po_sys :: "dom sys"
  po_cursor :: "string option"
  po_seen :: nat
  po_queued :: nat
  po_window_days :: "int option"
  po_more :: bool

fun poll_pages ::
  "nat \<Rightarrow> mail_ctx \<Rightarrow> mail_client \<Rightarrow> string \<Rightarrow> string \<Rightarrow> int option \<Rightarrow> nat \<Rightarrow> poll_progress \<Rightarrow> mail_exn + nat \<times> poll_progress"
where
  "poll_pages 0 mx client src query window n st = Inr (n, st)"
| "poll_pages (Suc left) mx client src query window n st =
     (if \<not> (po_more st \<and> po_queued st < POLL_PAGE_SIZE) then Inr (n, st)
      else and_then (mc_list client n query (po_cursor st) window) (\<lambda>page.
        let fresh = unqueued_message_ids src (pg_messages page) (po_sys st)
        in poll_pages left mx client src query window (Suc n)
             \<lparr>po_sys = fold (enqueue_extract (mx_pl mx) src) fresh (po_sys st), po_cursor = pg_cursor page,
              po_seen = po_seen st + length (pg_messages page), po_queued = po_queued st + length fresh,
              po_window_days = (case pg_first_sync_days page of None \<Rightarrow> po_window_days st | Some k \<Rightarrow> Some k),
              po_more = pg_more page\<rparr>))"

text \<open>The label catalog: read when there is none or it is a day old, and any failure to is swallowed.\<close>

definition catalog_fetched_at :: "mail_ctx \<Rightarrow> payload \<Rightarrow> time option" where
  "catalog_fetched_at mx state =
     (case map_of state CATALOG_KEY of
        Some (JObj raw) \<Rightarrow> (case map_of raw ''fetched_at'' of Some (JStr t) \<Rightarrow> mx_read mx t | _ \<Rightarrow> None)
      | _ \<Rightarrow> None)"

definition read_label_catalog :: "mail_ctx \<Rightarrow> mail_client \<Rightarrow> source_row \<Rightarrow> payload option" where
  "read_label_catalog mx client r =
     (if (case catalog_fetched_at mx (so_sync_state r) of None \<Rightarrow> False | Some t \<Rightarrow> mx_clock mx - t < CATALOG_MAX_AGE)
      then None
      else (case mc_labels client 0 of
              Inl _ \<Rightarrow> None
            | Inr labels \<Rightarrow> Some (catalog_to_sync_state labels (mx_iso mx (mx_clock mx)))))"

definition opt_str :: "string option \<Rightarrow> json" where
  "opt_str v = (case v of None \<Rightarrow> JNull | Some s \<Rightarrow> JStr s)"

definition one_key :: "string \<Rightarrow> json option \<Rightarrow> payload" where
  "one_key k v = (case v of None \<Rightarrow> [] | Some x \<Rightarrow> [(k, x)])"

text \<open>The \<open>sync_state\<close> a poll writes: the snapshot it started with, the mailbox keys from a fresh read and from
  the check, and its own results.\<close>

definition polled_state ::
  "mail_ctx \<Rightarrow> mail_client \<Rightarrow> source_row \<Rightarrow> source_row option \<Rightarrow> payload \<Rightarrow> string option \<Rightarrow> nat \<Rightarrow> poll_progress \<Rightarrow> payload"
where
  "polled_state mx client r reread verified restart pages st =
     (let fresh_key = (\<lambda>k. one_key k (case reread of None \<Rightarrow> None | Some x \<Rightarrow> map_of (so_sync_state x) k));
          before = (if restart \<noteq> None then None else continuing_sync_run (so_sync_state r))
      in fold (\<lambda>kvs acc. dict_update acc kvs)
           [fresh_key MAILBOX_ADDRESS_KEY @ fresh_key MAILBOX_VERIFIED_FOR_KEY,
            verified,
            [(''cursor'', opt_str (po_cursor st)),
             (''last_sync'', JObj [(''at'', JStr (mx_iso mx (mx_clock mx))), (''seen'', JInt (int (po_seen st))),
                (''queued'', JInt (int (po_queued st))), (''caught_up'', JBool (\<not> po_more st)), (''error'', JNull)]),
             (SYNC_RUN_KEY, JObj (advance_sync_run mx before (po_seen st) (po_queued st) pages (po_more st)))],
            one_key RESYNC_DONE_KEY (map_option JStr restart),
            one_key ''first_sync_days'' (map_option JInt (po_window_days st)),
            one_key CATALOG_KEY (map_option JObj (read_label_catalog mx client r))]
           (so_sync_state r))"

text \<open>The stored cursor, or none when a resync was asked for: a first sync.\<close>

definition starting_cursor :: "mail_ctx \<Rightarrow> source_row \<Rightarrow> string option" where
  "starting_cursor mx r =
     (if pending_resync mx r \<noteq> None then None
      else case map_of (so_sync_state r) ''cursor'' of Some (JStr c) \<Rightarrow> Some c | _ \<Rightarrow> None)"

text \<open>Everything after the mailbox is known to be the right one.\<close>

definition poll_mailbox ::
  "mail_ctx \<Rightarrow> source_row \<Rightarrow> mail_client \<Rightarrow> payload \<Rightarrow> dom sys \<Rightarrow> mail_exn + dom sys"
where
  "poll_mailbox mx r client verified s =
     (let restart = pending_resync mx r
      in and_then (poll_pages MAX_PAGES_PER_POLL mx client (so_id r) (source_query (so_config r))
             (config_first_sync_days (so_config r)) 0
             \<lparr>po_sys = s, po_cursor = starting_cursor mx r, po_seen = 0, po_queued = 0, po_window_days = None, po_more = True\<rparr>) (\<lambda>(pages, st).
           let s1 = po_sys st;
               state = polled_state mx client r (get_source (so_id r) (sys_dom s1)) verified restart pages st;
               s2 = on_dom (set_source_sync_state (pl_now (mx_pl mx)) (so_id r) state None (sys_dom s1)) s1
           in Inr (if po_more st \<and> \<not> poll_waiting (so_id r) (sys_jobs s2) then enqueue_source_poll (mx_pl mx) (so_id r) s2 else s2)))"

text \<open>The client of a checked mailbox, the reason the source was disconnected instead, and the keys to write.\<close>

definition open_mailbox ::
  "mail_ctx \<Rightarrow> source_row \<Rightarrow> dom \<Rightarrow> mail_exn + (mail_client \<times> string option \<times> payload) \<times> dom"
where
  "open_mailbox mx r d =
     (case mailbox_check_due mx r d of
        None \<Rightarrow> and_then (access_token mx (so_id r) (so_user r) None d) (\<lambda>(token, d1). Inr ((mx_client mx token, None, []), d1))
      | Some _ \<Rightarrow>
          and_then (mint_token mx (so_id r) (so_user r) d) (\<lambda>(token, stamp, d1).
          and_then (check_mailbox mx r (mx_client mx token) stamp d1) (\<lambda>((mismatch, verified), d2).
          Inr ((mx_client mx token, mismatch, verified), d2))))"

definition poll_source :: "mail_ctx \<Rightarrow> source_row \<Rightarrow> dom sys \<Rightarrow> mail_exn + dom sys" where
  "poll_source mx r s =
     and_then (open_mailbox mx r (sys_dom s)) (\<lambda>((client, mismatch, verified), d).
       if mismatch \<noteq> None then Inr (on_dom d s) else poll_mailbox mx r client verified (on_dom d s))"

definition GMAIL :: string where "GMAIL = ''gmail''"

definition handle_poll :: "mail_ctx \<Rightarrow> dom handler" where
  "handle_poll mx s p =
     and_then (require (pl_repr (mx_pl mx)) ''source_id'' p) (\<lambda>i.
     case get_source i (sys_dom s) of
       None \<Rightarrow> Inl (permanent (''source '' @ i @ '' no longer exists''))
     | Some r \<Rightarrow>
         if \<not> so_active r
         then Inr (on_dom (end_sync_run mx r ''The mailbox was paused before the sync finished.'' (sys_dom s)) s, [])
         else if so_kind r \<noteq> GMAIL
         then Inl (permanent (''source '' @ i @ '' is a '' @ py_repr (so_kind r) @ '' source and cannot be polled''))
         else and_then (mail_raises (poll_source mx r s)) (\<lambda>s'. Inr (s', [])))"

definition record_poll_failure :: "mail_ctx \<Rightarrow> dom recorder" where
  "record_poll_failure mx p e s =
     (case map_of p ''source_id'' of
        Some (JStr i) \<Rightarrow>
          (case get_source i (sys_dom s) of
             None \<Rightarrow> s
           | Some r \<Rightarrow>
               if so_kind r \<noteq> GMAIL then s
               else
                 let now = mx_iso mx (pl_now (mx_pl mx));
                     caught_up = (case map_of (so_sync_state r) ''last_sync'' of
                        Some (JObj prev) \<Rightarrow> (case map_of prev ''caught_up'' of Some v \<Rightarrow> v | None \<Rightarrow> JBool False)
                      | _ \<Rightarrow> JBool False);
                     base = (case continuing_sync_run (so_sync_state r) of None \<Rightarrow> [] | Some run \<Rightarrow> run);
                     run = dict_update (dict_update [(''started_at'', JStr now), (''listed'', JInt 0), (''queued'', JInt 0),
                              (''pages'', JInt 0)] base)
                            [(''updated_at'', JStr now), (''status'', JStr ''failed''), (''error'', JStr (take 2000 e))];
                     state = dict_update (so_sync_state r)
                       [(''last_sync'', JObj [(''at'', JStr (mx_iso mx (mx_clock mx))), (''seen'', JInt 0), (''queued'', JInt 0),
                           (''caught_up'', caught_up), (''error'', JStr (take 2000 e))]),
                        (SYNC_RUN_KEY, JObj run)]
                 in on_dom (set_source_sync_state (pl_now (mx_pl mx)) i state (Some (take 2000 e)) (sys_dom s)) s)
      | _ \<Rightarrow> s)"

section \<open>Extracting\<close>

definition record_skip :: "string \<Rightarrow> string \<Rightarrow> string \<Rightarrow> dom \<Rightarrow> dom" where
  "record_skip src m reason =
     merge_source_sync_state src ''last_skipped'' (JObj [(''message_id'', JStr m), (''reason'', JStr (take 200 reason))])"

text \<open>\<open>new_id\<close> is the random id of the row.\<close>

definition handle_extract :: "mail_ctx \<Rightarrow> string \<Rightarrow> dom handler" where
  "handle_extract mx new_id s p =
     and_then (require (pl_repr (mx_pl mx)) ''source_id'' p) (\<lambda>i.
     and_then (require (pl_repr (mx_pl mx)) ''message_id'' p) (\<lambda>m.
     case get_source i (sys_dom s) of
       None \<Rightarrow> Inl (permanent (''source '' @ i @ '' no longer exists''))
     | Some r \<Rightarrow>
         if source_item_exists i m (sys_dom s) then Inr (s, [])
         else
           and_then (mail_raises (access_token mx i (so_user r) None (sys_dom s))) (\<lambda>(token, d).
           and_then (mail_raises (mc_fetch (mx_client mx token) m)) (\<lambda>raw.
           case mx_extract mx raw of
             Inl why \<Rightarrow> Inr (on_dom (record_skip i m why d) s, [])
           | Inr x \<Rightarrow>
               and_then (raises (insert_polled_source_item (pl_now (mx_pl mx)) new_id (so_user r) i m (xm_title x) (xm_text x)
                    (sent_at mx (xm_date x)) (xm_links x) d)) (\<lambda>(_, d1). Inr (on_dom d1 s, []))))))"

section \<open>What a poll reads is handed on\<close>

lemma first_occurrences_facts:
  "set (first_occurrences out xs) = set out \<union> set xs"
  "distinct out \<Longrightarrow> distinct (first_occurrences out xs)"
  by (induction xs arbitrary: out) auto

lemma unqueued_facts:
  "set (unqueued_message_ids src ids s) = {m \<in> set ids. \<not> handed_on src m s}"
  "distinct (unqueued_message_ids src ids s)"
  by (auto simp: unqueued_message_ids_def first_occurrences_facts)

text \<open>The work a poll adds for a message.\<close>

definition extract_job :: "string \<Rightarrow> string \<Rightarrow> queue \<times> payload \<times> string option" where
  "extract_job src m = (EXTRACT, [(''source_id'', JStr src), (''message_id'', JStr m)], None)"

lemma extract_work_job [simp]: "extract_work src m (extract_job src m') \<longleftrightarrow> m = m'"
  by (auto simp: extract_work_def extract_job_def payload_is_def json_text_def)

lemma enqueue_extracts [simp]:
  "work_of (sys_jobs (fold (enqueue_extract pl src) ms s)) = work_of (sys_jobs s) @ map (extract_job src) ms"
  "sys_dom (fold (enqueue_extract pl src) ms s) = sys_dom s"
  by (induction ms arbitrary: s) (simp_all add: enqueue_extract_def extract_job_def)

fun page_chain :: "mail_client \<Rightarrow> string \<Rightarrow> int option \<Rightarrow> nat \<Rightarrow> string option \<Rightarrow> mail_page list \<Rightarrow> bool" where
  "page_chain client query window n cursor [] = True"
| "page_chain client query window n cursor (p # ps) =
     (mc_list client n query cursor window = Inr p \<and> page_chain client query window (Suc n) (pg_cursor p) ps)"

definition handed_on_all :: "string \<Rightarrow> mail_page list \<Rightarrow> dom sys \<Rightarrow> bool" where
  "handed_on_all src pgs s \<longleftrightarrow> (\<forall>pg \<in> set pgs. \<forall>m \<in> set (pg_messages pg). handed_on src m s)"

lemma handed_on_mono:
  "sys_dom s' = sys_dom s \<Longrightarrow> set (work_of (sys_jobs s)) \<subseteq> set (work_of (sys_jobs s')) \<Longrightarrow> handed_on src m s \<Longrightarrow> handed_on src m s'"
  by (auto simp: handed_on_def)

lemma poll_pages_hands_on:
  assumes "poll_pages left mx client src query window n st = Inr (n', st')"
  obtains pgs ms where "page_chain client query window n (po_cursor st) pgs" "length pgs \<le> left"
    "po_cursor st' = (if pgs = [] then po_cursor st else pg_cursor (last pgs))"
    "po_more st' = (if pgs = [] then po_more st else pg_more (last pgs))"
    "left \<noteq> 0 \<Longrightarrow> po_more st \<Longrightarrow> po_queued st < POLL_PAGE_SIZE \<Longrightarrow> pgs \<noteq> []"
    "sys_dom (po_sys st') = sys_dom (po_sys st)"
    "work_of (sys_jobs (po_sys st')) = work_of (sys_jobs (po_sys st)) @ map (extract_job src) ms" "distinct ms"
    "\<forall>m \<in> set ms. \<not> handed_on src m (po_sys st) \<and> (\<exists>pg \<in> set pgs. m \<in> set (pg_messages pg))"
    "handed_on_all src pgs (po_sys st')"
proof -
  have "\<exists>pgs ms. page_chain client query window n (po_cursor st) pgs \<and> length pgs \<le> left
    \<and> po_cursor st' = (if pgs = [] then po_cursor st else pg_cursor (last pgs))
    \<and> po_more st' = (if pgs = [] then po_more st else pg_more (last pgs))
    \<and> (left \<noteq> 0 \<and> po_more st \<and> po_queued st < POLL_PAGE_SIZE \<longrightarrow> pgs \<noteq> [])
    \<and> sys_dom (po_sys st') = sys_dom (po_sys st)
    \<and> work_of (sys_jobs (po_sys st')) = work_of (sys_jobs (po_sys st)) @ map (extract_job src) ms \<and> distinct ms
    \<and> (\<forall>m \<in> set ms. \<not> handed_on src m (po_sys st) \<and> (\<exists>pg \<in> set pgs. m \<in> set (pg_messages pg)))
    \<and> handed_on_all src pgs (po_sys st')"
    using assms
  proof (induction left arbitrary: n st)
    case 0
    then show ?case by (intro exI [of _ "[]"]) (simp add: handed_on_all_def)
  next
    case (Suc left)
    show ?case
    proof (cases "po_more st \<and> po_queued st < POLL_PAGE_SIZE")
      case False
      with Suc.prems show ?thesis by (intro exI [of _ "[]"]) (auto simp: handed_on_all_def)
    next
      case True
      with Suc.prems obtain page where page: "mc_list client n query (po_cursor st) window = Inr page"
        by (auto elim!: and_then_InrE)
      define fresh where "fresh = unqueued_message_ids src (pg_messages page) (po_sys st)"
      define st1 where "st1 = \<lparr>po_sys = fold (enqueue_extract (mx_pl mx) src) fresh (po_sys st), po_cursor = pg_cursor page,
              po_seen = po_seen st + length (pg_messages page), po_queued = po_queued st + length fresh,
              po_window_days = (case pg_first_sync_days page of None \<Rightarrow> po_window_days st | Some k \<Rightarrow> Some k),
              po_more = pg_more page\<rparr>"
      have "poll_pages left mx client src query window (Suc n) st1 = Inr (n', st')"
        using Suc.prems True page by (simp add: Let_def fresh_def st1_def)
      from Suc.IH [OF this] obtain pgs ms where IH: "page_chain client query window (Suc n) (po_cursor st1) pgs" "length pgs \<le> left"
        "po_cursor st' = (if pgs = [] then po_cursor st1 else pg_cursor (last pgs))"
        "po_more st' = (if pgs = [] then po_more st1 else pg_more (last pgs))"
        "sys_dom (po_sys st') = sys_dom (po_sys st1)"
        "work_of (sys_jobs (po_sys st')) = work_of (sys_jobs (po_sys st1)) @ map (extract_job src) ms" "distinct ms"
        "\<forall>m \<in> set ms. \<not> handed_on src m (po_sys st1) \<and> (\<exists>pg \<in> set pgs. m \<in> set (pg_messages pg))"
        "handed_on_all src pgs (po_sys st')" by blast
      have w1: "work_of (sys_jobs (po_sys st1)) = work_of (sys_jobs (po_sys st)) @ map (extract_job src) fresh"
        "sys_dom (po_sys st1) = sys_dom (po_sys st)" by (simp_all add: st1_def)
      have now: "handed_on src m (po_sys st1)" if "m \<in> set (pg_messages page)" for m
      proof (cases "m \<in> set fresh")
        case True
        then have "extract_job src m \<in> set (work_of (sys_jobs (po_sys st1)))" by (simp add: w1)
        then show ?thesis unfolding handed_on_def using extract_work_job by blast
      next
        case False
        then have "handed_on src m (po_sys st)"
          using that unqueued_facts(1) [of src "pg_messages page" "po_sys st"] by (simp add: fresh_def)
        then show ?thesis by (rule handed_on_mono [OF w1(2), rotated]) (simp add: w1)
      qed
      have later: "handed_on src m (po_sys st')" if "handed_on src m (po_sys st1)" for m
        by (rule handed_on_mono [OF IH(5) _ that]) (simp add: IH(6))
      have earlier: "\<not> handed_on src m (po_sys st)" if "\<not> handed_on src m (po_sys st1)" for m
        using that handed_on_mono [OF w1(2)] by (auto simp: w1(1))
      have mem: "m \<in> set (pg_messages page) \<and> \<not> handed_on src m (po_sys st)" if "m \<in> set fresh" for m
        using that unqueued_facts(1) [of src "pg_messages page" "po_sys st"] by (simp add: fresh_def)
      have "page_chain client query window n (po_cursor st) (page # pgs)" using page IH(1) by (simp add: st1_def)
      moreover have "distinct (fresh @ ms)"
        using IH(7,8) now mem unqueued_facts(2) by (auto simp: fresh_def)
      moreover have "handed_on_all src (page # pgs) (po_sys st')"
        using IH(9) now later by (simp add: handed_on_all_def)
      moreover have "\<forall>m \<in> set (fresh @ ms). \<not> handed_on src m (po_sys st) \<and> (\<exists>pg \<in> set (page # pgs). m \<in> set (pg_messages pg))"
        using IH(8) mem earlier by auto
      moreover have "work_of (sys_jobs (po_sys st')) = work_of (sys_jobs (po_sys st)) @ map (extract_job src) (fresh @ ms)"
        by (simp add: IH(6) w1)
      ultimately show ?thesis using IH(2-5) w1(2)
        by (intro exI [of _ "page # pgs"] exI [of _ "fresh @ ms"]) (simp add: st1_def)
    qed
  qed
  then show thesis using that by blast
qed

lemma poll_mailbox_Inr:
  assumes "poll_mailbox mx r client verified s = Inr s'"
  obtains n st state where
    "poll_pages MAX_PAGES_PER_POLL mx client (so_id r) (source_query (so_config r)) (config_first_sync_days (so_config r)) 0
       \<lparr>po_sys = s, po_cursor = starting_cursor mx r,
        po_seen = 0, po_queued = 0, po_window_days = None, po_more = True\<rparr> = Inr (n, st)"
    "state = polled_state mx client r (get_source (so_id r) (sys_dom (po_sys st))) verified (pending_resync mx r) n st"
    "s' = (let s2 = on_dom (set_source_sync_state (pl_now (mx_pl mx)) (so_id r) state None (sys_dom (po_sys st))) (po_sys st)
           in if po_more st \<and> \<not> poll_waiting (so_id r) (sys_jobs s2) then enqueue_source_poll (mx_pl mx) (so_id r) s2 else s2)"
  using assms by (auto simp: poll_mailbox_def Let_def elim!: and_then_InrE)

lemma polled_state_cursor: "map_of (polled_state mx client r reread verified restart n st) ''cursor'' = Some (opt_str (po_cursor st))"
  by (simp add: polled_state_def Let_def map_of_dict_update one_key_def SYNC_RUN_KEY_def RESYNC_DONE_KEY_def CATALOG_KEY_def
      split: option.split)

lemma poll_job_waits: "poll_waiting src (sys_jobs (enqueue_source_poll pl src s))"
  by (auto simp: poll_waiting_def enqueue_source_poll_def enqueue_def payload_is_def json_text_def)

text \<open>The poll job a chain goes on with.\<close>

definition poll_job :: "string \<Rightarrow> queue \<times> payload \<times> string option" where
  "poll_job src = (POLL, [(''source_id'', JStr src)], Some (poll_key src))"

text \<open>C6: A poll loses no message. When the poll of an active mailbox returns, it either found that the grant reaches
  another account and disconnected the source, adding no work; or it read a chain of at least one and at most
  ten pages, each from where the one before ended, starting at the stored cursor, or from scratch when a
  resync was asked for. Then every message of every page read is a source item or has an extract job; the
  jobs added are one for each message that was neither before, and possibly the next poll; the
  cursor stored is the end of the last page; and if the search has pages left, a poll is waiting to read them.\<close>

theorem poll_loses_no_message:
  assumes "handle_poll mx s p = Inr (s', after)" and "payload_string ''source_id'' p = Some i"
    and "get_source i (sys_dom s) = Some r" and "so_active r"
  shows "after = [] \<and> (\<exists>client mismatch verified d. open_mailbox mx r (sys_dom s) = Inr ((client, mismatch, verified), d)
    \<and> (if mismatch \<noteq> None then s' = on_dom d s
       else \<exists>pgs ms next_poll.
         page_chain client (source_query (so_config r)) (config_first_sync_days (so_config r)) 0
           (starting_cursor mx r) pgs
         \<and> 0 < length pgs \<and> length pgs \<le> 10
         \<and> handed_on_all i pgs s'
         \<and> work_of (sys_jobs s') = work_of (sys_jobs s) @ map (extract_job i) ms @ next_poll
         \<and> distinct ms \<and> (\<forall>m \<in> set ms. \<not> handed_on i m (on_dom d s) \<and> (\<exists>pg \<in> set pgs. m \<in> set (pg_messages pg)))
         \<and> next_poll \<in> {[], [poll_job i]}
         \<and> (\<forall>x \<in> set (source_rows (sys_dom s')). so_id x = i
              \<longrightarrow> map_of (so_sync_state x) ''cursor'' = Some (opt_str (pg_cursor (last pgs))) \<and> so_last_error x = None)
         \<and> (pg_more (last pgs) \<longrightarrow> poll_waiting i (sys_jobs s'))))"
proof -
  have id: "so_id r = i" using assms(3) by (auto simp: get_source_def dest: find_SomeD)
  have "require (pl_repr (mx_pl mx)) ''source_id'' p = Inr i" using assms(2) by (simp add: require_Inr)
  with assms have after: "after = []" and "poll_source mx r s = Inr s'"
    by (auto simp: handle_poll_def elim!: and_then_InrE split: if_splits)
  then obtain client mismatch verified d where opened: "open_mailbox mx r (sys_dom s) = Inr ((client, mismatch, verified), d)"
    and rest: "(if mismatch \<noteq> None then Inr (on_dom d s) else poll_mailbox mx r client verified (on_dom d s)) = Inr s'"
    by (auto simp: poll_source_def elim!: and_then_InrE)
  show ?thesis
  proof (cases "mismatch = None")
    case False
    with opened rest after show ?thesis by auto
  next
    case True
    with rest have "poll_mailbox mx r client verified (on_dom d s) = Inr s'" by simp
    then obtain n st state where run: "poll_pages MAX_PAGES_PER_POLL mx client i (source_query (so_config r))
          (config_first_sync_days (so_config r)) 0
       \<lparr>po_sys = on_dom d s, po_cursor = starting_cursor mx r,
        po_seen = 0, po_queued = 0, po_window_days = None, po_more = True\<rparr> = Inr (n, st)"
      and state: "state = polled_state mx client r (get_source i (sys_dom (po_sys st))) verified (pending_resync mx r) n st"
      and s': "s' = (let s2 = on_dom (set_source_sync_state (pl_now (mx_pl mx)) i state None (sys_dom (po_sys st))) (po_sys st)
           in if po_more st \<and> \<not> poll_waiting i (sys_jobs s2) then enqueue_source_poll (mx_pl mx) i s2 else s2)"
      unfolding id [symmetric] by (rule poll_mailbox_Inr)
    from run obtain pgs ms where pgs: "page_chain client (source_query (so_config r)) (config_first_sync_days (so_config r)) 0
           (starting_cursor mx r) pgs"
        "length pgs \<le> 10" "pgs \<noteq> []" "po_cursor st = pg_cursor (last pgs)" "po_more st = pg_more (last pgs)"
      and ms: "work_of (sys_jobs (po_sys st)) = work_of (sys_jobs s) @ map (extract_job i) ms" "distinct ms"
        "\<forall>m \<in> set ms. \<not> handed_on i m (on_dom d s) \<and> (\<exists>pg \<in> set pgs. m \<in> set (pg_messages pg))"
        "handed_on_all i pgs (po_sys st)"
      by (rule poll_pages_hands_on) (auto simp: MAX_PAGES_PER_POLL_def POLL_PAGE_SIZE_def)
    define next_poll where "next_poll = (if po_more st \<and> \<not> poll_waiting i (sys_jobs (po_sys st)) then [poll_job i] else [])"
    have rows: "source_rows (sys_dom s') = source_rows (set_source_sync_state (pl_now (mx_pl mx)) i state None (sys_dom (po_sys st)))"
      and items: "source_items (sys_dom s') = source_items (sys_dom (po_sys st))"
      and work: "work_of (sys_jobs s') = work_of (sys_jobs s) @ map (extract_job i) ms @ next_poll"
      by (simp_all add: s' Let_def enqueue_source_poll_def set_source_sync_state_def ms(1) next_poll_def poll_job_def)
    have "handed_on i m s'" if "handed_on i m (po_sys st)" for m
      using that unfolding handed_on_def source_item_exists_def items work ms(1) set_append by blast
    then have "handed_on_all i pgs s'" using ms(4) by (simp add: handed_on_all_def)
    moreover have "map_of (so_sync_state x) ''cursor'' = Some (opt_str (pg_cursor (last pgs))) \<and> so_last_error x = None"
      if "x \<in> set (source_rows (sys_dom s'))" "so_id x = i" for x
    proof -
      from that(1) have "x \<in> set (update_where (\<lambda>r. so_id r = i) (\<lambda>r. r\<lparr>so_sync_state := state,
          so_last_polled_at := Some (pl_now (mx_pl mx)), so_last_error := None\<rparr>) (source_rows (sys_dom (po_sys st))))"
        by (simp add: rows set_source_sync_state_def update_source_def)
      from in_update_where [OF this] that(2) obtain y where "x = y\<lparr>so_sync_state := state,
          so_last_polled_at := Some (pl_now (mx_pl mx)), so_last_error := None\<rparr>" by blast
      then have "so_sync_state x = state" "so_last_error x = None" by simp_all
      then show ?thesis by (simp add: state polled_state_cursor pgs(4))
    qed
    moreover have "poll_waiting i (sys_jobs s')" if "pg_more (last pgs)"
      using that poll_job_waits by (simp add: s' Let_def pgs(5) [symmetric])
    moreover have "next_poll \<in> {[], [poll_job i]}" by (simp add: next_poll_def)
    ultimately have "\<exists>pgs ms next_poll.
         page_chain client (source_query (so_config r)) (config_first_sync_days (so_config r)) 0
           (starting_cursor mx r) pgs
         \<and> 0 < length pgs \<and> length pgs \<le> 10 \<and> handed_on_all i pgs s'
         \<and> work_of (sys_jobs s') = work_of (sys_jobs s) @ map (extract_job i) ms @ next_poll
         \<and> distinct ms \<and> (\<forall>m \<in> set ms. \<not> handed_on i m (on_dom d s) \<and> (\<exists>pg \<in> set pgs. m \<in> set (pg_messages pg)))
         \<and> next_poll \<in> {[], [poll_job i]}
         \<and> (\<forall>x \<in> set (source_rows (sys_dom s')). so_id x = i
              \<longrightarrow> map_of (so_sync_state x) ''cursor'' = Some (opt_str (pg_cursor (last pgs))) \<and> so_last_error x = None)
         \<and> (pg_more (last pgs) \<longrightarrow> poll_waiting i (sys_jobs s'))"
      using pgs ms work by (intro exI [of _ pgs] exI [of _ ms] exI [of _ next_poll]) simp
    with opened True after show ?thesis by auto
  qed
qed

lemma demo_reads:
  assumes "map_of state MAILBOX_ADDRESS_KEY = Some (JStr ''me@example.com'')" and "map_of state MAILBOX_VERIFIED_FOR_KEY = Some (JStr ''fifty'')"
  shows "open_mailbox demo_mail (demo_row state) (demo_box state) = Inr ((demo_client, None, []), demo_box state)"
proof -
  have stamp: "grant_stamp demo_mail (demo_credential REFRESH ''grant'') = ''fifty''"
    by (simp add: grant_stamp_def demo_credential_def demo_mail_simps)
  have load: "load_source_credential demo_aead demo_km ''src'' ACCESS (demo_box state) = Inr (Some ''token'')"
    by (rule demo_credential_opens) (simp_all add: demo_box_credential)
  have r: "so_id (demo_row state) = ''src''" "so_user (demo_row state) = ''u''" "so_sync_state (demo_row state) = state"
    by (simp_all add: demo_row_def)
  have "mailbox_check_due demo_mail (demo_row state) (demo_box state) = None"
    by (simp add: mailbox_check_due_def r demo_box_credential stamp state_text_def payload_string_def assms)
  moreover have "\<not> expired_credential 200 (demo_credential ACCESS ''token'')"
    by (simp add: expired_credential_def demo_credential_def)
  ultimately show ?thesis
    by (simp add: open_mailbox_def access_token_def demo_mail_simps r demo_box_credential load)
qed

definition demo_state :: payload where
  "demo_state = [(MAILBOX_ADDRESS_KEY, JStr ''me@example.com''), (MAILBOX_VERIFIED_FOR_KEY, JStr ''fifty''), (''cursor'', JStr ''c0'')]"

definition demo_mailbox :: "payload \<Rightarrow> dom sys" where
  "demo_mailbox state = \<lparr>sys_jobs = \<lparr>rows = [], next_id = 0\<rparr>, sys_heartbeats = Map.empty, sys_dom = demo_box state\<rparr>"

definition demo_poll :: payload where
  "demo_poll = [(''source_id'', JStr ''src'')]"

lemma demo_poll_facts:
  "payload_string ''source_id'' demo_poll = Some ''src''" "require f ''source_id'' demo_poll = Inr ''src''"
  "get_source ''src'' (sys_dom (demo_mailbox state)) = Some (demo_row state)" "get_source ''src'' (demo_box state) = Some (demo_row state)"
  "so_active (demo_row state)"
  "sys_dom (demo_mailbox state) = demo_box state" "so_kind (demo_row state) = GMAIL" "so_id (demo_row state) = ''src''"
  "so_user (demo_row state) = ''u''" "so_sync_state (demo_row state) = state"
  by (simp_all add: demo_poll_def payload_string_def require_def demo_mailbox_def demo_box_def get_source_def demo_row_def GMAIL_def)

theorem poll_loses_no_message_witness:
  "\<exists>s' ms next_poll. handle_poll demo_mail (demo_mailbox demo_state) demo_poll = Inr (s', [])
     \<and> work_of (sys_jobs s') = map (extract_job ''src'') ms @ next_poll \<and> distinct ms \<and> handed_on ''src'' ''m1'' s'"
proof -
  have o: "open_mailbox demo_mail (demo_row demo_state) (demo_box demo_state) = Inr ((demo_client, None, []), demo_box demo_state)"
    by (rule demo_reads) (simp_all add: demo_state_def MAILBOX_ADDRESS_KEY_def MAILBOX_VERIFIED_FOR_KEY_def)
  have pg: "\<exists>pg. mc_list demo_client n q c w = Inr pg" for n q c w by (simp add: demo_client_def)
  have "\<exists>x. poll_pages left demo_mail demo_client src q w n st = Inr x" for left src q w n st
  proof (induction left arbitrary: n st)
    case (Suc left)
    from pg [of n q "po_cursor st" w] Suc.IH show ?case by (auto simp: Let_def)
  qed simp
  then obtain n st where "poll_pages MAX_PAGES_PER_POLL demo_mail demo_client (so_id (demo_row demo_state))
      (source_query (so_config (demo_row demo_state))) (config_first_sync_days (so_config (demo_row demo_state))) 0
      \<lparr>po_sys = on_dom (demo_box demo_state) (demo_mailbox demo_state),
       po_cursor = (starting_cursor demo_mail (demo_row demo_state)),
       po_seen = 0, po_queued = 0, po_window_days = None, po_more = True\<rparr> = Inr (n, st)"
    by (metis surj_pair)
  then obtain s' where p: "poll_mailbox demo_mail (demo_row demo_state) demo_client [] (on_dom (demo_box demo_state) (demo_mailbox demo_state)) = Inr s'"
    unfolding poll_mailbox_def Let_def by simp
  then have s': "handle_poll demo_mail (demo_mailbox demo_state) demo_poll = Inr (s', [])"
    by (simp add: handle_poll_def demo_poll_facts poll_source_def o)
  have "sys_dom (demo_mailbox demo_state) = demo_box demo_state" by (simp add: demo_poll_facts)
  from poll_loses_no_message [OF s' demo_poll_facts(1,3,5), unfolded this o] obtain pgs ms next_poll where
    c: "page_chain demo_client (source_query (so_config (demo_row demo_state))) (config_first_sync_days (so_config (demo_row demo_state))) 0
          (starting_cursor demo_mail (demo_row demo_state)) pgs" "0 < length pgs" "handed_on_all ''src'' pgs s'"
    and w: "work_of (sys_jobs s') = work_of (sys_jobs (demo_mailbox demo_state)) @ map (extract_job ''src'') ms @ next_poll" "distinct ms"
    by simp blast
  then have "pg_messages (hd pgs) = [''m1'', ''m2'', ''m1'']" by (cases pgs) (auto simp: demo_client_def)
  with c(2,3) have "handed_on ''src'' ''m1'' s'" by (cases pgs) (auto simp: handed_on_all_def)
  with s' w show ?thesis by (auto simp: demo_mailbox_def work_of_def)
qed

section \<open>Only the connected mailbox is read\<close>

text \<open>C19: Another account's mailbox is never read. When the stored grant has not been checked, the source has a
  recorded address and the grant reaches a different one, the poll adds no work and the source is disconnected:
  it is inactive and says why, and no credential of it is left. Its bookmark, totals and everything else of the other sources
  are as they were when the token had been minted.\<close>

theorem wrong_mailbox_is_disconnected:
  assumes "handle_poll mx s p = Inr (s', after)" and "payload_string ''source_id'' p = Some i"
    and "get_source i (sys_dom s) = Some r" and "so_active r"
    and "mailbox_check_due mx r (sys_dom s) \<noteq> None"
    and "state_text MAILBOX_ADDRESS_KEY (so_sync_state r) = Some expected"
    and "\<And>token. mc_address (mx_client mx token) = Inr (Some address)"
    and "address \<noteq> []" and "py_casefold address \<noteq> py_casefold expected"
  shows "sys_jobs s' = sys_jobs s \<and> after = [] \<and> (\<forall>c \<in> set (credentials (sys_dom s')). cr_source c \<noteq> i)
    \<and> (\<exists>token stamp d. mint_token mx i (so_user r) (sys_dom s) = Inr (token, stamp, d)
        \<and> source_items (sys_dom s') = source_items d
        \<and> source_rows (sys_dom s') = update_where (\<lambda>x. so_id x = i)
            (\<lambda>x. x\<lparr>so_active := False, so_disconnected_at := Some (case so_disconnected_at x of Some t \<Rightarrow> t | None \<Rightarrow> pl_now (mx_pl mx)),
                    so_last_error := Some (take 2000 (mismatch_reason address expected))\<rparr>) (source_rows d))"
proof -
  have id: "so_id r = i" using assms(3) by (auto simp: get_source_def dest: find_SomeD)
  have "require (pl_repr (mx_pl mx)) ''source_id'' p = Inr i" using assms(2) by (simp add: require_Inr)
  with assms(1,3,4) have after: "after = []" and "poll_source mx r s = Inr s'"
    by (auto simp: handle_poll_def elim!: and_then_InrE split: if_splits)
  moreover from assms(5) obtain stamp0 where "mailbox_check_due mx r (sys_dom s) = Some stamp0" by blast
  ultimately obtain token stamp d where mint: "mint_token mx i (so_user r) (sys_dom s) = Inr (token, stamp, d)"
    and s': "s' = on_dom (disconnect_source (pl_now (mx_pl mx)) i (mismatch_reason address expected) d) s"
    using assms(6-9)
    by (auto simp: poll_source_def open_mailbox_def check_mailbox_def Let_def or_empty_def id elim!: and_then_InrE)
  have "mismatch_reason address expected \<noteq> []" by (simp add: mismatch_reason_def)
  then have rows: "source_rows (disconnect_source (pl_now (mx_pl mx)) i (mismatch_reason address expected) d) = update_where (\<lambda>x. so_id x = i)
            (\<lambda>x. x\<lparr>so_active := False, so_disconnected_at := Some (case so_disconnected_at x of Some t \<Rightarrow> t | None \<Rightarrow> pl_now (mx_pl mx)),
                    so_last_error := Some (take 2000 (mismatch_reason address expected))\<rparr>) (source_rows d)"
    by (simp add: disconnect_source_def set_source_error_def mark_source_disconnected_def update_source_def
        delete_source_credentials_def update_where_def)
  have "credentials (disconnect_source (pl_now (mx_pl mx)) i (mismatch_reason address expected) d) = filter (\<lambda>c. cr_source c \<noteq> i) (credentials d)"
    "source_items (disconnect_source (pl_now (mx_pl mx)) i (mismatch_reason address expected) d) = source_items d"
    by (simp_all add: disconnect_source_def set_source_error_def mark_source_disconnected_def delete_source_credentials_def)
  with mint rows after show ?thesis by (intro conjI exI [of _ token] exI [of _ stamp] exI [of _ d]) (simp_all add: s')
qed

theorem wrong_mailbox_is_disconnected_witness:
  "\<exists>s'. handle_poll demo_mail (demo_mailbox [(MAILBOX_ADDRESS_KEY, JStr ''me@example.com'')]) demo_poll = Inr (s', [])
     \<and> (\<forall>c \<in> set (credentials (sys_dom s')). cr_source c \<noteq> ''src'') \<and> work_of (sys_jobs s') = []"
proof -
  define state where "state = [(MAILBOX_ADDRESS_KEY, JStr ''me@example.com'')]"
  have addr: "state_text MAILBOX_ADDRESS_KEY state = Some ''me@example.com''" by (simp add: state_def state_text_def payload_string_def)
  have "map_of state MAILBOX_VERIFIED_FOR_KEY = None" by (simp add: state_def MAILBOX_VERIFIED_FOR_KEY_def MAILBOX_ADDRESS_KEY_def)
  then have due: "mailbox_check_due demo_mail (demo_row state) (demo_box state) \<noteq> None"
    by (simp add: mailbox_check_due_def demo_poll_facts demo_box_credential)
  have a: "mc_address (mx_client demo_mail token) = Inr (Some ''other@example.com'')" for token
    by (simp add: demo_mail_simps demo_client_def)
  have ne: "py_casefold ''other@example.com'' \<noteq> py_casefold ''me@example.com''" by code_simp
  obtain d where mint: "mint_token demo_mail ''src'' ''u'' (demo_box state) = Inr (''minted'', ''fifty'', d)"
    using demo_mints by blast
  obtain d' where "check_mailbox demo_mail (demo_row state) demo_client ''fifty'' d
      = Inr ((Some (mismatch_reason ''other@example.com'' ''me@example.com''), []), d')"
    using a [of "''t''"] ne addr by (simp add: check_mailbox_def demo_mail_simps or_empty_def demo_poll_facts Let_def)
  with due mint have "poll_source demo_mail (demo_row state) (demo_mailbox state) = Inr (on_dom d' (demo_mailbox state))"
    by (auto simp: poll_source_def open_mailbox_def demo_poll_facts demo_mail_simps split: option.split)
  then have s': "handle_poll demo_mail (demo_mailbox state) demo_poll = Inr (on_dom d' (demo_mailbox state), [])"
    by (simp add: handle_poll_def demo_poll_facts)
  have "mailbox_check_due demo_mail (demo_row state) (sys_dom (demo_mailbox state)) \<noteq> None" using due by (simp add: demo_poll_facts)
  moreover have "state_text MAILBOX_ADDRESS_KEY (so_sync_state (demo_row state)) = Some ''me@example.com''"
    using addr by (simp add: demo_poll_facts)
  ultimately have "\<forall>c \<in> set (credentials (sys_dom (on_dom d' (demo_mailbox state)))). cr_source c \<noteq> ''src''"
    using wrong_mailbox_is_disconnected [OF s' demo_poll_facts(1,3,5) _ _ a _ ne] by simp
  with s' show ?thesis unfolding state_def [symmetric] by (intro exI [of _ "on_dom d' (demo_mailbox state)"])
      (simp add: demo_mailbox_def work_of_def)
qed

section \<open>A message becomes one held item\<close>

definition one_item_per_message :: "dom \<Rightarrow> bool" where
  "one_item_per_message d \<longleftrightarrow>
     distinct (map (\<lambda>r. (si_source r, si_external_id r)) (filter (\<lambda>r. si_external_id r \<noteq> None) (source_items d)))"

lemma insert_polled_Inr:
  assumes "insert_polled_source_item now new_id user src ext title t received links d = Inr (got, d')"
  shows "source_item_exists src ext d \<and> got = None \<and> d' = d
    \<or> \<not> source_item_exists src ext d \<and> got = Some new_id \<and> new_id \<notin> si_id ` set (source_items d)
      \<and> source_rows d' = source_rows d
      \<and> (\<exists>it. source_items d' = source_items d @ [it] \<and> si_id it = new_id \<and> si_user it = user \<and> si_source it = src
           \<and> si_external_id it = Some ext \<and> si_title it = title \<and> si_text it = t \<and> si_links it = links
           \<and> si_state it = SiPending \<and> si_received_at it \<le> now)"
  using assms by (auto simp: insert_polled_source_item_def min_def split: if_splits option.splits)

lemma one_item_insert:
  assumes "one_item_per_message d" and "source_items d' = source_items d @ [it]" and "si_source it = src" "si_external_id it = Some ext"
    and "\<not> source_item_exists src ext d"
  shows "one_item_per_message d'"
  using assms by (auto simp: one_item_per_message_def source_item_exists_def)

lemma handle_extract_again:
  assumes "payload_string ''source_id'' p = Some i" "payload_string ''message_id'' p = Some m"
    and "get_source i (sys_dom s) \<noteq> None" and "source_item_exists i m (sys_dom s)"
  shows "handle_extract mx new_id s p = Inr (s, [])"
proof -
  have "require f ''source_id'' p = Inr i" "require f ''message_id'' p = Inr m" for f
    using assms(1,2) by (simp_all add: require_Inr)
  with assms(3,4) show ?thesis by (auto simp: handle_extract_def)
qed

text \<open>C10: A message becomes one held item. An extract job adds no work, so nothing is spent on the message
  until its owner asks. Either the message already was an item and nothing changed, or it was fetched once:
  one that is not a newsletter leaves the items as they were, and a newsletter becomes a new item of the
  source's owner, with its title, text and links, waiting, received no later than now, and on the held list;
  unless another worker stored it in between. No message ever has two items, and running the job again
  changes nothing.\<close>

theorem message_becomes_one_held_item:
  assumes "handle_extract mx new_id s p = Inr (s', after)"
    and p: "payload_string ''source_id'' p = Some i" "payload_string ''message_id'' p = Some m"
    and "get_source i (sys_dom s) = Some r" and "\<forall>w \<in> set (work_of (sys_jobs s)). \<not> item_job new_id w"
  shows "after = [] \<and> sys_jobs s' = sys_jobs s
    \<and> (if source_item_exists i m (sys_dom s) then s' = s
       else \<exists>token d raw. access_token mx i (so_user r) None (sys_dom s) = Inr (token, d) \<and> mc_fetch (mx_client mx token) m = Inr raw
         \<and> (one_item_per_message d \<longrightarrow> one_item_per_message (sys_dom s'))
         \<and> (case mx_extract mx raw of
              Inl why \<Rightarrow> source_items (sys_dom s') = source_items d
            | Inr x \<Rightarrow>
                source_item_exists i m (sys_dom s')
                \<and> (get_source i (sys_dom s') \<noteq> None \<longrightarrow> handle_extract mx' new_id' s' p = Inr (s', []))
                \<and> (if source_item_exists i m d then sys_dom s' = d
                   else \<exists>it. source_items (sys_dom s') = source_items d @ [it] \<and> si_user it = so_user r
                     \<and> si_title it = xm_title x \<and> si_text it = xm_text x \<and> si_links it = xm_links x
                     \<and> si_received_at it \<le> pl_now (mx_pl mx) \<and> held (so_user r) (sys_jobs s') it)))"
proof -
  have req: "require f ''source_id'' p = Inr i" "require f ''message_id'' p = Inr m" for f
    using p by (simp_all add: require_Inr)
  show ?thesis
  proof (cases "source_item_exists i m (sys_dom s)")
    case True
    with assms(1,4) req show ?thesis by (simp add: handle_extract_def)
  next
    case False
    with assms(1,4) req obtain token d raw where t: "access_token mx i (so_user r) None (sys_dom s) = Inr (token, d)"
      and raw: "mc_fetch (mx_client mx token) m = Inr raw"
      and rest: "(case mx_extract mx raw of
             Inl why \<Rightarrow> Inr (on_dom (record_skip i m why d) s, [])
           | Inr x \<Rightarrow>
               and_then (raises (insert_polled_source_item (pl_now (mx_pl mx)) new_id (so_user r) i m (xm_title x) (xm_text x)
                    (sent_at mx (xm_date x)) (xm_links x) d)) (\<lambda>(_, d1). Inr (on_dom d1 s, []))) = (Inr (s', after) :: exn + _)"
      by (auto simp: handle_extract_def elim!: and_then_InrE)
    show ?thesis
    proof (cases "mx_extract mx raw")
      case (Inl why)
      with rest have s': "s' = on_dom (record_skip i m why d) s" "after = []" by simp_all
      have "source_items (record_skip i m why d) = source_items d" by (simp add: record_skip_def merge_source_sync_state_def)
      then have "one_item_per_message d \<longrightarrow> one_item_per_message (sys_dom s')" "source_items (sys_dom s') = source_items d"
        by (simp_all add: s' one_item_per_message_def)
      with False t raw Inl s' show ?thesis by auto
    next
      case (Inr x)
      with rest obtain got d1 where ins: "insert_polled_source_item (pl_now (mx_pl mx)) new_id (so_user r) i m (xm_title x) (xm_text x)
                    (sent_at mx (xm_date x)) (xm_links x) d = Inr (got, d1)"
        and s': "s' = on_dom d1 s" "after = []" by (auto elim!: and_then_InrE)
      note row = insert_polled_Inr [OF ins]
      have ex: "source_item_exists i m (sys_dom s')" using row by (auto simp: s' source_item_exists_def)
      have one: "one_item_per_message d \<longrightarrow> one_item_per_message (sys_dom s')"
        using row one_item_insert [of d d1] by (auto simp: s')
      have added: "if source_item_exists i m d then sys_dom s' = d
          else \<exists>it. source_items (sys_dom s') = source_items d @ [it] \<and> si_user it = so_user r
                     \<and> si_title it = xm_title x \<and> si_text it = xm_text x \<and> si_links it = xm_links x
                     \<and> si_received_at it \<le> pl_now (mx_pl mx) \<and> held (so_user r) (sys_jobs s') it"
        using row assms(5) by (auto simp: s' held_def)
      have again: "get_source i (sys_dom s') \<noteq> None \<longrightarrow> handle_extract mx' new_id' s' p = Inr (s', [])"
        using handle_extract_again [OF p _ ex] by blast
      have jobs: "sys_jobs s' = sys_jobs s" by (simp add: s')
      show ?thesis
        unfolding if_not_P [OF False]
        by (intro conjI exI [of _ token] exI [of _ d] exI [of _ raw]; (unfold Inr sum.case)?; (intro conjI)?)
          (fact s'(2) jobs t raw one ex again added)+
    qed
  qed
qed

definition demo_letter :: mail_ctx where
  "demo_letter = demo_mail\<lparr>mx_extract := (\<lambda>b. Inr \<lparr>xm_title = ''t'', xm_text = ''body'', xm_date = [], xm_links = []\<rparr>)\<rparr>"

definition demo_extract :: payload where
  "demo_extract = [(''source_id'', JStr ''src''), (''message_id'', JStr ''m1'')]"

theorem message_becomes_one_held_item_witness:
  "\<exists>s' it. handle_extract demo_letter ''si_1'' (demo_mailbox demo_state) demo_extract = Inr (s', [])
     \<and> source_items (sys_dom s') = [it] \<and> held ''u'' (sys_jobs s') it"
proof -
  have p: "payload_string ''source_id'' demo_extract = Some ''src''" "payload_string ''message_id'' demo_extract = Some ''m1''"
    and req: "require f ''source_id'' demo_extract = Inr ''src''" "require f ''message_id'' demo_extract = Inr ''m1''" for f
    by (simp_all add: demo_extract_def payload_string_def require_def)
  have load: "load_source_credential demo_aead demo_km ''src'' ACCESS (demo_box demo_state) = Inr (Some ''token'')"
    by (rule demo_credential_opens) (simp_all add: demo_box_credential)
  have "\<not> expired_credential 200 (demo_credential ACCESS ''token'')"
    by (simp add: expired_credential_def demo_credential_def)
  then have t: "access_token demo_letter ''src'' ''u'' None (demo_box demo_state) = Inr (''token'', demo_box demo_state)"
    by (simp add: access_token_def demo_letter_def demo_mail_simps demo_box_credential load)
  have none: "\<not> source_item_exists ''src'' ''m1'' (demo_box demo_state)" "source_items (demo_box demo_state) = []"
    by (simp_all add: source_item_exists_def demo_box_def empty_dom_def)
  have f: "mc_fetch (mx_client demo_letter token) m = Inr (utf8 m)" for token m
    by (simp add: demo_letter_def demo_mail_def demo_client_def)
  have x: "mx_extract demo_letter b = Inr \<lparr>xm_title = ''t'', xm_text = ''body'', xm_date = [], xm_links = []\<rparr>" for b
    by (simp add: demo_letter_def)
  obtain s' where s': "handle_extract demo_letter ''si_1'' (demo_mailbox demo_state) demo_extract = Inr (s', [])"
    by (simp add: handle_extract_def req demo_poll_facts none t f x insert_polled_source_item_def raises_def)
  have "\<forall>w \<in> set (work_of (sys_jobs (demo_mailbox demo_state))). \<not> item_job ''si_1'' w" by (simp add: demo_mailbox_def work_of_def)
  from message_becomes_one_held_item [OF s' p demo_poll_facts(3) this]
  have "\<exists>it. source_items (sys_dom s') = [it] \<and> held ''u'' (sys_jobs s') it"
    by (simp add: demo_poll_facts none t f x) metis
  with s' show ?thesis by blast
qed

section \<open>A revoked grant\<close>

text \<open>What a revoked grant leaves. A poll whose refresh the service rejects fails at once, with the reason on the source,
  its cursor and its credentials kept; but the source is still active. \<open>mint_token\<close> means to deactivate it, and
  does so in the transaction its own \<open>PermanentFailure\<close> rolls back, so the scheduler goes on polling a mailbox
  only its owner can reconnect.\<close>

theorem revoked_grant_stays_active:
  assumes ex: "execute t1 t2 (handle_poll mx) recorders j s = Inr (out, s', after)"
    and job: "job_committed j = None" "job_queue j = POLL" "recorders POLL = Some (record_poll_failure mx')"
    and src: "payload_string ''source_id'' (job_payload j) = Some i" "get_source i (sys_dom s) = Some r" "so_active r" "so_kind r = GMAIL"
    and due: "mailbox_check_due mx r (sys_dom s) \<noteq> None"
    and revoked: "mx_manager mx = Inr km" "load_source_credential (mx_aead mx) km i REFRESH (sys_dom s) = Inr (Some rt)" "rt \<noteq> []"
      "mx_refresh mx rt = Inl (SourceAuthError m)"
  shows "out = FailedPermanently \<and> after = [] \<and> credentials (sys_dom s') = credentials (sys_dom s)
    \<and> (\<exists>r'. get_source i (sys_dom s') = Some r' \<and> so_active r'
         \<and> so_last_error r' = Some (take 2000 (''PermanentFailure: source '' @ i @ '' needs reconnecting: '' @ m))
         \<and> map_of (so_sync_state r') ''cursor'' = map_of (so_sync_state r) ''cursor'')"
proof -
  have id: "so_id r = i" using src(2) by (auto simp: get_source_def dest: find_SomeD)
  have req: "require f ''source_id'' (job_payload j) = Inr i" for f using src(1) by (simp add: require_Inr)
  have p: "map_of (job_payload j) ''source_id'' = Some (JStr i)"
    using src(1) by (auto simp: payload_string_def split: option.splits json.splits if_splits)
  have c0: "get_source_credential i REFRESH (sys_dom s) \<noteq> None"
    using due unfolding mailbox_check_due_def id by (rule contrapos_nn) simp
  from due c0 obtain stamp c where d: "mailbox_check_due mx r (sys_dom s) = Some stamp" "get_source_credential i REFRESH (sys_dom s) = Some c"
    by blast
  define e where "e = permanent (''source '' @ i @ '' needs reconnecting: '' @ m)"
  have mint: "mint_token mx i u (sys_dom s) = Inl (Permanent (''source '' @ i @ '' needs reconnecting: '' @ m))" for u
    using revoked d(2) by (simp add: mint_token_def)
  have h: "handle_poll mx s (job_payload j) = Inl e"
    using src by (simp add: handle_poll_def req poll_source_def open_mailbox_def d(1) id mint mail_raises_def exn_of_mail_def e_def)
  define msg where "msg = ''PermanentFailure: source '' @ i @ '' needs reconnecting: '' @ m"
  have msg: "exn_message e = msg" "exn_kind e = PermanentFailureExn"
    by (simp_all add: e_def permanent_def exn_message_def msg_def)
  have out: "out = FailedPermanently \<and> after = []"
    using ex job(1) h msg(2) by (auto simp: execute_def fail_in_def split: sum.splits)
  have rec: "sys_dom s' = sys_dom (record_poll_failure mx' (job_payload j) msg s)"
    using ex job(1)
  proof (cases rule: execute_effect)
    case (gave_up e')
    with h job show ?thesis by (simp add: record_failure_def msg(1))
  qed (use h out in auto)
  obtain state where f: "sys_dom (record_poll_failure mx' (job_payload j) msg s)
      = set_source_sync_state (pl_now (mx_pl mx')) i state (Some (take 2000 msg)) (sys_dom s)"
    and state: "map_of state ''cursor'' = map_of (so_sync_state r) ''cursor''"
    using src(2,4) by (simp add: record_poll_failure_def p Let_def map_of_dict_update SYNC_RUN_KEY_def)
  have "get_source i (set_source_sync_state t i state err (sys_dom s))
      = Some (r\<lparr>so_sync_state := state, so_last_polled_at := Some t, so_last_error := err\<rparr>)" for t err
    using src(2) id by (simp add: get_source_def set_source_sync_state_def update_source_def find_update_where)
  then have "get_source i (sys_dom s')
      = Some (r\<lparr>so_sync_state := state, so_last_polled_at := Some (pl_now (mx_pl mx')), so_last_error := Some (take 2000 msg)\<rparr>)"
    by (simp only: rec f)
  moreover have "credentials (sys_dom s') = credentials (sys_dom s)"
    by (simp only: rec f) (simp add: set_source_sync_state_def update_source_def)
  ultimately show ?thesis unfolding msg_def [symmetric] using out src(3) state by simp
qed

definition demo_revoked :: mail_ctx where
  "demo_revoked = demo_mail\<lparr>mx_refresh := (\<lambda>_. Inl (SourceAuthError ''invalid_grant''))\<rparr>"

definition demo_poll_job :: job where
  "demo_poll_job =
     \<lparr>job_id = 0, job_queue = POLL, job_payload = demo_poll, job_attempts = 1, job_key = None, job_committed = None\<rparr>"

theorem revoked_grant_stays_active_witness:
  "\<exists>s' r'. execute 100 100 (handle_poll demo_revoked) [POLL \<mapsto> record_poll_failure demo_mail] demo_poll_job (demo_mailbox [])
       = Inr (FailedPermanently, s', [])
     \<and> get_source ''src'' (sys_dom s') = Some r' \<and> so_active r'"
proof -
  let ?s = "demo_mailbox []"
  have job: "job_committed demo_poll_job = None" "job_queue demo_poll_job = POLL" "job_payload demo_poll_job = demo_poll"
    "1 \<le> job_attempts demo_poll_job" by (simp_all add: demo_poll_job_def)
  have due: "mailbox_check_due demo_revoked (demo_row []) (sys_dom ?s) \<noteq> None"
    by (simp add: mailbox_check_due_def demo_poll_facts demo_box_credential state_text_def payload_string_def)
  have r: "mx_manager demo_revoked = Inr demo_km" "mx_aead demo_revoked = demo_aead" "mx_pl demo_revoked = demo_stage"
      "mx_refresh demo_revoked ''grant'' = Inl (SourceAuthError ''invalid_grant'')" by (simp_all add: demo_revoked_def demo_mail_simps)
  have load: "load_source_credential demo_aead demo_km ''src'' REFRESH (sys_dom ?s) = Inr (Some ''grant'')"
    unfolding demo_poll_facts by (rule demo_credential_opens) (simp_all add: demo_box_credential)
  have fl: "\<exists>out' s' after. fail_in m t demo_poll_job e out s = Inr (out', s', after)" for m t e out and s :: "dom sys"
    using fail_cases [OF job(4), of m t e "sys_jobs s"]
    by (cases "will_retry m demo_poll_job") (simp_all add: fail_in_def)
  have "\<exists>out s' after. execute 100 100 (handle_poll demo_revoked) [POLL \<mapsto> record_poll_failure demo_mail] demo_poll_job ?s = Inr (out, s', after)"
    by (auto simp: execute_def Let_def job(1) fl split: sum.split exn_kind.split prod.split)
  then obtain out s' after where
    ex: "execute 100 100 (handle_poll demo_revoked) [POLL \<mapsto> record_poll_failure demo_mail] demo_poll_job ?s = Inr (out, s', after)"
    by blast
  have "[POLL \<mapsto> record_poll_failure demo_mail] POLL = Some (record_poll_failure demo_mail)" by simp
  from revoked_grant_stays_active [OF ex job(1,2) this, unfolded job, OF demo_poll_facts(1,3,5,7) due r(1) load [folded r(2)] _ r(4)] ex
  show ?thesis by auto
qed

end
