(* ===== verification/LabelSync.thy ===== *)
theory LabelSync
  imports Ingest
begin

text \<open>
  Moving a message between labels once its owner has ingested it,
  \<open>workers/src/motet_workers/labels.py\<close>: \<open>write_back\<close>, the after-commit step \<open>schedule\<close> registers for
  \<open>handle_integrate\<close>, with \<open>_attempt\<close>, \<open>_relist\<close> and \<open>_unresolvable\<close>, and the rows it keeps
  (\<open>record_label_writeback\<close>, \<open>label_writeback_summary\<close> of \<open>phase2.py\<close>).

  The step opens several transactions of its own, so it is a state-and-exception computation: a transaction
  that raises rolls back, what was committed before an exception stays. The state also holds the requests sent
  to the mail service (\<open>lr_calls\<close>), which no rollback takes back. The counter and the log lines are not
  modelled.
\<close>

section \<open>A computation over several transactions\<close>

record modify_call =
  md_message :: string
  md_add :: "string list"
  md_remove :: "string list"

record label_run =
  lr_dom :: dom
  lr_calls :: "modify_call list"
  lr_listed :: nat

type_synonym 'a label_io = "label_run \<Rightarrow> (mail_exn + 'a) \<times> label_run"

definition io_return :: "'a \<Rightarrow> 'a label_io" where
  "io_return x w = (Inr x, w)"

definition io_of :: "mail_exn + 'a \<Rightarrow> 'a label_io" where
  "io_of r w = (r, w)"

definition io_then :: "'a label_io \<Rightarrow> ('a \<Rightarrow> 'b label_io) \<Rightarrow> 'b label_io" where
  "io_then m f w = (case m w of (Inl e, w') \<Rightarrow> (Inl e, w') | (Inr x, w') \<Rightarrow> f x w')"

text \<open>\<open>try: m except e: h e\<close>.\<close>

definition io_catch :: "'a label_io \<Rightarrow> (mail_exn \<Rightarrow> 'a label_io) \<Rightarrow> 'a label_io" where
  "io_catch m h w = (case m w of (Inl e, w') \<Rightarrow> h e w' | (Inr x, w') \<Rightarrow> (Inr x, w'))"

text \<open>\<open>with conn.transaction()\<close>.\<close>

definition transact :: "(dom \<Rightarrow> mail_exn + 'a \<times> dom) \<Rightarrow> 'a label_io" where
  "transact f w = (case f (lr_dom w) of Inl e \<Rightarrow> (Inl e, w) | Inr (x, d) \<Rightarrow> (Inr x, w\<lparr>lr_dom := d\<rparr>))"

definition modify_labels :: "mail_client \<Rightarrow> string \<Rightarrow> resolved \<Rightarrow> unit label_io" where
  "modify_labels client m r w =
     ((case mc_modify client (length (lr_calls w)) m (rs_add r) (rs_remove r) of None \<Rightarrow> Inr () | Some e \<Rightarrow> Inl e),
      w\<lparr>lr_calls := lr_calls w @ [\<lparr>md_message = m, md_add = rs_add r, md_remove = rs_remove r\<rparr>]\<rparr>)"

section \<open>One attempt\<close>

datatype label_outcome = Applied | NeedsReauthorization | LabelNotFound | MessageNotFound | LabelFailed

text \<open>How an attempt ended and the error to record; nothing when there was nothing to do.\<close>

type_synonym attempt_result = "(label_outcome \<times> string option) option"

definition INACTIVE :: string where
  "INACTIVE = ''This mailbox is disconnected or paused, so Motet did not change its labels. Reconnect ''
     @ ''it on the Sources screen.''"

definition NEEDS_REAUTH :: string where
  "NEEDS_REAUTH = ''This mailbox was connected read-only. Re-authorize it on the Sources screen to let ''
     @ ''Motet change labels.''"

definition source_item_external_id :: "string \<Rightarrow> dom \<Rightarrow> string option" where
  "source_item_external_id i d = (case get_source_item i d of None \<Rightarrow> None | Some it \<Rightarrow> si_external_id it)"

definition source_of_item :: "string \<Rightarrow> dom \<Rightarrow> source_row option" where
  "source_of_item i d = (case get_source_item i d of None \<Rightarrow> None | Some it \<Rightarrow> get_source (si_source it) d)"

definition relist :: "mail_ctx \<Rightarrow> mail_client \<Rightarrow> string \<Rightarrow> label list label_io" where
  "relist mx client src =
     io_then (\<lambda>w. (mc_labels client (lr_listed w), w\<lparr>lr_listed := Suc (lr_listed w)\<rparr>)) (\<lambda>labels.
     transact (\<lambda>d. Inr (labels,
       merge_source_sync_state src CATALOG_KEY (JObj (catalog_to_sync_state labels (mx_iso mx (mx_clock mx)))) d)))"

definition unresolvable :: "resolved \<Rightarrow> string option" where
  "unresolvable r =
     (if rs_refused r \<noteq> [] then Some (''Motet will not move mail into or out of the system label ''
        @ py_join '', '' (map py_repr (rs_refused r)) @ ''.'')
      else if rs_missing r \<noteq> [] then Some (''No label named '' @ py_join '', '' (map py_repr (rs_missing r))
        @ '' exists in this '' @ PROVIDER @ '' mailbox.'')
      else None)"

text \<open>The token: minted, with the stamp of its grant, when the mailbox has to be checked; else the stored one if
  it may write. A \<open>PermanentFailure\<close> here is an answer and not an exception.\<close>

definition label_token ::
  "mail_ctx \<Rightarrow> source_row \<Rightarrow> string option \<Rightarrow> (string + string \<times> string) label_io"
where
  "label_token mx r due =
     io_catch
       (io_then
          (transact (\<lambda>d. case due of
             Some _ \<Rightarrow> and_then (mint_token mx (so_id r) (so_user r) d) (\<lambda>(token, stamp, d1). Inr ((token, stamp), d1))
           | None \<Rightarrow> and_then (access_token mx (so_id r) (so_user r) (Some GMAIL_MODIFY_SCOPE) d) (\<lambda>(token, d1). Inr ((token, []), d1))))
          (\<lambda>t. io_return (Inr t)))
       (\<lambda>e. case e of Permanent m \<Rightarrow> io_return (Inl (''The mailbox needs reconnecting: '' @ m)) | _ \<Rightarrow> io_of (Inl e))"

text \<open>The check of a new grant's mailbox: the reason it is not the right one.\<close>

definition label_mailbox_check ::
  "mail_ctx \<Rightarrow> source_row \<Rightarrow> string option \<Rightarrow> mail_client \<Rightarrow> string \<Rightarrow> string option label_io"
where
  "label_mailbox_check mx r due client stamp =
     (if due = None then io_return None
      else transact (\<lambda>d. and_then (check_mailbox mx r client stamp d) (\<lambda>((mismatch, verified), d1).
             Inr (mismatch, fold (\<lambda>(k, v). merge_source_sync_state (so_id r) k v) verified d1))))"

definition move_message ::
  "mail_ctx \<Rightarrow> source_row \<Rightarrow> label_settings \<Rightarrow> mail_client \<Rightarrow> string \<Rightarrow> (label_outcome \<times> string option) label_io"
where
  "move_message mx r settings client m =
     io_then (io_of (case catalog_from_sync_state (pl_repr (mx_pl mx)) (so_sync_state r) of
         Inl e \<Rightarrow> Inl (OtherError (exn_of e)) | Inr c \<Rightarrow> Inr c)) (\<lambda>catalog.
     io_then (if rs_missing (resolve settings catalog) = [] then io_return (resolve settings catalog, False)
              else io_then (relist mx client (so_id r)) (\<lambda>labels. io_return (resolve settings labels, True))) (\<lambda>(found, relisted).
     case unresolvable found of
       Some problem \<Rightarrow> io_return (LabelNotFound, Some problem)
     | None \<Rightarrow>
         io_catch (io_then (modify_labels client m found) (\<lambda>_. io_return (Applied, None)))
           (\<lambda>e. case e of
              StaleReferenceError _ target \<Rightarrow>
                if relisted \<or> target = ''message'' then io_of (Inl e)
                else io_then (relist mx client (so_id r)) (\<lambda>labels.
                     case unresolvable (resolve settings labels) of
                       Some problem \<Rightarrow> io_return (LabelNotFound, Some problem)
                     | None \<Rightarrow> io_then (modify_labels client m (resolve settings labels)) (\<lambda>_. io_return (Applied, None)))
            | _ \<Rightarrow> io_of (Inl e))))"

text \<open>The outer \<open>try\<close> of \<open>_attempt\<close>: what the mail service's refusals are called.\<close>

definition refusal :: "mail_exn \<Rightarrow> (label_outcome \<times> string option) label_io" where
  "refusal e =
     (case e of
        StaleReferenceError m _ \<Rightarrow> io_return (MessageNotFound, Some (''Gmail no longer has this message: '' @ m))
      | SourceAuthError m \<Rightarrow> io_return (NeedsReauthorization, Some (''Gmail refused the label change: '' @ m))
      | SourceError m \<Rightarrow> io_return (LabelFailed, Some m)
      | _ \<Rightarrow> io_of (Inl e))"

definition attempt_move ::
  "mail_ctx \<Rightarrow> source_row \<Rightarrow> label_settings \<Rightarrow> string \<Rightarrow> (label_outcome \<times> string option) label_io"
where
  "attempt_move mx r settings m =
     io_catch (\<lambda>w.
       let due = mailbox_check_due mx r (lr_dom w)
       in io_then (label_token mx r due) (\<lambda>t.
          case t of
            Inl problem \<Rightarrow> io_return (NeedsReauthorization, Some problem)
          | Inr (token, stamp) \<Rightarrow>
              io_then (label_mailbox_check mx r due (mx_client mx token) stamp) (\<lambda>mismatch.
              case mismatch of
                Some reason \<Rightarrow> io_return (NeedsReauthorization, Some reason)
              | None \<Rightarrow> move_message mx r settings (mx_client mx token) m)) w)
       refusal"

definition attempt :: "mail_ctx \<Rightarrow> string \<Rightarrow> attempt_result label_io" where
  "attempt mx i w =
     (case (source_item_external_id i (lr_dom w), source_of_item i (lr_dom w)) of
        (Some m, Some r) \<Rightarrow>
          if so_kind r \<noteq> GMAIL then (Inr None, w)
          else (case label_settings_from_config (so_config r) of
                  None \<Rightarrow> (Inr None, w)
                | Some settings \<Rightarrow>
                    if \<not> so_active r then (Inr (Some (NeedsReauthorization, Some INACTIVE)), w)
                    else (case get_source_credential (so_id r) REFRESH (lr_dom w) of
                            None \<Rightarrow> (Inr (Some (NeedsReauthorization, Some NEEDS_REAUTH)), w)
                          | Some grant \<Rightarrow>
                              if GMAIL_MODIFY_SCOPE \<notin> set (scopes_of grant)
                              then (Inr (Some (NeedsReauthorization, Some NEEDS_REAUTH)), w)
                              else io_then (attempt_move mx r settings m) (\<lambda>x. io_return (Some x)) w))
      | _ \<Rightarrow> (Inr None, w))"

section \<open>The step and its record\<close>

definition record_label_writeback :: "time \<Rightarrow> string \<Rightarrow> string option \<Rightarrow> dom \<Rightarrow> dom" where
  "record_label_writeback now i error d =
     d\<lparr>source_items := update_where (\<lambda>x. si_id x = i)
        (\<lambda>x. case error of
           None \<Rightarrow> x\<lparr>si_label_synced_at := Some now, si_label_error := None, si_label_attempted_at := Some now\<rparr>
         | Some e \<Rightarrow> x\<lparr>si_label_error := Some (take 2000 e), si_label_attempted_at := Some now\<rparr>) (source_items d)\<rparr>"

definition write_back :: "mail_ctx \<Rightarrow> string \<Rightarrow> dom \<Rightarrow> label_outcome option \<times> label_run" where
  "write_back mx i d =
     (let (out, w) = attempt mx i \<lparr>lr_dom = d, lr_calls = [], lr_listed = 0\<rparr>;
          ended = (case out of Inl e \<Rightarrow> Some (LabelFailed, Some (exn_message (exn_of_mail e))) | Inr x \<Rightarrow> x)
      in case ended of
           None \<Rightarrow> (None, w)
         | Some (outcome, error) \<Rightarrow>
             (Some outcome, w\<lparr>lr_dom := record_label_writeback (pl_now (mx_pl mx)) i error (lr_dom w)\<rparr>))"

text \<open>The step as the worker loop runs it. It has no exception to report: \<open>write_back\<close> catches them all.\<close>

definition label_step :: "mail_ctx \<Rightarrow> string \<Rightarrow> dom step" where
  "label_step mx i s = (None, on_dom (lr_dom (snd (write_back mx i (sys_dom s)))) s)"

section \<open>What the Sources screen is told\<close>

record label_summary =
  lw_last_synced_at :: "time option"
  lw_failed :: nat
  lw_last_error :: "string option"

definition label_failures :: "string \<Rightarrow> dom \<Rightarrow> source_item list" where
  "label_failures src d =
     filter (\<lambda>x. si_source x = src \<and> si_label_error x \<noteq> None \<and> si_label_synced_at x = None
         \<and> (case si_label_attempted_at x of None \<Rightarrow> False
            | Some t \<Rightarrow> (case get_source_credential src REFRESH d of None \<Rightarrow> True | Some c \<Rightarrow> cr_updated_at c \<le> t)))
       (source_items d)"

definition max_time :: "time list \<Rightarrow> time option" where
  "max_time ts = (if ts = [] then None else Some (Max (set ts)))"

definition label_writeback_summary :: "string \<Rightarrow> dom \<Rightarrow> label_summary" where
  "label_writeback_summary src d =
     (let failures = sort_key (\<lambda>x. (the (si_label_attempted_at x), si_id x)) (label_failures src d)
      in \<lparr>lw_last_synced_at = max_time (List.map_filter si_label_synced_at (filter (\<lambda>x. si_source x = src) (source_items d))),
          lw_failed = length failures,
          lw_last_error = (if failures = [] then None else si_label_error (List.last failures))\<rparr>)"

section \<open>Reasoning about the computation\<close>

lemma io_simps [simp]:
  "io_return x w = (Inr x, w)" "io_of r w = (r, w)"
  by (simp_all add: io_return_def io_of_def)

lemma io_then_eq:
  "io_then m f w = (x, w') \<longleftrightarrow>
     (\<exists>e w1. m w = (Inl e, w1) \<and> x = Inl e \<and> w' = w1) \<or> (\<exists>y w1. m w = (Inr y, w1) \<and> f y w1 = (x, w'))"
  by (auto simp: io_then_def split: prod.splits sum.splits)

lemma io_catch_eq:
  "io_catch m h w = (x, w') \<longleftrightarrow>
     (\<exists>e w1. m w = (Inl e, w1) \<and> h e w1 = (x, w')) \<or> (\<exists>y. m w = (Inr y, w') \<and> x = Inr y)"
  by (auto simp: io_catch_def split: prod.splits sum.splits)

text \<open>What a computation keeps of the state, and how it follows from its parts.\<close>

definition io_keeps :: "(label_run \<Rightarrow> label_run \<Rightarrow> bool) \<Rightarrow> 'a label_io \<Rightarrow> bool" where
  "io_keeps R m \<longleftrightarrow> (\<forall>w. R w (snd (m w)))"

locale run_order =
  fixes R :: "label_run \<Rightarrow> label_run \<Rightarrow> bool"
  assumes refl: "R w w" and trans: "R w w1 \<Longrightarrow> R w1 w2 \<Longrightarrow> R w w2"
begin

lemma keeps_return: "io_keeps R (io_return x)"
  by (simp add: io_keeps_def refl)

lemma keeps_of: "io_keeps R (io_of x)"
  by (simp add: io_keeps_def refl)

lemma keeps_then: "io_keeps R m \<Longrightarrow> (\<And>x. io_keeps R (f x)) \<Longrightarrow> io_keeps R (io_then m f)"
  unfolding io_keeps_def io_then_def by (auto split: prod.split sum.split) (metis refl trans snd_conv)+

lemma keeps_catch: "io_keeps R m \<Longrightarrow> (\<And>e. io_keeps R (h e)) \<Longrightarrow> io_keeps R (io_catch m h)"
  unfolding io_keeps_def io_catch_def by (auto split: prod.split sum.split) (metis refl trans snd_conv)+

lemma keeps_transact: "(\<And>w x d. f (lr_dom w) = Inr (x, d) \<Longrightarrow> R w (w\<lparr>lr_dom := d\<rparr>)) \<Longrightarrow> io_keeps R (transact f)"
  by (auto simp: io_keeps_def transact_def refl split: sum.split)

lemma keeps_listed: "(\<And>w n. R w (w\<lparr>lr_listed := n\<rparr>)) \<Longrightarrow> io_keeps R (\<lambda>w. (g w, w\<lparr>lr_listed := n w\<rparr>))"
  by (simp add: io_keeps_def)

lemmas keeps_rules = keeps_return keeps_of keeps_then keeps_catch

lemma keepsD: "io_keeps R m \<Longrightarrow> m w = (x, w') \<Longrightarrow> R w w'"
  unfolding io_keeps_def by (metis snd_conv)

end

text \<open>Two such relations: no request was sent, and no item was changed.\<close>

definition no_request :: "label_run \<Rightarrow> label_run \<Rightarrow> bool" where
  "no_request w w' \<longleftrightarrow> lr_calls w' = lr_calls w"

definition same_items :: "label_run \<Rightarrow> label_run \<Rightarrow> bool" where
  "same_items w w' \<longleftrightarrow> source_items (lr_dom w') = source_items (lr_dom w)"

interpretation quiet: run_order no_request
  by unfold_locales (simp_all add: no_request_def)

interpretation items: run_order same_items
  by unfold_locales (simp_all add: same_items_def)

lemma quiet_transact: "io_keeps no_request (transact f)"
  by (rule quiet.keeps_transact) (simp add: no_request_def)

lemma quiet_token: "io_keeps no_request (label_token mx r due)"
  unfolding label_token_def by (intro quiet.keeps_rules quiet_transact) (auto intro: quiet.keeps_rules split: mail_exn.split)

lemma quiet_check: "io_keeps no_request (label_mailbox_check mx r due client stamp)"
  by (simp add: label_mailbox_check_def quiet_transact quiet.keeps_return)

lemma quiet_relist: "io_keeps no_request (relist mx client src)"
  unfolding relist_def by (intro quiet.keeps_then quiet_transact quiet.keeps_listed) (simp add: no_request_def)

lemma merge_keeps_items [simp]: "source_items (merge_source_sync_state src k v d) = source_items d"
  by (simp add: merge_source_sync_state_def)

lemma fold_merge_items: "source_items (fold (\<lambda>(k, v). merge_source_sync_state src k v) kvs d) = source_items d"
  by (induction kvs arbitrary: d) (auto simp: merge_source_sync_state_def)

lemma items_relist: "io_keeps same_items (relist mx client src)"
  unfolding relist_def
  by (intro items.keeps_then items.keeps_transact items.keeps_listed) (auto simp: same_items_def)

lemma check_mailbox_items: "check_mailbox mx r client stamp d = Inr (x, d') \<Longrightarrow> source_items d' = source_items d"
  by (auto simp: check_mailbox_def Let_def disconnect_source_def set_source_error_def mark_source_disconnected_def
      delete_source_credentials_def elim!: and_then_InrE split: if_splits option.splits)

lemma items_check: "io_keeps same_items (label_mailbox_check mx r due client stamp)"
  unfolding label_mailbox_check_def
  by (auto simp: same_items_def fold_merge_items elim!: and_then_InrE intro!: items.keeps_return items.keeps_transact
      dest!: check_mailbox_items)

lemma store_credential_items:
  "store_source_credential A km rnd now new_id user src provider purpose secret scopes expires d = Inr d'
   \<Longrightarrow> source_items d' = source_items d"
  by (auto simp: store_source_credential_def elim!: and_then_InrE)

lemma mint_token_items:
  assumes "mint_token mx src user d = Inr (token, stamp, d')"
  shows "source_items d' = source_items (mx_meanwhile mx d)"
proof -
  obtain km c rt g where "store_minted mx km src user c rt g (mx_meanwhile mx d) = Inr (stamp, d')"
    by (rule mint_token_Inr [OF assms])
  then show ?thesis
    by (auto simp: store_minted_def Let_def carry_source_sync_state_key_def elim!: and_then_InrE
        dest!: store_credential_items split: option.splits if_splits)
qed

lemma access_token_items:
  assumes "access_token mx src user required d = Inr (token, d')" and "source_items (mx_meanwhile mx d) = source_items d"
  shows "source_items d' = source_items d"
  using assms
  by (auto simp: access_token_def Let_def elim!: and_then_InrE dest!: mint_token_items split: option.splits if_splits)

lemma items_token:
  assumes "\<And>d. source_items (mx_meanwhile mx d) = source_items d"
  shows "io_keeps same_items (label_token mx r due)"
proof -
  have "io_keeps same_items (transact (\<lambda>d. case due of
             Some _ \<Rightarrow> and_then (mint_token mx (so_id r) (so_user r) d) (\<lambda>(token, stamp, d1). Inr ((token, stamp), d1))
           | None \<Rightarrow> and_then (access_token mx (so_id r) (so_user r) (Some GMAIL_MODIFY_SCOPE) d) (\<lambda>(token, d1). Inr ((token, []), d1))))"
    by (rule items.keeps_transact)
      (auto simp: same_items_def assms elim!: and_then_InrE dest!: mint_token_items access_token_items split: option.splits)
  then show ?thesis
    unfolding label_token_def by (intro items.keeps_rules) (auto intro: items.keeps_rules split: mail_exn.split)
qed

lemma items_modify: "io_keeps same_items (modify_labels client m r)"
  by (simp add: io_keeps_def modify_labels_def same_items_def)

lemma items_move: "io_keeps same_items (move_message mx r settings client m)"
proof -
  have again: "io_keeps same_items (io_then (relist mx client src) (\<lambda>labels.
       case unresolvable (resolve settings labels) of
         Some problem \<Rightarrow> io_return (LabelNotFound, Some problem)
       | None \<Rightarrow> io_then (modify_labels client m (resolve settings labels)) (\<lambda>_. io_return (Applied, None))))" for src
    by (rule items.keeps_then [OF items_relist]) (simp add: items.keeps_rules items_modify split: option.split)
  show ?thesis
    unfolding move_message_def
    by (intro items.keeps_then items.keeps_of)
      (auto simp: items.keeps_rules items_modify items_relist again split: option.split mail_exn.split
        intro!: items.keeps_rules)
qed

lemma items_attempt:
  assumes "\<And>d. source_items (mx_meanwhile mx d) = source_items d"
  shows "io_keeps same_items (attempt mx i)"
proof -
  have "io_keeps same_items (\<lambda>w.
       let due = mailbox_check_due mx r (lr_dom w)
       in io_then (label_token mx r due) (\<lambda>t.
          case t of
            Inl problem \<Rightarrow> io_return (NeedsReauthorization, Some problem)
          | Inr (token, stamp) \<Rightarrow>
              io_then (label_mailbox_check mx r due (mx_client mx token) stamp) (\<lambda>mismatch.
              case mismatch of
                Some reason \<Rightarrow> io_return (NeedsReauthorization, Some reason)
              | None \<Rightarrow> move_message mx r settings (mx_client mx token) m)) w)" for r settings m
  proof -
    have "io_keeps same_items (io_then (label_token mx r due) (\<lambda>t.
          case t of
            Inl problem \<Rightarrow> io_return (NeedsReauthorization, Some problem)
          | Inr (token, stamp) \<Rightarrow>
              io_then (label_mailbox_check mx r due (mx_client mx token) stamp) (\<lambda>mismatch.
              case mismatch of
                Some reason \<Rightarrow> io_return (NeedsReauthorization, Some reason)
              | None \<Rightarrow> move_message mx r settings (mx_client mx token) m)))" for due
      by (rule items.keeps_then [OF items_token [OF assms]])
        (auto intro!: items.keeps_rules items_check items_move split: sum.split option.split)
    then show ?thesis by (simp add: io_keeps_def Let_def)
  qed
  then have "io_keeps same_items (attempt_move mx r settings m)" for r settings m
    unfolding attempt_move_def
    by (rule items.keeps_catch) (auto simp: refusal_def intro: items.keeps_rules split: mail_exn.split)
  then have "io_keeps same_items (io_then (attempt_move mx r settings m) (\<lambda>x. io_return (Some x)))" for r settings m
    by (rule items.keeps_then) (rule items.keeps_return)
  then show ?thesis
    by (simp add: io_keeps_def attempt_def items.refl split: option.split)
qed

section \<open>Which requests are sent\<close>

definition asked_labels :: "label_settings \<Rightarrow> modify_call \<Rightarrow> bool" where
  "asked_labels settings c \<longleftrightarrow>
     (\<exists>catalog. unresolvable (resolve settings catalog) = None
        \<and> md_add c = rs_add (resolve settings catalog) \<and> md_remove c = rs_remove (resolve settings catalog))"

lemma resolved_not_forbidden:
  assumes "x \<in> set (rs_add (resolve settings catalog) @ rs_remove (resolve settings catalog))"
  shows "x \<notin> FORBIDDEN_LABEL_IDS"
proof -
  from assms obtain n where "resolve_one catalog n = Id x"
    by (auto simp: resolve_def Let_def ids_of_def split: looked_up.splits)
  then show ?thesis by (rule resolve_one_Id) (auto simp: refused_label_def)
qed

text \<open>What \<open>move_message\<close> may add to the requests: at most two, for this message, each with the ids the settings
  resolve to; and it answers that it moved the message exactly when the service accepted the last of them.\<close>

definition moved_by :: "mail_client \<Rightarrow> string \<Rightarrow> label_settings \<Rightarrow> label_run \<Rightarrow> (label_outcome \<times> string option) option \<Rightarrow> label_run \<Rightarrow> bool" where
  "moved_by client m settings w res w' \<longleftrightarrow>
     (\<exists>cs. lr_calls w' = lr_calls w @ cs \<and> length cs \<le> 2
        \<and> (\<forall>c \<in> set cs. md_message c = m \<and> asked_labels settings c)
        \<and> (\<forall>error. res = Some (Applied, error) \<longrightarrow> error = None \<and> cs \<noteq> []
             \<and> mc_modify client (length (lr_calls w') - 1) m (md_add (List.last cs)) (md_remove (List.last cs)) = None)
        \<and> (\<forall>outcome error. res = Some (outcome, error) \<and> outcome \<noteq> Applied \<longrightarrow> error \<noteq> None))"

lemma modify_moves:
  assumes "modify_labels client m (resolve settings catalog) w = (x, w')" and "unresolvable (resolve settings catalog) = None"
  shows "\<exists>c. lr_calls w' = lr_calls w @ [c] \<and> md_message c = m \<and> asked_labels settings c
    \<and> (x = Inr () \<longrightarrow> mc_modify client (length (lr_calls w)) m (md_add c) (md_remove c) = None)"
  using assms by (auto simp: modify_labels_def asked_labels_def split: option.splits)

definition result_of :: "mail_exn + 'a \<Rightarrow> 'a option" where
  "result_of x = (case x of Inl _ \<Rightarrow> None | Inr y \<Rightarrow> Some y)"

lemma result_of_simps [simp]: "result_of (Inl e) = None" "result_of (Inr y) = Some y"
  by (simp_all add: result_of_def)

lemma moved_quiet:
  "lr_calls w' = lr_calls w \<Longrightarrow> (\<And>o' e. res = Some (o', e) \<Longrightarrow> o' \<noteq> Applied \<and> e \<noteq> None) \<Longrightarrow> moved_by client m settings w res w'"
  unfolding moved_by_def by (intro exI [of _ "[]"]) auto

lemma moved_once:
  assumes "io_then (modify_labels client m (resolve settings catalog)) (\<lambda>_. io_return (Applied, None)) w = (x, w')"
    and "unresolvable (resolve settings catalog) = None"
  shows "\<exists>c. lr_calls w' = lr_calls w @ [c] \<and> md_message c = m \<and> asked_labels settings c
    \<and> (\<forall>y. x = Inr y \<longrightarrow> y = (Applied, None) \<and> mc_modify client (length (lr_calls w)) m (md_add c) (md_remove c) = None)"
  using assms modify_moves by (fastforce simp: io_then_eq)

lemma moved_after:
  assumes "moved_by client m settings w1 res w'" and "lr_calls w1 = lr_calls w"
  shows "moved_by client m settings w res w'"
  using assms by (simp add: moved_by_def)

lemma moved_by_once:
  assumes "io_then (modify_labels client m (resolve settings catalog)) (\<lambda>_. io_return (Applied, None)) w = (x, w')"
    and "unresolvable (resolve settings catalog) = None"
  shows "moved_by client m settings w (result_of x) w'"
proof -
  from moved_once [OF assms] obtain c where "lr_calls w' = lr_calls w @ [c]" "md_message c = m" "asked_labels settings c"
    "\<And>y. x = Inr y \<Longrightarrow> y = (Applied, None) \<and> mc_modify client (length (lr_calls w)) m (md_add c) (md_remove c) = None"
    by blast
  then show ?thesis unfolding moved_by_def by (intro exI [of _ "[c]"]) (cases x; auto)
qed

text \<open>The second try, after the labels were read again.\<close>

lemma moved_again:
  assumes "io_then (relist mx client src) (\<lambda>labels.
       case unresolvable (resolve settings labels) of
         Some problem \<Rightarrow> io_return (LabelNotFound, Some problem)
       | None \<Rightarrow> io_then (modify_labels client m (resolve settings labels)) (\<lambda>_. io_return (Applied, None))) w = (x, w')"
  shows "(lr_calls w' = lr_calls w \<and> (\<forall>o' e. x = Inr (o', e) \<longrightarrow> o' \<noteq> Applied \<and> e \<noteq> None))
    \<or> (\<exists>c. lr_calls w' = lr_calls w @ [c] \<and> md_message c = m \<and> asked_labels settings c
        \<and> (\<forall>y. x = Inr y \<longrightarrow> y = (Applied, None) \<and> mc_modify client (length (lr_calls w)) m (md_add c) (md_remove c) = None))"
  using assms unfolding io_then_eq [of "relist mx client src"]
proof (elim disjE exE conjE)
  fix labels w1 assume l: "relist mx client src w = (Inr labels, w1)" and next_step: "(case unresolvable (resolve settings labels) of
         Some problem \<Rightarrow> io_return (LabelNotFound, Some problem)
       | None \<Rightarrow> io_then (modify_labels client m (resolve settings labels)) (\<lambda>_. io_return (Applied, None))) w1 = (x, w')"
  have w1: "lr_calls w1 = lr_calls w" using quiet.keepsD [OF quiet_relist l] by (simp add: no_request_def)
  show ?thesis
  proof (cases "unresolvable (resolve settings labels)")
    case None
    with next_step have "io_then (modify_labels client m (resolve settings labels)) (\<lambda>_. io_return (Applied, None)) w1 = (x, w')" by simp
    from moved_once [OF this None] show ?thesis by (simp add: w1)
  next
    case (Some p)
    with next_step w1 show ?thesis by auto
  qed
next
  fix e w1 assume l: "relist mx client src w = (Inl e, w1)" "x = Inl e" "w' = w1"
  then show ?thesis using quiet.keepsD [OF quiet_relist l(1)] by (simp add: no_request_def)
qed

lemma move_message_moves:
  assumes "move_message mx r settings client m w = (x, w')"
  shows "moved_by client m settings w (result_of x) w'"
proof -
  let ?try_again = "io_then (relist mx client (so_id r)) (\<lambda>labels.
       case unresolvable (resolve settings labels) of
         Some problem \<Rightarrow> io_return (LabelNotFound, Some problem)
       | None \<Rightarrow> io_then (modify_labels client m (resolve settings labels)) (\<lambda>_. io_return (Applied, None)))"
  let ?send = "\<lambda>found relisted. case unresolvable found of
       Some problem \<Rightarrow> io_return (LabelNotFound, Some problem)
     | None \<Rightarrow> io_catch (io_then (modify_labels client m found) (\<lambda>_. io_return (Applied, None)))
           (\<lambda>e. case e of
              StaleReferenceError _ target \<Rightarrow> if relisted \<or> target = ''message'' then io_of (Inl e) else ?try_again
            | _ \<Rightarrow> io_of (Inl e))"
  have attempted: "moved_by client m settings w1 (result_of x) w'"
    if w: "?send (resolve settings catalog) relisted w1 = (x, w')" for catalog relisted w1
  proof (cases "unresolvable (resolve settings catalog)")
    case (Some p)
    with w have "x = Inr (LabelNotFound, Some p)" "w' = w1" by simp_all
    then show ?thesis by (intro moved_quiet) simp_all
  next
    case None
    obtain y w2 where y: "io_then (modify_labels client m (resolve settings catalog)) (\<lambda>_. io_return (Applied, None :: string option)) w1 = (y, w2)"
      by fastforce
    have "(\<exists>e w2. io_then (modify_labels client m (resolve settings catalog)) (\<lambda>_. io_return (Applied, None :: string option)) w1 = (Inl e, w2)
          \<and> ?try_again w2 = (x, w'))
        \<or> io_then (modify_labels client m (resolve settings catalog)) (\<lambda>_. io_return (Applied, None :: string option)) w1 = (x, w')"
    proof (cases y)
      case (Inl e)
      with w y None show ?thesis by (cases e) (auto simp: io_catch_def split: if_splits)
    next
      case (Inr z)
      with w y None show ?thesis by (simp add: io_catch_def)
    qed
    then show ?thesis
    proof (elim disjE exE conjE)
      fix e w2 assume first: "io_then (modify_labels client m (resolve settings catalog)) (\<lambda>_. io_return (Applied, None)) w1 = (Inl e, w2)"
        and again: "?try_again w2 = (x, w')"
      from moved_once [OF first None] obtain c where c: "lr_calls w2 = lr_calls w1 @ [c]" "md_message c = m" "asked_labels settings c"
        by blast
      from moved_again [OF again] show ?thesis
      proof (elim disjE exE conjE)
        assume "lr_calls w' = lr_calls w2" "\<forall>o' e. x = Inr (o', e) \<longrightarrow> o' \<noteq> Applied \<and> e \<noteq> None"
        with c show ?thesis unfolding moved_by_def by (intro exI [of _ "[c]"]) (cases x; auto)
      next
        fix c' assume "lr_calls w' = lr_calls w2 @ [c']" "md_message c' = m" "asked_labels settings c'"
          "\<forall>y. x = Inr y \<longrightarrow> y = (Applied, None) \<and> mc_modify client (length (lr_calls w2)) m (md_add c') (md_remove c') = None"
        with c show ?thesis unfolding moved_by_def by (intro exI [of _ "[c, c']"]) (cases x; auto)
      qed
    qed (auto intro: moved_by_once [OF _ None] dest: moved_by_once [OF _ None])
  qed
  from assms obtain w1 x1 where cat: "io_of (case catalog_from_sync_state (pl_repr (mx_pl mx)) (so_sync_state r) of
         Inl e \<Rightarrow> Inl (OtherError (exn_of e)) | Inr c \<Rightarrow> Inr c) w = (x1, w1)" by fastforce
  show ?thesis
  proof (cases "catalog_from_sync_state (pl_repr (mx_pl mx)) (so_sync_state r)")
    case (Inl e)
    with assms show ?thesis by (intro moved_quiet) (auto simp: move_message_def io_then_eq)
  next
    case (Inr catalog)
    show ?thesis
    proof (cases "rs_missing (resolve settings catalog) = []")
      case True
      with assms Inr have "?send (resolve settings catalog) False w = (x, w')"
        by (simp add: move_message_def io_then_def)
      then show ?thesis by (rule attempted)
    next
      case False
      obtain y w2 where l: "relist mx client (so_id r) w = (y, w2)" by fastforce
      have w2: "lr_calls w2 = lr_calls w" using quiet.keepsD [OF quiet_relist l] by (simp add: no_request_def)
      show ?thesis
      proof (cases y)
        case (Inl e)
        with assms Inr False l w2 show ?thesis by (intro moved_quiet) (auto simp: move_message_def io_then_def)
      next
        case labels: (Inr labels)
        with assms Inr False l have "?send (resolve settings labels) True w2 = (x, w')"
          by (simp add: move_message_def io_then_def)
        from attempted [OF this] w2 show ?thesis by (rule moved_after)
      qed
    qed
  qed
qed

section \<open>What a label write may do\<close>

text \<open>The mailbox the token reaches is the one the source is known to be, when a new grant made the question due.\<close>

definition right_mailbox :: "mail_ctx \<Rightarrow> source_row \<Rightarrow> dom \<Rightarrow> string \<Rightarrow> bool" where
  "right_mailbox mx r d token \<longleftrightarrow>
     (mailbox_check_due mx r d = None
      \<or> (\<exists>address. mc_address (mx_client mx token) = Inr (Some address)
          \<and> (case state_text MAILBOX_ADDRESS_KEY (so_sync_state r) of None \<Rightarrow> True
             | Some expected \<Rightarrow> py_casefold address = py_casefold expected)))"

lemma check_mailbox_right:
  assumes "check_mailbox mx r client stamp d = Inr ((None, verified), d')"
  shows "\<exists>address. mc_address client = Inr (Some address)
    \<and> (case state_text MAILBOX_ADDRESS_KEY (so_sync_state r) of None \<Rightarrow> True
       | Some expected \<Rightarrow> py_casefold address = py_casefold expected)"
  using assms
  by (auto simp: check_mailbox_def Let_def or_empty_def elim!: and_then_InrE split: if_splits option.splits)

lemma label_check_right:
  assumes "label_mailbox_check mx r due (mx_client mx token) stamp w = (Inr None, w')"
    and "due = mailbox_check_due mx r d"
  shows "right_mailbox mx r d token"
proof (cases "due = None")
  case True
  with assms(2) show ?thesis by (simp add: right_mailbox_def)
next
  case False
  with assms(1) obtain verified d1 where "check_mailbox mx r (mx_client mx token) stamp (lr_dom w) = Inr ((None, verified), d1)"
    by (auto simp: label_mailbox_check_def transact_def elim!: and_then_InrE split: sum.splits prod.splits)
  from check_mailbox_right [OF this] show ?thesis by (simp add: right_mailbox_def)
qed

lemma refusal_keeps: "refusal e w = (x, w') \<Longrightarrow> w' = w \<and> (\<forall>o' err. x = Inr (o', err) \<longrightarrow> o' \<noteq> Applied \<and> err \<noteq> None)"
  by (auto simp: refusal_def split: mail_exn.splits)

text \<open>An attempt sends no request, or is \<open>move_message\<close> with a token for the right mailbox.\<close>

lemma attempt_move_moves:
  assumes "attempt_move mx r settings m w = (x, w')"
  shows "\<exists>token. moved_by (mx_client mx token) m settings w (result_of x) w'
    \<and> (lr_calls w' \<noteq> lr_calls w \<longrightarrow> right_mailbox mx r (lr_dom w) token)"
proof -
  let ?due = "mailbox_check_due mx r (lr_dom w)"
  let ?body = "io_then (label_token mx r ?due) (\<lambda>t.
          case t of
            Inl problem \<Rightarrow> io_return (NeedsReauthorization, Some problem)
          | Inr (token, stamp) \<Rightarrow>
              io_then (label_mailbox_check mx r ?due (mx_client mx token) stamp) (\<lambda>mismatch.
              case mismatch of
                Some reason \<Rightarrow> io_return (NeedsReauthorization, Some reason)
              | None \<Rightarrow> move_message mx r settings (mx_client mx token) m))"
  have body: "\<exists>token. moved_by (mx_client mx token) m settings w (result_of y) w1
      \<and> (lr_calls w1 \<noteq> lr_calls w \<longrightarrow> right_mailbox mx r (lr_dom w) token)"
    if b: "?body w = (y, w1)" for y w1
  proof -
    obtain t w2 where t: "label_token mx r ?due w = (t, w2)" by fastforce
    have w2: "lr_calls w2 = lr_calls w" using quiet.keepsD [OF quiet_token t] by (simp add: no_request_def)
    show ?thesis
    proof (cases "\<exists>token stamp. t = Inr (Inr (token, stamp))")
      case False
      then have "(\<exists>e. t = Inl e) \<or> (\<exists>p. t = Inr (Inl p))" by (cases t) (auto split: sum.split, metis sum.exhaust surj_pair)
      with b t w2 have "lr_calls w1 = lr_calls w" "\<forall>o' e. y = Inr (o', e) \<longrightarrow> o' \<noteq> Applied \<and> e \<noteq> None"
        by (auto simp: io_then_def)
      then show ?thesis by (intro exI [of _ "[]"] conjI moved_quiet) (auto simp: result_of_def split: sum.splits)
    next
      case True
      then obtain token stamp where ts: "t = Inr (Inr (token, stamp))" by blast
      obtain c w3 where c: "label_mailbox_check mx r ?due (mx_client mx token) stamp w2 = (c, w3)" by fastforce
      have w3: "lr_calls w3 = lr_calls w" using quiet.keepsD [OF quiet_check c] w2 by (simp add: no_request_def)
      show ?thesis
      proof (cases "c = Inr None")
        case False
        then have "(\<exists>e. c = Inl e) \<or> (\<exists>p. c = Inr (Some p))" by (cases c) auto
        with b t c ts w3 have "lr_calls w1 = lr_calls w" "\<forall>o' e. y = Inr (o', e) \<longrightarrow> o' \<noteq> Applied \<and> e \<noteq> None"
          by (auto simp: io_then_def)
        then show ?thesis by (intro exI [of _ "[]"] conjI moved_quiet) (auto simp: result_of_def split: sum.splits)
      next
        case True
        with b t c ts have "move_message mx r settings (mx_client mx token) m w3 = (y, w1)" by (auto simp: io_then_eq)
        from moved_after [OF move_message_moves [OF this] w3] label_check_right [OF c [unfolded True] refl]
        show ?thesis by blast
      qed
    qed
  qed
  from assms have "(\<exists>e w1. ?body w = (Inl e, w1) \<and> refusal e w1 = (x, w')) \<or> (\<exists>y. ?body w = (Inr y, w') \<and> x = Inr y)"
    by (simp add: attempt_move_def io_catch_eq Let_def)
  then show ?thesis
  proof (elim disjE exE conjE)
    fix e w1 assume b: "?body w = (Inl e, w1)" and rf: "refusal e w1 = (x, w')"
    from refusal_keeps [OF rf] have w': "w' = w1" and x: "\<forall>o' err. x = Inr (o', err) \<longrightarrow> o' \<noteq> Applied \<and> err \<noteq> None" by blast+
    from body [OF b] show ?thesis using x by (auto simp: moved_by_def w' result_of_def split: sum.splits)
  next
    fix y assume "?body w = (Inr y, w')" "x = Inr y"
    with body show ?thesis by blast
  qed
qed

lemma attempt_cases:
  assumes "attempt mx i w = (x, w')"
  obtains (refused) "w' = w" "\<forall>o' err. x = Inr (Some (o', err)) \<longrightarrow> o' \<noteq> Applied \<and> err \<noteq> None" "\<forall>e. x \<noteq> Inl e"
  | (tried) m r settings grant y where "source_item_external_id i (lr_dom w) = Some m" "source_of_item i (lr_dom w) = Some r"
      "so_kind r = GMAIL" "label_settings_from_config (so_config r) = Some settings" "so_active r"
      "get_source_credential (so_id r) REFRESH (lr_dom w) = Some grant" "GMAIL_MODIFY_SCOPE \<in> set (scopes_of grant)"
      "attempt_move mx r settings m w = (y, w')" "x = (case y of Inl e \<Rightarrow> Inl e | Inr z \<Rightarrow> Inr (Some z))"
proof (cases "\<exists>m r settings grant. source_item_external_id i (lr_dom w) = Some m \<and> source_of_item i (lr_dom w) = Some r
      \<and> so_kind r = GMAIL \<and> label_settings_from_config (so_config r) = Some settings \<and> so_active r
      \<and> get_source_credential (so_id r) REFRESH (lr_dom w) = Some grant \<and> GMAIL_MODIFY_SCOPE \<in> set (scopes_of grant)")
  case True
  then obtain m r settings grant where c: "source_item_external_id i (lr_dom w) = Some m" "source_of_item i (lr_dom w) = Some r"
      "so_kind r = GMAIL" "label_settings_from_config (so_config r) = Some settings" "so_active r"
      "get_source_credential (so_id r) REFRESH (lr_dom w) = Some grant" "GMAIL_MODIFY_SCOPE \<in> set (scopes_of grant)" by blast
  obtain y w1 where y: "attempt_move mx r settings m w = (y, w1)" by fastforce
  from assms c y have "w1 = w'" "x = (case y of Inl e \<Rightarrow> Inl e | Inr z \<Rightarrow> Inr (Some z))"
    by (auto simp: attempt_def io_then_def split: sum.splits)
  with c y show thesis by (intro tried) simp_all
next
  case False
  with assms show thesis
    by (intro refused) (auto simp: attempt_def split: option.splits if_splits)
qed


definition demo_label_state :: payload where
  "demo_label_state = [(MAILBOX_ADDRESS_KEY, JStr ''me@example.com''), (MAILBOX_VERIFIED_FOR_KEY, JStr ''fifty''),
     (CATALOG_KEY, JObj [(''labels'', JList [JObj [(''id'', JStr ''L1''), (''name'', JStr ''News'')]])])]"

definition demo_label_row :: source_row where
  "demo_label_row = (demo_row demo_label_state)\<lparr>so_config := [(CONFIG_KEY, JObj [(''remove'', JStr ''News'')])]\<rparr>"

definition demo_label_box :: dom where
  "demo_label_box =
     (demo_box demo_label_state)\<lparr>source_rows := [demo_label_row],
       source_items := [(demo_source ''s'')\<lparr>si_external_id := Some ''m1''\<rparr>],
       credentials := map (\<lambda>c. c\<lparr>cr_scopes := GMAIL_MODIFY_SCOPE\<rparr>) [demo_credential REFRESH ''grant'', demo_credential ACCESS ''token'']\<rparr>"

lemma demo_label_facts:
  "source_item_external_id ''s'' demo_label_box = Some ''m1''" "source_of_item ''s'' demo_label_box = Some demo_label_row"
  "so_kind demo_label_row = GMAIL" "so_active demo_label_row" "so_id demo_label_row = ''src''" "so_user demo_label_row = ''u''"
  "so_sync_state demo_label_row = demo_label_state"
  "get_source_credential ''src'' REFRESH demo_label_box = Some ((demo_credential REFRESH ''grant'')\<lparr>cr_scopes := GMAIL_MODIFY_SCOPE\<rparr>)"
  "get_source_credential ''src'' ACCESS demo_label_box = Some ((demo_credential ACCESS ''token'')\<lparr>cr_scopes := GMAIL_MODIFY_SCOPE\<rparr>)"
  by (simp_all add: source_item_external_id_def source_of_item_def get_source_item_def get_source_def demo_label_box_def demo_source_def
      demo_label_row_def demo_row_def GMAIL_def get_source_credential_def credential_of_def demo_credential_def REFRESH_def ACCESS_def)

lemma demo_label_scopes: "scopes_of (c\<lparr>cr_scopes := GMAIL_MODIFY_SCOPE\<rparr>) = [GMAIL_MODIFY_SCOPE]"
proof -
  have "py_split GMAIL_MODIFY_SCOPE = [GMAIL_MODIFY_SCOPE]" by code_simp
  then show ?thesis by (simp add: scopes_of_def) (simp add: GMAIL_MODIFY_SCOPE_def)
qed

lemma demo_label_settings: "label_settings_from_config (so_config demo_label_row) = Some \<lparr>ls_remove = Some ''News'', ls_add = None\<rparr>"
proof -
  have "py_strip ''News'' = ''News''" by code_simp
  then show ?thesis by (simp add: label_settings_from_config_def demo_label_row_def clean_name_def settings_of_def)
qed

lemma demo_label_resolves:
  "catalog_from_sync_state f demo_label_state = Inr [\<lparr>lb_id = ''L1'', lb_name = ''News'', lb_system = False\<rparr>]"
  "resolve \<lparr>ls_remove = Some ''News'', ls_add = None\<rparr> [\<lparr>lb_id = ''L1'', lb_name = ''News'', lb_system = False\<rparr>]
    = \<lparr>rs_add = [], rs_remove = [''L1''], rs_missing = [], rs_refused = []\<rparr>"
  by (simp_all add: catalog_from_sync_state_def demo_label_state_def CATALOG_KEY_def MAILBOX_ADDRESS_KEY_def MAILBOX_VERIFIED_FOR_KEY_def
      py_iter_def catalog_entry_def py_str_of_def List.map_filter_def resolve_def resolve_one_def label_named_def refused_label_def
      FORBIDDEN_LABEL_IDS_def GMAIL_SYSTEM_LABELS_def ids_of_def missing_of_def refused_of_def)

lemma demo_label_token: "access_token demo_mail ''src'' ''u'' (Some GMAIL_MODIFY_SCOPE) demo_label_box = Inr (''token'', demo_label_box)"
proof -
  have "load_source_credential demo_aead demo_km ''src'' ACCESS demo_label_box
      = load_source_credential demo_aead demo_km ''src'' ACCESS (demo_box [])"
    by (simp add: load_source_credential_def demo_label_facts demo_box_credential)
  also have "\<dots> = Inr (Some ''token'')" by (rule demo_credential_opens) (simp_all add: demo_box_credential)
  finally have load: "load_source_credential demo_aead demo_km ''src'' ACCESS demo_label_box = Inr (Some ''token'')" .
  have "\<not> expired_credential 200 ((demo_credential ACCESS ''token'')\<lparr>cr_scopes := GMAIL_MODIFY_SCOPE\<rparr>)"
    by (simp add: expired_credential_def demo_credential_def)
  then show ?thesis by (simp add: access_token_def demo_mail_simps demo_label_facts load demo_label_scopes)
qed

lemma demo_write_back:
  "\<exists>w. write_back demo_mail ''s'' demo_label_box = (Some Applied, w)"
proof -
  have "grant_stamp demo_mail ((demo_credential REFRESH ''grant'')\<lparr>cr_scopes := GMAIL_MODIFY_SCOPE\<rparr>) = ''fifty''"
    by (simp add: grant_stamp_def demo_credential_def demo_mail_simps)
  then have due: "mailbox_check_due demo_mail demo_label_row demo_label_box = None"
    by (simp add: mailbox_check_due_def demo_label_facts state_text_def payload_string_def demo_label_state_def
        MAILBOX_ADDRESS_KEY_def MAILBOX_VERIFIED_FOR_KEY_def)
  have "mc_modify demo_client n m a r = None" for n m a r by (simp add: demo_client_def)
  then show ?thesis
    by (simp add: write_back_def attempt_def demo_label_facts demo_label_settings demo_label_scopes attempt_move_def Let_def due
        label_token_def io_then_def io_catch_def transact_def demo_label_token label_mailbox_check_def demo_mail_simps
        move_message_def demo_label_resolves unresolvable_def modify_labels_def)
qed


text \<open>A label write never fails the ingest it follows. Whatever the mail service, the token service and the vault
  answer, the step after the commit raises nothing and leaves the queue as it is. When there was nothing to do the
  items are as they were; otherwise the one item is stamped as moved, or keeps its stamp and gets the
  reason, the first exactly when the write was applied. (Nothing else is committed to the items during the
  token's network call.)\<close>

theorem label_write_never_fails_ingest:
  assumes "\<And>d. source_items (mx_meanwhile mx d) = source_items d"
  shows "\<exists>s' outcome. label_step mx i s = (None, s') \<and> sys_jobs s' = sys_jobs s
    \<and> fst (write_back mx i (sys_dom s)) = outcome
    \<and> (case outcome of
         None \<Rightarrow> source_items (sys_dom s') = source_items (sys_dom s)
       | Some o' \<Rightarrow> \<exists>error. (error = None \<longleftrightarrow> o' = Applied)
           \<and> source_items (sys_dom s') = source_items (record_label_writeback (pl_now (mx_pl mx)) i error (sys_dom s)))"
proof -
  define w0 where "w0 = \<lparr>lr_dom = sys_dom s, lr_calls = [], lr_listed = 0\<rparr>"
  obtain x w1 where a: "attempt mx i w0 = (x, w1)" by fastforce
  have same: "source_items (lr_dom w1) = source_items (sys_dom s)"
    using items.keepsD [OF items_attempt [OF assms] a] by (simp add: same_items_def w0_def)
  have told: "(err = None \<longleftrightarrow> o' = Applied)" if "x = Inr (Some (o', err))" for o' err
    using a
  proof (cases rule: attempt_cases)
    case refused
    with that show ?thesis by auto
  next
    case (tried m r settings grant y)
    from tried(9) that have "result_of y = Some (o', err)" by (auto split: sum.splits)
    with attempt_move_moves [OF tried(8)] show ?thesis unfolding moved_by_def by auto
  qed
  have rec: "source_items (record_label_writeback t i error (lr_dom w1)) = source_items (record_label_writeback t i error (sys_dom s))"
    for t error by (simp add: record_label_writeback_def same)
  show ?thesis
  proof (cases x)
    case (Inl e)
    with a rec show ?thesis by (auto simp: label_step_def write_back_def w0_def [symmetric] Let_def)
  next
    case (Inr z)
    with a rec same told show ?thesis
      by (cases z) (auto simp: label_step_def write_back_def w0_def [symmetric] Let_def split: prod.splits)
  qed
qed

theorem label_write_never_fails_ingest_witness:
  "\<exists>s'. label_step demo_mail ''s'' \<lparr>sys_jobs = \<lparr>rows = [], next_id = 0\<rparr>, sys_heartbeats = Map.empty, sys_dom = demo_label_box\<rparr> = (None, s')
     \<and> (\<exists>it \<in> set (source_items (sys_dom s')). si_label_synced_at it = Some (pl_now demo_stage))"
proof -
  let ?s = "\<lparr>sys_jobs = \<lparr>rows = [], next_id = 0\<rparr>, sys_heartbeats = Map.empty, sys_dom = demo_label_box\<rparr> :: dom sys"
  obtain w where w: "write_back demo_mail ''s'' demo_label_box = (Some Applied, w)" using demo_write_back by blast
  have "source_items (mx_meanwhile demo_mail d) = source_items d" for d by (simp add: demo_mail_simps)
  from label_write_never_fails_ingest [OF this, of "''s''" ?s] obtain s' where s': "label_step demo_mail ''s'' ?s = (None, s')"
    and items: "source_items (sys_dom s') = source_items (record_label_writeback (pl_now demo_stage) ''s'' None demo_label_box)"
    by (auto simp: w demo_mail_simps)
  have "\<exists>it \<in> set (source_items (sys_dom s')). si_label_synced_at it = Some (pl_now demo_stage)"
    by (simp add: items record_label_writeback_def demo_label_box_def update_where_def demo_source_def)
  with s' show ?thesis by blast
qed

end
