(* ===== verification/Pipeline.thy ===== *)
theory Pipeline
  imports Stages
begin

text \<open>
  The narration stages of \<open>workers/src/motet_workers/handlers.py\<close>: \<open>handle_assemble\<close>, \<open>handle_script\<close>
  and \<open>handle_tts\<close>, the duration cap they apply twice, the claim timings, and what is recorded when a
  stage gives up. Log lines, spend accounting and the render progress, which is written on a
  connection of its own and read by nothing here, are left out. The object store is not part of the
  transaction: an upload is the argument \<open>pl_put\<close>, which may raise.
\<close>

section \<open>Assemble\<close>

definition SCRIPT_EXPANSION :: int where "SCRIPT_EXPANSION = 3"

definition assembly_estimate :: "stored_news_item \<Rightarrow> int" where
  "assembly_estimate item = estimate_duration_ms (ni_summary (st_item item)) * SCRIPT_EXPANSION"

definition assembly_spec :: "stored_news_item \<Rightarrow> segment_spec" where
  "assembly_spec item =
     \<lparr>ss_news_item = ni_id (st_item item), ss_text = [], ss_duration_ms = assembly_estimate item, ss_claims = []\<rparr>"

fun choose_loop :: "stored_news_item list \<Rightarrow> segment_spec list \<Rightarrow> int \<Rightarrow> segment_spec list" where
  "choose_loop [] chosen budget = chosen"
| "choose_loop (item # items) chosen budget =
     (let estimate = assembly_estimate item
      in if chosen \<noteq> [] \<and> budget < estimate then chosen
         else choose_loop items (chosen @ [assembly_spec item]) (budget - estimate))"

definition rule_for :: "(json \<Rightarrow> string) \<Rightarrow> episode \<Rightarrow> exn + smart_rule" where
  "rule_for repr e =
     (if ep_kind e \<noteq> Smart then Inr manual
      else case from_json repr (JObj (case ep_rule e of None \<Rightarrow> [] | Some r \<Rightarrow> r)) of
             Inr r \<Rightarrow> Inr r
           | Inl (RuleError m) \<Rightarrow> Inl (permanent (''episode '' @ ep_id e @ '' has an unusable rule: '' @ m))
           | Inl x \<Rightarrow> Inl (exn_of x))"

definition py_bool :: "bool \<Rightarrow> string" where
  "py_bool b = (if b then ''True'' else ''False'')"

text \<open>\<open>repo.replace_segments\<close>, \<open>repo.set_episode_state\<close> and the job of the next stage, as both
  \<open>handle_assemble\<close> and \<open>handle_script\<close> end.\<close>

definition hand_on ::
  "pipeline \<Rightarrow> string \<Rightarrow> segment_spec list \<Rightarrow> episode_state \<Rightarrow> queue \<Rightarrow> dom sys \<Rightarrow> exn + dom sys \<times> dom step list"
where
  "hand_on pl i specs st q s =
     and_then (raises (replace_segments (pl_segment_id pl) (pl_claim_id pl) i specs (sys_dom s)))
       (\<lambda>d. Inr (enqueue_job pl q [(''episode_id'', JStr i)] None
                   (on_dom (set_episode_state (pl_now pl) i st None d) s), []))"

definition handle_assemble :: stage where
  "handle_assemble pl s p =
     and_then (require (pl_repr pl) ''episode_id'' p) (\<lambda>i.
       case get_episode i None (sys_dom s) of
         None \<Rightarrow> Inl (permanent (''episode '' @ i @ '' no longer exists''))
       | Some ep \<Rightarrow>
           if ep_state (se_row ep) \<noteq> EpPending then Inr (s, [])
           else and_then (rule_for (pl_repr pl) (se_row ep)) (\<lambda>rule.
             let candidates = select_for_rule (pl_now pl) (ep_user (se_row ep)) rule (sys_dom s)
             in if candidates = [] \<and> news_item_ids rule \<noteq> []
                then Inl (permanent (''none of the '' @ py_str (int (length (news_item_ids rule)))
                       @ '' picked news items exist any more''))
                else if candidates = []
                then Inl (permanent (''no news items match this episode's rule ('' @ ranking_value (ranking rule)
                       @ '', window '' @ py_str (window_days rule) @ ''d, unread_only='' @ py_bool (unread_only rule) @ '')''))
                else hand_on pl i (choose_loop candidates [] (ep_max_duration_ms (se_row ep))) EpScripting SCRIPT s))"

section \<open>Script\<close>

definition SCRIPTED_STATES :: "episode_state set" where
  "SCRIPTED_STATES = {EpRendering, EpReady}"

definition script_spec :: "script_segment \<Rightarrow> segment_spec" where
  "script_spec g =
     \<lparr>ss_news_item = sp_news_item g, ss_text = script_text g, ss_duration_ms = estimate_duration_ms (script_text g),
      ss_claims = map (\<lambda>c. \<lparr>cs_text = sc_text c, cs_source_item = sc_source_item c, cs_span_start = sc_start c,
                           cs_span_end = sc_end c\<rparr>) (sp_claims g)\<rparr>"

fun cap_loop :: "int \<Rightarrow> segment_spec list \<Rightarrow> segment_spec list \<Rightarrow> int \<Rightarrow> segment_spec list" where
  "cap_loop cap [] kept spent = kept"
| "cap_loop cap (s # ss) kept spent =
     (if kept \<noteq> [] \<and> cap < spent + ss_duration_ms s then kept
      else cap_loop cap ss (kept @ [s]) (spent + ss_duration_ms s))"

definition within_cap :: "segment_spec list \<Rightarrow> int \<Rightarrow> segment_spec list" where
  "within_cap specs cap = cap_loop cap specs [] 0"

definition stage_items :: "stored_episode \<Rightarrow> dom \<Rightarrow> stored_news_item list" where
  "stage_items ep d =
     (let ids = map (sg_news_item \<circ> st_segment) (se_segments ep); stored = load_news_items ids d
      in List.map_filter (\<lambda>i. find (\<lambda>x. ni_id (st_item x) = i) stored) ids)"

definition stage_sources :: "stored_news_item list \<Rightarrow> dom \<Rightarrow> (string \<rightharpoonup> source_doc)" where
  "stage_sources items d =
     (let sources = load_source_items (concat (map st_source_ids items)) d
      in (\<lambda>i. map_option as_source_item (find (\<lambda>r. si_id r = i) sources)))"

definition handle_script :: stage where
  "handle_script pl s p =
     and_then (require (pl_repr pl) ''episode_id'' p) (\<lambda>i.
       case get_episode i None (sys_dom s) of
         None \<Rightarrow> Inl (permanent (''episode '' @ i @ '' no longer exists''))
       | Some ep \<Rightarrow>
           if ep_state (se_row ep) \<in> SCRIPTED_STATES then Inr (s, [])
           else if se_segments ep = [] then Inl (permanent ''episode has no segments; assembly did not run'')
           else
             let ordered = stage_items ep (sys_dom s)
             in if ordered = [] then Inl (permanent ''none of this episode's news items still exist'')
                else and_then (pl_script pl (map as_news_item ordered) (stage_sources ordered (sys_dom s))) (\<lambda>script.
                  if script = [] then Inl (permanent ''the script stage produced no usable segments'')
                  else hand_on pl i (within_cap (map script_spec script) (ep_max_duration_ms (se_row ep)))
                         EpRendering TTS s))"

section \<open>Speech\<close>

definition EXTENSIONS :: "string \<rightharpoonup> string" where
  "EXTENSIONS = [MPEG_MEDIA_TYPE \<mapsto> ''mp3'', WAV_MEDIA_TYPE \<mapsto> ''wav'']"

definition episode_audio_key :: "string \<Rightarrow> string \<Rightarrow> string \<Rightarrow> string" where
  "episode_audio_key user i extension =
     ''users/'' @ user @ ''/episodes/'' @ i @ ''.'' @ dropWhile (\<lambda>c. c = CHR ''.'') extension"

fun speak_all :: "(string \<Rightarrow> exn + audio) \<Rightarrow> stored_segment list \<Rightarrow> exn + audio list" where
  "speak_all speak [] = Inr []"
| "speak_all speak (g # gs) =
     (if py_strip (sg_text (st_segment g)) = []
      then Inl (permanent (''segment '' @ sg_id (st_segment g) @ '' has no text to speak''))
      else and_then (speak (sg_text (st_segment g))) (\<lambda>a.
             and_then (speak_all speak gs) (\<lambda>as. Inr (a # as))))"

text \<open>\<open>apportion_claim_timings\<close>: one segment's claims by weight, the last taking what is left. The
  quotient \<open>duration * weight / total\<close> is taken in the rationals.\<close>

definition claim_weight :: "segment_claim \<Rightarrow> int" where
  "claim_weight c = max 1 (int (length (cl_text c)))"

fun apportion :: "int \<Rightarrow> int \<Rightarrow> int \<Rightarrow> int \<Rightarrow> segment_claim list \<Rightarrow> (string \<times> int \<times> int) list" where
  "apportion start_ms ms total_weight offset [] = []"
| "apportion start_ms ms total_weight offset [c] = [(cl_id c, start_ms + offset, max 0 (ms - offset))]"
| "apportion start_ms ms total_weight offset (c # cs) =
     (let part = py_round (of_int (ms * claim_weight c) / of_int total_weight)
      in (cl_id c, start_ms + offset, part) # apportion start_ms ms total_weight (offset + part) cs)"

definition segment_timings :: "stored_segment \<Rightarrow> (string \<times> int \<times> int) list" where
  "segment_timings g =
     apportion (sg_start_ms (st_segment g)) (sg_duration_ms (st_segment g))
       (sum_list (map claim_weight (st_claims g))) 0 (st_claims g)"

definition apportion_claim_timings :: "stored_segment list \<Rightarrow> (string \<times> int \<times> int) list" where
  "apportion_claim_timings gs = concat (map segment_timings gs)"

text \<open>The end of \<open>handle_tts\<close>: durations as measured, claim timings from the rewritten segments, and
  publication.\<close>

definition finish_tts ::
  "pipeline \<Rightarrow> string \<Rightarrow> audio list \<Rightarrow> audio \<Rightarrow> string \<Rightarrow> dom sys \<Rightarrow> exn + dom sys \<times> dom step list"
where
  "finish_tts pl i rendered audio key s =
     and_then (raises (set_segment_durations i (map audio_ms rendered) (sys_dom s))) (\<lambda>(total_ms, d).
       let d' = set_claim_timings (apportion_claim_timings (segments_for d i)) d
       in Inr (on_dom (publish_episode (pl_now pl) i key (int (length (audio_data audio))) (media_type audio)
                         total_ms d') s, []))"

definition handle_tts :: stage where
  "handle_tts pl s p =
     and_then (require (pl_repr pl) ''episode_id'' p) (\<lambda>i.
       case get_episode i None (sys_dom s) of
         None \<Rightarrow> Inl (permanent (''episode '' @ i @ '' no longer exists''))
       | Some ep \<Rightarrow>
           if ep_state (se_row ep) = EpReady then Inr (s, [])
           else if se_segments ep = [] then Inl (permanent ''episode has no segments to synthesize'')
           else and_then (speak_all (pl_speak pl) (se_segments ep)) (\<lambda>rendered.
             and_then (raises (join_audio rendered)) (\<lambda>audio.
               case EXTENSIONS (media_type audio) of
                 None \<Rightarrow> Inl (permanent (''synthesizer returned unsupported media type '' @ quote @ media_type audio @ quote))
               | Some extension \<Rightarrow>
                   if sniff_media_type (audio_data audio) \<noteq> Some (media_type audio)
                   then Inl (permanent (''refusing to publish '' @ py_str (int (length (audio_data audio))) @ '' bytes as ''
                          @ quote @ media_type audio @ quote @ '': they begin as ''
                          @ (case sniff_media_type (audio_data audio) of None \<Rightarrow> ''nothing playable'' | Some t \<Rightarrow> t)))
                   else
                     let key = episode_audio_key (ep_user (se_row ep)) i extension
                     in case pl_put pl key (audio_data audio) (media_type audio) of
                          Some e \<Rightarrow> Inl e
                        | None \<Rightarrow> finish_tts pl i rendered audio key s)))"

section \<open>Starting an episode, and giving up on one\<close>

definition enqueue_episode ::
  "pipeline \<Rightarrow> string \<Rightarrow> string \<Rightarrow> string \<Rightarrow> int \<Rightarrow> bool \<Rightarrow> dom sys \<Rightarrow> py_error + dom sys"
where
  "enqueue_episode pl i user title max_ms in_backlog s =
     and_then (create_episode (pl_now pl) i user title max_ms Manual None in_backlog (sys_dom s))
       (\<lambda>d. Inr (enqueue_job pl ASSEMBLE [(''episode_id'', JStr i)] None (on_dom d s)))"

definition enqueue_smart_episode ::
  "pipeline \<Rightarrow> string \<Rightarrow> string \<Rightarrow> string \<Rightarrow> int \<Rightarrow> smart_rule \<Rightarrow> bool \<Rightarrow> dom sys \<Rightarrow> py_error + dom sys"
where
  "enqueue_smart_episode pl i user title max_ms rule in_backlog s =
     and_then (create_episode (pl_now pl) i user title max_ms Smart (Some (to_json rule)) in_backlog (sys_dom s))
       (\<lambda>d. Inr (enqueue_job pl ASSEMBLE [(''episode_id'', JStr i)] None (on_dom d s)))"

definition episode_failed :: "pipeline \<Rightarrow> dom recorder" where
  "episode_failed pl p m s =
     (case payload_string ''episode_id'' p of
        None \<Rightarrow> s
      | Some i \<Rightarrow> on_dom (set_episode_state (pl_now pl) i EpFailed (Some (take 2000 m)) (sys_dom s)) s)"

section \<open>The duration cap\<close>

text \<open>How many pieces fit: the first always, then as long as the running total stays within the cap.\<close>

fun fitting :: "int \<Rightarrow> int list \<Rightarrow> nat" where
  "fitting left [] = 0"
| "fitting left (d # ds) = (if left < d then 0 else Suc (fitting (left - d) ds))"

definition cap_length :: "int \<Rightarrow> int list \<Rightarrow> nat" where
  "cap_length cap ds = (case ds of [] \<Rightarrow> 0 | d # ds' \<Rightarrow> Suc (fitting (cap - d) ds'))"

lemma choose_loop_fitting:
  "chosen \<noteq> [] \<Longrightarrow> choose_loop items chosen budget =
     chosen @ map assembly_spec (take (fitting budget (map assembly_estimate items)) items)"
  by (induction items chosen budget rule: choose_loop.induct) (simp_all add: Let_def not_less)

lemma choose_loop_cap:
  "choose_loop items [] cap = map assembly_spec (take (cap_length cap (map assembly_estimate items)) items)"
  by (cases items) (simp_all add: cap_length_def Let_def choose_loop_fitting)

lemma cap_loop_fitting:
  "kept \<noteq> [] \<Longrightarrow> cap_loop cap ss kept spent = kept @ take (fitting (cap - spent) (map ss_duration_ms ss)) ss"
  by (induction cap ss kept spent rule: cap_loop.induct) (simp_all add: algebra_simps not_less)

lemma within_cap_cap: "within_cap ss cap = take (cap_length cap (map ss_duration_ms ss)) ss"
  by (cases ss) (simp_all add: within_cap_def cap_length_def cap_loop_fitting)

lemma fitting_bounds:
  shows "fitting left ds \<le> length ds"
    and "0 < fitting left ds \<Longrightarrow> sum_list (take (fitting left ds) ds) \<le> left"
    and "fitting left ds < length ds \<Longrightarrow> left < sum_list (take (Suc (fitting left ds)) ds)"
proof -
  show "fitting left ds \<le> length ds" by (induction left ds rule: fitting.induct) auto
  show "0 < fitting left ds \<Longrightarrow> sum_list (take (fitting left ds) ds) \<le> left"
  proof (induction left ds rule: fitting.induct)
    case (2 left d ds)
    then show ?case by (cases "fitting (left - d) ds") (auto split: if_splits)
  qed simp
  show "fitting left ds < length ds \<Longrightarrow> left < sum_list (take (Suc (fitting left ds)) ds)"
    by (induction left ds rule: fitting.induct) (auto split: if_splits)
qed

lemma cap_length_bounds:
  fixes cap :: int and ds :: "int list"
  defines "n \<equiv> cap_length cap ds"
  shows "n \<le> length ds" and "ds \<noteq> [] \<Longrightarrow> 1 \<le> n"
    and "1 < n \<Longrightarrow> sum_list (take n ds) \<le> cap"
    and "n < length ds \<Longrightarrow> cap < sum_list (take (Suc n) ds)"
proof -
  show "n \<le> length ds" "ds \<noteq> [] \<Longrightarrow> 1 \<le> n"
    using fitting_bounds(1) by (auto simp: n_def cap_length_def split: list.split)
  show "sum_list (take n ds) \<le> cap" if "1 < n"
    using that fitting_bounds(2) [of "cap - hd ds" "tl ds"]
    by (cases ds) (auto simp: n_def cap_length_def)
  show "cap < sum_list (take (Suc n) ds)" if "n < length ds"
    using that fitting_bounds(3) [of "cap - hd ds" "tl ds"]
    by (cases ds) (auto simp: n_def cap_length_def)
qed

text \<open>C34: Both stages cap an episode the same way. Of the candidates assembly ranks, and again of the
  segments the script stage wrote, a prefix is kept in order: at least one if there is any, more than
  one only while their durations sum to at most the cap, and stopping early only because the next one
  would exceed it.\<close>

theorem duration_cap_applied:
  assumes "ds = map assembly_estimate items \<and> kept = choose_loop items [] cap \<and> all = map assembly_spec items
      \<or> ds = map ss_duration_ms specs \<and> kept = within_cap specs cap \<and> all = specs"
  shows "kept = take (length kept) all \<and> map ss_duration_ms kept = take (length kept) ds
    \<and> (all \<noteq> [] \<longrightarrow> kept \<noteq> []) \<and> (1 < length kept \<longrightarrow> sum_list (take (length kept) ds) \<le> cap)
    \<and> (length kept < length all \<longrightarrow> cap < sum_list (take (Suc (length kept)) ds))"
proof -
  have ds: "map ss_duration_ms all = ds"
    using assms by (auto simp: assembly_spec_def)
  have kept: "kept = take (cap_length cap ds) all"
    using assms by (auto simp: choose_loop_cap within_cap_cap take_map)
  note b = cap_length_bounds [where cap = cap and ds = ds]
  have len: "length kept = cap_length cap ds" "length ds = length all"
    using b(1) ds by (auto simp: kept)
  then show ?thesis
    using b ds by (auto simp: kept len take_map)
qed

theorem duration_cap_applied_witness:
  "let mk = (\<lambda>n ms. \<lparr>ss_news_item = n, ss_text = [], ss_duration_ms = ms, ss_claims = []\<rparr>);
       specs = [mk ''a'' 700, mk ''b'' 200, mk ''c'' 300, mk ''d'' 10]
   in within_cap specs 1000 = take 2 specs \<and> sum_list (map ss_duration_ms (within_cap specs 1000)) \<le> 1000"
proof -
  let ?mk = "\<lambda>n ms. \<lparr>ss_news_item = n, ss_text = [], ss_duration_ms = ms, ss_claims = []\<rparr>"
  let ?specs = "[?mk ''a'' 700, ?mk ''b'' 200, ?mk ''c'' 300, ?mk ''d'' 10]"
  have "within_cap ?specs 1000 = take 2 ?specs" by (simp add: within_cap_def)
  with duration_cap_applied [of "map ss_duration_ms ?specs" "[]" "within_cap ?specs 1000" 1000 ?specs ?specs]
  show ?thesis by simp
qed


section \<open>Claim timings\<close>

text \<open>Timings that run on without a gap from \<open>t\<close> to \<open>e\<close>.\<close>

fun tiled :: "int \<Rightarrow> (string \<times> int \<times> int) list \<Rightarrow> int \<Rightarrow> bool" where
  "tiled t [] e \<longleftrightarrow> t = e"
| "tiled t ((i, s, ms) # ts) e \<longleftrightarrow> s = t \<and> 0 \<le> ms \<and> tiled (t + ms) ts e"

definition share :: "int \<Rightarrow> int \<Rightarrow> segment_claim \<Rightarrow> rat" where
  "share ms total_weight c = of_int (ms * claim_weight c) / of_int total_weight"

lemma py_round_nonneg: "0 \<le> x \<Longrightarrow> 0 \<le> py_round x"
  by (simp add: py_round_def Let_def)

lemma claim_weight_pos: "0 < claim_weight c"
  by (simp add: claim_weight_def)

lemma apportion_ids: "map fst (apportion start_ms ms w offset cs) = map cl_id cs"
  by (induction start_ms ms w offset cs rule: apportion.induct) (simp_all add: Let_def)

lemma apportion_tiled:
  "cs \<noteq> [] \<Longrightarrow> 0 \<le> ms \<Longrightarrow> 0 < w \<Longrightarrow>
     tiled (start_ms + offset) (apportion start_ms ms w offset cs)
       (start_ms + max ms (offset + sum_list (map (\<lambda>c. py_round (share ms w c)) (butlast cs))))"
proof (induction start_ms ms w offset cs rule: apportion.induct)
  case (3 start_ms ms w offset c d cs)
  have "0 \<le> py_round (share ms w c)"
    using "3.prems" claim_weight_pos [of c] by (intro py_round_nonneg) (simp add: share_def)
  with "3.IH" [OF refl] "3.prems" show ?case
    by (simp add: Let_def share_def add.assoc)
qed (simp_all add: max_def)

text \<open>Captions cover their segment without a gap. The claims of a segment are timed in order, each
  starting where the one before ended, the first at the segment's start, none with a negative
  duration, and none before the segment's end is left uncovered; they end exactly with the segment
  whenever the last claim's share is at least half a millisecond per claim before it.\<close>

theorem claim_timings_tile_segment:
  assumes "st_claims g \<noteq> []" and "0 \<le> sg_duration_ms (st_segment g)"
  shows "\<exists>e. tiled (sg_start_ms (st_segment g)) (segment_timings g) e
    \<and> map fst (segment_timings g) = map cl_id (st_claims g)
    \<and> sg_start_ms (st_segment g) + sg_duration_ms (st_segment g) \<le> e
    \<and> ((int (length (st_claims g)) - 1) * sum_list (map claim_weight (st_claims g))
          \<le> 2 * sg_duration_ms (st_segment g) * claim_weight (last (st_claims g))
       \<longrightarrow> e = sg_start_ms (st_segment g) + sg_duration_ms (st_segment g))"
proof -
  let ?t = "sg_start_ms (st_segment g)" and ?ms = "sg_duration_ms (st_segment g)"
  obtain cs c where cs: "st_claims g = cs @ [c]" using assms(1) by (metis rev_exhaust)
  define W where "W = sum_list (map claim_weight (st_claims g))"
  have W: "W = sum_list (map claim_weight cs) + claim_weight c" by (simp add: W_def cs)
  have pos: "0 \<le> sum_list (map claim_weight cs)"
    using claim_weight_pos by (intro sum_list_nonneg_int) (auto simp: less_imp_le)
  then have W0: "0 < W" using claim_weight_pos [of c] W by simp
  let ?r = "sum_list (map (\<lambda>c. py_round (share ?ms W c)) cs)"
  have tiled: "tiled ?t (segment_timings g) (?t + max ?ms ?r)"
    using apportion_tiled [of "st_claims g" ?ms W ?t 0] assms W0
    by (simp add: segment_timings_def cs W_def)
  have "?r \<le> ?ms" if fair: "(int (length (st_claims g)) - 1) * W \<le> 2 * ?ms * claim_weight c"
  proof -
    have "sum_list (map (share ?ms W) cs) = of_int (?ms * sum_list (map claim_weight cs)) / of_int W" for cs
      by (induction cs) (simp_all add: share_def add_divide_distrib distrib_left)
    also have "?ms * sum_list (map claim_weight cs) = ?ms * W - ?ms * claim_weight c"
      by (simp add: W algebra_simps)
    finally have shares: "sum_list (map (share ?ms W) cs) = of_int ?ms - of_int (?ms * claim_weight c) / of_int W"
      using W0 by (simp add: diff_divide_distrib)
    have "(of_int (int (length cs) * W) :: rat) \<le> of_int (2 * ?ms * claim_weight c)"
      using fair by (simp only: of_int_le_iff) (simp add: cs)
    then have "of_nat (length cs) / 2 \<le> (of_int (?ms * claim_weight c) / of_int W :: rat)"
      using W0 by (simp add: field_simps)
    with shares sum_of_rounded [of "share ?ms W" cs] have "(of_int ?r :: rat) \<le> of_int ?ms"
      by linarith
    then show ?thesis by (simp only: of_int_le_iff)
  qed
  with tiled show ?thesis
    by (intro exI [of _ "?t + max ?ms ?r"]) (auto simp: segment_timings_def apportion_ids cs W_def max_def)
qed

definition demo_claim_row :: "string \<Rightarrow> int \<Rightarrow> string \<Rightarrow> segment_claim" where
  "demo_claim_row i pos t =
     \<lparr>cl_id = i, cl_segment = ''s1'', cl_position = pos, cl_text = t, cl_source_item = ''x'', cl_span_start = 0,
      cl_span_end = 1, cl_start_ms = 0, cl_duration_ms = 0\<rparr>"

theorem claim_timings_tile_segment_witness:
  "let g = \<lparr>st_segment = demo_segment ''s1'' ''a'' 0 500 1000,
            st_claims = [demo_claim_row ''p'' 0 ''abc'', demo_claim_row ''q'' 1 ''abcdef'']\<rparr>
   in segment_timings g = [(''p'', 500, 333), (''q'', 833, 667)] \<and> tiled 500 (segment_timings g) 1500"
proof -
  let ?g = "\<lparr>st_segment = demo_segment ''s1'' ''a'' 0 500 1000,
            st_claims = [demo_claim_row ''p'' 0 ''abc'', demo_claim_row ''q'' 1 ''abcdef'']\<rparr>"
  have "tiled 500 (segment_timings ?g) 1500"
    using claim_timings_tile_segment [of ?g] by (simp add: demo_claim_row_def demo_segment_def claim_weight_def)
  moreover have "segment_timings ?g = [(''p'', 500, 333), (''q'', 833, 667)]"
    by (simp add: segment_timings_def demo_claim_row_def demo_segment_def claim_weight_def py_round_def Let_def)
  ultimately show ?thesis by simp
qed

text \<open>Without that condition the claims can overrun their segment: five equal claims of three
  milliseconds are given four.\<close>

lemma claim_timings_can_overrun:
  "let g = \<lparr>st_segment = demo_segment ''s1'' ''a'' 0 0 3,
            st_claims = map (\<lambda>i. demo_claim_row i 0 ''x'') [''1'', ''2'', ''3'', ''4'', ''5'']\<rparr>
   in tiled 0 (segment_timings g) 4"
  by (simp add: segment_timings_def demo_claim_row_def demo_segment_def claim_weight_def py_round_def Let_def)


section \<open>One stage at a time\<close>

definition narration_handlers :: "pipeline \<Rightarrow> queue \<rightharpoonup> dom handler" where
  "narration_handlers pl = [ASSEMBLE \<mapsto> handle_assemble pl, SCRIPT \<mapsto> handle_script pl, TTS \<mapsto> handle_tts pl]"

definition narration_recorders :: "pipeline \<Rightarrow> queue \<rightharpoonup> dom recorder" where
  "narration_recorders pl = [ASSEMBLE \<mapsto> episode_failed pl, SCRIPT \<mapsto> episode_failed pl, TTS \<mapsto> episode_failed pl]"

lemma handle_assemble_Inr:
  assumes "handle_assemble pl s p = Inr (s', after)"
  obtains i ep where "payload_string ''episode_id'' p = Some i" "get_episode i None (sys_dom s) = Some ep"
    "ep_state (se_row ep) \<noteq> EpPending \<and> s' = s \<and> after = []
     \<or> ep_state (se_row ep) = EpPending \<and> (\<exists>rule candidates. rule_for (pl_repr pl) (se_row ep) = Inr rule
          \<and> candidates = select_for_rule (pl_now pl) (ep_user (se_row ep)) rule (sys_dom s) \<and> candidates \<noteq> []
          \<and> hand_on pl i (choose_loop candidates [] (ep_max_duration_ms (se_row ep))) EpScripting SCRIPT s = Inr (s', after))"
proof -
  from assms obtain i where i: "payload_string ''episode_id'' p = Some i"
    by (auto simp: handle_assemble_def require_Inr elim!: and_then_InrE)
  then have r: "require (pl_repr pl) ''episode_id'' p = Inr i" by (simp add: require_Inr)
  with assms obtain ep where ep: "get_episode i None (sys_dom s) = Some ep"
    by (auto simp: handle_assemble_def split: option.splits)
  show thesis
  proof (rule that [OF i ep])
    show "ep_state (se_row ep) \<noteq> EpPending \<and> s' = s \<and> after = []
     \<or> ep_state (se_row ep) = EpPending \<and> (\<exists>rule candidates. rule_for (pl_repr pl) (se_row ep) = Inr rule
          \<and> candidates = select_for_rule (pl_now pl) (ep_user (se_row ep)) rule (sys_dom s) \<and> candidates \<noteq> []
          \<and> hand_on pl i (choose_loop candidates [] (ep_max_duration_ms (se_row ep))) EpScripting SCRIPT s = Inr (s', after))"
      using assms by (simp add: handle_assemble_def r ep Let_def split: if_splits) (auto elim!: and_then_InrE split: if_splits)
  qed
qed

lemma handle_script_Inr:
  assumes "handle_script pl s p = Inr (s', after)"
  obtains i ep where "payload_string ''episode_id'' p = Some i" "get_episode i None (sys_dom s) = Some ep"
    "ep_state (se_row ep) \<in> SCRIPTED_STATES \<and> s' = s \<and> after = []
     \<or> ep_state (se_row ep) \<notin> SCRIPTED_STATES \<and> se_segments ep \<noteq> [] \<and> (\<exists>script. script \<noteq> []
          \<and> pl_script pl (map as_news_item (stage_items ep (sys_dom s))) (stage_sources (stage_items ep (sys_dom s)) (sys_dom s)) = Inr script
          \<and> hand_on pl i (within_cap (map script_spec script) (ep_max_duration_ms (se_row ep))) EpRendering TTS s = Inr (s', after))"
proof -
  from assms obtain i where i: "payload_string ''episode_id'' p = Some i"
    by (auto simp: handle_script_def require_Inr elim!: and_then_InrE)
  then have r: "require (pl_repr pl) ''episode_id'' p = Inr i" by (simp add: require_Inr)
  with assms obtain ep where ep: "get_episode i None (sys_dom s) = Some ep"
    by (auto simp: handle_script_def split: option.splits)
  show thesis
  proof (rule that [OF i ep])
    show "ep_state (se_row ep) \<in> SCRIPTED_STATES \<and> s' = s \<and> after = []
     \<or> ep_state (se_row ep) \<notin> SCRIPTED_STATES \<and> se_segments ep \<noteq> [] \<and> (\<exists>script. script \<noteq> []
          \<and> pl_script pl (map as_news_item (stage_items ep (sys_dom s))) (stage_sources (stage_items ep (sys_dom s)) (sys_dom s)) = Inr script
          \<and> hand_on pl i (within_cap (map script_spec script) (ep_max_duration_ms (se_row ep))) EpRendering TTS s = Inr (s', after))"
      using assms by (simp add: handle_script_def r ep Let_def split: if_splits) (auto elim!: and_then_InrE split: if_splits)
  qed
qed

lemma handle_tts_Inr:
  assumes "handle_tts pl s p = Inr (s', after)"
  obtains i ep where "payload_string ''episode_id'' p = Some i" "get_episode i None (sys_dom s) = Some ep"
    "ep_state (se_row ep) = EpReady \<and> s' = s \<and> after = []
     \<or> ep_state (se_row ep) \<noteq> EpReady \<and> se_segments ep \<noteq> [] \<and> (\<exists>rendered audio extension.
          speak_all (pl_speak pl) (se_segments ep) = Inr rendered \<and> join_audio rendered = Inr audio
          \<and> EXTENSIONS (media_type audio) = Some extension
          \<and> sniff_media_type (audio_data audio) = Some (media_type audio)
          \<and> pl_put pl (episode_audio_key (ep_user (se_row ep)) i extension) (audio_data audio) (media_type audio) = None
          \<and> finish_tts pl i rendered audio (episode_audio_key (ep_user (se_row ep)) i extension) s = Inr (s', after))"
proof -
  from assms obtain i where i: "payload_string ''episode_id'' p = Some i"
    by (auto simp: handle_tts_def require_Inr elim!: and_then_InrE)
  with assms obtain ep where ep: "get_episode i None (sys_dom s) = Some ep"
    by (auto simp: handle_tts_def require_Inr elim!: and_then_InrE split: option.splits)
  show thesis
  proof (rule that [OF i ep])
    from assms i ep show "ep_state (se_row ep) = EpReady \<and> s' = s \<and> after = []
     \<or> ep_state (se_row ep) \<noteq> EpReady \<and> se_segments ep \<noteq> [] \<and> (\<exists>rendered audio extension.
          speak_all (pl_speak pl) (se_segments ep) = Inr rendered \<and> join_audio rendered = Inr audio
          \<and> EXTENSIONS (media_type audio) = Some extension
          \<and> sniff_media_type (audio_data audio) = Some (media_type audio)
          \<and> pl_put pl (episode_audio_key (ep_user (se_row ep)) i extension) (audio_data audio) (media_type audio) = None
          \<and> finish_tts pl i rendered audio (episode_audio_key (ep_user (se_row ep)) i extension) s = Inr (s', after))"
      by (auto simp: handle_tts_def Let_def require_Inr elim!: and_then_InrE split: option.splits if_splits)
  qed
qed

lemma hand_on_Inr:
  assumes "hand_on pl i specs st q s = Inr (s', after)"
  obtains d where "replace_segments (pl_segment_id pl) (pl_claim_id pl) i specs (sys_dom s) = Inr d"
    "s' = enqueue_job pl q [(''episode_id'', JStr i)] None (on_dom (set_episode_state (pl_now pl) i st None d) s)"
    "after = []"
  using assms by (auto simp: hand_on_def elim!: and_then_InrE)

lemma finish_tts_Inr:
  assumes "finish_tts pl i rendered audio key s = Inr (s', after)"
  obtains t d where "set_segment_durations i (map audio_ms rendered) (sys_dom s) = Inr (t, d)"
    "s' = on_dom (publish_episode (pl_now pl) i key (int (length (audio_data audio))) (media_type audio) t
             (set_claim_timings (apportion_claim_timings (segments_for d i)) d)) s"
    "after = []"
  using assms by (auto simp: finish_tts_def Let_def elim!: and_then_InrE)

text \<open>Each stage keeps the contract of a handler: it returns no after-commit step and does nothing to
  the queue but add jobs.\<close>

lemma stage_extends:
  assumes "h \<in> {handle_assemble pl, handle_script pl, handle_tts pl}" and "h s p = Inr (s', after)"
  shows "extends_jobs (pl_sha pl) (sys_jobs s) (sys_jobs s')" and "after = []"
proof -
  have hand: "extends_jobs (pl_sha pl) (sys_jobs s) (sys_jobs s') \<and> after = []"
    if "hand_on pl i specs st q s = Inr (s', after)" for i specs st q
    using that by (auto elim!: hand_on_Inr simp: extends_jobs_enqueue)
  have "extends_jobs (pl_sha pl) (sys_jobs s) (sys_jobs s') \<and> after = []"
    using assms hand by (auto elim!: handle_assemble_Inr handle_script_Inr handle_tts_Inr finish_tts_Inr)
  then show "extends_jobs (pl_sha pl) (sys_jobs s) (sys_jobs s')" "after = []" by simp_all
qed

lemma episode_failed_jobs [simp]: "sys_jobs (episode_failed pl p m s) = sys_jobs s"
  by (simp add: episode_failed_def split: option.split)

lemma narration_contract:
  assumes "h \<in> {handle_assemble pl, handle_script pl, handle_tts pl}"
  shows "job_handler (pl_sha pl) h (narration_recorders pl)"
proof
  fix s p s' after
  assume "h s p = Inr (s', after)"
  from stage_extends [OF assms this] show "extends_jobs (pl_sha pl) (sys_jobs s) (sys_jobs s')"
    and "f \<in> set after \<Longrightarrow> extends_jobs (pl_sha pl) (sys_jobs t) (sys_jobs (snd (f t)))" for f t
    by simp_all
next
  fix q r s p m
  assume "narration_recorders pl q = Some r"
  then have "r = episode_failed pl" by (auto simp: narration_recorders_def split: if_splits)
  then show "extends_jobs (pl_sha pl) (sys_jobs s) (sys_jobs (r p m s))" by simp
qed

interpretation assemble_stage: job_handler "pl_sha pl" "handle_assemble pl" "narration_recorders pl" for pl
  by (rule narration_contract) simp

interpretation script_stage: job_handler "pl_sha pl" "handle_script pl" "narration_recorders pl" for pl
  by (rule narration_contract) simp

interpretation tts_stage: job_handler "pl_sha pl" "handle_tts pl" "narration_recorders pl" for pl
  by (rule narration_contract) simp


text \<open>The state machine of an episode: where each stage has nothing left to do, where it takes the
  episode, and the job it leaves.\<close>

definition past_stage :: "queue \<Rightarrow> episode_state \<Rightarrow> bool" where
  "past_stage q st \<longleftrightarrow>
     (if q = ASSEMBLE then st \<noteq> EpPending else if q = SCRIPT then st \<in> {EpRendering, EpReady} else st = EpReady)"

definition stage_target :: "queue \<Rightarrow> episode_state" where
  "stage_target q = (if q = ASSEMBLE then EpScripting else if q = SCRIPT then EpRendering else EpReady)"

definition stage_jobs :: "queue \<Rightarrow> string \<Rightarrow> (queue \<times> payload \<times> string option) list" where
  "stage_jobs q i =
     (if q = ASSEMBLE then [(SCRIPT, [(''episode_id'', JStr i)], None)]
      else if q = SCRIPT then [(TTS, [(''episode_id'', JStr i)], None)] else [])"

definition episode_at :: "string \<Rightarrow> dom sys \<Rightarrow> episode_state option" where
  "episode_at i s = map_option ep_state (episode_row i (sys_dom s))"

lemma get_episode_row:
  "get_episode i None d = map_option (\<lambda>e. \<lparr>se_row = e, se_segments = segments_for d i\<rparr>) (episode_row i d)"
proof (cases "find (\<lambda>e. ep_id e = i) (episodes d)")
  case (Some e)
  then have "ep_id e = i" by (auto simp: find_Some_iff)
  with Some show ?thesis by (simp add: get_episode_def episode_row_def)
qed (simp add: get_episode_def episode_row_def)

lemma episode_row_update:
  assumes "\<And>e. ep_id (f e) = ep_id e"
  shows "episode_row j (update_episode i f d) = (if i = j then map_option f (episode_row j d) else episode_row j d)"
proof -
  have id: "ep_id e = j" if "find (\<lambda>e. ep_id e = j) es = Some e" for e es
    using that by (auto simp: find_Some_iff)
  show ?thesis
    using assms by (auto simp: episode_row_def update_episode_def find_update_where dest!: id
        intro!: option.map_cong0 option.map_ident_strong)
qed

lemma episode_row_other_tables [simp]:
  "episode_row j (d\<lparr>segments := x\<rparr>) = episode_row j d" "episode_row j (d\<lparr>claims := y\<rparr>) = episode_row j d"
  "episode_row j (delete_segments i d) = episode_row j d"
  by (simp_all add: episode_row_def)

lemma replace_segments_row: "replace_segments sids cids i ss d = Inr d' \<Longrightarrow> episode_row j d' = episode_row j d"
  using replace_segments_Inr [of sids cids i ss d d'] by simp

lemma write_durations_tables:
  "episodes (snd (write_durations t xs d)) = episodes d" "claims (snd (write_durations t xs d)) = claims d"
  by (induction t xs d rule: write_durations.induct) simp_all

lemma set_claim_timings_tables:
  "episodes (set_claim_timings ts d) = episodes d" "segments (set_claim_timings ts d) = segments d"
  by (induction ts d rule: set_claim_timings.induct) simp_all

lemma finish_tts_row:
  assumes "finish_tts pl i rendered audio key s = Inr (s', after)"
  shows "episode_row j (sys_dom s') =
      (if i = j then map_option (\<lambda>r. r\<lparr>ep_state := EpReady, ep_audio_key := Some key,
         ep_audio_bytes := Some (int (length (audio_data audio))), ep_audio_media_type := Some (media_type audio),
         ep_duration_ms := sum_list (map audio_ms rendered), ep_last_error := None,
         ep_published_at := (case ep_published_at r of None \<Rightarrow> Some (pl_now pl) | Some t \<Rightarrow> Some t),
         ep_updated_at := pl_now pl\<rparr>) (episode_row j (sys_dom s)) else episode_row j (sys_dom s))"
    and "sys_jobs s' = sys_jobs s" and "after = []"
proof -
  have sum: "fst (write_durations t (zip gs ms) d) = t + sum_list ms" if "length gs = length ms" for t gs ms d
    using that by (induction gs ms arbitrary: t d rule: list_induct2) (simp_all add: add.assoc)
  from assms obtain t d where d: "set_segment_durations i (map audio_ms rendered) (sys_dom s) = Inr (t, d)"
    and s': "s' = on_dom (publish_episode (pl_now pl) i key (int (length (audio_data audio))) (media_type audio) t
             (set_claim_timings (apportion_claim_timings (segments_for d i)) d)) s" "after = []"
    by (rule finish_tts_Inr)
  have w: "write_durations 0 (zip (segments_of (sys_dom s) i) (map audio_ms rendered)) (sys_dom s) = (t, d)"
    and len: "length (segments_of (sys_dom s) i) = length rendered"
    using d by (auto simp: set_segment_durations_def split: if_splits)
  have "t = sum_list (map audio_ms rendered)"
    using sum [of "segments_of (sys_dom s) i" "map audio_ms rendered" 0 "sys_dom s"] len by (simp add: w)
  moreover have "episode_row j (set_claim_timings ts d) = episode_row j (sys_dom s)" for ts
    using write_durations_tables(1) [of 0 "zip (segments_of (sys_dom s) i) (map audio_ms rendered)" "sys_dom s"]
    by (simp add: episode_row_def set_claim_timings_tables w)
  ultimately show "episode_row j (sys_dom s') =
      (if i = j then map_option (\<lambda>r. r\<lparr>ep_state := EpReady, ep_audio_key := Some key,
         ep_audio_bytes := Some (int (length (audio_data audio))), ep_audio_media_type := Some (media_type audio),
         ep_duration_ms := sum_list (map audio_ms rendered), ep_last_error := None,
         ep_published_at := (case ep_published_at r of None \<Rightarrow> Some (pl_now pl) | Some t \<Rightarrow> Some t),
         ep_updated_at := pl_now pl\<rparr>) (episode_row j (sys_dom s)) else episode_row j (sys_dom s))"
    and "sys_jobs s' = sys_jobs s" and "after = []"
    by (simp_all add: s' publish_episode_def episode_row_update)
qed

lemma hand_on_effect:
  assumes "hand_on pl i specs st q s = Inr (s', after)" and "episode_row i (sys_dom s) \<noteq> None"
  shows "episode_at i s' = Some st" and "j \<noteq> i \<Longrightarrow> episode_row j (sys_dom s') = episode_row j (sys_dom s)"
    and "map (\<lambda>r. (row_queue r, row_payload r, row_serialize_key r)) (enqueued s s') = [(q, [(''episode_id'', JStr i)], None)]"
proof -
  from assms(1) obtain d where d: "replace_segments (pl_segment_id pl) (pl_claim_id pl) i specs (sys_dom s) = Inr d"
    and s': "s' = enqueue_job pl q [(''episode_id'', JStr i)] None (on_dom (set_episode_state (pl_now pl) i st None d) s)"
    by (rule hand_on_Inr)
  show "map (\<lambda>r. (row_queue r, row_payload r, row_serialize_key r)) (enqueued s s') = [(q, [(''episode_id'', JStr i)], None)]"
    unfolding s' by (rule enqueued_job)
  show "episode_at i s' = Some st" "j \<noteq> i \<Longrightarrow> episode_row j (sys_dom s') = episode_row j (sys_dom s)"
    using assms(2) by (auto simp: s' episode_at_def set_episode_state_def episode_row_update replace_segments_row [OF d])
qed

lemma stage_rerun:
  assumes "payload_string ''episode_id'' p = Some i" and "episode_at i s = Some st" and "past_stage q st"
    and "narration_handlers pl q = Some h"
  shows "h s p = Inr (s, [])"
proof -
  have r: "require (pl_repr pl) ''episode_id'' p = Inr i" using assms(1) by (simp add: require_Inr)
  obtain e where e: "episode_row i (sys_dom s) = Some e" "ep_state e = st"
    using assms(2) by (auto simp: episode_at_def)
  with assms(3,4) show ?thesis
    by (auto simp: narration_handlers_def past_stage_def SCRIPTED_STATES_def r get_episode_row
        handle_assemble_def handle_script_def handle_tts_def split: if_splits)
qed

text \<open>C5: Each narration stage takes an episode exactly one step, once. A stage that returns has either
  found the episode past it and changed nothing, or moved it from before the stage to the stage's
  target and queued exactly the next stage's job; it touches no other episode; and running it again,
  in whatever context, returns and changes nothing.\<close>

theorem stages_advance_one_step:
  assumes "narration_handlers pl q = Some h" and "h s p = Inr (s', after)"
  shows "after = [] \<and> (\<exists>i st. payload_string ''episode_id'' p = Some i \<and> episode_at i s = Some st
    \<and> (if past_stage q st then s' = s
       else episode_at i s' = Some (stage_target q)
         \<and> map (\<lambda>r. (row_queue r, row_payload r, row_serialize_key r)) (enqueued s s') = stage_jobs q i)
    \<and> (\<forall>j. j \<noteq> i \<longrightarrow> episode_row j (sys_dom s') = episode_row j (sys_dom s))
    \<and> (\<forall>pl' h'. narration_handlers pl' q = Some h' \<longrightarrow> h' s' p = Inr (s', [])))"
proof -
  have target: "past_stage q (stage_target q)" by (simp add: past_stage_def stage_target_def)
  have stays: "?thesis" if "payload_string ''episode_id'' p = Some i" "episode_at i s = Some st" "past_stage q st" "s' = s" "after = []" for i st
    using that stage_rerun by fastforce
  have moved: "?thesis" if "payload_string ''episode_id'' p = Some i" "episode_at i s = Some st" "\<not> past_stage q st"
      "episode_at i s' = Some (stage_target q)" "after = []"
      "map (\<lambda>r. (row_queue r, row_payload r, row_serialize_key r)) (enqueued s s') = stage_jobs q i"
      "\<And>j. j \<noteq> i \<Longrightarrow> episode_row j (sys_dom s') = episode_row j (sys_dom s)" for i st
    using that stage_rerun [OF that(1,4) target] by auto
  have row: "episode_at i s = Some (ep_state (se_row ep))" "episode_row i (sys_dom s) \<noteq> None"
    if "get_episode i None (sys_dom s) = Some ep" for i ep
    using that by (auto simp: get_episode_row episode_at_def)
  have hand: "?thesis" if i: "payload_string ''episode_id'' p = Some i" and ep: "get_episode i None (sys_dom s) = Some ep"
      and jobs: "stage_jobs q i = [(q', [(''episode_id'', JStr i)], None)]"
      and c: "past_stage q (ep_state (se_row ep)) \<and> s' = s \<and> after = []
        \<or> \<not> past_stage q (ep_state (se_row ep)) \<and> (\<exists>specs. hand_on pl i specs (stage_target q) q' s = Inr (s', after))"
    for i ep q'
    using c
  proof (elim disjE conjE exE)
    assume "past_stage q (ep_state (se_row ep))" "s' = s" "after = []"
    with i row(1) [OF ep] show ?thesis by (intro stays)
  next
    fix specs
    assume n: "\<not> past_stage q (ep_state (se_row ep))" and h: "hand_on pl i specs (stage_target q) q' s = Inr (s', after)"
    from h have "after = []" by (rule hand_on_Inr)
    note e = hand_on_effect [OF h row(2) [OF ep]]
    show ?thesis
      by (rule moved [OF i row(1) [OF ep] n e(1) \<open>after = []\<close> trans [OF e(3) jobs [symmetric]] e(2)])
  qed
  consider "q = ASSEMBLE" "h = handle_assemble pl" | "q = SCRIPT" "h = handle_script pl" | "q = TTS" "h = handle_tts pl"
    using assms(1) by (auto simp: narration_handlers_def split: if_splits)
  then show ?thesis
  proof cases
    case 1
    from assms(2) [unfolded 1] obtain i ep where i: "payload_string ''episode_id'' p = Some i"
      and ep: "get_episode i None (sys_dom s) = Some ep"
      and c: "ep_state (se_row ep) \<noteq> EpPending \<and> s' = s \<and> after = []
        \<or> ep_state (se_row ep) = EpPending \<and> (\<exists>specs. hand_on pl i specs EpScripting SCRIPT s = Inr (s', after))"
      by (rule handle_assemble_Inr) blast
    from c show ?thesis
      by (intro hand [OF i ep, of SCRIPT]) (simp_all add: 1 stage_jobs_def past_stage_def stage_target_def)
  next
    case 2
    from assms(2) [unfolded 2] obtain i ep where i: "payload_string ''episode_id'' p = Some i"
      and ep: "get_episode i None (sys_dom s) = Some ep"
      and c: "ep_state (se_row ep) \<in> SCRIPTED_STATES \<and> s' = s \<and> after = []
        \<or> ep_state (se_row ep) \<notin> SCRIPTED_STATES \<and> (\<exists>specs. hand_on pl i specs EpRendering TTS s = Inr (s', after))"
      by (rule handle_script_Inr) blast
    from c show ?thesis
      by (intro hand [OF i ep, of TTS]) (simp_all add: 2 stage_jobs_def past_stage_def stage_target_def SCRIPTED_STATES_def)
  next
    case 3
    from assms(2) [unfolded 3] obtain i ep where i: "payload_string ''episode_id'' p = Some i"
      and ep: "get_episode i None (sys_dom s) = Some ep"
      and c: "ep_state (se_row ep) = EpReady \<and> s' = s \<and> after = []
        \<or> ep_state (se_row ep) \<noteq> EpReady \<and> (\<exists>rendered audio key. finish_tts pl i rendered audio key s = Inr (s', after))"
      by (rule handle_tts_Inr) blast
    from c show ?thesis
    proof (elim disjE conjE exE)
      assume "ep_state (se_row ep) = EpReady" "s' = s" "after = []"
      with i row(1) [OF ep] 3 show ?thesis by (intro stays) (simp_all add: past_stage_def)
    next
      fix rendered audio key
      assume n: "ep_state (se_row ep) \<noteq> EpReady" and f: "finish_tts pl i rendered audio key s = Inr (s', after)"
      have "enqueued s s' = []" using finish_tts_row(2) [OF f] by (simp add: enqueued_def)
      then show ?thesis
        using i row [OF ep] 3 n finish_tts_row [OF f]
        by (intro moved) (auto simp: past_stage_def stage_target_def stage_jobs_def episode_at_def)
    qed
  qed
qed


definition demo_pipeline :: pipeline where
  "demo_pipeline =
     \<lparr>pl_sha = (\<lambda>_. []), pl_now = 50, pl_repr = (\<lambda>_. []),
      pl_integrate = (\<lambda>doc window. Inr \<lparr>ir_news_item = \<lparr>nd_id = [], nd_title = sd_title doc, nd_summary = ''s'',
                                                   nd_source_ids = [sd_id doc]\<rparr>, ir_merged = False, ir_decision = None\<rparr>),
      pl_script = (\<lambda>items sources. Inr (map (\<lambda>n. \<lparr>sp_news_item = nd_id n,
                      sp_claims = [\<lparr>sc_text = ''hello there'', sc_source_item = ''x'', sc_start = 0, sc_end = 1\<rparr>]\<rparr>) items)),
      pl_speak = (\<lambda>_. Inr tiny_mpeg), pl_put = (\<lambda>_ _ _. None),
      pl_segment_id = (\<lambda>n. replicate (Suc n) CHR ''s''), pl_claim_id = (\<lambda>n k. replicate (Suc n) CHR ''c'' @ replicate k CHR ''d''),
      pl_news_id = ''new''\<rparr>"

definition demo_pending :: "dom sys" where
  "demo_pending =
     \<lparr>sys_jobs = \<lparr>rows = [], next_id = 1\<rparr>, sys_heartbeats = Map.empty,
      sys_dom = demo_heard\<lparr>episodes := [(demo_episode False)\<lparr>ep_state := EpPending, ep_published_at := None\<rparr>], segments := []\<rparr>\<rparr>"

definition demo_payload :: payload where
  "demo_payload = [(''episode_id'', JStr ''e'')]"

lemma demo_selected:
  "map ni_id (map st_item (select_for_rule 50 ''u'' manual (sys_dom demo_pending))) = [''a'', ''b'']"
  by (simp add: select_for_rule_def manual_def order_by_def rule_matches_def demo_pending_def demo_heard_def
      demo_item_def attach_sources_def MAX_ITEMS_def by_age_def)

lemma demo_assembles: "\<exists>s'. handle_assemble demo_pipeline demo_pending demo_payload = Inr (s', [])"
proof -
  let ?sel = "select_for_rule 50 ''u'' manual (sys_dom demo_pending)"
  obtain x y where sel: "?sel = [x, y]" "ni_id (st_item x) = ''a''" "ni_id (st_item y) = ''b''"
    using demo_selected by (auto simp: map_eq_Cons_conv)
  have r: "require (pl_repr demo_pipeline) ''episode_id'' demo_payload = Inr ''e''"
    by (simp add: require_def demo_payload_def)
  have ep: "get_episode ''e'' None (sys_dom demo_pending) = Some \<lparr>se_row =
      (demo_episode False)\<lparr>ep_state := EpPending, ep_published_at := None\<rparr>, se_segments = []\<rparr>"
    by (simp add: get_episode_row episode_row_def demo_pending_def demo_heard_def demo_episode_def segments_for_def segments_of_def)
  have "\<exists>d. replace_segments (pl_segment_id demo_pipeline) (pl_claim_id demo_pipeline) ''e''
      (map assembly_spec (take n [x, y])) (sys_dom demo_pending) = Inr d" if "n \<le> 2" for n
    using that by (cases "n = 0 \<or> n = 1")
      (auto simp: replace_segments_def assembly_spec_def sel insert_segment_def demo_pipeline_def demo_pending_def
        demo_heard_def demo_item_def demo_episode_def delete_segments_def le_Suc_eq numeral_2_eq_2)
  moreover have "cap_length 5000 (map assembly_estimate [x, y]) \<le> 2"
    using cap_length_bounds(1) [where cap = 5000 and ds = "map assembly_estimate [x, y]"] by simp
  ultimately obtain d where d: "replace_segments (pl_segment_id demo_pipeline) (pl_claim_id demo_pipeline) ''e''
      (choose_loop [x, y] [] 5000) (sys_dom demo_pending) = Inr d"
    unfolding choose_loop_cap by blast
  have u: "pl_now demo_pipeline = 50" "ep_user (demo_episode False) = ''u''" "ep_max_duration_ms (demo_episode False) = 5000"
    "ep_kind (demo_episode False) = Manual"
    by (simp_all add: demo_pipeline_def demo_episode_def)
  show ?thesis
    by (simp add: handle_assemble_def r ep rule_for_def u sel(1) hand_on_def d Let_def raises_def del: choose_loop.simps)
qed

theorem stages_advance_one_step_witness:
  "case handle_assemble demo_pipeline demo_pending demo_payload of
     Inl _ \<Rightarrow> False
   | Inr (s', after) \<Rightarrow> after = [] \<and> episode_at ''e'' s' = Some EpScripting
       \<and> handle_assemble demo_pipeline s' demo_payload = Inr (s', [])"
proof -
  obtain s' where s': "handle_assemble demo_pipeline demo_pending demo_payload = Inr (s', [])"
    using demo_assembles by blast
  have h: "narration_handlers pl ASSEMBLE = Some (handle_assemble pl)" for pl
    by (simp add: narration_handlers_def)
  have p: "payload_string ''episode_id'' demo_payload = Some ''e''" by (simp add: payload_string_def demo_payload_def)
  have st: "episode_at ''e'' demo_pending = Some EpPending"
    by (simp add: episode_at_def episode_row_def demo_pending_def demo_episode_def)
  show ?thesis
    using stages_advance_one_step [OF h s'] p st h
    by (auto simp: s' past_stage_def stage_target_def)
qed


section \<open>What is published\<close>

lemma speak_all_Inr:
  "speak_all speak gs = Inr as \<Longrightarrow>
     map speak (map (sg_text \<circ> st_segment) gs) = map Inr as \<and> (\<forall>g \<in> set gs. py_strip (sg_text (st_segment g)) \<noteq> [])"
  by (induction gs arbitrary: as) (auto elim!: and_then_InrE split: if_splits)

text \<open>C4: What is published is what was rendered. When \<open>handle_tts\<close> takes an episode to \<open>ready\<close> on a
  well-formed database, its segments still carry the script's text, none of it blank, each lasts
  exactly as long as the audio synthesized from that text, they follow one another from zero without
  a gap, their durations sum to the episode's and to the uploaded file's, and the bytes uploaded
  under the episode's key begin as the media type the episode is published as.\<close>

theorem published_episode_is_what_was_rendered:
  assumes "handle_tts pl s p = Inr (s', after)" and "dom_ok (sys_dom s)"
    and "payload_string ''episode_id'' p = Some i" and "episode_at i s \<noteq> Some EpReady"
  shows "\<exists>e rendered audio key. let gs = segments_of (sys_dom s') i in
    episode_row i (sys_dom s') = Some e \<and> ep_state e = EpReady \<and> ep_last_error e = None \<and> ep_published_at e \<noteq> None
    \<and> map sg_text gs = map sg_text (segments_of (sys_dom s) i) \<and> (\<forall>g \<in> set gs. py_strip (sg_text g) \<noteq> [])
    \<and> map (pl_speak pl \<circ> sg_text) gs = map Inr rendered \<and> map sg_duration_ms gs = map audio_ms rendered
    \<and> contiguous 0 gs \<and> ep_duration_ms e = sum_list (map sg_duration_ms gs)
    \<and> join_audio rendered = Inr audio \<and> audio_ms audio = ep_duration_ms e
    \<and> ep_audio_key e = Some key \<and> pl_put pl key (audio_data audio) (media_type audio) = None
    \<and> ep_audio_bytes e = Some (int (length (audio_data audio)))
    \<and> ep_audio_media_type e = Some (media_type audio) \<and> sniff_media_type (audio_data audio) = Some (media_type audio)
    \<and> dom_ok (sys_dom s')"
proof -
  from assms(1) obtain i' ep where i': "payload_string ''episode_id'' p = Some i'"
    and ep: "get_episode i' None (sys_dom s) = Some ep"
    and c: "ep_state (se_row ep) = EpReady \<or> (\<exists>rendered audio extension. let key = episode_audio_key (ep_user (se_row ep)) i' extension in
          speak_all (pl_speak pl) (se_segments ep) = Inr rendered \<and> join_audio rendered = Inr audio
          \<and> sniff_media_type (audio_data audio) = Some (media_type audio)
          \<and> pl_put pl key (audio_data audio) (media_type audio) = None
          \<and> finish_tts pl i' rendered audio key s = Inr (s', after))"
    by (rule handle_tts_Inr) (fastforce simp: Let_def)
  have i: "i' = i" using i' assms(3) by simp
  have row: "episode_row i (sys_dom s) = Some (se_row ep)" "se_segments ep = segments_for (sys_dom s) i"
    using ep by (auto simp: i get_episode_row)
  with assms(4) have "ep_state (se_row ep) \<noteq> EpReady" by (simp add: episode_at_def)
  with c obtain rendered audio key where
      spoken: "speak_all (pl_speak pl) (segments_for (sys_dom s) i) = Inr rendered"
    and joined: "join_audio rendered = Inr audio" and put: "pl_put pl key (audio_data audio) (media_type audio) = None"
    and sniff: "sniff_media_type (audio_data audio) = Some (media_type audio)"
    and fin: "finish_tts pl i rendered audio key s = Inr (s', after)"
    by (auto simp: Let_def i row)
  from fin obtain t d where d: "set_segment_durations i (map audio_ms rendered) (sys_dom s) = Inr (t, d)"
    and s': "sys_dom s' = publish_episode (pl_now pl) i key (int (length (audio_data audio))) (media_type audio) t
             (set_claim_timings (apportion_claim_timings (segments_for d i)) d)"
    by (rule finish_tts_Inr) simp
  note rows = set_segment_durations_rows [OF assms(2) d]
  have segs: "segments_of (sys_dom s') i = segments_of d i"
    by (simp add: s' publish_episode_def update_episode_def segments_of_def set_claim_timings_tables)
  have texts: "map (sg_text \<circ> st_segment) (segments_for d' i) = map sg_text (segments_of d' i)" for d'
    by (simp add: segments_for_def comp_def)
  have spoke: "map (pl_speak pl) (map sg_text (segments_of (sys_dom s) i)) = map Inr rendered"
    "\<forall>x \<in> set (map sg_text (segments_of (sys_dom s) i)). py_strip x \<noteq> []"
    using speak_all_Inr [OF spoken] by (simp_all only: texts) (simp add: segments_for_def)
  then have blank: "\<forall>g \<in> set (segments_of d i). py_strip (sg_text g) \<noteq> []"
    unfolding rows(4) [symmetric] by simp
  obtain e where e: "episode_row i (sys_dom s') = Some e" "ep_state e = EpReady" "ep_last_error e = None"
    "ep_published_at e \<noteq> None" "ep_audio_key e = Some key" "ep_duration_ms e = sum_list (map audio_ms rendered)"
    "ep_audio_bytes e = Some (int (length (audio_data audio)))" "ep_audio_media_type e = Some (media_type audio)"
    using finish_tts_row(1) [OF fin, of i] row(1) by (auto split: option.split)
  have "dom_ok (sys_dom s')"
    unfolding s' using set_segment_durations_ok [OF assms(2) d] by (intro publish_episode_ok set_claim_timings_ok)
  moreover have "map (pl_speak pl \<circ> sg_text) (segments_of d i) = map Inr rendered"
    using spoke(1) rows(4) by (metis map_map)
  ultimately show ?thesis
    using e rows blank joined put sniff join_audio_cases(3) [OF joined]
    by (intro exI [of _ e] exI [of _ rendered] exI [of _ audio] exI [of _ key]) (simp add: Let_def segs)
qed

definition demo_rendering :: "dom sys" where
  "demo_rendering =
     demo_pending\<lparr>sys_dom := demo_heard\<lparr>episodes := [(demo_episode False)\<lparr>ep_state := EpRendering, ep_published_at := None\<rparr>]\<rparr>\<rparr>"

theorem published_episode_is_what_was_rendered_witness:
  "case handle_tts demo_pipeline demo_rendering demo_payload of
     Inl _ \<Rightarrow> False
   | Inr (s', after) \<Rightarrow> episode_at ''e'' s' = Some EpReady
       \<and> map (\<lambda>g. (sg_start_ms g, sg_duration_ms g)) (segments_of (sys_dom s') ''e'') = [(0, 24), (24, 24)]"
proof -
  let ?a = "\<lparr>media_type = MPEG_MEDIA_TYPE, audio_data = tiny_frame @ tiny_frame, audio_ms = 48\<rparr>"
  have r: "require (pl_repr demo_pipeline) ''episode_id'' demo_payload = Inr ''e''"
    and pay: "payload_string ''episode_id'' demo_payload = Some ''e''"
    by (simp_all add: require_def demo_payload_def payload_string_def)
  have segs: "segments_of (sys_dom demo_rendering) ''e'' = [demo_segment ''s1'' ''a'' 0 0 1000, demo_segment ''s2'' ''b'' 1 1000 2000]"
    by (simp add: segments_of_def demo_rendering_def demo_heard_def demo_segment_def)
  have row: "episode_row ''e'' (sys_dom demo_rendering) = Some ((demo_episode False)\<lparr>ep_state := EpRendering, ep_published_at := None\<rparr>)"
    by (simp add: episode_row_def demo_rendering_def demo_episode_def)
  have st: "episode_at ''e'' demo_rendering \<noteq> Some EpReady" by (simp add: episode_at_def row)
  have ok: "dom_ok (sys_dom demo_rendering)"
    by (simp add: dom_ok_defs demo_rendering_def demo_heard_def demo_item_def demo_episode_def demo_segment_def)
  have join: "join_audio [tiny_mpeg, tiny_mpeg] = Inr ?a" by (simp add: join_audio_def tiny_mpeg_def)
  have sniff: "sniff_media_type (tiny_frame @ tiny_frame) = Some MPEG_MEDIA_TYPE"
    using frames_sniff [of "[tiny_frame, tiny_frame]" 24000] tiny_frame_whole(1)
    by (simp add: strip_id3v1_def tiny_frame_def)
  have tx: "sg_text (demo_segment i n q b m) = ''x''" for i n q b m by (simp add: demo_segment_def)
  have ext: "EXTENSIONS MPEG_MEDIA_TYPE = Some ''mp3''" and put: "pl_put demo_pipeline k b m = None"
    and st0: "MPEG_MEDIA_TYPE \<noteq> WAV_MEDIA_TYPE" for k b m
    by (simp_all add: EXTENSIONS_def MPEG_MEDIA_TYPE_def WAV_MEDIA_TYPE_def demo_pipeline_def)
  have "speak_all (pl_speak demo_pipeline) (segments_for (sys_dom demo_rendering) ''e'') = Inr [tiny_mpeg, tiny_mpeg]"
    by (simp add: segments_for_def segs tx demo_pipeline_def py_strip_def py_isspace_def)
  then obtain s' where s': "handle_tts demo_pipeline demo_rendering demo_payload = Inr (s', [])"
    by (simp add: handle_tts_def r get_episode_row row segments_for_def segs join sniff ext st0 raises_def
        finish_tts_def set_segment_durations_def Let_def case_prod_unfold put del: speak_all.simps)
  from published_episode_is_what_was_rendered [OF s' ok pay st]
  obtain e rendered where e: "episode_row ''e'' (sys_dom s') = Some e" "ep_state e = EpReady"
    and g: "map sg_duration_ms (segments_of (sys_dom s') ''e'') = map audio_ms rendered"
      "contiguous 0 (segments_of (sys_dom s') ''e'')"
      "map (pl_speak demo_pipeline \<circ> sg_text) (segments_of (sys_dom s') ''e'') = map Inr rendered"
      "map sg_text (segments_of (sys_dom s') ''e'') = [''x'', ''x'']"
    by (auto simp: Let_def segs tx)
  from g(4) obtain x y where xy: "segments_of (sys_dom s') ''e'' = [x, y]" by (auto simp: map_eq_Cons_conv)
  with g(3) have "rendered = [tiny_mpeg, tiny_mpeg]" by (auto simp: demo_pipeline_def map_eq_Cons_conv)
  with g xy have "map (\<lambda>g. (sg_start_ms g, sg_duration_ms g)) (segments_of (sys_dom s') ''e'') = [(0, 24), (24, 24)]"
    by (simp add: tiny_mpeg_def)
  with e show ?thesis by (simp add: s' episode_at_def)
qed


end
