(* ===== verification/Handlers.thy ===== *)
theory Handlers
  imports LabelSync Pipeline
begin

text \<open>
  The whole worker: the handlers of all seven queues and their failure recorders (\<open>HANDLERS\<close> and
  \<open>failure_recorders\<close> of \<open>workers/src/motet_workers/handlers.py\<close>), each shown to keep the contract
  \<open>job_handler\<close> the worker loop relies on. The services answer each run as they like: what a run is told is a
  function of the database and the payload it starts with.
\<close>

section \<open>The contract of the job handlers\<close>

lemma label_step_jobs [simp]: "sys_jobs (snd (label_step mx i s)) = sys_jobs s"
  by (simp add: label_step_def)

lemma fold_enqueue_extends:
  "extends_jobs (pl_sha pl) (sys_jobs s) (sys_jobs (fold (enqueue_extract pl src) ms s))"
proof (induction ms arbitrary: s)
  case (Cons m ms)
  have "extends_jobs (pl_sha pl) (sys_jobs s) (sys_jobs (enqueue_extract pl src m s))"
    unfolding enqueue_extract_def by (rule enqueue_job_extends)
  with Cons.IH [of "enqueue_extract pl src m s"] show ?case by (auto intro: extends_jobs_trans)
qed simp

lemma poll_pages_extends:
  "poll_pages left mx client src q w n st = Inr (n', st')
   \<Longrightarrow> extends_jobs (pl_sha (mx_pl mx)) (sys_jobs (po_sys st)) (sys_jobs (po_sys st'))"
proof (induction left arbitrary: n st)
  case (Suc left)
  show ?case
  proof (cases "po_more st \<and> po_queued st < POLL_PAGE_SIZE")
    case True
    with Suc.prems obtain page :: mail_page where "poll_pages left mx client src q w (Suc n)
        \<lparr>po_sys = fold (enqueue_extract (mx_pl mx) src) (unqueued_message_ids src (pg_messages page) (po_sys st)) (po_sys st),
         po_cursor = pg_cursor page,
         po_seen = po_seen st + length (pg_messages page),
         po_queued = po_queued st + length (unqueued_message_ids src (pg_messages page) (po_sys st)),
         po_window_days = (case pg_first_sync_days page of None \<Rightarrow> po_window_days st | Some k \<Rightarrow> Some k),
         po_more = pg_more page\<rparr> = Inr (n', st')"
      by (auto simp: Let_def elim!: and_then_InrE)
    from Suc.IH [OF this] show ?thesis using extends_jobs_trans [OF fold_enqueue_extends] by simp
  qed (use Suc.prems in auto)
qed simp

lemma enqueue_after_extends:
  "extends_jobs (pl_sha pl) db (sys_jobs s) \<Longrightarrow> extends_jobs (pl_sha pl) db (sys_jobs (enqueue_job pl q p k s))"
  by (rule extends_jobs_trans [OF _ enqueue_job_extends])

lemma poll_mailbox_extends:
  "poll_mailbox mx r client verified s = Inr s' \<Longrightarrow> extends_jobs (pl_sha (mx_pl mx)) (sys_jobs s) (sys_jobs s')"
  unfolding poll_mailbox_def Let_def
  by (erule and_then_InrE)
    (auto simp: enqueue_source_poll_def simp del: enqueue_job_simps(3) dest!: poll_pages_extends
      intro!: enqueue_after_extends split: if_splits)

lemma handle_poll_extends:
  assumes "handle_poll mx s p = Inr (s', after)"
  shows "extends_jobs (pl_sha (mx_pl mx)) (sys_jobs s) (sys_jobs s') \<and> after = []"
  using assms
  by (auto simp: handle_poll_def poll_source_def elim!: and_then_InrE dest!: poll_mailbox_extends split: option.splits if_splits)

lemma handle_extract_extends:
  assumes "handle_extract mx new_id s p = Inr (s', after)"
  shows "extends_jobs (pl_sha (mx_pl mx)) (sys_jobs s) (sys_jobs s') \<and> after = []"
  using assms by (auto simp: handle_extract_def elim!: and_then_InrE split: option.splits if_splits sum.splits)

lemma queue_integration_extends:
  "extends_jobs (pl_sha (ec_pl c)) (sys_jobs s) (sys_jobs (queue_integration c user i p s))"
  unfolding queue_integration_def enqueue_integrate_job_def by (rule enqueue_job_extends)

lemma declined_extends: "extends_jobs (pl_sha (ec_pl c)) (sys_jobs s) (sys_jobs (declined c it dm m st p s))"
  using queue_integration_extends [of c "on_dom d s" for d] by (simp add: declined_def)

lemma enrich_answer_extends: "extends_jobs (pl_sha (ec_pl c)) (sys_jobs s) (sys_jobs (enrich_answer c it dm a p s))"
  using queue_integration_extends [of c "on_dom d s" for d] declined_extends
  by (simp add: enrich_answer_def split: sum.split)

lemma handle_enrich_extends:
  assumes "handle_enrich c s p = Inr (s', after)"
  shows "extends_jobs (pl_sha (ec_pl c)) (sys_jobs s) (sys_jobs s') \<and> after = []"
proof -
  from assms obtain g where g: "enrich_gate c p s = Inr g" by (auto simp: handle_enrich_def elim!: and_then_InrE)
  have settled: "extends_jobs (pl_sha (ec_pl c)) (sys_jobs s) (sys_jobs t)" if "g = Settled t" for t
  proof -
    from g obtain i it where i: "payload_string ''source_item_id'' p = Some i" "get_source_item i (sys_dom s) = Some it"
      by (auto simp: enrich_gate_def require_Inr elim!: and_then_InrE split: option.splits)
    show ?thesis
    proof (cases "si_state it = SiPending")
      case False
      with g i that have "t = s" by (auto simp: enrich_gate_def require_Inr elim!: and_then_InrE)
      then show ?thesis by simp
    next
      case True
      from g i True show ?thesis
        by (cases rule: enrich_gate_cases) (use that in \<open>auto simp: queue_integration_extends declined_extends\<close>)
    qed
  qed
  have "sys_jobs (announced it s) = sys_jobs s" for it by (simp add: announced_def)
  with assms g settled show ?thesis
    using enrich_answer_extends [of c "announced it s" for it] declined_extends [of c s]
    by (auto simp: handle_enrich_def split: if_splits enrich_gate.splits)
qed


lemma handle_integrate_extends:
  assumes "handle_integrate wb pl s p = Inr (s', after)"
  shows "sys_jobs s' = sys_jobs s" and "f \<in> set after \<Longrightarrow> f \<in> range wb"
  using assms
  by (auto simp: handle_integrate_def schedule_def Let_def elim!: and_then_InrE split: option.splits if_splits)

section \<open>Every stage keeps it\<close>

lemma record_poll_failure_jobs [simp]: "sys_jobs (record_poll_failure mx p m s) = sys_jobs s"
  by (simp add: record_poll_failure_def Let_def split: option.split json.split)

lemma source_item_failed_jobs [simp]: "sys_jobs (source_item_failed pl p m s) = sys_jobs s"
  by (simp add: source_item_failed_def split: option.split)

lemma record_enrich_failure_extends:
  "extends_jobs (pl_sha (ec_pl c)) (sys_jobs s) (sys_jobs (record_enrich_failure c p m s))"
  by (simp add: record_enrich_failure_def declined_extends split: option.split json.split)

interpretation poll_stage: job_handler "pl_sha (mx_pl mx)" "handle_poll mx" "[POLL \<mapsto> record_poll_failure mx]" for mx
  by unfold_locales (auto dest: handle_poll_extends split: if_splits)

interpretation extract_stage: job_handler "pl_sha (mx_pl mx)" "handle_extract mx new_id" Map.empty for mx new_id
  by unfold_locales (auto dest: handle_extract_extends)

interpretation enrich_stage: job_handler "pl_sha (ec_pl c)" "handle_enrich c" "[ENRICH \<mapsto> record_enrich_failure c]" for c
  by unfold_locales (auto dest: handle_enrich_extends intro: record_enrich_failure_extends split: if_splits)

interpretation integrate_stage: job_handler "pl_sha pl" "handle_integrate (label_step mx) pl" "[INTEGRATE \<mapsto> source_item_failed pl]" for mx pl
  by unfold_locales (auto dest: handle_integrate_extends split: if_splits)

section \<open>The worker's table of handlers\<close>

record worker_env =
  wv_mail :: mail_ctx
  wv_enrich :: enrich_ctx
  wv_stages :: pipeline
  wv_new_id :: string

type_synonym answers = "dom sys \<Rightarrow> payload \<Rightarrow> worker_env"

definition worker_handlers :: "answers \<Rightarrow> queue \<rightharpoonup> dom handler" where
  "worker_handlers A =
     [POLL \<mapsto> (\<lambda>s p. handle_poll (wv_mail (A s p)) s p),
      EXTRACT \<mapsto> (\<lambda>s p. handle_extract (wv_mail (A s p)) (wv_new_id (A s p)) s p),
      ENRICH \<mapsto> (\<lambda>s p. handle_enrich (wv_enrich (A s p)) s p),
      INTEGRATE \<mapsto> (\<lambda>s p. handle_integrate (label_step (wv_mail (A s p))) (wv_stages (A s p)) s p),
      ASSEMBLE \<mapsto> (\<lambda>s p. handle_assemble (wv_stages (A s p)) s p),
      SCRIPT \<mapsto> (\<lambda>s p. handle_script (wv_stages (A s p)) s p),
      TTS \<mapsto> (\<lambda>s p. handle_tts (wv_stages (A s p)) s p)]"

definition failure_recorders :: "answers \<Rightarrow> queue \<rightharpoonup> dom recorder" where
  "failure_recorders A =
     [POLL \<mapsto> (\<lambda>p m s. record_poll_failure (wv_mail (A s p)) p m s),
      ENRICH \<mapsto> (\<lambda>p m s. record_enrich_failure (wv_enrich (A s p)) p m s),
      INTEGRATE \<mapsto> (\<lambda>p m s. source_item_failed (wv_stages (A s p)) p m s),
      ASSEMBLE \<mapsto> (\<lambda>p m s. episode_failed (wv_stages (A s p)) p m s),
      SCRIPT \<mapsto> (\<lambda>p m s. episode_failed (wv_stages (A s p)) p m s),
      TTS \<mapsto> (\<lambda>p m s. episode_failed (wv_stages (A s p)) p m s)]"

text \<open>One hash function for every run: \<open>hashlib.sha256\<close>.\<close>

definition hashes_with :: "(string \<Rightarrow> 8 word list) \<Rightarrow> answers \<Rightarrow> bool" where
  "hashes_with sha A \<longleftrightarrow>
     (\<forall>s p. pl_sha (mx_pl (wv_mail (A s p))) = sha \<and> pl_sha (ec_pl (wv_enrich (A s p))) = sha \<and> pl_sha (wv_stages (A s p)) = sha)"

lemma worker_handler_extends:
  assumes h: "worker_handlers A q = Some h" and "hashes_with sha A" and "h s p = Inr (s', after)"
  shows "extends_jobs sha (sys_jobs s) (sys_jobs s') \<and> (\<forall>f \<in> set after. \<forall>t. sys_jobs (snd (f t)) = sys_jobs t)"
proof -
  have sha: "pl_sha (mx_pl (wv_mail (A s p))) = sha" "pl_sha (ec_pl (wv_enrich (A s p))) = sha" "pl_sha (wv_stages (A s p)) = sha"
    using assms(2) by (simp_all add: hashes_with_def)
  show ?thesis
  proof (cases q)
    case POLL
    with assms have "handle_poll (wv_mail (A s p)) s p = Inr (s', after)" by (auto simp: worker_handlers_def)
    from handle_poll_extends [OF this] sha show ?thesis by simp
  next
    case EXTRACT
    with assms have "handle_extract (wv_mail (A s p)) (wv_new_id (A s p)) s p = Inr (s', after)" by (auto simp: worker_handlers_def)
    from handle_extract_extends [OF this] sha show ?thesis by simp
  next
    case ENRICH
    with assms have "handle_enrich (wv_enrich (A s p)) s p = Inr (s', after)" by (auto simp: worker_handlers_def)
    from handle_enrich_extends [OF this] sha show ?thesis by simp
  next
    case INTEGRATE
    with assms have "handle_integrate (label_step (wv_mail (A s p))) (wv_stages (A s p)) s p = Inr (s', after)"
      by (auto simp: worker_handlers_def)
    from handle_integrate_extends [OF this] show ?thesis by fastforce
  next
    case ASSEMBLE
    with assms have "handle_assemble (wv_stages (A s p)) s p = Inr (s', after)" by (auto simp: worker_handlers_def)
    from stage_extends [of "handle_assemble (wv_stages (A s p))" "wv_stages (A s p)", OF _ this] sha show ?thesis by simp
  next
    case SCRIPT
    with assms have "handle_script (wv_stages (A s p)) s p = Inr (s', after)" by (auto simp: worker_handlers_def)
    from stage_extends [of "handle_script (wv_stages (A s p))" "wv_stages (A s p)", OF _ this] sha show ?thesis by simp
  next
    case TTS
    with assms have "handle_tts (wv_stages (A s p)) s p = Inr (s', after)" by (auto simp: worker_handlers_def)
    from stage_extends [of "handle_tts (wv_stages (A s p))" "wv_stages (A s p)", OF _ this] sha show ?thesis by simp
  qed
qed

lemma failure_recorder_extends:
  assumes "failure_recorders A q = Some r" and "hashes_with sha A"
  shows "extends_jobs sha (sys_jobs s) (sys_jobs (r p m s))"
proof -
  have "extends_jobs sha (sys_jobs s) (sys_jobs (record_enrich_failure (wv_enrich (A s p)) p m s))"
    using record_enrich_failure_extends [of "wv_enrich (A s p)" s p m] assms(2) by (simp add: hashes_with_def)
  with assms(1) show ?thesis by (auto simp: failure_recorders_def split: if_splits)
qed

lemma worker_contract:
  assumes "worker_handlers A q = Some h" and "hashes_with sha A"
  shows "job_handler sha h (failure_recorders A)"
proof
  fix s p s' after
  assume "h s p = Inr (s', after)"
  note ext = worker_handler_extends [OF assms this]
  then show "extends_jobs sha (sys_jobs s) (sys_jobs s')" by blast
  show "extends_jobs sha (sys_jobs t) (sys_jobs (snd (f t)))" if "f \<in> set after" for f t
    using ext that by simp
qed (rule failure_recorder_extends [OF _ assms(2)])


definition demo_answers :: answers where
  "demo_answers s p = \<lparr>wv_mail = demo_mail, wv_enrich = demo_enrich, wv_stages = demo_stage, wv_new_id = ''si_new''\<rparr>"


end
