(* ===== verification/SignIn.thy ===== *)
theory SignIn
  imports Text "HOL-Library.Product_Lexorder" "HOL-Library.List_Lexorder" "HOL-Library.Char_ord"
begin

text \<open>
  Who may use the API: the credential tables of \<open>db/src/motet_db/auth.py\<close>, \<open>api_tokens.py\<close>, \<open>mcp_oauth.py\<close> and
  the pending authorizations of \<open>phase2.py\<close>, the allowlist (\<open>allowlist.py\<close>), the guards of
  \<open>api/src/motet_api/deps.py\<close> with the failure throttle (\<open>throttle.py\<close>), and the routes that issue and
  revoke credentials (\<open>main.py\<close>, \<open>mcp/oauth.py\<close>).

  A request is one transaction: a refusal, given as its HTTP status, rolls back what it did, except where
  the code commits on purpose. Wording of refusals, log lines and the URLs a browser is sent to are left
  out. SHA-256, the PKCE transform, random values, the identity provider, URL splitting and the clocks are
  arguments (\<open>auth_env\<close>).
\<close>

section \<open>The allowlist\<close>

definition addresses :: "string \<Rightarrow> string list" where
  "addresses raw = py_unique (map (\<lambda>p. py_lower (py_strip p)) (filter (\<lambda>p. py_strip p \<noteq> []) (split_on CHR '','' raw)))"

definition is_allowed :: "string \<Rightarrow> string list \<Rightarrow> bool" where
  "is_allowed email allowed \<longleftrightarrow> allowed \<noteq> [] \<and> py_lower (py_strip email) \<in> set allowed"

section \<open>The tables\<close>

record mcp_request =
  mr_client :: string
  mr_redirect :: string
  mr_explicit :: bool
  mr_challenge :: string
  mr_state :: "string option"
  mr_scopes :: "string list"
  mr_resource :: "string option"

record oauth_state =
  os_state :: string
  os_user :: string
  os_provider :: string
  os_source :: "string option"
  os_verifier :: string
  os_redirect :: string
  os_scopes :: string
  os_nonce :: "string option"
  os_mcp :: "mcp_request option"
  os_handoff :: "string option"
  os_app_link :: bool
  os_expires :: time

record auth_session =
  as_id :: string
  as_user :: string
  as_digest :: string
  as_email :: string
  as_created :: time
  as_seen :: time
  as_expires :: time
  as_client :: "string option"

record handoff =
  ah_digest :: string
  ah_user :: string
  ah_email :: string
  ah_challenge :: string
  ah_expires :: time

record api_token =
  at_id :: string
  at_user :: string
  at_digest :: string
  at_prefix :: string
  at_label :: string
  at_email :: string
  at_created :: time
  at_used :: "time option"
  at_expires :: "time option"
  at_revoked :: "time option"

record auth_code =
  ak_digest :: string
  ak_client :: string
  ak_user :: string
  ak_email :: string
  ak_scopes :: "string list"
  ak_challenge :: string
  ak_redirect :: string
  ak_explicit :: bool
  ak_resource :: "string option"
  ak_expires :: time

record refresh_token =
  rt_digest :: string
  rt_client :: string
  rt_user :: string
  rt_email :: string
  rt_scopes :: "string list"
  rt_resource :: "string option"
  rt_session :: "string option"
  rt_expires :: time

record oauth_client =
  oc_id :: string
  oc_info :: payload
  oc_created :: time

record auth_db =
  au_users :: "(string \<times> string option) list"
  au_states :: "oauth_state list"
  au_sessions :: "auth_session list"
  au_handoffs :: "handoff list"
  au_tokens :: "api_token list"
  au_clients :: "oauth_client list"
  au_codes :: "auth_code list"
  au_refresh :: "refresh_token list"

section \<open>What a request runs with\<close>

datatype identity_exn = IdentityConfigError | IdentityUnavailableError | IdentityError

record url_parts =
  ul_scheme :: string
  ul_hostname :: "string option"
  ul_port :: "nat option option"
  ul_credentials :: bool
  ul_path :: string
  ul_tail :: bool

text \<open>\<open>ae_fresh\<close> gives the random values and ids of the request in the order they are drawn; \<open>ae_urlsplit url scheme\<close> is
  \<open>urlsplit\<close> with that default scheme, nothing where it raises, its \<open>ul_port\<close> nothing where reading the port raises;
  \<open>ae_identity\<close> is the provider's \<open>complete\<close>: a verified address; \<open>ae_login_url_fails\<close> whether its
  \<open>authorization_url\<close> raises. \<open>ae_real_mode\<close> is \<open>current_mode\<close> (nothing where it raises). The rest is \<open>Settings\<close>.\<close>

record auth_env =
  ae_now :: time
  ae_digest :: "string \<Rightarrow> string"
  ae_pkce :: "string \<Rightarrow> string"
  ae_fresh :: "nat \<Rightarrow> string"
  ae_identity :: "string \<Rightarrow> string \<Rightarrow> string \<Rightarrow> string \<Rightarrow> identity_exn + string"
  ae_login_url_fails :: bool
  ae_urlsplit :: "string \<Rightarrow> string \<Rightarrow> url_parts option"
  ae_json_size :: "payload \<Rightarrow> nat"
  ae_real_mode :: "bool option"
  ae_allowed :: "string list"
  ae_admins :: "string list"
  ae_api_token :: "string option"
  ae_token_label :: string
  ae_public_base :: "string option"
  ae_app_base :: "string option"
  ae_ios_app_link :: bool
  ae_google_client :: "string option"
  ae_mint_flag :: "string option"

type_synonym 'a reply = "nat + 'a \<times> auth_db"

definition OWNER_USER_ID :: string where "OWNER_USER_ID = ''motet-owner''"
definition GOOGLE_PROVIDER :: string where "GOOGLE_PROVIDER = ''google''"
definition LOGIN_SCOPES :: "string list" where "LOGIN_SCOPES = [''openid'', ''email'', ''profile'']"
definition LOGIN_STATE_PREFIX :: string where "LOGIN_STATE_PREFIX = ''login.''"
definition MCP_STATE_PREFIX :: string where "MCP_STATE_PREFIX = ''mcp.''"
definition CALLBACK_PATH :: string where "CALLBACK_PATH = ''/oauth/callback''"

definition is_login_state :: "string \<Rightarrow> bool" where
  "is_login_state s \<longleftrightarrow> prefix LOGIN_STATE_PREFIX s"

section \<open>Pending authorizations\<close>

definition STATE_TTL_SECONDS :: int where "STATE_TTL_SECONDS = 600"

definition start_oauth :: "oauth_state \<Rightarrow> auth_db \<Rightarrow> nat + auth_db" where
  "start_oauth st db =
     (if os_state st \<in> os_state ` set (au_states db) then Inl 500 else Inr (db\<lparr>au_states := au_states db @ [st]\<rparr>))"

definition consume_oauth_state :: "time \<Rightarrow> string \<Rightarrow> auth_db \<Rightarrow> oauth_state option \<times> auth_db" where
  "consume_oauth_state now state db =
     (let hit = (\<lambda>s. os_state s = state \<and> now < os_expires s)
      in (find hit (au_states db), db\<lparr>au_states := filter (\<lambda>s. \<not> hit s) (au_states db)\<rparr>))"

definition purge_expired_oauth_states :: "time \<Rightarrow> auth_db \<Rightarrow> auth_db" where
  "purge_expired_oauth_states now db = db\<lparr>au_states := filter (\<lambda>s. now < os_expires s) (au_states db)\<rparr>"

section \<open>Sessions\<close>

definition DEFAULT_TTL_SECONDS :: int where "DEFAULT_TTL_SECONDS = 30 * 24 * 60 * 60"
definition TOUCH_INTERVAL_SECONDS :: int where "TOUCH_INTERVAL_SECONDS = 5 * 60"

definition digest_ok :: "string \<Rightarrow> bool" where
  "digest_ok d \<longleftrightarrow> length d = 64 \<and> set d \<subseteq> set ''0123456789abcdef''"

definition backfill_user_email :: "string \<Rightarrow> string \<Rightarrow> auth_db \<Rightarrow> auth_db" where
  "backfill_user_email user email db =
     db\<lparr>au_users := update_where (\<lambda>u. fst u = user \<and> snd u = None) (\<lambda>u. (fst u, Some email)) (au_users db)\<rparr>"

text \<open>The primary key, the unique digest and the references are the table's constraints.\<close>

definition create_session_for_digest ::
  "time \<Rightarrow> string \<Rightarrow> string \<Rightarrow> string \<Rightarrow> string \<Rightarrow> int \<Rightarrow> string option \<Rightarrow> auth_db \<Rightarrow> auth_session reply"
where
  "create_session_for_digest now new_id user email digest ttl client db =
     (let s = \<lparr>as_id = new_id, as_user = user, as_digest = digest, as_email = email, as_created = now, as_seen = now,
               as_expires = now + secs ttl, as_client = client\<rparr>
      in if \<not> digest_ok digest then Inl 500
         else if new_id \<in> as_id ` set (au_sessions db) \<or> digest \<in> as_digest ` set (au_sessions db)
                 \<or> user \<notin> fst ` set (au_users db) \<or> (case client of None \<Rightarrow> False | Some c \<Rightarrow> c \<notin> oc_id ` set (au_clients db))
         then Inl 500
         else Inr (s, backfill_user_email user email (db\<lparr>au_sessions := au_sessions db @ [s]\<rparr>)))"

definition create_auth_session ::
  "auth_env \<Rightarrow> string \<Rightarrow> string \<Rightarrow> string \<Rightarrow> string \<Rightarrow> int \<Rightarrow> string option \<Rightarrow> auth_db \<Rightarrow> auth_session reply"
where
  "create_auth_session env new_id user email token ttl client =
     create_session_for_digest (ae_now env) new_id user email (ae_digest env token) ttl client"

definition live_session :: "time \<Rightarrow> string \<Rightarrow> auth_session \<Rightarrow> bool" where
  "live_session now digest s \<longleftrightarrow> as_digest s = digest \<and> now < as_expires s"

definition touch_session :: "time \<Rightarrow> string \<Rightarrow> auth_db \<Rightarrow> auth_db" where
  "touch_session now i db =
     db\<lparr>au_sessions := update_where (\<lambda>s. as_id s = i \<and> as_seen s < now - secs TOUCH_INTERVAL_SECONDS)
                          (\<lambda>s. s\<lparr>as_seen := now\<rparr>) (au_sessions db)\<rparr>"

definition session_for_token :: "auth_env \<Rightarrow> string \<Rightarrow> auth_db \<Rightarrow> auth_session option \<times> auth_db" where
  "session_for_token env token db =
     (if token = [] then (None, db)
      else case find (live_session (ae_now env) (ae_digest env token)) (au_sessions db) of
             None \<Rightarrow> (None, db)
           | Some s \<Rightarrow> (Some s, touch_session (ae_now env) (as_id s) db))"

definition delete_session :: "string \<Rightarrow> auth_db \<Rightarrow> auth_db" where
  "delete_session i db =
     db\<lparr>au_refresh := filter (\<lambda>r. rt_session r \<noteq> Some i) (au_refresh db),
        au_sessions := filter (\<lambda>s. as_id s \<noteq> i) (au_sessions db)\<rparr>"

definition delete_sessions_for_user :: "string \<Rightarrow> auth_db \<Rightarrow> nat \<times> auth_db" where
  "delete_sessions_for_user user db =
     (length (filter (\<lambda>s. as_user s = user) (au_sessions db)),
      db\<lparr>au_refresh := filter (\<lambda>r. rt_user r \<noteq> user) (au_refresh db),
         au_sessions := filter (\<lambda>s. as_user s \<noteq> user) (au_sessions db)\<rparr>)"

definition purge_expired_sessions :: "time \<Rightarrow> auth_db \<Rightarrow> auth_db" where
  "purge_expired_sessions now db = db\<lparr>au_sessions := filter (\<lambda>s. now < as_expires s) (au_sessions db)\<rparr>"

section \<open>Handing a sign-in back to the app\<close>

definition HANDOFF_TTL_SECONDS :: int where "HANDOFF_TTL_SECONDS = 120"

definition verifier_matches :: "auth_env \<Rightarrow> string \<Rightarrow> string \<Rightarrow> bool" where
  "verifier_matches env verifier challenge \<longleftrightarrow> ae_pkce env verifier = challenge"

definition create_handoff :: "auth_env \<Rightarrow> string \<Rightarrow> string \<Rightarrow> string \<Rightarrow> string \<Rightarrow> auth_db \<Rightarrow> nat + auth_db" where
  "create_handoff env user email code challenge db =
     (if ae_digest env code \<in> ah_digest ` set (au_handoffs db) \<or> user \<notin> fst ` set (au_users db) then Inl 500
      else Inr (db\<lparr>au_handoffs := au_handoffs db @
             [\<lparr>ah_digest = ae_digest env code, ah_user = user, ah_email = email, ah_challenge = challenge,
               ah_expires = ae_now env + secs HANDOFF_TTL_SECONDS\<rparr>]\<rparr>))"

definition take_handoff :: "auth_env \<Rightarrow> string \<Rightarrow> auth_db \<Rightarrow> handoff option \<times> auth_db" where
  "take_handoff env code db =
     (let hit = (\<lambda>h. ah_digest h = ae_digest env code \<and> ae_now env < ah_expires h)
      in if code = [] then (None, db)
         else (find hit (au_handoffs db), db\<lparr>au_handoffs := filter (\<lambda>h. \<not> hit h) (au_handoffs db)\<rparr>))"

definition purge_expired_handoffs :: "time \<Rightarrow> auth_db \<Rightarrow> auth_db" where
  "purge_expired_handoffs now db = db\<lparr>au_handoffs := filter (\<lambda>h. now < ah_expires h) (au_handoffs db)\<rparr>"

section \<open>Personal access tokens\<close>

definition TOKEN_MARKER :: string where "TOKEN_MARKER = ''mot_''"
definition PREFIX_SECRET_CHARS :: nat where "PREFIX_SECRET_CHARS = 8"
definition LIST_LIMIT :: nat where "LIST_LIMIT = 100"

definition looks_like_api_token :: "string \<Rightarrow> bool" where
  "looks_like_api_token token \<longleftrightarrow> prefix TOKEN_MARKER token"

definition token_label_ok :: "string \<Rightarrow> bool" where
  "token_label_ok l \<longleftrightarrow> 1 \<le> length l \<and> length l \<le> 12 \<and> set l \<subseteq> set ''abcdefghijklmnopqrstuvwxyz0123456789''"

definition new_token :: "string \<Rightarrow> string \<Rightarrow> nat + string" where
  "new_token label random = (if \<not> token_label_ok label then Inl 500 else Inr (TOKEN_MARKER @ label @ ''_'' @ random))"

definition create_token ::
  "auth_env \<Rightarrow> string \<Rightarrow> string \<Rightarrow> string \<Rightarrow> string \<Rightarrow> int option \<Rightarrow> auth_db \<Rightarrow> (string \<times> api_token) reply"
where
  "create_token env user email label environment ttl db =
     and_then (new_token environment (ae_fresh env 0)) (\<lambda>token.
       let t = \<lparr>at_id = ae_fresh env 1, at_user = user, at_digest = ae_digest env token,
                at_prefix = take (length TOKEN_MARKER + length environment + 1 + PREFIX_SECRET_CHARS) token,
                at_label = label, at_email = email, at_created = ae_now env, at_used = None,
                at_expires = map_option (\<lambda>s. ae_now env + secs s) ttl, at_revoked = None\<rparr>
       in if at_id t \<in> at_id ` set (au_tokens db) \<or> at_digest t \<in> at_digest ` set (au_tokens db) \<or> user \<notin> fst ` set (au_users db)
          then Inl 500
          else Inr ((token, t), db\<lparr>au_tokens := au_tokens db @ [t]\<rparr>))"

definition live_token :: "time \<Rightarrow> string \<Rightarrow> api_token \<Rightarrow> bool" where
  "live_token now digest t \<longleftrightarrow>
     at_digest t = digest \<and> at_revoked t = None \<and> (case at_expires t of None \<Rightarrow> True | Some e \<Rightarrow> now < e)"

definition touch_token :: "time \<Rightarrow> string \<Rightarrow> auth_db \<Rightarrow> auth_db" where
  "touch_token now i db =
     db\<lparr>au_tokens := update_where
        (\<lambda>t. at_id t = i \<and> (case at_used t of None \<Rightarrow> True | Some u \<Rightarrow> u < now - secs TOUCH_INTERVAL_SECONDS))
        (\<lambda>t. t\<lparr>at_used := Some now\<rparr>) (au_tokens db)\<rparr>"

definition token_for_secret :: "auth_env \<Rightarrow> string \<Rightarrow> auth_db \<Rightarrow> api_token option \<times> auth_db" where
  "token_for_secret env token db =
     (if token = [] then (None, db)
      else case find (live_token (ae_now env) (ae_digest env token)) (au_tokens db) of
             None \<Rightarrow> (None, db)
           | Some t \<Rightarrow> (Some t, touch_token (ae_now env) (at_id t) db))"

text \<open>Live first, then revoked, each newest first.\<close>

definition list_tokens :: "string \<Rightarrow> auth_db \<Rightarrow> api_token list" where
  "list_tokens user db =
     take LIST_LIMIT (rev (sort_key (\<lambda>t. (at_revoked t = None, at_created t, at_id t))
       (filter (\<lambda>t. at_user t = user) (au_tokens db))))"

definition revoke_token :: "time \<Rightarrow> string \<Rightarrow> string \<Rightarrow> auth_db \<Rightarrow> api_token option \<times> auth_db" where
  "revoke_token now user i db =
     (let mine = (\<lambda>t. at_id t = i \<and> at_user t = user);
          db' = db\<lparr>au_tokens := update_where mine
                   (\<lambda>t. t\<lparr>at_revoked := Some (case at_revoked t of None \<Rightarrow> now | Some r \<Rightarrow> r)\<rparr>) (au_tokens db)\<rparr>
      in (find mine (au_tokens db'), db'))"

section \<open>Grants of MCP clients\<close>

definition CODE_TTL_SECONDS :: int where "CODE_TTL_SECONDS = 5 * 60"
definition ACCESS_TOKEN_TTL_SECONDS :: int where "ACCESS_TOKEN_TTL_SECONDS = 60 * 60"
definition REFRESH_TOKEN_TTL_SECONDS :: int where "REFRESH_TOKEN_TTL_SECONDS = 30 * 24 * 60 * 60"
definition UNUSED_CLIENT_TTL_SECONDS :: int where "UNUSED_CLIENT_TTL_SECONDS = 24 * 60 * 60"

definition insert_client :: "time \<Rightarrow> string \<Rightarrow> payload \<Rightarrow> auth_db \<Rightarrow> nat + auth_db" where
  "insert_client now i info db =
     (if i \<in> oc_id ` set (au_clients db) then Inl 500
      else Inr (db\<lparr>au_clients := au_clients db @ [\<lparr>oc_id = i, oc_info = info, oc_created = now\<rparr>]\<rparr>))"

definition get_client :: "string \<Rightarrow> auth_db \<Rightarrow> payload option" where
  "get_client i db = map_option oc_info (find (\<lambda>c. oc_id c = i) (au_clients db))"

definition purge_expired_grants :: "time \<Rightarrow> auth_db \<Rightarrow> auth_db" where
  "purge_expired_grants now db =
     db\<lparr>au_codes := filter (\<lambda>k. now < ak_expires k) (au_codes db),
        au_refresh := filter (\<lambda>r. now < rt_expires r) (au_refresh db)\<rparr>"

definition client_unused :: "time \<Rightarrow> auth_db \<Rightarrow> oauth_client \<Rightarrow> bool" where
  "client_unused now db c \<longleftrightarrow>
     oc_created c < now - secs UNUSED_CLIENT_TTL_SECONDS
     \<and> (\<forall>k \<in> set (au_codes db). ak_client k \<noteq> oc_id c) \<and> (\<forall>r \<in> set (au_refresh db). rt_client r \<noteq> oc_id c)
     \<and> (\<forall>s \<in> set (au_sessions db). as_client s = Some (oc_id c) \<longrightarrow> \<not> now < as_expires s)"

text \<open>\<open>ON DELETE CASCADE\<close>: a client's lapsed sessions go with it.\<close>

definition purge_unused_clients :: "time \<Rightarrow> auth_db \<Rightarrow> auth_db" where
  "purge_unused_clients now db0 =
     (let db = purge_expired_grants now db0;
          gone = oc_id ` set (filter (client_unused now db) (au_clients db))
      in db\<lparr>au_clients := filter (\<lambda>c. oc_id c \<notin> gone) (au_clients db),
            au_codes := filter (\<lambda>k. ak_client k \<notin> gone) (au_codes db),
            au_refresh := filter (\<lambda>r. rt_client r \<notin> gone) (au_refresh db),
            au_sessions := filter (\<lambda>s. case as_client s of None \<Rightarrow> True | Some c \<Rightarrow> c \<notin> gone) (au_sessions db)\<rparr>)"

definition create_code :: "auth_env \<Rightarrow> string \<Rightarrow> string \<Rightarrow> mcp_request \<Rightarrow> auth_db \<Rightarrow> nat + auth_db" where
  "create_code env code email r db =
     (if ae_digest env code \<in> ak_digest ` set (au_codes db) \<or> mr_client r \<notin> oc_id ` set (au_clients db)
          \<or> OWNER_USER_ID \<notin> fst ` set (au_users db) then Inl 500
      else Inr (db\<lparr>au_codes := au_codes db @
             [\<lparr>ak_digest = ae_digest env code, ak_client = mr_client r, ak_user = OWNER_USER_ID, ak_email = email,
               ak_scopes = mr_scopes r, ak_challenge = mr_challenge r, ak_redirect = mr_redirect r,
               ak_explicit = mr_explicit r, ak_resource = mr_resource r,
               ak_expires = ae_now env + secs CODE_TTL_SECONDS\<rparr>]\<rparr>))"

definition code_hit :: "auth_env \<Rightarrow> string \<Rightarrow> string \<Rightarrow> auth_code \<Rightarrow> bool" where
  "code_hit env code client k \<longleftrightarrow> ak_digest k = ae_digest env code \<and> ak_client k = client \<and> ae_now env < ak_expires k"

definition load_code :: "auth_env \<Rightarrow> string \<Rightarrow> string \<Rightarrow> auth_db \<Rightarrow> auth_code option" where
  "load_code env code client db = find (code_hit env code client) (au_codes db)"

definition consume_code :: "auth_env \<Rightarrow> string \<Rightarrow> string \<Rightarrow> auth_db \<Rightarrow> auth_code option \<times> auth_db" where
  "consume_code env code client db =
     (find (code_hit env code client) (au_codes db),
      db\<lparr>au_codes := filter (\<lambda>k. \<not> code_hit env code client k) (au_codes db)\<rparr>)"

definition create_refresh_token ::
  "auth_env \<Rightarrow> string \<Rightarrow> string \<Rightarrow> string \<Rightarrow> string \<Rightarrow> string list \<Rightarrow> string option \<Rightarrow> string option \<Rightarrow> auth_db \<Rightarrow> nat + auth_db"
where
  "create_refresh_token env token client user email scopes resource session db =
     (if ae_digest env token \<in> rt_digest ` set (au_refresh db) \<or> client \<notin> oc_id ` set (au_clients db)
          \<or> user \<notin> fst ` set (au_users db) then Inl 500
      else Inr (db\<lparr>au_refresh := au_refresh db @
             [\<lparr>rt_digest = ae_digest env token, rt_client = client, rt_user = user, rt_email = email, rt_scopes = scopes,
               rt_resource = resource, rt_session = session, rt_expires = ae_now env + secs REFRESH_TOKEN_TTL_SECONDS\<rparr>]\<rparr>))"

definition refresh_hit :: "auth_env \<Rightarrow> string \<Rightarrow> string option \<Rightarrow> refresh_token \<Rightarrow> bool" where
  "refresh_hit env token client r \<longleftrightarrow>
     rt_digest r = ae_digest env token \<and> ae_now env < rt_expires r \<and> (client = None \<or> client = Some (rt_client r))"

definition load_refresh_token :: "auth_env \<Rightarrow> string \<Rightarrow> string option \<Rightarrow> auth_db \<Rightarrow> refresh_token option" where
  "load_refresh_token env token client db = find (refresh_hit env token client) (au_refresh db)"

text \<open>Spending a refresh token takes the access token issued beside it.\<close>

definition consume_refresh_token ::
  "auth_env \<Rightarrow> string \<Rightarrow> string option \<Rightarrow> auth_db \<Rightarrow> refresh_token option \<times> auth_db"
where
  "consume_refresh_token env token client db =
     (let found = find (refresh_hit env token client) (au_refresh db);
          db1 = db\<lparr>au_refresh := filter (\<lambda>r. \<not> refresh_hit env token client r) (au_refresh db)\<rparr>
      in (found, case found of
            None \<Rightarrow> db1
          | Some r \<Rightarrow> (case rt_session r of
                None \<Rightarrow> db1
              | Some i \<Rightarrow> db1\<lparr>au_sessions := filter (\<lambda>s. as_id s \<noteq> i) (au_sessions db1)\<rparr>)))"

section \<open>The failure throttle\<close>

record throttle =
  th_started :: time
  th_failures :: nat

definition MAX_FAILURES :: nat where "MAX_FAILURES = 60"
definition WINDOW_SECONDS :: int where "WINDOW_SECONDS = 60"

definition new_throttle :: "time \<Rightarrow> throttle" where
  "new_throttle now = \<lparr>th_started = now, th_failures = 0\<rparr>"

definition throttle_failure :: "nat \<Rightarrow> int \<Rightarrow> time \<Rightarrow> throttle \<Rightarrow> bool \<times> throttle" where
  "throttle_failure max_failures window now th =
     (let th1 = (if secs window \<le> now - th_started th then \<lparr>th_started = now, th_failures = 0\<rparr> else th);
          th2 = th1\<lparr>th_failures := Suc (th_failures th1)\<rparr>
      in (max_failures < th_failures th2, th2))"

section \<open>The guards\<close>

datatype how = ByToken | BySession | ByPat | Open

record caller =
  ca_user :: string
  ca_how :: how
  ca_email :: "string option"
  ca_session :: "string option"
  ca_expires :: "time option"
  ca_client :: "string option"

definition caller_of :: "how \<Rightarrow> caller" where
  "caller_of h = \<lparr>ca_user = OWNER_USER_ID, ca_how = h, ca_email = None, ca_session = None, ca_expires = None, ca_client = None\<rparr>"

definition refused :: "time \<Rightarrow> bool \<Rightarrow> throttle \<Rightarrow> nat \<times> throttle" where
  "refused clock counted th =
     (if \<not> counted then (401, th)
      else case throttle_failure MAX_FAILURES WINDOW_SECONDS clock th of (over, th') \<Rightarrow> (if over then 429 else 401, th'))"

definition bearer :: "string option \<Rightarrow> string" where
  "bearer authorization =
     (case authorization of
        None \<Rightarrow> []
      | Some h \<Rightarrow> if prefix ''bearer '' (py_lower h) then py_strip (drop 7 h) else [])"

definition isascii :: "string \<Rightarrow> bool" where
  "isascii s \<longleftrightarrow> (\<forall>c \<in> set s. (of_char c :: nat) < 128)"

text \<open>What \<open>_caller_for_api_token\<close> finds: no such token, a token whose address left the allowlist, or its caller. The second
  is revoked, and the revocation committed.\<close>

datatype 'a probe = Miss | Delisted | Hit 'a

definition caller_for_api_token :: "auth_env \<Rightarrow> string \<Rightarrow> auth_db \<Rightarrow> caller probe \<times> auth_db" where
  "caller_for_api_token env token db =
     (case token_for_secret env token db of
        (None, db1) \<Rightarrow> (Miss, db1)
      | (Some t, db1) \<Rightarrow>
          if \<not> is_allowed (at_email t) (ae_allowed env)
          then (Delisted, snd (revoke_token (ae_now env) (at_user t) (at_id t) db1))
          else (Hit \<lparr>ca_user = at_user t, ca_how = ByPat, ca_email = Some (at_email t), ca_session = None,
                     ca_expires = at_expires t, ca_client = None\<rparr>, db1))"

definition caller_for_session :: "auth_env \<Rightarrow> string \<Rightarrow> auth_db \<Rightarrow> caller probe \<times> auth_db" where
  "caller_for_session env token db =
     (case session_for_token env token db of
        (None, db1) \<Rightarrow> (Miss, db1)
      | (Some s, db1) \<Rightarrow>
          if \<not> is_allowed (as_email s) (ae_allowed env) then (Delisted, delete_session (as_id s) db1)
          else (Hit \<lparr>ca_user = as_user s, ca_how = BySession, ca_email = Some (as_email s), ca_session = Some (as_id s),
                     ca_expires = Some (as_expires s), ca_client = as_client s\<rparr>, db1))"

text \<open>The answer, the database and the throttle after it. A refusal after a committed revocation keeps it; any other
  leaves the database as it was. \<open>compare_digest\<close> raises on a configured token that is not ASCII.\<close>

definition require_caller ::
  "auth_env \<Rightarrow> time \<Rightarrow> string option \<Rightarrow> auth_db \<Rightarrow> throttle \<Rightarrow> (nat + caller) \<times> auth_db \<times> throttle"
where
  "require_caller env clock authorization db th =
     (let token = bearer authorization;
          refuse = (\<lambda>counted db'. case refused clock counted th of (code, th') \<Rightarrow> (Inl code, db', th'))
      in case ae_api_token env of
           None \<Rightarrow> (Inr (caller_of Open), db, th)
         | Some secret \<Rightarrow>
             if token \<noteq> [] \<and> isascii token \<and> \<not> isascii secret then (Inl 500, db, th)
             else if token \<noteq> [] \<and> isascii token \<and> token = secret then (Inr (caller_of ByToken), db, th)
             else
               case (if looks_like_api_token token then caller_for_api_token env token db else (Miss, db)) of
                 (Delisted, db1) \<Rightarrow> refuse True db1
               | (Hit c, db1) \<Rightarrow> (Inr c, db1, th)
               | (Miss, _) \<Rightarrow>
                   (case caller_for_session env token db of
                      (Delisted, db1) \<Rightarrow> refuse True db1
                    | (Hit c, db1) \<Rightarrow> (Inr c, db1, th)
                    | (Miss, _) \<Rightarrow> refuse (token \<noteq> []) db))"

definition is_browser_session :: "caller \<Rightarrow> bool" where
  "is_browser_session c \<longleftrightarrow> ca_how c = BySession \<and> ca_client c = None \<and> ca_email c \<noteq> None"

definition require_session :: "caller \<Rightarrow> nat + caller" where
  "require_session c = (if is_browser_session c then Inr c else Inl 403)"

definition is_admin :: "auth_env \<Rightarrow> caller \<Rightarrow> bool" where
  "is_admin env c \<longleftrightarrow> is_browser_session c \<and> (case ca_email c of None \<Rightarrow> False | Some e \<Rightarrow> is_allowed e (ae_admins env))"

definition require_admin :: "auth_env \<Rightarrow> caller \<Rightarrow> nat + caller" where
  "require_admin env c = (if is_admin env c then Inr c else Inl 403)"

end
