(* ===== verification/Access.thy ===== *)
theory Access
  imports SignIn
begin

text \<open>
  The routes that issue and revoke credentials: the sign-in, native-app and token routes of
  \<open>api/src/motet_api/main.py\<close>, the authorization server for MCP clients (\<open>mcp/oauth.py\<close>), the settings they read
  (\<open>config.py\<close>) and the staging mint (\<open>db/src/motet_db/mint_session.py\<close>), put together as requests against one
  database; what every reachable database satisfies, and what a credential can still do after it was revoked.

  The authorization server's own protocol checks (client authentication, redirect matching, the PKCE check of a code)
  belong to the \<open>mcp\<close> package. Here any client may present any code, so nothing below rests on those checks.
\<close>

section \<open>Settings\<close>

datatype origin_error = ConfigError | UrlValueError

definition origin_scheme_char :: "char \<Rightarrow> bool" where
  "origin_scheme_char c \<longleftrightarrow> c \<in> set ''abcdefghijklmnopqrstuvwxyzABCDEFGHIJKLMNOPQRSTUVWXYZ0123456789+.-''"

definition ascii_letter :: "char \<Rightarrow> bool" where
  "ascii_letter c \<longleftrightarrow> c \<in> set ''abcdefghijklmnopqrstuvwxyzABCDEFGHIJKLMNOPQRSTUVWXYZ''"

definition one_slash_typo :: "string \<Rightarrow> bool" where
  "one_slash_typo url \<longleftrightarrow>
     (case url of [] \<Rightarrow> False | c # _ \<Rightarrow> ascii_letter c) \<and> prefix '':/'' (dropWhile origin_scheme_char url)
     \<and> \<not> sublist ''://'' url"

definition url_origin :: "auth_env \<Rightarrow> string \<Rightarrow> origin_error + string" where
  "url_origin env url =
     (if one_slash_typo url then Inl ConfigError
      else case ae_urlsplit env (if sublist ''//'' url then url else ''//'' @ url) ''https'' of
             None \<Rightarrow> Inl UrlValueError
           | Some p \<Rightarrow>
               if ul_scheme p \<notin> {''http'', ''https''} then Inl ConfigError
               else case ul_port p of
                      None \<Rightarrow> Inl ConfigError
                    | Some port \<Rightarrow>
                        (case ul_hostname p of
                           None \<Rightarrow> Inl ConfigError
                         | Some host \<Rightarrow>
                             if host = [] then Inl ConfigError
                             else Inr (ul_scheme p @ ''://'' @ (if CHR '':'' \<in> set host then ''['' @ host @ '']'' else host)
                                       @ (case port of None \<Rightarrow> [] | Some n \<Rightarrow> '':'' @ py_str (int n)))))"

definition cors_origins :: "auth_env \<Rightarrow> origin_error + string list" where
  "cors_origins env =
     (case ae_app_base env of None \<Rightarrow> Inr [] | Some base \<Rightarrow> and_then (url_origin env base) (\<lambda>o'. Inr [o']))"

text \<open>An exception a route does not catch is a 500.\<close>

definition uncaught :: "'e + 'a \<Rightarrow> nat + 'a" where
  "uncaught r = (case r of Inl _ \<Rightarrow> Inl 500 | Inr x \<Rightarrow> Inr x)"

definition callback_uri_allowed :: "auth_env \<Rightarrow> string \<Rightarrow> nat + bool" where
  "callback_uri_allowed env uri =
     (case ae_urlsplit env uri [] of
        None \<Rightarrow> Inr False
      | Some p \<Rightarrow>
          if rstrip_set {CHR ''/''} (ul_path p) \<noteq> CALLBACK_PATH then Inr False
          else and_then (uncaught (cors_origins env)) (\<lambda>origins.
                 if origins = [] then Inr True
                 else case url_origin env uri of
                        Inl ConfigError \<Rightarrow> Inr False
                      | Inl UrlValueError \<Rightarrow> Inl 500
                      | Inr o' \<Rightarrow> Inr (o' \<in> set origins)))"

definition login_configured :: "auth_env \<Rightarrow> bool" where
  "login_configured env \<longleftrightarrow>
     ae_allowed env \<noteq> []
     \<and> (case ae_real_mode env of None \<Rightarrow> False | Some m \<Rightarrow> \<not> m \<or> ae_google_client env \<noteq> None)"

definition app_link_origin :: "auth_env \<Rightarrow> nat + string option" where
  "app_link_origin env =
     and_then (uncaught (cors_origins env)) (\<lambda>origins.
       case origins of
         [] \<Rightarrow> Inr None
       | origin # _ \<Rightarrow>
           if \<not> ae_ios_app_link env then Inr None
           else case ae_urlsplit env origin [] of
                  None \<Rightarrow> Inl 500
                | Some p \<Rightarrow>
                    if ul_scheme p \<noteq> ''https'' then Inr None
                    else case ul_port p of
                           None \<Rightarrow> Inl 500
                         | Some port \<Rightarrow>
                             if port \<noteq> None \<or> ul_hostname p = None \<or> ul_hostname p = Some [] then Inr None
                             else Inr (Some origin))"

definition DEFAULT_TOKEN_LABEL :: string where "DEFAULT_TOKEN_LABEL = ''dev''"

definition clean_setting :: "string option \<Rightarrow> string option" where
  "clean_setting v = (case v of None \<Rightarrow> None | Some s \<Rightarrow> if py_strip s = [] then None else Some (py_strip s))"

definition truthy_setting :: "string option \<Rightarrow> bool" where
  "truthy_setting raw \<longleftrightarrow>
     py_lower (py_strip (case raw of None \<Rightarrow> [] | Some s \<Rightarrow> s)) \<in> {''1'', ''true'', ''yes'', ''on''}"

text \<open>\<open>deployment\<close> is what \<open>resolve_deployment_environment\<close> answers.\<close>

definition label_slug :: "string \<Rightarrow> string" where
  "label_slug raw =
     take 12 (filter (\<lambda>c. c \<in> set ''abcdefghijklmnopqrstuvwxyzABCDEFGHIJKLMNOPQRSTUVWXYZ0123456789'') (py_lower raw))"

definition token_label :: "string option \<Rightarrow> string option \<Rightarrow> string" where
  "token_label configured deployment =
     (let raw = (case clean_setting configured of
                   Some l \<Rightarrow> l
                 | None \<Rightarrow> (case deployment of None \<Rightarrow> [] | Some e \<Rightarrow> e));
          slug = label_slug raw
      in if token_label_ok slug then slug else DEFAULT_TOKEN_LABEL)"

text \<open>Minting never fails on the label.\<close>

lemma token_label_usable: "token_label_ok (token_label configured deployment)"
  by (simp add: token_label_def Let_def DEFAULT_TOKEN_LABEL_def token_label_ok_def)

lemma mint_secret_of_label: "\<exists>token. new_token (token_label configured deployment) random = Inr token"
  using token_label_usable by (simp add: new_token_def)

record oauth_server =
  osv_issuer :: string
  osv_resource :: string
  osv_callback :: string

definition LOOPBACK :: "string list" where "LOOPBACK = [''localhost'', ''127.0.0.1'', ''::1'']"

definition on_loopback :: "url_parts \<Rightarrow> bool" where
  "on_loopback p \<longleftrightarrow> (case ul_hostname p of None \<Rightarrow> False | Some h \<Rightarrow> h \<in> set LOOPBACK)"

definition oauth_setup :: "auth_env \<Rightarrow> nat + oauth_server option" where
  "oauth_setup env =
     (case (ae_public_base env, ae_app_base env) of
        (Some pub, Some app) \<Rightarrow>
          if pub = [] \<or> app = [] \<or> \<not> login_configured env then Inr None
          else let issuer = rstrip_set {CHR ''/''} pub
               in (case ae_urlsplit env issuer [] of
                     None \<Rightarrow> Inl 500
                   | Some p \<Rightarrow>
                       if ul_scheme p \<noteq> ''https'' \<and> \<not> on_loopback p then Inr None
                       else if ul_path p \<notin> {[], ''/''} \<or> ul_tail p then Inr None
                       else Inr (Some \<lparr>osv_issuer = issuer, osv_resource = issuer @ ''/mcp'',
                                       osv_callback = rstrip_set {CHR ''/''} app @ CALLBACK_PATH\<rparr>))
      | _ \<Rightarrow> Inr None)"

section \<open>Answers\<close>

text \<open>\<open>Started\<close>: the state and the host of the link the app waits for; \<open>SignedIn\<close>: the session token; \<open>HandedOff\<close>: the one-time
  code and whether its link is the https one; \<open>Authorized\<close>: the client's code; \<open>Granted\<close>: access and refresh tokens.\<close>

datatype auth_answer =
    Started string "string option"
  | SignedIn string auth_session
  | HandedOff string bool
  | Authorized string mcp_request
  | Granted string string "string list"
  | Who caller bool
  | NoContent
  | RevokedMany nat
  | Minted string api_token
  | Listed "api_token list"
  | Stamped api_token
  | AccessToken "auth_session option"

section \<open>Signing in\<close>

definition login_row :: "auth_env \<Rightarrow> string \<Rightarrow> string \<Rightarrow> mcp_request option \<Rightarrow> string option \<Rightarrow> bool \<Rightarrow> oauth_state" where
  "login_row env state_prefix redirect request challenge app_link =
     \<lparr>os_state = state_prefix @ ae_fresh env 1, os_user = OWNER_USER_ID, os_provider = GOOGLE_PROVIDER, os_source = None,
      os_verifier = ae_fresh env 0, os_redirect = redirect, os_scopes = py_join '' '' LOGIN_SCOPES,
      os_nonce = Some (ae_fresh env 2), os_mcp = request, os_handoff = challenge, os_app_link = app_link,
      os_expires = ae_now env + secs STATE_TTL_SECONDS\<rparr>"

definition start_login :: "auth_env \<Rightarrow> string \<Rightarrow> auth_db \<Rightarrow> auth_answer reply" where
  "start_login env body_redirect db =
     (if ae_allowed env = [] then Inl 503
      else let redirect = py_strip body_redirect
           in and_then (callback_uri_allowed env redirect) (\<lambda>ok.
                if \<not> ok then Inl 400
                else let db1 = purge_expired_sessions (ae_now env) (purge_expired_oauth_states (ae_now env) db);
                         st = login_row env LOGIN_STATE_PREFIX redirect None None False
                     in and_then (start_oauth st db1) (\<lambda>db2.
                          if ae_login_url_fails env then Inl 503 else Inr (Started (os_state st) None, db2))))"

definition app_link_host :: "auth_env \<Rightarrow> string option \<Rightarrow> nat + string option" where
  "app_link_host env wanted =
     and_then (app_link_origin env) (\<lambda>link.
       case link of
         None \<Rightarrow> Inr None
       | Some origin \<Rightarrow>
           (case ae_urlsplit env origin [] of
              None \<Rightarrow> Inl 500
            | Some p \<Rightarrow> Inr (if ul_hostname p \<noteq> None \<and> wanted \<noteq> ul_hostname p then None else ul_hostname p)))"

definition start_native_login :: "auth_env \<Rightarrow> string option \<Rightarrow> string \<Rightarrow> auth_db \<Rightarrow> auth_answer reply" where
  "start_native_login env domain challenge db =
     (if ae_allowed env = [] then Inl 503
      else and_then (uncaught (cors_origins env)) (\<lambda>origins.
        case origins of
          [] \<Rightarrow> Inl 503
        | origin # _ \<Rightarrow>
            let now = ae_now env;
                db1 = purge_expired_handoffs now (purge_expired_sessions now (purge_expired_oauth_states now db))
            in and_then (app_link_host env domain) (\<lambda>host.
                 let st = login_row env LOGIN_STATE_PREFIX (origin @ CALLBACK_PATH) None (Some challenge) (host \<noteq> None)
                 in and_then (start_oauth st db1) (\<lambda>db2.
                      if ae_login_url_fails env then Inl 503 else Inr (Started (os_state st) host, db2)))))"

text \<open>The identity behind a code: verified by the provider, then on the allowlist.\<close>

definition verified_identity :: "auth_env \<Rightarrow> string \<Rightarrow> oauth_state \<Rightarrow> nat + string" where
  "verified_identity env code p =
     (case ae_identity env code (os_redirect p) (os_verifier p) (case os_nonce p of None \<Rightarrow> [] | Some n \<Rightarrow> n) of
        Inl e \<Rightarrow> Inl (if e = IdentityError then 400 else 503)
      | Inr email \<Rightarrow> if is_allowed email (ae_allowed env) then Inr email else Inl 403)"

definition truthy_text :: "string option \<Rightarrow> string option" where
  "truthy_text x = (if x = Some [] then None else x)"

definition complete_login :: "auth_env \<Rightarrow> string \<Rightarrow> string \<Rightarrow> auth_db \<Rightarrow> auth_answer reply" where
  "complete_login env body_state code db =
     (let state = py_strip body_state
      in if \<not> is_login_state state then Inl 400
         else if ae_allowed env = [] then Inl 503
         else case consume_oauth_state (ae_now env) state db of
                (None, _) \<Rightarrow> Inl 400
              | (Some p, db1) \<Rightarrow>
                  if os_provider p \<noteq> GOOGLE_PROVIDER then Inl 400
                  else and_then (verified_identity env code p) (\<lambda>email.
                    case truthy_text (os_handoff p) of
                      Some challenge \<Rightarrow>
                        and_then (create_handoff env OWNER_USER_ID email (ae_fresh env 0) challenge db1) (\<lambda>db2.
                          if os_app_link p
                          then and_then (app_link_origin env) (\<lambda>link. Inr (HandedOff (ae_fresh env 0) (link \<noteq> None), db2))
                          else Inr (HandedOff (ae_fresh env 0) False, db2))
                    | None \<Rightarrow>
                        and_then (create_auth_session env (ae_fresh env 1) OWNER_USER_ID email (ae_fresh env 0)
                                    DEFAULT_TTL_SECONDS None db1)
                          (\<lambda>(s, db2). Inr (SignedIn (ae_fresh env 0) s, db2))))"

definition redeem_native_login :: "auth_env \<Rightarrow> string \<Rightarrow> string \<Rightarrow> auth_db \<Rightarrow> auth_answer reply" where
  "redeem_native_login env code verifier db =
     (if ae_allowed env = [] then Inl 503
      else case take_handoff env code db of
             (None, _) \<Rightarrow> Inl 400
           | (Some h, db1) \<Rightarrow>
               if \<not> verifier_matches env verifier (ah_challenge h) then Inl 400
               else if \<not> is_allowed (ah_email h) (ae_allowed env) then Inl 403
               else and_then (create_auth_session env (ae_fresh env 1) (ah_user h) (ah_email h) (ae_fresh env 0)
                                DEFAULT_TTL_SECONDS None db1)
                      (\<lambda>(s, db2). Inr (SignedIn (ae_fresh env 0) s, db2)))"

section \<open>The staging mint\<close>

definition MAX_TTL_SECONDS :: int where "MAX_TTL_SECONDS = 24 * 60 * 60"

definition check_enabled :: "string option \<Rightarrow> bool" where
  "check_enabled flag \<longleftrightarrow> py_strip (case flag of None \<Rightarrow> [] | Some v \<Rightarrow> v) = ''1''"

definition check_ttl :: "int \<Rightarrow> bool" where
  "check_ttl ttl \<longleftrightarrow> 0 < ttl \<and> ttl \<le> MAX_TTL_SECONDS"

definition check_email :: "string \<Rightarrow> string list \<Rightarrow> string option" where
  "check_email email allowed =
     (if allowed = [] then None else if \<not> is_allowed email allowed then None else Some (py_lower (py_strip email)))"

text \<open>Every refusal of the job is exit status 3.\<close>

definition mint :: "auth_env \<Rightarrow> string \<Rightarrow> string \<Rightarrow> int \<Rightarrow> auth_db \<Rightarrow> auth_answer reply" where
  "mint env digest email ttl db =
     (if \<not> check_enabled (ae_mint_flag env) \<or> \<not> digest_ok digest \<or> \<not> check_ttl ttl then Inl 3
      else case check_email email (ae_allowed env) of
             None \<Rightarrow> Inl 3
           | Some address \<Rightarrow>
               if digest \<in> as_digest ` set (au_sessions db) then Inl 3
               else and_then (create_session_for_digest (ae_now env) (ae_fresh env 0) OWNER_USER_ID address digest ttl None db)
                      (\<lambda>(s, db1). Inr (SignedIn [] s, db1)))"

section \<open>Routes of a caller\<close>

definition current_session :: "auth_env \<Rightarrow> caller \<Rightarrow> auth_db \<Rightarrow> auth_answer reply" where
  "current_session env c db = Inr (Who c (is_admin env c), db)"

definition logout :: "caller \<Rightarrow> auth_db \<Rightarrow> auth_answer reply" where
  "logout c db = Inr (NoContent, case ca_session c of None \<Rightarrow> db | Some i \<Rightarrow> delete_session i db)"

definition logout_everywhere :: "caller \<Rightarrow> auth_db \<Rightarrow> auth_answer reply" where
  "logout_everywhere c db =
     (if ca_how c = ByPat then Inl 403
      else case delete_sessions_for_user (ca_user c) db of (n, db1) \<Rightarrow> Inr (RevokedMany n, db1))"

definition create_api_token :: "auth_env \<Rightarrow> string \<Rightarrow> int option \<Rightarrow> caller \<Rightarrow> auth_db \<Rightarrow> auth_answer reply" where
  "create_api_token env label days c db =
     and_then (require_session c) (\<lambda>c.
       case ca_email c of
         None \<Rightarrow> Inl 500
       | Some email \<Rightarrow>
           and_then (create_token env (ca_user c) email label (ae_token_label env) (map_option (\<lambda>d. d * 86400) days) db)
             (\<lambda>((token, t), db1). Inr (Minted token t, db1)))"

definition list_api_tokens :: "caller \<Rightarrow> auth_db \<Rightarrow> auth_answer reply" where
  "list_api_tokens c db = and_then (require_session c) (\<lambda>c. Inr (Listed (list_tokens (ca_user c) db), db))"

definition revoke_api_token :: "auth_env \<Rightarrow> string \<Rightarrow> caller \<Rightarrow> auth_db \<Rightarrow> auth_answer reply" where
  "revoke_api_token env i c db =
     and_then (require_session c) (\<lambda>c.
       case revoke_token (ae_now env) (ca_user c) i db of
         (None, _) \<Rightarrow> Inl 404
       | (Some t, db1) \<Rightarrow> Inr (Stamped t, db1))"

section \<open>The authorization server for MCP clients\<close>

definition MAX_REDIRECT_URIS :: nat where "MAX_REDIRECT_URIS = 10"
definition MAX_CLIENT_METADATA_BYTES :: nat where "MAX_CLIENT_METADATA_BYTES = 8000"

definition REFUSED_REDIRECT_SCHEMES :: "string list" where
  "REFUSED_REDIRECT_SCHEMES = [''javascript'', ''data'', ''vbscript'', ''file'', ''blob'', ''about'']"

definition private_scheme :: "string \<Rightarrow> bool" where
  "private_scheme s \<longleftrightarrow>
     (case s of [] \<Rightarrow> False
      | c # cs \<Rightarrow> c \<in> set ''abcdefghijklmnopqrstuvwxyz'' \<and> set cs \<subseteq> set ''abcdefghijklmnopqrstuvwxyz0123456789+.-'')"

definition redirect_uri_allowed :: "auth_env \<Rightarrow> string \<Rightarrow> bool" where
  "redirect_uri_allowed env uri =
     (case ae_urlsplit env uri [] of
        None \<Rightarrow> False
      | Some p \<Rightarrow>
          let scheme = py_lower (ul_scheme p)
          in if scheme = [] \<or> scheme \<in> set REFUSED_REDIRECT_SCHEMES \<or> ul_credentials p then False
             else if scheme = ''https'' then ul_hostname p \<noteq> None \<and> ul_hostname p \<noteq> Some []
             else if scheme = ''http'' then on_loopback p
             else private_scheme scheme)"

text \<open>A protocol error is a 400. \<open>register_client\<close> runs its statements in one transaction of its own, as every operation
  below does.\<close>

definition register_client :: "auth_env \<Rightarrow> string \<Rightarrow> string list \<Rightarrow> payload \<Rightarrow> auth_db \<Rightarrow> auth_answer reply" where
  "register_client env i uris stored db =
     (if uris = [] \<or> MAX_REDIRECT_URIS < length uris then Inl 400
      else if \<not> (\<forall>u \<in> set uris. redirect_uri_allowed env u) then Inl 400
      else if MAX_CLIENT_METADATA_BYTES < ae_json_size env stored then Inl 400
      else and_then (insert_client (ae_now env) i stored (purge_unused_clients (ae_now env) db))
             (\<lambda>db1. Inr (NoContent, db1)))"

text \<open>The pending row is committed before the provider's URL is built, so a failure there leaves it.\<close>

definition authorize :: "auth_env \<Rightarrow> mcp_request \<Rightarrow> auth_db \<Rightarrow> (nat + auth_answer) \<times> auth_db" where
  "authorize env r db =
     (case oauth_setup env of
        Inl e \<Rightarrow> (Inl e, db)
      | Inr None \<Rightarrow> (Inl 404, db)
      | Inr (Some server) \<Rightarrow>
          if (case mr_resource r of None \<Rightarrow> False | Some res \<Rightarrow> rstrip_set {CHR ''/''} res \<noteq> osv_resource server)
          then (Inl 400, db)
          else let st = login_row env MCP_STATE_PREFIX (osv_callback server) (Some r) None False
               in case start_oauth st (purge_expired_oauth_states (ae_now env) db) of
                    Inl e \<Rightarrow> (Inl e, db)
                  | Inr db1 \<Rightarrow> (if ae_login_url_fails env then Inl 503 else Inr (Started (os_state st) None), db1))"

definition complete_authorization :: "auth_env \<Rightarrow> string \<Rightarrow> string \<Rightarrow> auth_db \<Rightarrow> auth_answer reply" where
  "complete_authorization env state code db =
     (if \<not> prefix MCP_STATE_PREFIX state then Inl 400
      else and_then (oauth_setup env) (\<lambda>server.
        if server = None then Inl 503
        else case consume_oauth_state (ae_now env) state db of
               (None, _) \<Rightarrow> Inl 400
             | (Some p, db1) \<Rightarrow>
                 if os_provider p \<noteq> GOOGLE_PROVIDER then Inl 400
                 else case os_mcp p of
                        None \<Rightarrow> Inl 400
                      | Some r \<Rightarrow>
                          and_then (verified_identity env code p) (\<lambda>email.
                            if get_client (mr_client r) db1 = None then Inl 400
                            else if \<not> redirect_uri_allowed env (mr_redirect r) then Inl 400
                            else and_then (create_code env (ae_fresh env 0) email r db1)
                                   (\<lambda>db2. Inr (Authorized (ae_fresh env 0) r, db2)))))"

definition complete_mcp_authorization :: "auth_env \<Rightarrow> string \<Rightarrow> string \<Rightarrow> auth_db \<Rightarrow> auth_answer reply" where
  "complete_mcp_authorization env body_state code db = complete_authorization env (py_strip body_state) code db"

text \<open>An access token (a session) and the refresh token beside it.\<close>

definition issue ::
  "auth_env \<Rightarrow> string \<Rightarrow> string \<Rightarrow> string \<Rightarrow> string list \<Rightarrow> string option \<Rightarrow> auth_db \<Rightarrow> auth_answer reply"
where
  "issue env client user email scopes resource db =
     (if \<not> is_allowed email (ae_allowed env) then Inl 400
      else and_then (create_auth_session env (ae_fresh env 1) user email (ae_fresh env 0) ACCESS_TOKEN_TTL_SECONDS (Some client) db)
        (\<lambda>(s, db1).
           and_then (create_refresh_token env (ae_fresh env 2) client user email scopes resource (Some (as_id s)) db1)
             (\<lambda>db2. Inr (Granted (ae_fresh env 0) (ae_fresh env 2) scopes, db2))))"

definition exchange_authorization_code :: "auth_env \<Rightarrow> string \<Rightarrow> string \<Rightarrow> auth_db \<Rightarrow> auth_answer reply" where
  "exchange_authorization_code env client code db =
     (case consume_code env code client db of
        (None, _) \<Rightarrow> Inl 400
      | (Some k, db1) \<Rightarrow> issue env client (ak_user k) (ak_email k) (ak_scopes k) (ak_resource k) db1)"

definition exchange_refresh_token :: "auth_env \<Rightarrow> string \<Rightarrow> string \<Rightarrow> string list \<Rightarrow> auth_db \<Rightarrow> auth_answer reply" where
  "exchange_refresh_token env client token scopes db =
     (case consume_refresh_token env token (Some client) db of
        (None, _) \<Rightarrow> Inl 400
      | (Some r, db1) \<Rightarrow> issue env client (rt_user r) (rt_email r) scopes (rt_resource r) db1)"

definition load_access_token :: "auth_env \<Rightarrow> string \<Rightarrow> auth_db \<Rightarrow> auth_answer reply" where
  "load_access_token env token db =
     (case session_for_token env token db of
        (None, db1) \<Rightarrow> Inr (AccessToken None, db1)
      | (Some s, db1) \<Rightarrow> Inr (AccessToken (if as_client s = None then None else Some s), db1))"

definition revoke_session_grant :: "string \<Rightarrow> auth_db \<Rightarrow> auth_db" where
  "revoke_session_grant i db =
     db\<lparr>au_refresh := filter (\<lambda>r. rt_session r \<noteq> Some i) (au_refresh db),
        au_sessions := filter (\<lambda>s. as_id s \<noteq> i) (au_sessions db)\<rparr>"

definition revoke_grant :: "auth_env \<Rightarrow> bool \<Rightarrow> string \<Rightarrow> auth_db \<Rightarrow> auth_answer reply" where
  "revoke_grant env access token db =
     (if access
      then (case session_for_token env token db of
              (None, db1) \<Rightarrow> Inr (NoContent, db1)
            | (Some s, db1) \<Rightarrow> Inr (NoContent, revoke_session_grant (as_id s) db1))
      else Inr (NoContent, snd (consume_refresh_token env token None db)))"

section \<open>Requests\<close>

datatype auth_request =
    StartLogin string
  | StartNative "string option" string
  | CompleteLogin string string
  | CompleteMcp string string
  | RedeemNative string string
  | Mint string string int
  | CurrentSession "string option"
  | Logout "string option"
  | LogoutAll "string option"
  | CreateToken "string option" string "int option"
  | ListTokens "string option"
  | RevokeToken "string option" string
  | Register string "string list" payload
  | Authorize mcp_request
  | ExchangeCode string string
  | ExchangeRefresh string string "string list"
  | LoadAccess string
  | RevokeGrant bool string

text \<open>One transaction: a refusal rolls it back.\<close>

definition auth_transact :: "auth_answer reply \<Rightarrow> auth_db \<Rightarrow> (nat + auth_answer) \<times> auth_db" where
  "auth_transact r db = (case r of Inl e \<Rightarrow> (Inl e, db) | Inr (a, db1) \<Rightarrow> (Inr a, db1))"

text \<open>\<open>Depends(require_caller)\<close> runs on the route's connection, and before it.\<close>

definition with_caller ::
  "auth_env \<Rightarrow> time \<Rightarrow> string option \<Rightarrow> (caller \<Rightarrow> auth_db \<Rightarrow> auth_answer reply) \<Rightarrow> auth_db \<Rightarrow> throttle
     \<Rightarrow> (nat + auth_answer) \<times> auth_db \<times> throttle"
where
  "with_caller env clock authorization route db th =
     (case require_caller env clock authorization db th of
        (Inl e, db1, th1) \<Rightarrow> (Inl e, db1, th1)
      | (Inr c, db1, th1) \<Rightarrow>
          (case route c db1 of
             Inl e \<Rightarrow> (Inl e, db, th1)
           | Inr (a, db2) \<Rightarrow> (Inr a, db2, th1)))"

definition with_server :: "auth_env \<Rightarrow> auth_answer reply \<Rightarrow> auth_answer reply" where
  "with_server env r = and_then (oauth_setup env) (\<lambda>s. if s = None then Inl 404 else r)"

fun guarded :: "auth_env \<Rightarrow> auth_request \<Rightarrow> (string option \<times> (caller \<Rightarrow> auth_db \<Rightarrow> auth_answer reply)) option" where
  "guarded env (CurrentSession h) = Some (h, current_session env)"
| "guarded env (Logout h) = Some (h, logout)"
| "guarded env (LogoutAll h) = Some (h, logout_everywhere)"
| "guarded env (CreateToken h label days) = Some (h, create_api_token env label days)"
| "guarded env (ListTokens h) = Some (h, list_api_tokens)"
| "guarded env (RevokeToken h i) = Some (h, revoke_api_token env i)"
| "guarded env _ = None"

fun unguarded :: "auth_env \<Rightarrow> auth_request \<Rightarrow> auth_db \<Rightarrow> (nat + auth_answer) \<times> auth_db" where
  "unguarded env (StartLogin uri) db = auth_transact (start_login env uri db) db"
| "unguarded env (StartNative dm ch) db = auth_transact (start_native_login env dm ch db) db"
| "unguarded env (CompleteLogin st code) db = auth_transact (complete_login env st code db) db"
| "unguarded env (CompleteMcp st code) db = auth_transact (complete_mcp_authorization env st code db) db"
| "unguarded env (RedeemNative code v) db = auth_transact (redeem_native_login env code v db) db"
| "unguarded env (Mint digest email ttl) db = auth_transact (mint env digest email ttl db) db"
| "unguarded env (Register i uris info) db = auth_transact (with_server env (register_client env i uris info db)) db"
| "unguarded env (Authorize r) db = authorize env r db"
| "unguarded env (ExchangeCode c code) db = auth_transact (with_server env (exchange_authorization_code env c code db)) db"
| "unguarded env (ExchangeRefresh c t scopes) db = auth_transact (with_server env (exchange_refresh_token env c t scopes db)) db"
| "unguarded env (LoadAccess t) db = auth_transact (with_server env (load_access_token env t db)) db"
| "unguarded env (RevokeGrant acc t) db = auth_transact (with_server env (revoke_grant env acc t db)) db"
| "unguarded env _ db = (Inl 404, db)"

definition handle_auth ::
  "auth_env \<Rightarrow> time \<Rightarrow> auth_request \<Rightarrow> auth_db \<times> throttle \<Rightarrow> (nat + auth_answer) \<times> auth_db \<times> throttle"
where
  "handle_auth env clock q s =
     (case guarded env q of
        Some (h, route) \<Rightarrow> with_caller env clock h route (fst s) (snd s)
      | None \<Rightarrow> (case unguarded env q (fst s) of (a, db) \<Rightarrow> (a, db, snd s)))"

text \<open>Requests one after the other, each in some environment of \<open>es\<close>; and what they reach from no credentials at all.\<close>

inductive auth_run :: "auth_env set \<Rightarrow> auth_db \<times> throttle \<Rightarrow> auth_db \<times> throttle \<Rightarrow> bool" for es :: "auth_env set" where
  no_request: "auth_run es s s"
| request: "auth_run es s t \<Longrightarrow> env \<in> es \<Longrightarrow> snd (handle_auth env clock q t) = u \<Longrightarrow> auth_run es s u"

definition no_credentials :: "auth_db \<Rightarrow> bool" where
  "no_credentials db \<longleftrightarrow> au_states db = [] \<and> au_sessions db = [] \<and> au_handoffs db = [] \<and> au_tokens db = []
     \<and> au_clients db = [] \<and> au_codes db = [] \<and> au_refresh db = []"

definition auth_reach :: "auth_env set \<Rightarrow> auth_db \<Rightarrow> bool" where
  "auth_reach es db \<longleftrightarrow> (\<exists>db0 th0 th. no_credentials db0 \<and> auth_run es (db0, th0) (db, th))"

section \<open>A concrete deployment\<close>

text \<open>One allowlisted address, which the provider verifies; the digest pads a secret to 64 digits; the secrets a request
  draws repeat one letter. It witnesses that the hypotheses of the theorems can hold.\<close>

definition demo_url :: url_parts where
  "demo_url = \<lparr>ul_scheme = ''https'', ul_hostname = Some ''x'', ul_port = Some None, ul_credentials = False,
     ul_path = ''/oauth/callback'', ul_tail = False\<rparr>"

definition demo_env :: "char \<Rightarrow> auth_env" where
  "demo_env c = \<lparr>ae_now = 0, ae_digest = (\<lambda>s. take 64 (s @ replicate 64 CHR ''0'')), ae_pkce = (\<lambda>v. v),
     ae_fresh = (\<lambda>n. replicate (Suc n) c), ae_identity = (\<lambda>code r v n. Inr ''o@x''), ae_login_url_fails = False,
     ae_urlsplit = (\<lambda>u s. Some demo_url), ae_json_size = (\<lambda>p. 0), ae_real_mode = Some False, ae_allowed = [''o@x''],
     ae_admins = [], ae_api_token = Some ''key'', ae_token_label = ''dev'', ae_public_base = None,
     ae_app_base = Some ''https://x'', ae_ios_app_link = False, ae_google_client = None, ae_mint_flag = None\<rparr>"

definition demo_empty :: auth_db where
  "demo_empty = \<lparr>au_users = [(OWNER_USER_ID, None)], au_states = [], au_sessions = [], au_handoffs = [], au_tokens = [],
     au_clients = [], au_codes = [], au_refresh = []\<rparr>"

definition demo_requests :: "auth_request list \<Rightarrow> auth_db \<times> throttle" where
  "demo_requests qs = fold (\<lambda>q s. snd (handle_auth (demo_env CHR ''b'') 0 q s)) qs (demo_empty, new_throttle 0)"

definition demo_signed_in :: "auth_db \<times> throttle" where
  "demo_signed_in = demo_requests [StartLogin ''https://x/oauth/callback'', CompleteLogin ''login.bb'' ''code'']"

definition demo_handed_off :: "auth_db \<times> throttle" where
  "demo_handed_off = demo_requests [StartNative None ''v'', CompleteLogin ''login.bb'' ''code'']"

lemma demo_reach: "auth_reach {demo_env CHR ''b''} (fst (demo_requests qs))"
proof -
  have "auth_run {demo_env CHR ''b''} s (fold (\<lambda>q s. snd (handle_auth (demo_env CHR ''b'') 0 q s)) qs s)" for s
    by (induction qs rule: rev_induct) (auto intro: auth_run.intros)
  then have "auth_run {demo_env CHR ''b''} (demo_empty, new_throttle 0) (fst (demo_requests qs), snd (demo_requests qs))"
    by (simp add: demo_requests_def)
  moreover have "no_credentials demo_empty" by (simp add: no_credentials_def demo_empty_def)
  ultimately show ?thesis unfolding auth_reach_def by blast
qed

lemmas demo_sessions = demo_reach [of "[StartLogin ''https://x/oauth/callback'', CompleteLogin ''login.bb'' ''code'']",
    folded demo_signed_in_def]
lemmas demo_handoffs = demo_reach [of "[StartNative None ''v'', CompleteLogin ''login.bb'' ''code'']",
    folded demo_handed_off_def]

end
