(* ===== verification/Credentials.thy ===== *)
theory Credentials
  imports Access
begin

text \<open>
  What holds of the credentials in every database the requests of \<open>Access\<close> reach. The locale \<open>auth_invariant\<close> carries
  a predicate of the database through every request, given that it survives deletions, touches, revocations and each
  kind of insertion; it is interpreted for whose the credentials are, for the keys of the tables, and for a secret
  that has been spent or revoked.
\<close>

section \<open>Whose credentials there are\<close>

definition holders :: "auth_db \<Rightarrow> (string \<times> string) set" where
  "holders db =
     (\<lambda>s. (as_user s, as_email s)) ` set (au_sessions db) \<union> (\<lambda>h. (ah_user h, ah_email h)) ` set (au_handoffs db)
     \<union> (\<lambda>t. (at_user t, at_email t)) ` set (au_tokens db) \<union> (\<lambda>k. (ak_user k, ak_email k)) ` set (au_codes db)
     \<union> (\<lambda>r. (rt_user r, rt_email r)) ` set (au_refresh db)"

text \<open>The address was allowlisted, and the identity provider verified it, or the staging mint is enabled.\<close>

definition vouched :: "auth_env set \<Rightarrow> string \<Rightarrow> bool" where
  "vouched es email \<longleftrightarrow>
     (\<exists>env \<in> es. is_allowed email (ae_allowed env)
        \<and> ((\<exists>code redirect verifier nonce. ae_identity env code redirect verifier nonce = Inr email)
           \<or> check_enabled (ae_mint_flag env)))"

lemma verified_vouched: "verified_identity env code p = Inr email \<Longrightarrow> env \<in> es \<Longrightarrow> vouched es email"
  unfolding vouched_def by (rule bexI [of _ env]) (auto simp: verified_identity_def split: sum.splits if_splits)

lemma map_dropWhile: "(\<And>x. P (f x) = P x) \<Longrightarrow> dropWhile P (map f xs) = map f (dropWhile P xs)"
  by (induction xs) auto

lemma lower_char_idem [simp]: "lower_char (lower_char c) = lower_char c"
  by (auto simp: lower_char_def Let_def of_char_of)

lemma isspace_lower [simp]: "py_isspace (lower_char c) = py_isspace c"
  by (auto simp: lower_char_def py_isspace_def Let_def of_char_of)

lemma strip_lower: "py_strip (py_lower s) = py_lower (py_strip s)"
  by (simp add: py_strip_def py_lower_def map_dropWhile rev_map)

lemma dropWhile_rev_dropWhile:
  "dropWhile P (rev (dropWhile P (rev (dropWhile P xs)))) = rev (dropWhile P (rev (dropWhile P xs)))"
proof -
  define ys zs where "ys = dropWhile P xs" and "zs = rev (dropWhile P (rev ys))"
  have split: "ys = zs @ rev (takeWhile P (rev ys))"
    unfolding zs_def by (metis rev_append rev_rev_ident takeWhile_dropWhile_id)
  have "dropWhile P zs = zs"
  proof (cases zs)
    case (Cons z zs')
    then have "hd ys = z" "ys \<noteq> []" using split by (metis append_Cons list.sel(1), metis append_is_Nil_conv list.distinct(1))
    then have "\<not> P z" unfolding ys_def by (metis hd_dropWhile dropWhile_eq_Nil_conv)
    then show ?thesis by (simp add: Cons)
  qed simp
  then show ?thesis by (simp add: ys_def zs_def)
qed

lemma strip_idem [simp]: "py_strip (py_strip s) = py_strip s"
  by (simp add: py_strip_def dropWhile_rev_dropWhile)

lemma allowed_lower [simp]: "is_allowed (py_lower (py_strip e)) allowed = is_allowed e allowed"
proof -
  have "py_lower (py_lower x) = py_lower x" for x by (simp add: py_lower_def)
  then show ?thesis by (simp add: is_allowed_def strip_lower)
qed

lemma minted_vouched:
  "check_email e (ae_allowed env) = Some address \<Longrightarrow> check_enabled (ae_mint_flag env) \<Longrightarrow> env \<in> es \<Longrightarrow> vouched es address"
  by (auto simp: check_email_def vouched_def split: if_splits)

section \<open>An invariant through every request\<close>

text \<open>Rows only disappear; the order stays. A secret a request may hand out.\<close>

definition smaller :: "auth_db \<Rightarrow> auth_db \<Rightarrow> bool" where
  "smaller d' d \<longleftrightarrow> subseq (au_sessions d') (au_sessions d) \<and> subseq (au_handoffs d') (au_handoffs d)
     \<and> subseq (au_tokens d') (au_tokens d) \<and> subseq (au_codes d') (au_codes d) \<and> subseq (au_refresh d') (au_refresh d)"

definition draws :: "auth_env \<Rightarrow> string set" where
  "draws env = range (ae_fresh env) \<union> range (\<lambda>label. TOKEN_MARKER @ label @ ''_'' @ ae_fresh env 0)"

lemma smaller_refl [simp]: "smaller d d" by (simp add: smaller_def)

lemma smaller_trans: "smaller a b \<Longrightarrow> smaller b c \<Longrightarrow> smaller a c"
  by (auto simp: smaller_def intro: subseq_order.order_trans)

lemma subseq_mem: "subseq xs ys \<Longrightarrow> set xs \<subseteq> set ys"
  by (auto elim: list_emb_set)

lemma smaller_credentials: "smaller d' d \<Longrightarrow> holders d' \<subseteq> holders d"
  unfolding smaller_def holders_def by (intro Un_mono image_mono subseq_mem) simp_all

lemma smaller_deletes [simp]:
  "smaller (purge_expired_oauth_states now db) db" "smaller (purge_expired_sessions now db) db"
  "smaller (purge_expired_handoffs now db) db" "smaller (purge_unused_clients now db) db"
  "smaller (delete_session i db) db" "smaller (revoke_session_grant i db) db" "smaller (snd (delete_sessions_for_user u db)) db"
  by (auto simp: smaller_def purge_expired_oauth_states_def purge_expired_sessions_def purge_expired_handoffs_def
      purge_unused_clients_def purge_expired_grants_def Let_def delete_session_def revoke_session_grant_def
      delete_sessions_for_user_def intro: subseq_order.order_trans [OF _ subseq_filter_left])

lemma smaller_start: "start_oauth st db = Inr db' \<Longrightarrow> smaller db' db"
  by (auto simp: start_oauth_def smaller_def split: if_splits)

lemma smaller_consumes:
  "consume_oauth_state now st db = (x, db') \<Longrightarrow> smaller db' db"
  "take_handoff env code db = (h, db') \<Longrightarrow> smaller db' db"
  "consume_code env code client db = (k, db') \<Longrightarrow> smaller db' db"
  "consume_refresh_token env token c db = (r, db') \<Longrightarrow> smaller db' db"
  by (auto simp: consume_oauth_state_def take_handoff_def consume_code_def consume_refresh_token_def Let_def smaller_def
      split: if_splits option.splits)

lemma consumed_held:
  "take_handoff env code db = (Some h, db') \<Longrightarrow> (ah_user h, ah_email h) \<in> holders db"
  "consume_code env code client db = (Some k, db') \<Longrightarrow> (ak_user k, ak_email k) \<in> holders db"
  "consume_refresh_token env token c db = (Some r, db') \<Longrightarrow> (rt_user r, rt_email r) \<in> holders db"
  by (auto simp: take_handoff_def consume_code_def consume_refresh_token_def Let_def find_Some_iff holders_def
      split: if_splits)

text \<open>One credential more, for a user and an address, under a digest the table does not have.\<close>

definition drawn :: "auth_env \<Rightarrow> string \<Rightarrow> bool" where
  "drawn env digest \<longleftrightarrow> digest \<in> ae_digest env ` draws env"

inductive issues :: "auth_env \<Rightarrow> string \<Rightarrow> string \<Rightarrow> auth_db \<Rightarrow> auth_db \<Rightarrow> bool" for env u e d where
  session: "as_user s = u \<Longrightarrow> as_email s = e \<Longrightarrow> drawn env (as_digest s) \<or> check_enabled (ae_mint_flag env)
    \<Longrightarrow> as_id s \<notin> as_id ` set (au_sessions d) \<Longrightarrow> as_digest s \<notin> as_digest ` set (au_sessions d)
    \<Longrightarrow> issues env u e d (d\<lparr>au_sessions := au_sessions d @ [s], au_users := us\<rparr>)"
| handoff: "ah_user h = u \<Longrightarrow> ah_email h = e \<Longrightarrow> drawn env (ah_digest h) \<Longrightarrow> ah_digest h \<notin> ah_digest ` set (au_handoffs d)
    \<Longrightarrow> issues env u e d (d\<lparr>au_handoffs := au_handoffs d @ [h]\<rparr>)"
| token: "at_user t = u \<Longrightarrow> at_email t = e \<Longrightarrow> drawn env (at_digest t) \<Longrightarrow> at_revoked t = None
    \<Longrightarrow> at_id t \<notin> at_id ` set (au_tokens d) \<Longrightarrow> at_digest t \<notin> at_digest ` set (au_tokens d)
    \<Longrightarrow> issues env u e d (d\<lparr>au_tokens := au_tokens d @ [t]\<rparr>)"
| code: "ak_user k = u \<Longrightarrow> ak_email k = e \<Longrightarrow> drawn env (ak_digest k) \<Longrightarrow> ak_digest k \<notin> ak_digest ` set (au_codes d)
    \<Longrightarrow> issues env u e d (d\<lparr>au_codes := au_codes d @ [k]\<rparr>)"
| refresh: "rt_user r = u \<Longrightarrow> rt_email r = e \<Longrightarrow> drawn env (rt_digest r) \<Longrightarrow> rt_digest r \<notin> rt_digest ` set (au_refresh d)
    \<Longrightarrow> issues env u e d (d\<lparr>au_refresh := au_refresh d @ [r]\<rparr>)"

lemma fresh_drawn [simp]: "drawn env (ae_digest env (ae_fresh env n))"
  "drawn env (ae_digest env (TOKEN_MARKER @ label @ CHR ''_'' # ae_fresh env 0))"
  by (auto simp: drawn_def draws_def)

lemma creates_issue:
  "create_session_for_digest now i u e dg ttl c d = Inr (s, d') \<Longrightarrow> drawn env dg \<or> check_enabled (ae_mint_flag env)
     \<Longrightarrow> issues env u e d d'"
  "create_auth_session env i u e (ae_fresh env n) ttl c d = Inr (s, d') \<Longrightarrow> issues env u e d d'"
  "create_handoff env u e (ae_fresh env n) ch d = Inr d' \<Longrightarrow> issues env u e d d'"
  "create_token env u e label environment life d = Inr (x, d') \<Longrightarrow> issues env u e d d'"
  "create_code env (ae_fresh env n) e rq d = Inr d' \<Longrightarrow> issues env OWNER_USER_ID e d d'"
  "create_refresh_token env (ae_fresh env n) client u e scopes res ss d = Inr d' \<Longrightarrow> issues env u e d d'"
  by (auto simp: create_auth_session_def create_session_for_digest_def backfill_user_email_def create_handoff_def
      create_token_def new_token_def create_code_def create_refresh_token_def Let_def and_then_Inr
      split: if_split_asm intro!: issues.intros)

locale auth_invariant =
  fixes es :: "auth_env set" and ok :: "auth_db \<Rightarrow> bool" and good :: "string \<Rightarrow> string \<Rightarrow> bool"
  assumes shrink: "ok d \<Longrightarrow> smaller d' d \<Longrightarrow> ok d'"
    and touched: "ok d \<Longrightarrow> ok (touch_session now i d)" "ok d \<Longrightarrow> ok (touch_token now i d)"
    and revoked: "ok d \<Longrightarrow> ok (snd (revoke_token now u i d))"
    and issued: "ok d \<Longrightarrow> env \<in> es \<Longrightarrow> issues env u e d d' \<Longrightarrow> good u e \<Longrightarrow> ok d'"
    and held_good: "ok d \<Longrightarrow> (u, e) \<in> holders d \<Longrightarrow> good u e"
    and vouched_good: "vouched es e \<Longrightarrow> good OWNER_USER_ID e"
begin

lemma lookups:
  "session_for_token env tok d = (x, d') \<Longrightarrow> ok d \<Longrightarrow> ok d'" "token_for_secret env tok d = (y, d') \<Longrightarrow> ok d \<Longrightarrow> ok d'"
  by (auto simp: session_for_token_def token_for_secret_def touched split: if_split_asm option.split_asm)

lemma sessions:
  assumes "create_auth_session env i u e (ae_fresh env n) ttl c d = Inr (s, d')" "env \<in> es" "ok d" "good u e"
  shows "ok d'"
  using assms issued creates_issue(2) by blast

lemma caller:
  assumes "require_caller env clock h d th = (r, d', th')" "ok d"
  shows "ok d'" "r = Inr c \<Longrightarrow> ca_email c = Some e \<Longrightarrow> good (ca_user c) e"
proof -
  note defs = require_caller_def caller_for_api_token_def caller_for_session_def refused_def Let_def caller_of_def
  obtain x1 d1 where t: "token_for_secret env (bearer h) d = (x1, d1)" by fastforce
  obtain x2 d2 where s: "session_for_token env (bearer h) d = (x2, d2)" by fastforce
  have d: "ok d1" "ok d2" "ok (delete_session i d2)" "ok (snd (revoke_token now u i d1))" for i now u
    using lookups t s assms(2) revoked by (blast, blast, metis shrink smaller_deletes(5), blast)
  have held: "x1 = Some p \<Longrightarrow> (at_user p, at_email p) \<in> holders d" "x2 = Some q \<Longrightarrow> (as_user q, as_email q) \<in> holders d" for p q
    using t s by (auto simp: token_for_secret_def session_for_token_def find_Some_iff holders_def
        split: if_split_asm option.split_asm)
  show "ok d'" using assms d by (auto simp: defs t s split: option.split_asm if_split_asm prod.split_asm)
  show "good (ca_user c) e" if "r = Inr c" "ca_email c = Some e"
    using assms(1) that held_good [OF assms(2)] held
    by (auto simp: defs t s split: option.split_asm if_split_asm prod.split_asm)
qed

lemma starts:
  assumes "ok d"
  shows "start_login env uri d = Inr (a, d') \<Longrightarrow> ok d'" "start_native_login env dm ch d = Inr (a, d') \<Longrightarrow> ok d'"
    "authorize env r d = (x, d'') \<Longrightarrow> ok d''"
proof -
  have st: "start_oauth st b = Inr b' \<Longrightarrow> smaller b d \<Longrightarrow> ok b'" for st b b' using assms by (metis shrink smaller_start smaller_trans)
  have p: "smaller (purge_expired_sessions n (purge_expired_oauth_states n d)) d"
    "smaller (purge_expired_handoffs n (purge_expired_sessions n (purge_expired_oauth_states n d))) d" for n
    by (meson smaller_deletes smaller_trans)+
  show "ok d'" if "start_login env uri d = Inr (a, d')"
    using that st p by (auto simp: start_login_def Let_def and_then_Inr split: if_split_asm)
  show "ok d'" if "start_native_login env dm ch d = Inr (a, d')"
    using that st p by (auto simp: start_native_login_def Let_def and_then_Inr neq_Nil_conv split: if_split_asm list.split_asm)
  show "ok d''" if "authorize env r d = (x, d'')"
    using that st assms by (auto simp: authorize_def Let_def split: sum.split_asm option.split_asm if_split_asm)
qed

end

context auth_invariant begin

lemma issue:
  assumes "issue env client u e scopes res d = Inr (a, d')" "env \<in> es" "ok d" "good u e"
  shows "ok d'"
proof -
  from assms(1) obtain s d1
    where 1: "create_auth_session env (ae_fresh env 1) u e (ae_fresh env 0) ACCESS_TOKEN_TTL_SECONDS (Some client) d = Inr (s, d1)"
    and 2: "create_refresh_token env (ae_fresh env 2) client u e scopes res (Some (as_id s)) d1 = Inr d'"
    by (auto simp: issue_def and_then_Inr split: if_split_asm)
  from sessions [OF 1 assms(2-4)] creates_issue(6) [OF 2] assms(2,4) show ?thesis by (blast intro: issued)
qed

lemma complete:
  assumes "complete_login env st code d = Inr (a, d')" "env \<in> es" "ok d"
  shows "ok d'"
proof -
  obtain p d1 where c: "consume_oauth_state (ae_now env) (py_strip st) d = (p, d1)" by fastforce
  have d1: "ok d1" by (rule shrink [OF assms(3) smaller_consumes(1) [OF c]])
  have v: "verified_identity env code q = Inr e \<Longrightarrow> good OWNER_USER_ID e" for q e
    by (rule vouched_good, rule verified_vouched [OF _ assms(2)])
  have hand: "create_handoff env OWNER_USER_ID e (ae_fresh env n) ch d1 = Inr b \<Longrightarrow> good OWNER_USER_ID e \<Longrightarrow> ok b" for e n ch b
    by (rule issued [OF d1 assms(2) creates_issue(3)])
  have sess: "create_auth_session env i OWNER_USER_ID e (ae_fresh env n) ttl None d1 = Inr (s, b) \<Longrightarrow> good OWNER_USER_ID e \<Longrightarrow> ok b"
    for e n i ttl s b by (rule sessions [OF _ assms(2) d1])
  show ?thesis
    using assms(1) v hand sess
    by (auto simp: complete_login_def Let_def c and_then_Inr split: if_split_asm option.split_asm)
qed

lemma complete_mcp:
  assumes "complete_mcp_authorization env st code d = Inr (a, d')" "env \<in> es" "ok d"
  shows "ok d'"
proof -
  obtain p d1 where c: "consume_oauth_state (ae_now env) (py_strip st) d = (p, d1)" by fastforce
  from assms(1) obtain e r q where "create_code env (ae_fresh env 0) e r d1 = Inr d'" "verified_identity env code q = Inr e"
    by (auto simp: complete_mcp_authorization_def complete_authorization_def c and_then_Inr split: if_split_asm option.split_asm)
  with shrink [OF assms(3) smaller_consumes(1) [OF c]] assms(2) show ?thesis
    by (meson creates_issue(5) issued verified_vouched vouched_good)
qed

lemma redeem:
  assumes "redeem_native_login env code v d = Inr (a, d')" "env \<in> es" "ok d"
  shows "ok d'"
proof -
  from assms(1) obtain h d1 s where t: "take_handoff env code d = (Some h, d1)"
    and n: "create_auth_session env (ae_fresh env 1) (ah_user h) (ah_email h) (ae_fresh env 0) DEFAULT_TTL_SECONDS None d1 = Inr (s, d')"
    by (auto simp: redeem_native_login_def and_then_Inr split: if_split_asm option.split_asm prod.split_asm)
  show ?thesis
    by (rule sessions [OF n assms(2) shrink [OF assms(3) smaller_consumes(2) [OF t]] held_good [OF assms(3) consumed_held(1) [OF t]]])
qed

lemma minted:
  assumes "mint env digest email ttl d = Inr (a, d')" "env \<in> es" "ok d"
  shows "ok d'"
proof -
  from assms(1) obtain e s where "create_session_for_digest (ae_now env) (ae_fresh env 0) OWNER_USER_ID e digest ttl None d = Inr (s, d')"
    "check_email email (ae_allowed env) = Some e" "check_enabled (ae_mint_flag env)"
    by (auto simp: mint_def and_then_Inr split: if_split_asm option.split_asm)
  with assms(2,3) show ?thesis by (meson creates_issue(1) issued minted_vouched vouched_good)
qed

lemma grants:
  assumes "env \<in> es" "ok d"
  shows "register_client env i uris info d = Inr (a, d') \<Longrightarrow> ok d'"
    and "exchange_authorization_code env c code d = Inr (a, d') \<Longrightarrow> ok d'"
    and "exchange_refresh_token env c t scopes d = Inr (a, d') \<Longrightarrow> ok d'"
    and "load_access_token env t d = Inr (a, d') \<Longrightarrow> ok d'"
    and "revoke_grant env acc t d = Inr (a, d') \<Longrightarrow> ok d'"
proof -
  show "ok d'" if "register_client env i uris info d = Inr (a, d')"
  proof -
    from that have "smaller d' (purge_unused_clients (ae_now env) d)"
      by (auto simp: register_client_def insert_client_def and_then_Inr smaller_def split: if_split_asm)
    then show ?thesis using assms(2) shrink smaller_deletes(4) smaller_trans by blast
  qed
  show "ok d'" if *: "exchange_authorization_code env c code d = Inr (a, d')"
  proof -
    from * obtain k d1 where k: "consume_code env code c d = (Some k, d1)"
      and i: "issue env c (ak_user k) (ak_email k) (ak_scopes k) (ak_resource k) d1 = Inr (a, d')"
      by (auto simp: exchange_authorization_code_def split: prod.split_asm option.split_asm)
    show ?thesis
      by (rule issue [OF i assms(1) shrink [OF assms(2) smaller_consumes(3) [OF k]] held_good [OF assms(2) consumed_held(2) [OF k]]])
  qed
  show "ok d'" if *: "exchange_refresh_token env c t scopes d = Inr (a, d')"
  proof -
    from * obtain k d1 where k: "consume_refresh_token env t (Some c) d = (Some k, d1)"
      and i: "issue env c (rt_user k) (rt_email k) scopes (rt_resource k) d1 = Inr (a, d')"
      by (auto simp: exchange_refresh_token_def split: prod.split_asm option.split_asm)
    show ?thesis
      by (rule issue [OF i assms(1) shrink [OF assms(2) smaller_consumes(4) [OF k]] held_good [OF assms(2) consumed_held(3) [OF k]]])
  qed
  obtain x d1 where s: "session_for_token env t d = (x, d1)" by fastforce
  have d1: "ok d1" "ok (revoke_session_grant i d1)" for i
    using lookups(1) [OF s assms(2)] shrink smaller_deletes(6) by blast+
  show "ok d'" if "load_access_token env t d = Inr (a, d')"
    using that d1 by (auto simp: load_access_token_def s split: option.split_asm)
  obtain y d2 where r: "consume_refresh_token env t None d = (y, d2)" by fastforce
  show "ok d'" if "revoke_grant env acc t d = Inr (a, d')"
    using that d1 shrink [OF assms(2) smaller_consumes(4) [OF r]]
    by (auto simp: revoke_grant_def s r split: if_split_asm option.split_asm)
qed

lemma routes:
  assumes "ok d" "env \<in> es" "guarded env q = Some (h, route)" "route c d = Inr (a, d')"
    and c: "\<And>e. ca_email c = Some e \<Longrightarrow> good (ca_user c) e"
  shows "ok d'"
proof -
  have create: "ok b" if *: "create_api_token env label days c d = Inr (x, b)" for label days x b
  proof -
    from * obtain e y where e: "ca_email c = Some e"
      and n: "create_token env (ca_user c) e label (ae_token_label env) (map_option (\<lambda>d. d * 86400) days) d = Inr (y, b)"
      by (auto simp: create_api_token_def require_session_def and_then_Inr split: if_split_asm option.split_asm)
    show ?thesis by (rule issued [OF assms(1,2) creates_issue(4) [OF n] c [OF e]])
  qed
  have revoke: "ok b" if "revoke_api_token env i c d = Inr (x, b)" for i x b
    using that revoked [OF assms(1), of "ae_now env" "ca_user c" i]
    by (auto simp: revoke_api_token_def require_session_def and_then_Inr split: if_split_asm option.split_asm prod.split_asm)
  have out: "ok b" if "logout c d = Inr (x, b)" for x b
    using that assms(1) shrink [OF assms(1) smaller_deletes(5)] by (auto simp: logout_def split: option.split_asm)
  have all: "ok b" if "logout_everywhere c d = Inr (x, b)" for x b
    using that shrink [OF assms(1) smaller_deletes(7), of "ca_user c"]
    by (auto simp: logout_everywhere_def split: if_split_asm prod.split_asm)
  show ?thesis
    using assms(1,3,4) create revoke out all
    by (cases q) (auto simp: current_session_def list_api_tokens_def require_session_def split: if_split_asm)
qed

lemma others:
  assumes "ok d" "env \<in> es" "unguarded env q d = (a, d')"
  shows "ok d'"
proof -
  note ops = starts [OF assms(1)] complete [OF _ assms(2,1)] complete_mcp [OF _ assms(2,1)] redeem [OF _ assms(2,1)]
    minted [OF _ assms(2,1)] grants [OF assms(2,1)]
  have tr: "auth_transact r d = (y, b) \<Longrightarrow> (\<And>x b'. r = Inr (x, b') \<Longrightarrow> ok b') \<Longrightarrow> ok b" for r y b
    using assms(1) by (auto simp: auth_transact_def split: sum.split_asm)
  have srv: "with_server env r = Inr (x, b) \<Longrightarrow> r = Inr (x, b)" for r x b
    by (auto simp: with_server_def and_then_Inr split: if_split_asm)
  show ?thesis using assms(1,3) by (cases q) (auto elim!: tr dest!: srv intro: ops)
qed

lemma handled:
  assumes "ok d" "env \<in> es" "handle_auth env clock q (d, th) = (a, d', th')"
  shows "ok d'"
proof (cases "guarded env q")
  case None
  with assms show ?thesis by (auto simp: handle_auth_def split: prod.split_asm intro: others)
next
  case (Some hr)
  obtain h route where hr: "hr = (h, route)" by fastforce
  obtain r d1 t where g: "require_caller env clock h d th = (r, d1, t)" by (metis prod_cases3)
  note c = caller [OF g assms(1)]
  have "route x d1 = Inr (y, b) \<Longrightarrow> r = Inr x \<Longrightarrow> ok b" for x y b
    using routes [OF c(1) assms(2) Some [unfolded hr]] c(2) by blast
  with assms(1,3) c(1) show ?thesis
    by (auto simp: handle_auth_def Some hr with_caller_def g split: sum.split_asm prod.split_asm)
qed

lemma runs:
  assumes "auth_run es s t" "ok (fst s)"
  shows "ok (fst t)"
  using assms
proof (induction rule: auth_run.induct)
  case (request s t env clock q u)
  then show ?case by (cases t; cases "handle_auth env clock q t") (auto intro: handled)
qed

end

section \<open>Whose credentials: the owner's, for a vouched address\<close>

definition owned :: "auth_env set \<Rightarrow> auth_db \<Rightarrow> bool" where
  "owned es db \<longleftrightarrow> (\<forall>(u, e) \<in> holders db. u = OWNER_USER_ID \<and> vouched es e)"

lemma credentials_issue: "issues env u e d d' \<Longrightarrow> holders d' = insert (u, e) (holders d)"
  by (erule issues.cases) (auto simp: holders_def)

lemma image_update_where: "(\<And>r. p r \<Longrightarrow> g (f r) = g r) \<Longrightarrow> g ` set (update_where p f rs) = g ` set rs"
  by (metis image_set map_update_where)

lemma credentials_updates [simp]:
  "holders (touch_session now i db) = holders db" "holders (touch_token now i db) = holders db"
  "holders (snd (revoke_token now u i db)) = holders db"
  by (simp_all add: holders_def touch_session_def touch_token_def revoke_token_def Let_def image_update_where)

interpretation ownership: auth_invariant es "owned es" "\<lambda>u e. u = OWNER_USER_ID \<and> vouched es e"
  by unfold_locales (auto simp: owned_def credentials_issue dest: smaller_credentials)



section \<open>The keys of the tables\<close>

definition keyed :: "auth_db \<Rightarrow> bool" where
  "keyed db \<longleftrightarrow> distinct (map as_id (au_sessions db)) \<and> distinct (map as_digest (au_sessions db))
     \<and> distinct (map at_id (au_tokens db)) \<and> distinct (map at_digest (au_tokens db))
     \<and> distinct (map ah_digest (au_handoffs db)) \<and> distinct (map ak_digest (au_codes db))
     \<and> distinct (map rt_digest (au_refresh db))"

lemma distinct_smaller: "subseq xs ys \<Longrightarrow> distinct (map f ys) \<Longrightarrow> distinct (map f xs)"
  by (induction rule: list_emb.induct) (auto dest: subseq_mem)

lemma keyed_smaller: "keyed d \<Longrightarrow> smaller d' d \<Longrightarrow> keyed d'"
  by (auto simp: keyed_def smaller_def intro: distinct_smaller)

interpretation keys: auth_invariant es keyed "\<lambda>u e. True"
proof unfold_locales
  show "keyed d \<Longrightarrow> smaller d' d \<Longrightarrow> keyed d'" for d d' by (rule keyed_smaller)
  show "keyed (touch_session now i d)" "keyed (touch_token now i d)" if "keyed d" for d now i
    using that by (auto simp: keyed_def touch_session_def touch_token_def map_update_where)
  show "keyed (snd (revoke_token now u i d))" if "keyed d" for now u i d
    using that by (auto simp: keyed_def revoke_token_def Let_def map_update_where)
  show "keyed d'" if "keyed d" "issues env u e d d'" for env u e d d'
    using that(2,1) by (cases rule: issues.cases) (auto simp: keyed_def)
qed auto

lemma reach_run:
  assumes "auth_reach es db" obtains db0 th0 th where "no_credentials db0" "auth_run es (db0, th0) (db, th)"
  using assms by (auto simp: auth_reach_def)

lemma reach_keyed: "auth_reach es db \<Longrightarrow> keyed db"
  by (erule reach_run, drule keys.runs) (auto simp: keyed_def no_credentials_def)

lemma find_only:
  assumes "distinct (map k xs)" "\<And>x. P x \<Longrightarrow> k x = v" "x \<in> set xs" "P x"
  shows "find P xs = Some x"
proof -
  from assms(3,4) obtain y where y: "find P xs = Some y" by (cases "find P xs") (auto simp: find_None_iff)
  then have "y \<in> set xs" "P y" by (auto simp: find_Some_iff)
  with assms have "y = x" by (metis distinct_map inj_on_def)
  with y show ?thesis by simp
qed

lemma session_found:
  assumes "keyed db" "live_session now digest s" "s \<in> set (au_sessions db)"
  shows "find (live_session now digest) (au_sessions db) = Some s"
  by (rule find_only [of as_digest _ _ digest]) (use assms in \<open>auto simp: keyed_def live_session_def\<close>)

lemma token_found:
  assumes "keyed db" "live_token now digest t" "t \<in> set (au_tokens db)"
  shows "find (live_token now digest) (au_tokens db) = Some t"
  by (rule find_only [of at_digest _ _ digest]) (use assms in \<open>auto simp: keyed_def live_token_def\<close>)

section \<open>Which bearers are accepted\<close>

definition good_session :: "auth_env \<Rightarrow> string \<Rightarrow> auth_db \<Rightarrow> bool" where
  "good_session env token db \<longleftrightarrow>
     (\<exists>s \<in> set (au_sessions db). live_session (ae_now env) (ae_digest env token) s \<and> is_allowed (as_email s) (ae_allowed env))"

definition live_pat :: "auth_env \<Rightarrow> string \<Rightarrow> auth_db \<Rightarrow> bool" where
  "live_pat env token db \<longleftrightarrow>
     looks_like_api_token token \<and> (\<exists>t \<in> set (au_tokens db). live_token (ae_now env) (ae_digest env token) t)"

definition good_pat :: "auth_env \<Rightarrow> string \<Rightarrow> auth_db \<Rightarrow> bool" where
  "good_pat env token db \<longleftrightarrow>
     looks_like_api_token token
     \<and> (\<exists>t \<in> set (au_tokens db). live_token (ae_now env) (ae_digest env token) t \<and> is_allowed (at_email t) (ae_allowed env))"

lemma pat_probe:
  assumes "keyed db" "token \<noteq> []" "looks_like_api_token token"
  obtains (miss) d where "\<not> live_pat env token db" "caller_for_api_token env token db = (Miss, d)"
  | (out) d where "live_pat env token db" "\<not> good_pat env token db" "caller_for_api_token env token db = (Delisted, d)"
  | (hit) c d where "good_pat env token db" "caller_for_api_token env token db = (Hit c, d)" "ca_how c = ByPat"
proof (cases "find (live_token (ae_now env) (ae_digest env token)) (au_tokens db)")
  case None
  then have n: "caller_for_api_token env token db = (Miss, db)"
    by (simp add: caller_for_api_token_def token_for_secret_def)
  from None have "\<not> live_pat env token db" by (auto simp: live_pat_def find_None_iff)
  from miss [OF this n] show thesis .
next
  case (Some t)
  then have t: "t \<in> set (au_tokens db)" "live_token (ae_now env) (ae_digest env token) t" by (auto simp: find_Some_iff)
  have only: "u = t" if "u \<in> set (au_tokens db)" "live_token (ae_now env) (ae_digest env token) u" for u
    using token_found [OF assms(1) that(2,1)] Some by simp
  show thesis
  proof (cases "is_allowed (at_email t) (ae_allowed env)")
    case True
    with t Some assms(2,3) show thesis by (intro hit) (auto simp: caller_for_api_token_def token_for_secret_def good_pat_def)
  next
    case False
    then have "\<not> good_pat env token db" using only unfolding good_pat_def by blast
    moreover have "live_pat env token db" using t assms(3) unfolding live_pat_def by blast
    moreover have "fst (caller_for_api_token env token db) = Delisted"
      using False Some assms(2) by (simp add: caller_for_api_token_def token_for_secret_def)
    ultimately show thesis using out by (metis prod.collapse)
  qed
qed

lemma session_probe:
  assumes "keyed db" "token \<noteq> []"
  obtains (miss) d where "\<not> good_session env token db" "caller_for_session env token db = (Miss, d)"
  | (out) d where "\<not> good_session env token db" "caller_for_session env token db = (Delisted, d)"
  | (hit) c d where "good_session env token db" "caller_for_session env token db = (Hit c, d)" "ca_how c = BySession"
proof (cases "find (live_session (ae_now env) (ae_digest env token)) (au_sessions db)")
  case None
  then have n: "caller_for_session env token db = (Miss, db)"
    by (simp add: caller_for_session_def session_for_token_def)
  from None have "\<not> good_session env token db" by (auto simp: good_session_def find_None_iff)
  from miss [OF this n] show thesis .
next
  case (Some s)
  then have s: "s \<in> set (au_sessions db)" "live_session (ae_now env) (ae_digest env token) s" by (auto simp: find_Some_iff)
  have only: "u = s" if "u \<in> set (au_sessions db)" "live_session (ae_now env) (ae_digest env token) u" for u
    using session_found [OF assms(1) that(2,1)] Some by simp
  show thesis
  proof (cases "is_allowed (as_email s) (ae_allowed env)")
    case True
    with s Some assms(2) show thesis by (intro hit) (auto simp: caller_for_session_def session_for_token_def good_session_def)
  next
    case False
    then have "\<not> good_session env token db" using only unfolding good_session_def by blast
    moreover have "fst (caller_for_session env token db) = Delisted"
      using False Some assms(2) by (simp add: caller_for_session_def session_for_token_def)
    ultimately show thesis using out by (metis prod.collapse)
  qed
qed

lemma no_bearer: "require_caller env clock h db th =
    (case refused clock False th of (code, th') \<Rightarrow> (Inl code, db, th'))"
  if "bearer h = []" "ae_api_token env = Some secret"
  using that
  by (simp add: require_caller_def caller_for_session_def session_for_token_def looks_like_api_token_def TOKEN_MARKER_def refused_def)

lemma accepted_otherwise:
  assumes k: "keyed db" and t: "bearer h \<noteq> []" and sec: "ae_api_token env = Some secret" "isascii secret" "bearer h \<noteq> secret"
  shows "(\<exists>c. fst (require_caller env clock h db th) = Inr c) \<longleftrightarrow>
     good_pat env (bearer h) db \<or> \<not> live_pat env (bearer h) db \<and> good_session env (bearer h) db"
proof -
  have pat_live: "good_pat env (bearer h) db \<Longrightarrow> live_pat env (bearer h) db" by (auto simp: good_pat_def live_pat_def)
  note rc = require_caller_def sec t Let_def
  have sess: "(\<exists>c. fst (require_caller env clock h db th) = Inr c) \<longleftrightarrow> good_session env (bearer h) db"
    if "(if looks_like_api_token (bearer h) then caller_for_api_token env (bearer h) db else (Miss, db)) = (Miss, d)" for d
    by (rule session_probe [OF k t, of env]) (simp_all add: rc that split: prod.split)
  show ?thesis
  proof (cases "looks_like_api_token (bearer h)")
    case True
    from k t True show ?thesis
    proof (cases rule: pat_probe [of db "bearer h" env])
      case (miss d)
      with True sess [of d] pat_live show ?thesis by auto
    next
      case (out d)
      with True show ?thesis by (simp add: rc split: prod.split)
    next
      case (hit c d)
      with True show ?thesis by (simp add: rc)
    qed
  next
    case False
    then have "\<not> live_pat env (bearer h) db" "\<not> good_pat env (bearer h) db" by (auto simp: live_pat_def good_pat_def)
    with False sess [of db] show ?thesis by simp
  qed
qed

text \<open>C13: With a shared token configured, in every reachable database a request is accepted exactly if its bearer is that
  token, or is marked as a personal token and a live one with an allowlisted address has its digest, or no live personal
  token answers to it and a live session with an allowlisted address does. The failure throttle never decides it: no
  number of refused requests keeps a valid credential out, or lets another in.\<close>

theorem bearer_accepted_iff_live:
  assumes "auth_reach es db" "ae_api_token env = Some secret" "isascii secret"
  shows "(\<exists>c. fst (require_caller env clock h db th) = Inr c) \<longleftrightarrow>
     bearer h \<noteq> [] \<and> (bearer h = secret \<or> good_pat env (bearer h) db
       \<or> \<not> live_pat env (bearer h) db \<and> good_session env (bearer h) db)"
proof -
  consider "bearer h = []" | "bearer h = secret" "bearer h \<noteq> []" | "bearer h \<noteq> []" "bearer h \<noteq> secret" by blast
  then show ?thesis
  proof cases
    case 1
    with no_bearer [OF 1 assms(2)] show ?thesis by (simp split: prod.splits)
  next
    case 2
    with assms(2,3) show ?thesis by (simp add: require_caller_def Let_def)
  next
    case 3
    with accepted_otherwise [OF reach_keyed [OF assms(1)] 3(1) assms(2,3) 3(2)] show ?thesis by simp
  qed
qed

lemma bearer_accepted_iff_live_witness:
  "\<exists>c. fst (require_caller (demo_env CHR ''b'') 0 (Some ''Bearer b'') (fst demo_signed_in) (new_throttle 0)) = Inr c"
proof -
  have key: "ae_api_token (demo_env CHR ''b'') = Some ''key''" "isascii ''key''" by (simp_all add: demo_env_def isascii_def)
  have "\<not> live_pat (demo_env CHR ''b'') (bearer (Some ''Bearer b'')) (fst demo_signed_in)" by code_simp
  moreover have "good_session (demo_env CHR ''b'') (bearer (Some ''Bearer b'')) (fst demo_signed_in)" by code_simp
  moreover have "bearer (Some ''Bearer b'') \<noteq> []" by code_simp
  ultimately show ?thesis using bearer_accepted_iff_live [OF demo_sessions key, of 0 "Some ''Bearer b''" "new_throttle 0"] by blast
qed

section \<open>What was revoked or spent\<close>

text \<open>No session has the digest, and the personal tokens that have it are revoked.\<close>

definition dead_bearer :: "string \<Rightarrow> auth_db \<Rightarrow> bool" where
  "dead_bearer dg db \<longleftrightarrow>
     (\<forall>s \<in> set (au_sessions db). as_digest s \<noteq> dg) \<and> (\<forall>t \<in> set (au_tokens db). at_digest t = dg \<longrightarrow> at_revoked t \<noteq> None)"

text \<open>An environment that hands this digest out again: it draws a secret with it, or an operator mints it.\<close>

definition reissues :: "string \<Rightarrow> auth_env \<Rightarrow> bool" where
  "reissues dg env \<longleftrightarrow> drawn env dg \<or> check_enabled (ae_mint_flag env)"

datatype grant_table = Handoffs | Codes | Refreshes

fun digests :: "grant_table \<Rightarrow> auth_db \<Rightarrow> string set" where
  "digests Handoffs db = ah_digest ` set (au_handoffs db)"
| "digests Codes db = ak_digest ` set (au_codes db)"
| "digests Refreshes db = rt_digest ` set (au_refresh db)"

lemma dead_smaller: "dead_bearer dg d \<Longrightarrow> smaller d' d \<Longrightarrow> dead_bearer dg d'"
  using subseq_mem [of "au_sessions d'" "au_sessions d"] subseq_mem [of "au_tokens d'" "au_tokens d"]
  by (auto simp: dead_bearer_def smaller_def)

lemma digests_smaller: "smaller d' d \<Longrightarrow> digests g d' \<subseteq> digests g d"
  by (cases g) (simp_all add: smaller_def image_mono subseq_mem)

lemma digests_updates [simp]:
  "digests g (touch_session now i d) = digests g d" "digests g (touch_token now i d) = digests g d"
  "digests g (snd (revoke_token now u i d)) = digests g d"
  by (cases g; simp add: touch_session_def touch_token_def revoke_token_def Let_def)+

lemma dead_updates:
  assumes "dead_bearer dg d"
  shows "dead_bearer dg (touch_session now i d)" "dead_bearer dg (touch_token now i d)" "dead_bearer dg (snd (revoke_token now u i d))"
  using assms by (auto simp: dead_bearer_def touch_session_def touch_token_def revoke_token_def Let_def update_where_def)

interpretation bearers: auth_invariant "{env. \<not> reissues dg env}" "dead_bearer dg" "\<lambda>u e. True"
proof unfold_locales
  show "dead_bearer dg d'" if "dead_bearer dg d" "env \<in> {env. \<not> reissues dg env}" "issues env u e d d'" for env u e d d'
    using that(3,1,2) by (cases rule: issues.cases) (auto simp: dead_bearer_def reissues_def)
qed (auto intro: dead_smaller dead_updates)

interpretation spent: auth_invariant "{env. \<not> drawn env dg}" "\<lambda>d. dg \<notin> digests g d" "\<lambda>u e. True"
proof unfold_locales
  show "dg \<notin> digests g d'" if "dg \<notin> digests g d" "env \<in> {env. \<not> drawn env dg}" "issues env u e d d'" for env u e d d'
    using that(3,1,2) by (cases rule: issues.cases; cases g) auto
qed (auto dest: digests_smaller)

lemma auth_run_mono: "auth_run es s t \<Longrightarrow> es \<subseteq> es' \<Longrightarrow> auth_run es' s t"
  by (induction rule: auth_run.induct) (auto intro: auth_run.intros)

lemma dead_refused:
  assumes "dead_bearer (ae_digest env (bearer h)) db" "ae_api_token env = Some secret" "bearer h \<noteq> secret"
  shows "\<exists>code. fst (require_caller env clock h db th) = Inl code"
proof -
  let ?t = "bearer h"
  have s: "find (live_session (ae_now env) (ae_digest env ?t)) (au_sessions db) = None"
    using assms(1) by (auto simp: find_None_iff dead_bearer_def live_session_def)
  have p: "find (live_token (ae_now env) (ae_digest env ?t)) (au_tokens db) = None"
    using assms(1) by (auto simp: find_None_iff dead_bearer_def live_token_def)
  show ?thesis
    using assms(2,3)
    by (auto simp: require_caller_def caller_for_session_def session_for_token_def s caller_for_api_token_def
        token_for_secret_def p Let_def split: prod.splits)
qed

lemma dead_stays_refused:
  assumes "dead_bearer dg (fst s)" "auth_run es s u" "\<forall>e \<in> es. \<not> reissues dg e"
    "ae_digest env (bearer h) = dg" "ae_api_token env = Some secret" "bearer h \<noteq> secret"
  shows "\<exists>code. fst (require_caller env clock h (fst u) (snd u)) = Inl code"
proof -
  have "auth_run {env. \<not> reissues dg env} s u"
    by (rule auth_run_mono [OF assms(2)]) (use assms(3) in auto)
  from bearers.runs [OF this assms(1)] have "dead_bearer (ae_digest env (bearer h)) (fst u)" by (simp add: assms(4))
  from dead_refused [OF this assms(5,6)] show ?thesis .
qed

lemma session_gone:
  assumes "keyed db" "s \<in> set (au_sessions db)" "\<forall>t \<in> set (au_tokens db). at_digest t \<noteq> as_digest s"
  shows "dead_bearer (as_digest s) (delete_session (as_id s) (touch_session now i db))"
proof -
  have "as_id x = as_id s" if "x \<in> set (au_sessions db)" "as_digest x = as_digest s" for x
    using assms(1,2) that by (auto simp: keyed_def distinct_map inj_on_def)
  with assms(3) show ?thesis
    by (auto simp: dead_bearer_def delete_session_def touch_session_def update_where_def split: if_splits)
qed

lemma caller_session:
  assumes "require_caller env clock h db th = (Inr c, d, th')" "ca_how c = BySession"
  obtains s where "s \<in> set (au_sessions db)" "live_session (ae_now env) (ae_digest env (bearer h)) s"
    "ca_session c = Some (as_id s)" "ca_client c = as_client s" "ca_email c = Some (as_email s)"
    "is_allowed (as_email s) (ae_allowed env)" "d = touch_session (ae_now env) (as_id s) db"
proof -
  from assms have hit: "caller_for_session env (bearer h) db = (Hit c, d)"
    by (auto simp: require_caller_def caller_for_api_token_def refused_def caller_of_def Let_def
        split: option.split_asm if_split_asm prod.split_asm probe.split_asm)
  then obtain s where f: "find (live_session (ae_now env) (ae_digest env (bearer h))) (au_sessions db) = Some s"
    by (auto simp: caller_for_session_def session_for_token_def split: if_split_asm option.split_asm)
  then have "s \<in> set (au_sessions db)" "live_session (ae_now env) (ae_digest env (bearer h)) s" by (auto simp: find_Some_iff)
  moreover from hit f have "c = \<lparr>ca_user = as_user s, ca_how = BySession, ca_email = Some (as_email s), ca_session = Some (as_id s),
      ca_expires = Some (as_expires s), ca_client = as_client s\<rparr>"
    "is_allowed (as_email s) (ae_allowed env)" "d = touch_session (ae_now env) (as_id s) db"
    by (auto simp: caller_for_session_def session_for_token_def split: if_split_asm)
  ultimately show thesis using that by simp
qed

text \<open>C27: Once a session has been signed out by its own bearer, every later request with a bearer of the same digest is
  refused, whatever requests come between, in whatever order and with whatever allowlists, as long as no environment
  draws or mints that digest again. (No personal token may share the digest, and the bearer is not the shared token.)\<close>

theorem logged_out_session_stays_refused:
  assumes "auth_reach es0 db" "fst (require_caller env clock h db th) = Inr c" "ca_how c = BySession"
    and "\<forall>t \<in> set (au_tokens db). at_digest t \<noteq> ae_digest env (bearer h)"
    and "auth_run es (snd (handle_auth env clock (Logout h) (db, th))) u"
    and "\<forall>e \<in> es. \<not> reissues (ae_digest env (bearer h)) e"
    and "ae_digest env' (bearer h') = ae_digest env (bearer h)" "ae_api_token env' = Some secret" "bearer h' \<noteq> secret"
  shows "\<exists>code. fst (require_caller env' clock' h' (fst u) (snd u)) = Inl code"
proof -
  obtain d th' where rc: "require_caller env clock h db th = (Inr c, d, th')" using assms(2) by (metis prod.collapse)
  obtain s where s: "s \<in> set (au_sessions db)" "as_digest s = ae_digest env (bearer h)" "ca_session c = Some (as_id s)"
    "d = touch_session (ae_now env) (as_id s) db"
    by (rule caller_session [OF rc assms(3)]) (auto simp: live_session_def)
  then have "dead_bearer (ae_digest env (bearer h)) (fst (snd (handle_auth env clock (Logout h) (db, th))))"
    using session_gone [OF reach_keyed [OF assms(1)] s(1)] assms(4)
    by (simp add: handle_auth_def with_caller_def rc logout_def)
  from dead_stays_refused [OF this assms(5-9)] show ?thesis .
qed

lemma logged_out_session_stays_refused_witness:
  "\<exists>code. fst (require_caller (demo_env CHR ''a'') 0 (Some ''Bearer b'')
     (fst (snd (handle_auth (demo_env CHR ''b'') 0 (Logout (Some ''Bearer b'')) demo_signed_in)))
     (snd (snd (handle_auth (demo_env CHR ''b'') 0 (Logout (Some ''Bearer b'')) demo_signed_in)))) = Inl code"
proof -
  let ?E = "demo_env CHR ''b''" and ?h = "Some ''Bearer b''"
  obtain db th where s: "demo_signed_in = (db, th)" by fastforce
  have d: "db = fst demo_signed_in" "th = snd demo_signed_in" by (simp_all add: s)
  have "(case fst (require_caller ?E 0 ?h (fst demo_signed_in) (snd demo_signed_in)) of
      Inl _ \<Rightarrow> False | Inr c \<Rightarrow> ca_how c = BySession)" by code_simp
  then obtain c where c: "fst (require_caller ?E 0 ?h db th) = Inr c" "ca_how c = BySession"
    unfolding d by (auto split: sum.split_asm)
  have "au_tokens (fst demo_signed_in) = []" by code_simp
  then have t: "\<forall>t \<in> set (au_tokens db). at_digest t \<noteq> ae_digest ?E (bearer ?h)" by (simp add: d)
  have "ae_digest (demo_env CHR ''a'') (bearer ?h) = ae_digest ?E (bearer ?h)" "ae_api_token (demo_env CHR ''a'') = Some ''key''"
    "bearer ?h \<noteq> ''key''" by code_simp+
  from logged_out_session_stays_refused [OF demo_sessions [folded d(1)] c t no_request [of "{}"] _ this, where clock' = 0]
  show ?thesis by (simp add: s)
qed

text \<open>C14: The first request of a session whose address has left the allowlist is refused and deletes the session for
  good: no later request with that bearer is accepted, not even after the address is listed again. (As above, unless
  an environment issues the digest anew; and no personal token shares it.)\<close>

theorem delisted_session_stays_refused:
  assumes "auth_reach es0 db" "s \<in> set (au_sessions db)" "live_session (ae_now env) (ae_digest env (bearer h)) s"
    and "\<not> is_allowed (as_email s) (ae_allowed env)" "bearer h \<noteq> []" "ae_api_token env = Some shared" "isascii shared"
    and "bearer h \<noteq> shared" "\<forall>t \<in> set (au_tokens db). at_digest t \<noteq> as_digest s"
    and "auth_run es (snd (require_caller env clock h db th)) u" "\<forall>e \<in> es. \<not> reissues (as_digest s) e"
    and "ae_digest env' (bearer h') = as_digest s" "ae_api_token env' = Some secret" "bearer h' \<noteq> secret"
  shows "\<exists>code. fst (require_caller env' clock' h' (fst u) (snd u)) = Inl code"
proof -
  note f = session_found [OF reach_keyed [OF assms(1)] assms(3,2)]
  have dg: "as_digest s = ae_digest env (bearer h)" using assms(3) by (simp add: live_session_def)
  have p: "find (live_token (ae_now env) (ae_digest env (bearer h))) (au_tokens db) = None"
    using assms(9) by (auto simp: find_None_iff live_token_def dg)
  have "fst (snd (require_caller env clock h db th)) = delete_session (as_id s) (touch_session (ae_now env) (as_id s) db)"
    using assms(4-8)
    by (simp add: require_caller_def caller_for_api_token_def token_for_secret_def p caller_for_session_def
        session_for_token_def f Let_def split: prod.split)
  with session_gone [OF reach_keyed [OF assms(1)] assms(2,9), of "ae_now env" "as_id s"]
  have "dead_bearer (as_digest s) (fst (snd (require_caller env clock h db th)))" by simp
  from dead_stays_refused [OF this assms(10-14)] show ?thesis .
qed

lemma delisted_session_stays_refused_witness:
  "\<exists>code. fst (require_caller (demo_env CHR ''a'') 0 (Some ''Bearer b'')
     (fst (snd (require_caller (demo_env CHR ''b''\<lparr>ae_allowed := []\<rparr>) 0 (Some ''Bearer b'') (fst demo_signed_in) (new_throttle 0))))
     (snd (snd (require_caller (demo_env CHR ''b''\<lparr>ae_allowed := []\<rparr>) 0 (Some ''Bearer b'') (fst demo_signed_in) (new_throttle 0)))))
     = Inl code"
proof -
  let ?E = "demo_env CHR ''b''\<lparr>ae_allowed := []\<rparr>" and ?h = "Some ''Bearer b''" and ?db = "fst demo_signed_in"
  have l: "list_all (live_session (ae_now ?E) (ae_digest ?E (bearer ?h))) (au_sessions ?db)" "au_sessions ?db \<noteq> []"
    by code_simp+
  from list.set_sel(1) [OF l(2)] l(1) obtain s where s: "s \<in> set (au_sessions ?db)" "live_session (ae_now ?E) (ae_digest ?E (bearer ?h)) s"
    unfolding list_all_iff by blast
  have a: "\<not> is_allowed (as_email s) (ae_allowed ?E)" by (simp add: is_allowed_def)
  have k: "bearer ?h \<noteq> []" "ae_api_token ?E = Some ''key''" "isascii ''key''" "bearer ?h \<noteq> ''key''" by code_simp+
  have "au_tokens ?db = []" by code_simp
  then have t: "\<forall>t \<in> set (au_tokens ?db). at_digest t \<noteq> as_digest s" by simp
  have dg: "ae_digest (demo_env CHR ''a'') (bearer ?h) = as_digest s"
    using s(2) by (simp add: live_session_def demo_env_def)
  have k': "ae_api_token (demo_env CHR ''a'') = Some ''key''" by code_simp
  from delisted_session_stays_refused [OF demo_sessions s a k t no_request [of "{}"] _ dg k' k(4), where clock' = 0]
  show ?thesis by simp
qed

lemma revoked_dead:
  assumes "keyed d" "revoke_token now u i d = (Some t, d')" "\<forall>s \<in> set (au_sessions d). as_digest s \<noteq> at_digest t"
  shows "dead_bearer (at_digest t) d'"
proof -
  let ?f = "\<lambda>t. t\<lparr>at_revoked := Some (case at_revoked t of None \<Rightarrow> now | Some r \<Rightarrow> r)\<rparr>"
  let ?mine = "\<lambda>t. at_id t = i \<and> at_user t = u"
  from assms(2) have d': "d' = d\<lparr>au_tokens := update_where ?mine ?f (au_tokens d)\<rparr>"
    and f: "find ?mine (update_where ?mine ?f (au_tokens d)) = Some t"
    by (auto simp: revoke_token_def Let_def)
  from find_SomeD [OF f] have "t \<in> set (update_where ?mine ?f (au_tokens d))" and mt: "?mine t" by blast+
  from this(1) obtain t0 where t0': "t0 \<in> set (au_tokens d)" "t = (if ?mine t0 then ?f t0 else t0)"
    by (auto simp: update_where_def)
  with mt have t0: "t0 \<in> set (au_tokens d)" "?mine t0" "at_digest t0 = at_digest t" by (auto split: if_split_asm)
  have inj: "inj_on at_digest (set (au_tokens d))" using assms(1) by (simp add: keyed_def distinct_map)
  have "at_revoked (if ?mine x then ?f x else x) \<noteq> None"
    if "x \<in> set (au_tokens d)" "at_digest (if ?mine x then ?f x else x) = at_digest t" for x
  proof -
    from that(2) t0(3) have "at_digest x = at_digest t0" by (simp split: if_split_asm)
    then have "x = t0" by (rule inj_onD [OF inj _ that(1) t0(1)])
    with t0(2) show ?thesis by simp
  qed
  moreover have "\<exists>y \<in> set (au_tokens d). x = (if ?mine y then ?f y else y)" if "x \<in> set (au_tokens d')" for x
    using that by (auto simp: d' update_where_def)
  ultimately have "\<forall>x \<in> set (au_tokens d'). at_digest x = at_digest t \<longrightarrow> at_revoked x \<noteq> None" by blast
  moreover have "au_sessions d' = au_sessions d" by (simp add: d')
  ultimately show ?thesis using assms(3) unfolding dead_bearer_def by simp
qed

text \<open>A revoked personal token is refused from then on, under the same conditions.\<close>

theorem revoked_token_stays_refused:
  assumes "auth_reach es0 db" "handle_auth env clock (RevokeToken h i) (db, th) = (Inr (Stamped t), v)"
    and "\<forall>s \<in> set (au_sessions db). as_digest s \<noteq> at_digest t"
    and "auth_run es v u" "\<forall>e \<in> es. \<not> reissues (at_digest t) e"
    and "ae_digest env' (bearer h') = at_digest t" "ae_api_token env' = Some secret" "bearer h' \<noteq> secret"
  shows "\<exists>code. fst (require_caller env' clock' h' (fst u) (snd u)) = Inl code"
proof -
  obtain r d th' where rc: "require_caller env clock h db th = (r, d, th')" by (metis prod_cases3)
  with assms(2) obtain c where c: "r = Inr c" and rv: "revoke_api_token env i c d = Inr (Stamped t, fst v)"
    by (auto simp: handle_auth_def with_caller_def split: sum.split_asm prod.split_asm)
  have br: "is_browser_session c" and fv: "revoke_token (ae_now env) (ca_user c) i d = (Some t, fst v)"
    using rv by (auto simp: revoke_api_token_def require_session_def and_then_Inr split: if_split_asm option.split_asm prod.split_asm)
  obtain j where d: "d = touch_session (ae_now env) j db"
    by (rule caller_session [OF rc [unfolded c]]) (use br in \<open>simp_all add: is_browser_session_def\<close>)
  have k: "keyed d" using keys.touched(1) [OF reach_keyed [OF assms(1)]] by (simp add: d)
  have "dead_bearer (at_digest t) (fst v)"
    by (rule revoked_dead [OF k fv]) (use assms(3) in \<open>auto simp: d touch_session_def update_where_def\<close>)
  from dead_stays_refused [OF this assms(4-8)] show ?thesis .
qed

end
