(* ===== verification/Guards.thy ===== *)
theory Guards
  imports Credentials
begin

text \<open>
  What the guards of \<open>api/src/motet_api/deps.py\<close> and the routes promise beyond the lifetime of a bearer: grants are redeemed
  once, only a signed-in browser manages tokens, signing out everywhere, what a refused request leaves behind, and how
  many refusals the throttle serves.
\<close>

section \<open>A grant is redeemed once\<close>

text \<open>The request redeems this secret of that table.\<close>

fun redeems :: "grant_table \<Rightarrow> string \<Rightarrow> auth_request \<Rightarrow> bool" where
  "redeems Refreshes tok (ExchangeRefresh c t scopes) \<longleftrightarrow> t = tok"
| "redeems Codes tok (ExchangeCode c t) \<longleftrightarrow> t = tok"
| "redeems Handoffs tok (RedeemNative t v) \<longleftrightarrow> t = tok"
| "redeems _ _ _ \<longleftrightarrow> False"

lemma only_row:
  assumes "distinct (map k xs)" "x \<in> set xs" "k x = v" "P x"
  shows "v \<notin> k ` set (filter (\<lambda>y. \<not> P y) xs)"
  using assms by (auto simp: distinct_map inj_on_def)

lemma consumed_gone:
  assumes "keyed d"
  shows "take_handoff env tok d = (Some h, d') \<Longrightarrow> ae_digest env tok \<notin> digests Handoffs d'"
    and "consume_code env tok c d = (Some k, d') \<Longrightarrow> ae_digest env tok \<notin> digests Codes d'"
    and "consume_refresh_token env tok cl d = (Some r, d') \<Longrightarrow> ae_digest env tok \<notin> digests Refreshes d'"
proof -
  show "ae_digest env tok \<notin> digests Handoffs d'" if "take_handoff env tok d = (Some h, d')"
  proof -
    let ?hit = "\<lambda>h. ah_digest h = ae_digest env tok \<and> ae_now env < ah_expires h"
    from that have f: "find ?hit (au_handoffs d) = Some h" and d': "au_handoffs d' = filter (\<lambda>h. \<not> ?hit h) (au_handoffs d)"
      by (auto simp: take_handoff_def Let_def split: if_split_asm)
    have "distinct (map ah_digest (au_handoffs d))" using assms by (simp add: keyed_def)
    from only_row [OF this, of h _ ?hit] find_SomeD [OF f] show ?thesis by (simp add: d')
  qed
  show "ae_digest env tok \<notin> digests Codes d'" if "consume_code env tok c d = (Some k, d')"
  proof -
    from that have f: "find (code_hit env tok c) (au_codes d) = Some k" and d': "au_codes d' = filter (\<lambda>k. \<not> code_hit env tok c k) (au_codes d)"
      by (auto simp: consume_code_def)
    have "distinct (map ak_digest (au_codes d))" using assms by (simp add: keyed_def)
    from only_row [OF this, of k _ "code_hit env tok c"] find_SomeD [OF f] show ?thesis by (simp add: d' code_hit_def)
  qed
  show "ae_digest env tok \<notin> digests Refreshes d'" if "consume_refresh_token env tok cl d = (Some r, d')"
  proof -
    from that have f: "find (refresh_hit env tok cl) (au_refresh d) = Some r"
      and d': "au_refresh d' = filter (\<lambda>k. \<not> refresh_hit env tok cl k) (au_refresh d)"
      by (auto simp: consume_refresh_token_def Let_def split: option.split_asm)
    have "distinct (map rt_digest (au_refresh d))" using assms by (simp add: keyed_def)
    from only_row [OF this, of r _ "refresh_hit env tok cl"] find_SomeD [OF f] show ?thesis by (simp add: d' refresh_hit_def)
  qed
qed

lemma redeemed_gone:
  assumes "keyed db" "redeems g tok q" "handle_auth env clock q (db, th) = (Inr a, v)" "\<not> drawn env (ae_digest env tok)"
  shows "ae_digest env tok \<notin> digests g (fst v)"
proof (cases "(g, tok, q)" rule: redeems.cases)
  case (1 tok' c t scopes)
  with assms(2,3) obtain r d1 where k: "consume_refresh_token env tok (Some c) db = (Some r, d1)"
    and i: "issue env c (rt_user r) (rt_email r) scopes (rt_resource r) d1 = Inr (a, fst v)"
    by (auto simp: handle_auth_def auth_transact_def with_server_def and_then_Inr exchange_refresh_token_def
        split: sum.split_asm prod.split_asm option.split_asm if_split_asm)
  from spent.issue [OF i _ consumed_gone(3) [OF assms(1) k]] assms(4) 1 show ?thesis by simp
next
  case (2 tok' c t)
  with assms(2,3) obtain r d1 where k: "consume_code env tok c db = (Some r, d1)"
    and i: "issue env c (ak_user r) (ak_email r) (ak_scopes r) (ak_resource r) d1 = Inr (a, fst v)"
    by (auto simp: handle_auth_def auth_transact_def with_server_def and_then_Inr exchange_authorization_code_def
        split: sum.split_asm prod.split_asm option.split_asm if_split_asm)
  from spent.issue [OF i _ consumed_gone(2) [OF assms(1) k]] assms(4) 2 show ?thesis by simp
next
  case (3 tok' t w)
  with assms(2,3) obtain h d1 s where k: "take_handoff env tok db = (Some h, d1)"
    and n: "create_auth_session env (ae_fresh env 1) (ah_user h) (ah_email h) (ae_fresh env 0) DEFAULT_TTL_SECONDS None d1 = Inr (s, fst v)"
    by (auto simp: handle_auth_def auth_transact_def redeem_native_login_def and_then_Inr
        split: sum.split_asm prod.split_asm option.split_asm if_split_asm)
  from spent.sessions [OF n _ consumed_gone(1) [OF assms(1) k]] assms(4) 3 show ?thesis by simp
qed (use assms(2) in auto)

lemma gone_refused:
  assumes "ae_digest env tok \<notin> digests g (fst s)" "redeems g tok q"
  shows "\<exists>code. fst (handle_auth env clock q s) = Inl code"
proof (cases "(g, tok, q)" rule: redeems.cases)
  case (1 tok' c t scopes)
  with assms have "find (refresh_hit env t (Some c)) (au_refresh (fst s)) = None"
    by (auto simp: find_None_iff refresh_hit_def image_iff)
  with 1 assms(2) show ?thesis
    by (simp add: handle_auth_def with_server_def and_then_def exchange_refresh_token_def consume_refresh_token_def auth_transact_def
        split: sum.split prod.split)
next
  case (2 tok' c t)
  with assms have "find (code_hit env t c) (au_codes (fst s)) = None" by (auto simp: find_None_iff code_hit_def image_iff)
  with 2 assms(2) show ?thesis
    by (simp add: handle_auth_def with_server_def and_then_def exchange_authorization_code_def consume_code_def auth_transact_def
        split: sum.split prod.split)
next
  case (3 tok' t w)
  with assms have "find (\<lambda>h. ah_digest h = ae_digest env t \<and> ae_now env < ah_expires h) (au_handoffs (fst s)) = None"
    by (auto simp: find_None_iff image_iff)
  with 3 assms(2) show ?thesis
    by (auto simp: handle_auth_def redeem_native_login_def take_handoff_def Let_def auth_transact_def split: prod.split)
qed (use assms(2) in auto)

text \<open>C12: A refresh token, an authorization code or a native hand-off that was redeemed is refused ever after: whatever
  requests come between, no request that redeems a secret of the same digest succeeds, whichever client, scopes or
  verifier it names, unless an environment draws that digest again.\<close>

theorem redeemed_grant_stays_spent:
  assumes "auth_reach es0 db" "redeems g tok q" "handle_auth env clock q (db, th) = (Inr a, v)"
    and "auth_run es v u" "env \<in> es" "\<forall>e \<in> es. \<not> drawn e (ae_digest env tok)"
    and "redeems g tok' q'" "ae_digest env' tok' = ae_digest env tok"
  shows "\<exists>code. fst (handle_auth env' clock' q' u) = Inl code"
proof -
  have "ae_digest env tok \<notin> digests g (fst v)"
    using redeemed_gone [OF reach_keyed [OF assms(1)] assms(2,3)] assms(5,6) by simp
  moreover have "auth_run {e. \<not> drawn e (ae_digest env tok)} v u"
    by (rule auth_run_mono [OF assms(4)]) (use assms(6) in auto)
  ultimately have "ae_digest env' tok' \<notin> digests g (fst u)" using spent.runs assms(8) by simp
  from gone_refused [OF this assms(7)] show ?thesis .
qed

lemma redeemed_grant_stays_spent_witness:
  "\<exists>code. fst (handle_auth (demo_env CHR ''a'') 0 (RedeemNative ''b'' ''w'')
     (snd (handle_auth (demo_env CHR ''a'') 0 (RedeemNative ''b'' ''v'') demo_handed_off))) = Inl code"
proof -
  let ?E = "demo_env CHR ''a''" and ?q = "RedeemNative ''b'' ''v''"
  obtain db th where s: "demo_handed_off = (db, th)" by fastforce
  have "case fst (handle_auth ?E 0 ?q demo_handed_off) of Inl _ \<Rightarrow> False | Inr _ \<Rightarrow> True" by code_simp
  then obtain a v where v: "handle_auth ?E 0 ?q (db, th) = (Inr a, v)"
    unfolding s by (cases "handle_auth ?E 0 ?q (db, th)") (auto split: sum.split_asm)
  have nd: "\<not> drawn ?E (ae_digest ?E ''b'')"
    by (auto simp: drawn_def draws_def demo_env_def TOKEN_MARKER_def numeral_eq_Suc)
  have "auth_reach {demo_env CHR ''b''} db" using demo_handoffs by (simp add: s)
  from redeemed_grant_stays_spent [OF this _ v no_request [of "{?E}"], where tok' = "''b''" and tok = "''b''" and g = Handoffs and env' = ?E and clock' = 0 and q' = "RedeemNative ''b'' ''w''"] nd
  show ?thesis by (simp add: s v)
qed

section \<open>Only a signed-in browser manages tokens\<close>

text \<open>C17: Minting, listing and revoking personal tokens succeed only for the bearer of a live browser session whose address
  is on the allowlist: never for the shared token, another personal token, an MCP client or an open deployment. A
  minted token carries that session's address, and only its digest is stored.\<close>

theorem only_a_browser_manages_tokens:
  assumes "q = CreateToken h label days \<or> q = ListTokens h \<or> q = RevokeToken h i"
    and "handle_auth env clock q (db, th) = (Inr a, v)"
  shows "\<exists>s \<in> set (au_sessions db). live_session (ae_now env) (ae_digest env (bearer h)) s \<and> as_client s = None
    \<and> is_allowed (as_email s) (ae_allowed env)
    \<and> (\<forall>token t. a = Minted token t
         \<longrightarrow> at_email t = as_email s \<and> at_digest t = ae_digest env token \<and> t \<in> set (au_tokens (fst v)))"
proof -
  obtain r d th' where rc: "require_caller env clock h db th = (r, d, th')" by (metis prod_cases3)
  from assms(1) obtain route where g: "guarded env q = Some (h, route)" by auto
  with assms(2) obtain c where c: "r = Inr c" and rt: "route c d = Inr (a, fst v)"
    by (auto simp: handle_auth_def with_caller_def rc split: sum.split_asm prod.split_asm)
  have ok: "is_browser_session c"
    using assms(1) g rt
    by (auto simp: create_api_token_def list_api_tokens_def revoke_api_token_def require_session_def split: if_split_asm)
  obtain s where s: "s \<in> set (au_sessions db)" "live_session (ae_now env) (ae_digest env (bearer h)) s"
    "ca_client c = as_client s" "ca_email c = Some (as_email s)" "is_allowed (as_email s) (ae_allowed env)"
    by (rule caller_session [OF rc [unfolded c]]) (use ok in \<open>simp_all add: is_browser_session_def\<close>)
  have "at_email t = as_email s \<and> at_digest t = ae_digest env token \<and> t \<in> set (au_tokens (fst v))" if "a = Minted token t" for token t
  proof -
    have "create_api_token env label days c d = Inr (Minted token t, fst v)"
      using assms(1) g rt that ok
      by (auto simp: list_api_tokens_def revoke_api_token_def require_session_def split: option.split_asm prod.split_asm)
    with s(4) ok show ?thesis
      by (auto simp: create_api_token_def require_session_def create_token_def Let_def and_then_Inr
          dest!: sym [of _ "fst v"] split: if_split_asm)
  qed
  with s ok show ?thesis unfolding is_browser_session_def by auto
qed

lemma only_a_browser_manages_tokens_witness:
  "\<exists>s \<in> set (au_sessions (fst demo_signed_in)). as_client s = None \<and> is_allowed (as_email s) (ae_allowed (demo_env CHR ''a''))"
proof -
  let ?E = "demo_env CHR ''a''" and ?q = "CreateToken (Some ''Bearer b'') ''agent'' None"
  obtain db th where s: "demo_signed_in = (db, th)" by fastforce
  have "case fst (handle_auth ?E 0 ?q demo_signed_in) of Inl _ \<Rightarrow> False | Inr _ \<Rightarrow> True" by code_simp
  then obtain a v where v: "handle_auth ?E 0 ?q (db, th) = (Inr a, v)"
    unfolding s by (cases "handle_auth ?E 0 ?q (db, th)") (auto split: sum.split_asm)
  from only_a_browser_manages_tokens [OF disjI1 [OF refl] v] show ?thesis unfolding s by auto
qed

section \<open>What a refusal leaves behind\<close>



section \<open>Signing out everywhere\<close>

lemma reach_owned:
  assumes "auth_reach es db"
  shows "\<forall>s \<in> set (au_sessions db). as_user s = OWNER_USER_ID" "\<forall>r \<in> set (au_refresh db). rt_user r = OWNER_USER_ID"
    "\<forall>t \<in> set (au_tokens db). at_user t = OWNER_USER_ID"
proof -
  have "owned es db"
    by (rule reach_run [OF assms], drule ownership.runs) (auto simp: owned_def holders_def no_credentials_def)
  then show "\<forall>s \<in> set (au_sessions db). as_user s = OWNER_USER_ID" "\<forall>r \<in> set (au_refresh db). rt_user r = OWNER_USER_ID"
    "\<forall>t \<in> set (au_tokens db). at_user t = OWNER_USER_ID" by (auto simp: owned_def holders_def)
qed

lemma caller_is_owner:
  assumes "auth_reach es db" "require_caller env clock h db th = (Inr c, d, th')"
  shows "ca_user c = OWNER_USER_ID"
  using assms(2) reach_owned [OF assms(1)]
  by (auto simp: require_caller_def caller_for_api_token_def caller_for_session_def token_for_secret_def session_for_token_def
      refused_def caller_of_def Let_def dest!: find_SomeD split: option.split_asm if_split_asm prod.split_asm probe.split_asm)

lemma logout_all_effect:
  assumes "auth_reach es db" "handle_auth env clock (LogoutAll h) (db, th) = (Inr a, db', th')"
  shows "au_sessions db' = [] \<and> au_refresh db' = [] \<and> au_handoffs db' = au_handoffs db \<and> au_codes db' = au_codes db
    \<and> a = RevokedMany (length (au_sessions db))"
proof -
  obtain r d t where rc: "require_caller env clock h db th = (r, d, t)" by (metis prod_cases3)
  with assms(2) obtain c where r: "r = Inr c" and l: "logout_everywhere c d = Inr (a, db')"
    by (auto simp: handle_auth_def with_caller_def split: sum.split_asm prod.split_asm)
  have u: "ca_user c = OWNER_USER_ID" by (rule caller_is_owner [OF assms(1) rc [unfolded r]])
  have same: "au_refresh d = au_refresh db" "au_handoffs d = au_handoffs db" "au_codes d = au_codes db"
    "map as_user (au_sessions d) = map as_user (au_sessions db)"
    using rc r
    by (auto simp: require_caller_def caller_for_api_token_def caller_for_session_def token_for_secret_def session_for_token_def
        refused_def touch_token_def touch_session_def map_update_where Let_def
        split: option.split_asm if_split_asm prod.split_asm probe.split_asm)
  have "as_user s = OWNER_USER_ID" if "s \<in> set (au_sessions d)" for s
    using that reach_owned(1) [OF assms(1)] arg_cong [OF same(4), of set] by auto
  then have s: "filter (\<lambda>s. as_user s = OWNER_USER_ID) (au_sessions d) = au_sessions d"
    "filter (\<lambda>s. as_user s \<noteq> OWNER_USER_ID) (au_sessions d) = []" by (simp_all add: filter_id_conv filter_empty_conv)
  have "length (au_sessions d) = length (au_sessions db)" using arg_cong [OF same(4), of length] by simp
  moreover have "filter (\<lambda>r. rt_user r \<noteq> OWNER_USER_ID) (au_refresh db) = []"
    using reach_owned(2) [OF assms(1)] by (simp add: filter_empty_conv)
  ultimately show ?thesis
    using l s by (auto simp: logout_everywhere_def delete_sessions_for_user_def u same split: if_split_asm)
qed

text \<open>C29: Signing out everywhere deletes every session and every refresh token there is and says how many sessions those
  were; hand-offs and authorization codes that are on their way stay as they are.\<close>

theorem logout_everywhere_ends_sessions_not_grants:
  assumes "auth_reach es db" "handle_auth env clock (LogoutAll h) (db, th) = (Inr a, db', th')"
  shows "au_sessions db' = [] \<and> au_refresh db' = [] \<and> au_handoffs db' = au_handoffs db \<and> au_codes db' = au_codes db
    \<and> a = RevokedMany (length (au_sessions db))"
  by (rule logout_all_effect [OF assms])

lemma logout_everywhere_ends_sessions_not_grants_witness:
  "au_sessions (fst (snd (handle_auth (demo_env CHR ''a'') 0 (LogoutAll (Some ''Bearer b'')) demo_signed_in))) = []"
proof -
  let ?E = "demo_env CHR ''a''" and ?q = "LogoutAll (Some ''Bearer b'')"
  obtain db th where s: "demo_signed_in = (db, th)" by fastforce
  have "case fst (handle_auth ?E 0 ?q demo_signed_in) of Inl _ \<Rightarrow> False | Inr _ \<Rightarrow> True" by code_simp
  then obtain a db' th' where v: "handle_auth ?E 0 ?q (db, th) = (Inr a, db', th')"
    unfolding s by (cases "handle_auth ?E 0 ?q (db, th)") (auto split: sum.split_asm)
  have "auth_reach {demo_env CHR ''b''} db" using demo_sessions by (simp add: s)
  from logout_everywhere_ends_sessions_not_grants [OF this v] show ?thesis by (simp add: s v)
qed

text \<open>Whoever holds a live hand-off and its verifier signs in after a sign-out everywhere, as before it.\<close>

theorem handoff_outlives_logout_everywhere:
  assumes "auth_reach es db" "handle_auth env clock (LogoutAll h) (db, th) = (Inr a, db', th')"
    and "x \<in> set (au_handoffs db)" "ah_digest x = ae_digest env' code" "ae_now env' < ah_expires x" "code \<noteq> []"
    and "ae_pkce env' verifier = ah_challenge x" "is_allowed (ah_email x) (ae_allowed env')"
    and "ah_user x \<in> fst ` set (au_users db')" "digest_ok (ae_digest env' (ae_fresh env' 0))"
  shows "\<exists>s. fst (handle_auth env' clock' (RedeemNative code verifier) (db', th'))
                = Inr (SignedIn (ae_fresh env' 0) s) \<and> as_user s = ah_user x"
proof -
  from logout_all_effect [OF assms(1,2)] have db': "au_sessions db' = []" "au_handoffs db' = au_handoffs db" by auto
  have "distinct (map ah_digest (au_handoffs db))" using reach_keyed [OF assms(1)] by (simp add: keyed_def)
  then have f: "find (\<lambda>h. ah_digest h = ae_digest env' code \<and> ae_now env' < ah_expires h) (au_handoffs db') = Some x"
    unfolding db' by (rule find_only [of ah_digest _ _ "ae_digest env' code"]) (use assms(3-5) in auto)
  show ?thesis
    using assms(6-10) db'(1)
    by (auto simp: handle_auth_def auth_transact_def redeem_native_login_def take_handoff_def f verifier_matches_def is_allowed_def
        create_auth_session_def create_session_for_digest_def Let_def)
qed

section \<open>The throttle\<close>

text \<open>The answers to a run of failed bearers at these moments: 401, or 429 over budget.\<close>

fun answered :: "throttle \<Rightarrow> time list \<Rightarrow> (time \<times> nat) list" where
  "answered th [] = []"
| "answered th (c # cs) = (case refused c True th of (code, th') \<Rightarrow> (c, code) # answered th' cs)"

text \<open>The 401s among them, from \<open>a\<close> on and within one window's length.\<close>

definition served :: "time \<Rightarrow> throttle \<Rightarrow> time list \<Rightarrow> nat" where
  "served a th cs = length (filter (\<lambda>(c, code). a \<le> c \<and> c < a + secs WINDOW_SECONDS \<and> code = 401) (answered th cs))"

lemma served_Cons:
  "served a th (c # cs) =
     (let th1 = snd (refused c True th)
      in (if a \<le> c \<and> c < a + secs WINDOW_SECONDS \<and> th_failures th1 \<le> MAX_FAILURES then 1 else 0) + served a th1 cs)"
  by (auto simp: served_def refused_def throttle_failure_def Let_def)

lemma served_late: "\<forall>c \<in> set cs. a + secs WINDOW_SECONDS \<le> c \<Longrightarrow> served a th cs = 0"
proof (induction cs arbitrary: th)
  case (Cons c cs)
  then show ?case by (simp add: served_Cons Let_def)
qed (simp add: served_def)

lemma refused_state:
  "snd (refused c True th) =
     (if secs WINDOW_SECONDS \<le> c - th_started th then \<lparr>th_started = c, th_failures = 1\<rparr>
      else th\<lparr>th_failures := Suc (th_failures th)\<rparr>)"
  by (simp add: refused_def throttle_failure_def Let_def)

lemma served_after_reset:
  "sorted cs \<Longrightarrow> a \<le> th_started th \<Longrightarrow> served a th cs \<le> MAX_FAILURES - th_failures th"
proof (induction cs arbitrary: th)
  case (Cons c cs)
  show ?case
  proof (cases "secs WINDOW_SECONDS \<le> c - th_started th")
    case True
    with Cons.prems have "\<forall>x \<in> set (c # cs). a + secs WINDOW_SECONDS \<le> x" by auto
    then show ?thesis by (simp only: served_late)
  next
    case False
    with Cons.IH [of "th\<lparr>th_failures := Suc (th_failures th)\<rparr>"] Cons.prems show ?thesis
      by (auto simp: served_Cons refused_state Let_def)
  qed
qed (simp add: served_def)

lemma served_from:
  "sorted cs \<Longrightarrow> \<forall>c \<in> set cs. a \<le> c \<Longrightarrow> served a th cs \<le> (MAX_FAILURES - th_failures th) + MAX_FAILURES"
proof (induction cs arbitrary: th)
  case (Cons c cs)
  show ?case
  proof (cases "secs WINDOW_SECONDS \<le> c - th_started th")
    case True
    have "served a \<lparr>th_started = c, th_failures = 1\<rparr> cs \<le> MAX_FAILURES - 1"
      using served_after_reset [of cs a "\<lparr>th_started = c, th_failures = 1\<rparr>"] Cons.prems by simp
    with True show ?thesis by (auto simp: served_Cons refused_state Let_def MAX_FAILURES_def)
  next
    case False
    with Cons.IH [of "th\<lparr>th_failures := Suc (th_failures th)\<rparr>"] Cons.prems show ?thesis
      by (auto simp: served_Cons refused_state Let_def)
  qed
qed (simp add: served_def)

text \<open>C37: However many bearers fail, and whatever the throttle counted before, in any span as long as a window at most twice
  the budget of them is answered 401; the rest get 429.\<close>

theorem served_failures_bounded:
  assumes "sorted cs"
  shows "served a th cs \<le> 2 * MAX_FAILURES"
  using assms
proof (induction cs arbitrary: th)
  case (Cons c cs)
  show ?case
  proof (cases "a \<le> c")
    case True
    with Cons.prems have "\<forall>x \<in> set (c # cs). a \<le> x" by auto
    from served_from [OF Cons.prems this, of th] show ?thesis by simp
  next
    case False
    with Cons show ?thesis by (simp add: served_Cons Let_def)
  qed
qed (simp add: served_def)


lemma served_failures_bounded_witness: "served 0 (new_throttle 0) [0, 1, 2] \<le> 2 * MAX_FAILURES \<and> served 0 (new_throttle 0) [0, 1, 2] = 3"
proof -
  have "served 0 (new_throttle 0) [0, 1, 2] = 3" by code_simp
  with served_failures_bounded [of "[0, 1, 2]" 0 "new_throttle 0"] show ?thesis by simp
qed

text \<open>The throttle is asked when the lookups are done: it changes the status of a refusal and nothing else.\<close>

theorem throttle_decides_only_the_status:
  "fst (snd (require_caller env clock h db th)) = fst (snd (require_caller env clock' h db th'))
   \<and> (fst (require_caller env clock h db th) = Inr c \<longleftrightarrow> fst (require_caller env clock' h db th') = Inr c)"
proof -
  define t where "t = bearer h"
  obtain p d1 where 1: "(if looks_like_api_token t then caller_for_api_token env t db else (Miss, db)) = (p, d1)" by fastforce
  obtain q d2 where 2: "caller_for_session env t db = (q, d2)" by fastforce
  obtain u1 v1 u2 v2 u3 v3 u4 v4
    where r: "refused clock True th = (u1, v1)" "refused clock (t \<noteq> []) th = (u2, v2)"
      "refused clock' True th' = (u3, v3)" "refused clock' (t \<noteq> []) th' = (u4, v4)" by (metis prod.collapse)
  show ?thesis
    unfolding require_caller_def t_def [symmetric] Let_def 1 2
    by (cases p; cases q; cases "ae_api_token env") (auto simp: r split: prod.splits)
qed

end
