(* ===== verification/Consent.thy ===== *)
theory Consent
  imports SignIn LabelSync
begin

text \<open>
  Connecting a mailbox: the source routes of \<open>api/src/motet_api/main.py\<close> and \<open>phase2.remove_unused_source\<close>. A consent
  starts with a pending authorization bound to its source, finishes at one callback, and what it may do is
  what that authorization asked for. The OAuth client, the vault's cipher and random values are arguments. A refusal
  is its HTTP status and rolls the request back; response views and wording are left out.
\<close>

section \<open>State and environment\<close>

record consent =
  co_sys :: "dom sys"
  co_auth :: auth_db

text \<open>\<open>ce_exchange\<close> is \<open>exchange_code\<close>, nothing where it raises a \<open>SourceError\<close>; \<open>ce_wrapper\<close> is \<open>build_dek_wrapper\<close>;
  \<open>ce_clock\<close> this process's clock, \<open>ce_iso\<close> the text of a moment, \<open>ce_ids\<close> and \<open>ce_fresh\<close> the ids and secrets drawn.\<close>

record consent_env =
  ce_pl :: pipeline
  ce_clock :: time
  ce_iso :: "time \<Rightarrow> string"
  ce_ids :: "nat \<Rightarrow> string"
  ce_fresh :: "nat \<Rightarrow> string"
  ce_aead :: aead
  ce_wrapper :: "vault_exn + key_manager"
  ce_rnd :: entropy
  ce_url_fails :: bool
  ce_exchange :: "string \<Rightarrow> string \<Rightarrow> string \<Rightarrow> token_grant option"

type_synonym 'a answer = "nat + 'a \<times> consent"

definition on_source_dom :: "(dom \<Rightarrow> dom) \<Rightarrow> consent \<Rightarrow> consent" where
  "on_source_dom f w = w\<lparr>co_sys := on_dom (f (sys_dom (co_sys w))) (co_sys w)\<rparr>"

definition co_now :: "consent_env \<Rightarrow> time" where
  "co_now env = pl_now (ce_pl env)"

definition FIRST_SYNC_DAYS_CONFIG_KEY :: string where "FIRST_SYNC_DAYS_CONFIG_KEY = ''first_sync_days''"
definition CONNECTOR_STATE_PREFIX :: string where "CONNECTOR_STATE_PREFIX = ''connector.''"
definition PASTE :: string where "PASTE = ''paste''"

definition is_connector_state :: "string \<Rightarrow> bool" where
  "is_connector_state s \<longleftrightarrow> prefix CONNECTOR_STATE_PREFIX s"

definition LABEL_SYNC_SCOPES :: "string list" where
  "LABEL_SYNC_SCOPES = [GMAIL_READONLY_SCOPE, GMAIL_MODIFY_SCOPE]"

definition own_source :: "string \<Rightarrow> string \<Rightarrow> consent \<Rightarrow> source_row option" where
  "own_source user i w =
     find (\<lambda>r. so_id r = i \<and> so_user r = user) (source_rows (sys_dom (co_sys w)))"

section \<open>Asking for consent\<close>

definition pending_row :: "consent_env \<Rightarrow> string \<Rightarrow> string \<Rightarrow> string \<Rightarrow> string list \<Rightarrow> oauth_state" where
  "pending_row env user src redirect scopes =
     \<lparr>os_state = ce_fresh env 1, os_user = user, os_provider = PROVIDER, os_source = Some src, os_verifier = ce_fresh env 0,
      os_redirect = redirect, os_scopes = py_join '' '' scopes, os_nonce = None, os_mcp = None, os_handoff = None,
      os_app_link = False, os_expires = co_now env + secs STATE_TTL_SECONDS\<rparr>"

definition start_consent ::
  "consent_env \<Rightarrow> string \<Rightarrow> string \<Rightarrow> string \<Rightarrow> string list \<Rightarrow> consent \<Rightarrow> (string \<times> string) answer"
where
  "start_consent env user src redirect scopes w =
     and_then (start_oauth (pending_row env user src redirect scopes) (co_auth w)) (\<lambda>db.
       if ce_url_fails env then Inl 503 else Inr ((src, ce_fresh env 1), w\<lparr>co_auth := db\<rparr>))"

definition connect_config :: "string option \<Rightarrow> int option \<Rightarrow> payload" where
  "connect_config query window =
     (case query of None \<Rightarrow> [] | Some q \<Rightarrow> if py_strip q = [] then [] else [(''query'', JStr (py_strip q))])
     @ (case window of None \<Rightarrow> [] | Some n \<Rightarrow> [(FIRST_SYNC_DAYS_CONFIG_KEY, JInt n)])"

definition connect_source ::
  "consent_env \<Rightarrow> string \<Rightarrow> string \<Rightarrow> string \<Rightarrow> string option \<Rightarrow> int option \<Rightarrow> string \<Rightarrow> consent \<Rightarrow> (string \<times> string) answer"
where
  "connect_source env user provider name query window redirect w =
     (if provider \<noteq> PROVIDER then Inl 400
      else case create_source (co_now env) (ce_ids env 0) user GMAIL (py_strip name) (connect_config query window) (sys_dom (co_sys w)) of
             Inl _ \<Rightarrow> Inl 500
           | Inr d \<Rightarrow>
               start_consent env user (ce_ids env 0) redirect [GMAIL_READONLY_SCOPE]
                 (on_source_dom (\<lambda>_. set_source_active (ce_ids env 0) False d) w))"

definition reauthorize_source ::
  "consent_env \<Rightarrow> string \<Rightarrow> string \<Rightarrow> string \<Rightarrow> consent \<Rightarrow> (string \<times> string) answer"
where
  "reauthorize_source env user i redirect w =
     (case own_source user i w of
        None \<Rightarrow> Inl 404
      | Some r \<Rightarrow>
          if so_kind r \<noteq> GMAIL then Inl 409
          else if label_settings_from_config (so_config r) = None then Inl 409
          else start_consent env user (so_id r) redirect LABEL_SYNC_SCOPES w)"

section \<open>Finishing it\<close>

definition asked_scopes :: "oauth_state \<Rightarrow> string list" where
  "asked_scopes p = py_split (os_scopes p)"

definition kept_scopes :: "oauth_state \<Rightarrow> token_grant \<Rightarrow> string list" where
  "kept_scopes p g =
     (let both = filter (\<lambda>s. asked_scopes p = [] \<or> s \<in> set (asked_scopes p)) (tg_scopes g)
      in if both = [] then [GMAIL_READONLY_SCOPE] else both)"

definition seal_failure :: "vault_exn \<Rightarrow> nat" where
  "seal_failure e = (case e of ConfigValueError _ \<Rightarrow> 500 | _ \<Rightarrow> 503)"

definition oauth_callback :: "consent_env \<Rightarrow> string \<Rightarrow> string \<Rightarrow> string \<Rightarrow> consent \<Rightarrow> string answer" where
  "oauth_callback env user body_state code w =
     (case ce_wrapper env of
        Inl e \<Rightarrow> Inl (case e of VaultConfigError _ \<Rightarrow> 503 | _ \<Rightarrow> 500)
      | Inr km \<Rightarrow>
          let state = py_strip body_state
          in if is_login_state state then Inl 400
             else if is_connector_state state then Inl 400
             else case consume_oauth_state (co_now env) state (co_auth w) of
               (None, _) \<Rightarrow> Inl 400
             | (Some p, db) \<Rightarrow>
                 if os_user p \<noteq> user \<or> os_provider p \<noteq> PROVIDER then Inl 400
                 else case (case os_source p of None \<Rightarrow> None | Some i \<Rightarrow> if i = [] then None else own_source user i w) of
                   None \<Rightarrow> Inl 404
                 | Some r \<Rightarrow>
                     (case ce_exchange env code (os_redirect p) (os_verifier p) of
                        None \<Rightarrow> Inl 400
                      | Some g \<Rightarrow>
                          if tg_refresh_token g = None \<or> tg_refresh_token g = Some [] then Inl 400
                          else (case store_source_credential (ce_aead env) km (ce_rnd env) (co_now env) (ce_ids env 0) user (so_id r)
                                   PROVIDER REFRESH (the (tg_refresh_token g)) (kept_scopes p g) None (sys_dom (co_sys w)) of
                             Inl e \<Rightarrow> Inl (seal_failure e)
                           | Inr d \<Rightarrow>
                               Inr (so_id r, \<lparr>co_sys = enqueue_source_poll (ce_pl env) (so_id r)
                                                 (on_dom (set_source_active (so_id r) True d) (co_sys w)),
                                             co_auth = db\<rparr>))))"

section \<open>The other source routes\<close>

definition poll_now :: "consent_env \<Rightarrow> string \<Rightarrow> string \<Rightarrow> consent \<Rightarrow> unit answer" where
  "poll_now env user i w =
     (case own_source user i w of
        None \<Rightarrow> Inl 404
      | Some r \<Rightarrow>
          if \<not> so_active r then Inl 409
          else Inr ((), w\<lparr>co_sys := enqueue_source_poll (ce_pl env) (so_id r) (co_sys w)\<rparr>))"

definition resync_source :: "consent_env \<Rightarrow> string \<Rightarrow> string \<Rightarrow> int \<Rightarrow> consent \<Rightarrow> unit answer" where
  "resync_source env user i window w =
     (case own_source user i w of
        None \<Rightarrow> Inl 404
      | Some r \<Rightarrow>
          if so_kind r \<noteq> GMAIL then Inl 409
          else if \<not> so_active r then Inl 409
          else let w1 = on_source_dom (\<lambda>d. set_source_config_key (so_id r) RESYNC_REQUESTED_CONFIG_KEY
                            (Some (JStr (ce_iso env (ce_clock env))))
                            (set_source_config_key (so_id r) FIRST_SYNC_DAYS_CONFIG_KEY (Some (JInt window)) d)) w
               in Inr ((), w1\<lparr>co_sys := enqueue_source_poll (ce_pl env) (so_id r) (co_sys w1)\<rparr>))"

definition set_label_sync ::
  "string \<Rightarrow> string \<Rightarrow> string option \<Rightarrow> string option \<Rightarrow> consent \<Rightarrow> unit answer"
where
  "set_label_sync user i remove add w =
     (case own_source user i w of
        None \<Rightarrow> Inl 404
      | Some r \<Rightarrow>
          if so_kind r \<noteq> GMAIL then Inl 409
          else case parse_label_settings remove add of
                 Inl _ \<Rightarrow> Inl 422
               | Inr chosen \<Rightarrow>
                   Inr ((), on_source_dom (set_source_config_key (so_id r) CONFIG_KEY
                              (map_option (\<lambda>s. JObj (label_settings_to_config s)) chosen)) w))"

definition forget_source :: "consent_env \<Rightarrow> string \<Rightarrow> string \<Rightarrow> consent \<Rightarrow> unit answer" where
  "forget_source env user i w =
     (case own_source user i w of
        None \<Rightarrow> Inl 404
      | Some r \<Rightarrow>
          Inr ((), if \<exists>c \<in> set (credentials (sys_dom (co_sys w))). cr_source c = so_id r
                   then on_source_dom (\<lambda>d. mark_source_disconnected (co_now env) (so_id r) (delete_source_credentials (so_id r) d)) w
                   else on_source_dom (\<lambda>d. set_source_active (so_id r) False (delete_source_credentials (so_id r) d)) w))"

datatype source_removal = Removed | NotFound | BuiltIn | HeldACredential | HasItems | ConsentInProgress

text \<open>\<open>locked\<close>: another transaction holds a pending authorization of the source. Deleting the row cascades.\<close>

definition remove_unused_source :: "bool \<Rightarrow> string \<Rightarrow> string \<Rightarrow> consent \<Rightarrow> source_removal \<times> consent" where
  "remove_unused_source locked user i w =
     (let d = sys_dom (co_sys w)
      in case own_source user i w of
           None \<Rightarrow> (NotFound, w)
         | Some r \<Rightarrow>
             if so_kind r = PASTE then (BuiltIn, w)
             else if (\<exists>c \<in> set (credentials d). cr_source c = i) \<or> so_active r \<or> so_last_polled_at r \<noteq> None
                     \<or> so_disconnected_at r \<noteq> None then (HeldACredential, w)
             else if \<exists>it \<in> set (source_items d). si_source it = i then (HasItems, w)
             else if locked then (ConsentInProgress, w)
             else (Removed,
                   (on_source_dom (\<lambda>d. d\<lparr>source_rows := filter (\<lambda>r. \<not> (so_id r = i \<and> so_user r = user)) (source_rows d),
                                         credentials := filter (\<lambda>c. cr_source c \<noteq> i) (credentials d),
                                         source_items := filter (\<lambda>it. si_source it \<noteq> i) (source_items d)\<rparr>) w)
                     \<lparr>co_auth := (co_auth w)\<lparr>au_states := filter (\<lambda>p. os_source p \<noteq> Some i) (au_states (co_auth w))\<rparr>\<rparr>))"

definition remove_source :: "bool \<Rightarrow> string \<Rightarrow> string \<Rightarrow> consent \<Rightarrow> unit answer" where
  "remove_source locked user i w =
     (case remove_unused_source locked user i w of
        (NotFound, _) \<Rightarrow> Inl 404
      | (Removed, w1) \<Rightarrow> Inr ((), w1)
      | _ \<Rightarrow> Inl 409)"

section \<open>Scopes as one text\<close>

definition plain_words :: "string list \<Rightarrow> bool" where
  "plain_words ws \<longleftrightarrow> (\<forall>w \<in> set ws. w \<noteq> [] \<and> (\<forall>c \<in> set w. \<not> py_isspace c))"

lemma split_from_word: "\<forall>c \<in> set w. \<not> py_isspace c \<Longrightarrow> split_from u (w @ cs) = split_from (u @ w) cs"
  by (induction w arbitrary: u) auto

lemma isspace_blank [simp]: "py_isspace CHR 0x20"
  by code_simp

lemma split_join: "plain_words ws \<Longrightarrow> py_split (py_join '' '' ws) = ws"
  unfolding py_split_def
proof (induction "'' '' :: string" ws rule: py_join.induct)
  case (2 x)
  then show ?case using split_from_word [of x "[]" "[]"] by (auto simp: plain_words_def)
next
  case (3 x y ys)
  then have w: "x \<noteq> []" "\<forall>c \<in> set x. \<not> py_isspace c" and rest: "plain_words (y # ys)" by (auto simp: plain_words_def)
  have "split_from [] (py_join '' '' (x # y # ys)) = split_from x ('' '' @ py_join '' '' (y # ys))"
    using split_from_word [OF w(2), of "[]"] by simp
  also have "\<dots> = x # y # ys" using w(1) 3(1) [OF rest] by simp
  finally show ?case .
qed simp

lemma plain_words_simps [simp]:
  "plain_words []" "plain_words (w # ws) \<longleftrightarrow> w \<noteq> [] \<and> (\<forall>c \<in> set w. \<not> py_isspace c) \<and> plain_words ws"
  by (auto simp: plain_words_def)

lemma split_from_plain: "\<forall>c \<in> set u. \<not> py_isspace c \<Longrightarrow> plain_words (split_from u s)"
  by (induction u s rule: split_from.induct) simp_all

lemma split_plain [simp]: "plain_words (py_split s)"
  by (simp add: py_split_def split_from_plain)

lemma gmail_scopes_plain [simp]: "plain_words [GMAIL_READONLY_SCOPE]" "plain_words LABEL_SYNC_SCOPES"
  by code_simp+

lemma modify_not_readonly [simp]: "GMAIL_MODIFY_SCOPE \<noteq> GMAIL_READONLY_SCOPE"
  by (simp add: GMAIL_READONLY_SCOPE_def GMAIL_MODIFY_SCOPE_def)

lemma kept_scopes_asked:
  "asked_scopes p \<noteq> [] \<Longrightarrow> set (kept_scopes p g) \<subseteq> insert GMAIL_READONLY_SCOPE (set (asked_scopes p)) \<and> plain_words (kept_scopes p g)"
  using split_plain [of "os_scopes p"] gmail_scopes_plain(1)
  by (auto simp: kept_scopes_def asked_scopes_def Let_def plain_words_def split: if_splits)

lemma scopes_of_joined: "cr_scopes c = py_join '' '' ws \<Longrightarrow> plain_words ws \<Longrightarrow> scopes_of c = ws"
  using split_join [of ws] by (cases ws) (auto simp: scopes_of_def py_split_def)

section \<open>A callback connects what was asked for\<close>

lemma own_sourceD: "own_source user i w = Some r \<Longrightarrow> r \<in> set (source_rows (sys_dom (co_sys w))) \<and> so_id r = i \<and> so_user r = user"
  by (auto simp: own_source_def dest: find_SomeD)

lemma callback_parts:
  assumes "oauth_callback env user st code w = Inr (i, w')"
  obtains p r g km d where "p \<in> set (au_states (co_auth w))" "os_state p = py_strip st" "co_now env < os_expires p"
    "os_user p = user" "os_provider p = PROVIDER" "os_source p = Some i" "own_source user i w = Some r"
    "ce_exchange env code (os_redirect p) (os_verifier p) = Some g" "tg_refresh_token g \<noteq> None"
    "store_source_credential (ce_aead env) km (ce_rnd env) (co_now env) (ce_ids env 0) user i PROVIDER REFRESH
       (the (tg_refresh_token g)) (kept_scopes p g) None (sys_dom (co_sys w)) = Inr d"
    "co_sys w' = enqueue_source_poll (ce_pl env) i (on_dom (set_source_active i True d) (co_sys w))"
    "au_states (co_auth w') = filter (\<lambda>q. \<not> (os_state q = py_strip st \<and> co_now env < os_expires q)) (au_states (co_auth w))"
proof -
  from assms obtain km where km: "ce_wrapper env = Inr km" by (auto simp: oauth_callback_def split: sum.split_asm)
  obtain x db where c: "consume_oauth_state (co_now env) (py_strip st) (co_auth w) = (x, db)" by fastforce
  from assms km c obtain p where x: "x = Some p" by (cases x) (auto simp: oauth_callback_def Let_def split: if_split_asm)
  from assms have "\<not> is_login_state (py_strip st)" "\<not> is_connector_state (py_strip st)" "os_user p = user" "os_provider p = PROVIDER"
    by (auto simp: oauth_callback_def Let_def km c x split: if_split_asm)
  note start = this
  with assms obtain j r where src: "os_source p = Some j" "j \<noteq> []" "own_source user j w = Some r"
    by (auto simp: oauth_callback_def Let_def km c x split: option.split_asm if_split_asm)
  with assms start obtain g where g: "ce_exchange env code (os_redirect p) (os_verifier p) = Some g"
    "tg_refresh_token g \<noteq> None" "tg_refresh_token g \<noteq> Some []"
    by (auto simp: oauth_callback_def Let_def km c x split: option.split_asm if_split_asm)
  have run: "oauth_callback env user st code w =
      (case store_source_credential (ce_aead env) km (ce_rnd env) (co_now env) (ce_ids env 0) user (so_id r)
         PROVIDER REFRESH (the (tg_refresh_token g)) (kept_scopes p g) None (sys_dom (co_sys w)) of
       Inl e \<Rightarrow> Inl (seal_failure e)
     | Inr d \<Rightarrow> Inr (so_id r, \<lparr>co_sys = enqueue_source_poll (ce_pl env) (so_id r) (on_dom (set_source_active (so_id r) True d) (co_sys w)),
                     co_auth = db\<rparr>))"
    using start src g by (auto simp: oauth_callback_def Let_def km c x)
  with assms obtain d where d: "store_source_credential (ce_aead env) km (ce_rnd env) (co_now env) (ce_ids env 0) user (so_id r)
       PROVIDER REFRESH (the (tg_refresh_token g)) (kept_scopes p g) None (sys_dom (co_sys w)) = Inr d"
    "i = so_id r" "w' = \<lparr>co_sys = enqueue_source_poll (ce_pl env) (so_id r) (on_dom (set_source_active (so_id r) True d) (co_sys w)), co_auth = db\<rparr>"
    by (auto split: sum.split_asm)
  have id: "so_id r = j" using own_sourceD [OF src(3)] by simp
  have st: "find (\<lambda>s. os_state s = py_strip st \<and> co_now env < os_expires s) (au_states (co_auth w)) = Some p"
    and db: "au_states db = filter (\<lambda>q. \<not> (os_state q = py_strip st \<and> co_now env < os_expires q)) (au_states (co_auth w))"
    using c x by (auto simp: consume_oauth_state_def Let_def)
  from find_SomeD [OF st] start src g d id db show thesis by (intro that [of p r g km d]) auto
qed

lemma on_dom_enqueue [simp]:
  "sys_dom (enqueue_source_poll pl i (on_dom d s)) = d"
  by (simp add: enqueue_source_poll_def)

lemma get_credential_active [simp]: "get_source_credential src purpose (set_source_active i b d) = get_source_credential src purpose d"
  by (simp add: set_source_active_def)

text \<open>C16: A callback that succeeds spends a live pending authorization of the same user, and connects the very source that
  authorization was started for: its grant is the one the code was exchanged for with that authorization's verifier,
  and the stored scopes are among those it asked for (or read-only). It queues one poll of that source, no
  other credential changes, and the authorization cannot be used again.\<close>

theorem callback_connects_only_what_was_asked:
  assumes "oauth_callback env user st code w = Inr (i, w')"
  shows "\<exists>p \<in> set (au_states (co_auth w)). os_state p = py_strip st \<and> os_user p = user \<and> os_source p = Some i
    \<and> co_now env < os_expires p \<and> own_source user i w \<noteq> None
    \<and> (\<exists>g c. ce_exchange env code (os_redirect p) (os_verifier p) = Some g
         \<and> get_source_credential i REFRESH (sys_dom (co_sys w')) = Some c
         \<and> (asked_scopes p \<noteq> [] \<longrightarrow> set (scopes_of c) \<subseteq> insert GMAIL_READONLY_SCOPE (set (asked_scopes p))))
    \<and> (\<forall>src purpose. (src, purpose) \<noteq> (i, REFRESH) \<longrightarrow>
         get_source_credential src purpose (sys_dom (co_sys w')) = get_source_credential src purpose (sys_dom (co_sys w)))
    \<and> work_of (sys_jobs (co_sys w')) = work_of (sys_jobs (co_sys w)) @ [poll_job i]
    \<and> fst (consume_oauth_state (co_now env) (py_strip st) (co_auth w')) = None"
proof -
  from assms obtain p r g km d where p: "p \<in> set (au_states (co_auth w))" "os_state p = py_strip st" "co_now env < os_expires p"
    "os_user p = user" "os_source p = Some i" "own_source user i w = Some r"
    and g: "ce_exchange env code (os_redirect p) (os_verifier p) = Some g"
    and d: "store_source_credential (ce_aead env) km (ce_rnd env) (co_now env) (ce_ids env 0) user i PROVIDER REFRESH
       (the (tg_refresh_token g)) (kept_scopes p g) None (sys_dom (co_sys w)) = Inr d"
    and w': "co_sys w' = enqueue_source_poll (ce_pl env) i (on_dom (set_source_active i True d) (co_sys w))"
    "au_states (co_auth w') = filter (\<lambda>q. \<not> (os_state q = py_strip st \<and> co_now env < os_expires q)) (au_states (co_auth w))"
    by (rule callback_parts)
  from store_source_credential_Inr [OF d] obtain c where c: "get_source_credential i REFRESH d = Some c"
    "cr_scopes c = py_join '' '' (kept_scopes p g)"
    "\<And>src' p'. (src', p') \<noteq> (i, REFRESH) \<Longrightarrow> get_source_credential src' p' d = get_source_credential src' p' (sys_dom (co_sys w))"
    by metis
  have "set (scopes_of c) \<subseteq> insert GMAIL_READONLY_SCOPE (set (asked_scopes p))" if "asked_scopes p \<noteq> []"
    using kept_scopes_asked [OF that, of g] scopes_of_joined [OF c(2)] by simp
  moreover have "fst (consume_oauth_state (co_now env) (py_strip st) (co_auth w')) = None"
    by (auto simp: consume_oauth_state_def Let_def w'(2) find_None_iff)
  moreover have "work_of (sys_jobs (co_sys w')) = work_of (sys_jobs (co_sys w)) @ [poll_job i]"
    by (simp add: w'(1) enqueue_source_poll_def poll_job_def)
  ultimately show ?thesis
    using p g c(1,3) by (intro bexI [of _ p] conjI exI [of _ g] exI [of _ c]) (simp_all add: w'(1))
qed

section \<open>Mailboxes over time\<close>

text \<open>The tables, and two things to remember: which sources ever had label sync set, and which were ever connected.\<close>

record consent_world =
  wo_now :: consent
  wo_labelled :: "string set"
  wo_connected :: "string set"

definition row_facts :: "source_row \<Rightarrow> string \<times> string \<times> string \<times> payload \<times> bool \<times> time option" where
  "row_facts r = (so_id r, so_user r, so_kind r, so_config r, so_active r, so_disconnected_at r)"

text \<open>Every request that succeeds, a worker that mints a token or disconnects a wrong mailbox, and whatever else goes on
  that leaves these facts, the credentials and the pending mailbox authorizations alone (they may be dropped).\<close>

inductive world_step :: "consent_world \<Rightarrow> consent_world \<Rightarrow> bool" where
  connects: "connect_source env user provider name query window redirect (wo_now x) = Inr (a, w) \<Longrightarrow> world_step x (x\<lparr>wo_now := w\<rparr>)"
| reauthorizes: "reauthorize_source env user i redirect (wo_now x) = Inr (a, w) \<Longrightarrow> world_step x (x\<lparr>wo_now := w\<rparr>)"
| finishes: "oauth_callback env user st code (wo_now x) = Inr (i, w)
    \<Longrightarrow> world_step x (x\<lparr>wo_now := w, wo_connected := insert i (wo_connected x)\<rparr>)"
| polls: "poll_now env user i (wo_now x) = Inr ((), w) \<Longrightarrow> world_step x (x\<lparr>wo_now := w\<rparr>)"
| resyncs: "resync_source env user i window (wo_now x) = Inr ((), w) \<Longrightarrow> world_step x (x\<lparr>wo_now := w\<rparr>)"
| labels: "set_label_sync user i remove add (wo_now x) = Inr ((), w) \<Longrightarrow> parse_label_settings remove add = Inr chosen
    \<Longrightarrow> world_step x (x\<lparr>wo_now := w, wo_labelled := (if chosen = None then wo_labelled x else insert i (wo_labelled x))\<rparr>)"
| forgets: "forget_source env user i (wo_now x) = Inr ((), w) \<Longrightarrow> world_step x (x\<lparr>wo_now := w\<rparr>)"
| removes: "remove_source locked user i (wo_now x) = Inr ((), w) \<Longrightarrow> world_step x (x\<lparr>wo_now := w\<rparr>)"
| mints: "get_source_credential src REFRESH (sys_dom (co_sys (wo_now x))) = Some row
    \<Longrightarrow> store_minted mx km src user row old g (sys_dom (co_sys (wo_now x))) = Inr (stamp, d)
    \<Longrightarrow> world_step x (x\<lparr>wo_now := on_source_dom (\<lambda>_. d) (wo_now x)\<rparr>)"
| rejects: "world_step x (x\<lparr>wo_now := on_source_dom (disconnect_source now i reason) (wo_now x)\<rparr>)"
| elsewhere: "map row_facts (source_rows (sys_dom (co_sys w))) = map row_facts (source_rows (sys_dom (co_sys (wo_now x))))
    \<Longrightarrow> credentials (sys_dom (co_sys w)) = credentials (sys_dom (co_sys (wo_now x)))
    \<Longrightarrow> \<forall>p \<in> set (au_states (co_auth w)). os_provider p = PROVIDER \<longrightarrow> p \<in> set (au_states (co_auth (wo_now x)))
    \<Longrightarrow> world_step x (x\<lparr>wo_now := w\<rparr>)"

definition world_start :: "consent_world \<Rightarrow> bool" where
  "world_start x \<longleftrightarrow> wo_labelled x = {} \<and> wo_connected x = {} \<and> credentials (sys_dom (co_sys (wo_now x))) = []
     \<and> au_states (co_auth (wo_now x)) = [] \<and> distinct (map so_id (source_rows (sys_dom (co_sys (wo_now x)))))
     \<and> (\<forall>r \<in> set (source_rows (sys_dom (co_sys (wo_now x)))). so_config r = [])"

inductive world_reach :: "consent_world \<Rightarrow> bool" where
  world_first: "world_start x \<Longrightarrow> world_reach x"
| world_next: "world_reach x \<Longrightarrow> world_step x y \<Longrightarrow> world_reach y"

subsection \<open>What stays true\<close>

definition labels_known :: "string set \<Rightarrow> source_row list \<Rightarrow> bool" where
  "labels_known L rs \<longleftrightarrow> (\<forall>r \<in> set rs. label_settings_from_config (so_config r) \<noteq> None \<longrightarrow> so_id r \<in> L)"

definition asks_known :: "string set \<Rightarrow> oauth_state list \<Rightarrow> bool" where
  "asks_known L ps \<longleftrightarrow> (\<forall>p \<in> set ps. os_provider p = PROVIDER \<longrightarrow>
     asked_scopes p \<noteq> [] \<and> (GMAIL_MODIFY_SCOPE \<in> set (asked_scopes p) \<longrightarrow> (\<forall>i. os_source p = Some i \<longrightarrow> i \<in> L)))"

definition grants_known :: "string set \<Rightarrow> dom \<Rightarrow> bool" where
  "grants_known L d \<longleftrightarrow> (\<forall>src purpose c. get_source_credential src purpose d = Some c \<longrightarrow> GMAIL_MODIFY_SCOPE \<in> set (scopes_of c) \<longrightarrow> src \<in> L)"

definition still_there :: "string set \<Rightarrow> dom \<Rightarrow> bool" where
  "still_there C d \<longleftrightarrow> (\<forall>i \<in> C. \<exists>r \<in> set (source_rows d). so_id r = i
     \<and> (so_disconnected_at r \<noteq> None \<or> i \<in> cr_source ` set (credentials d)))"

definition world_ok :: "consent_world \<Rightarrow> bool" where
  "world_ok x \<longleftrightarrow>
     (let d = sys_dom (co_sys (wo_now x))
      in distinct (map so_id (source_rows d)) \<and> labels_known (wo_labelled x) (source_rows d)
         \<and> asks_known (wo_labelled x) (au_states (co_auth (wo_now x))) \<and> grants_known (wo_labelled x) d
         \<and> still_there (wo_connected x) d)"

definition core_ok :: "string set \<Rightarrow> string set \<Rightarrow> dom \<Rightarrow> bool" where
  "core_ok L C d \<longleftrightarrow> distinct (map so_id (source_rows d)) \<and> labels_known L (source_rows d) \<and> grants_known L d \<and> still_there C d"

lemma world_ok_core: "world_ok x \<longleftrightarrow> core_ok (wo_labelled x) (wo_connected x) (sys_dom (co_sys (wo_now x)))
    \<and> asks_known (wo_labelled x) (au_states (co_auth (wo_now x)))"
  by (auto simp: world_ok_def core_ok_def Let_def)

lemma core_update:
  assumes "core_ok L C d" "\<And>r. so_id (f r) = so_id r"
    and "\<And>r. so_disconnected_at r \<noteq> None \<Longrightarrow> so_disconnected_at (f r) \<noteq> None"
    and "\<And>r. label_settings_from_config (so_config (f r)) \<noteq> None \<Longrightarrow> i \<in> L \<or> label_settings_from_config (so_config r) \<noteq> None"
  shows "core_ok L C (update_source i f d)"
proof -
  have "map so_id (source_rows (update_source i f d)) = map so_id (source_rows d)"
    using assms(2) by (simp add: update_source_def map_update_where)
  moreover have "labels_known L (source_rows (update_source i f d))"
    unfolding labels_known_def
  proof (intro ballI impI)
    fix r' assume "r' \<in> set (source_rows (update_source i f d))" and l: "label_settings_from_config (so_config r') \<noteq> None"
    then obtain r where r: "r \<in> set (source_rows d)" "r' = (if so_id r = i then f r else r)"
      by (auto simp: update_source_def update_where_def)
    have "label_settings_from_config (so_config r) \<noteq> None \<or> so_id r = i \<and> i \<in> L"
      using l r(2) assms(4) [of r] by (cases "so_id r = i") auto
    with assms(1) r(1) have "so_id r \<in> L" unfolding core_ok_def labels_known_def by blast
    then show "so_id r' \<in> L" using r(2) assms(2) [of r] by (auto split: if_split_asm)
  qed
  moreover have "still_there C (update_source i f d)"
    unfolding still_there_def
  proof
    fix j assume "j \<in> C"
    with assms(1) obtain r where r: "r \<in> set (source_rows d)" "so_id r = j"
      "so_disconnected_at r \<noteq> None \<or> j \<in> cr_source ` set (credentials d)" by (auto simp: core_ok_def still_there_def)
    let ?r = "if so_id r = i then f r else r"
    have "?r \<in> set (source_rows (update_source i f d))" using r(1) by (auto simp: update_source_def update_where_def)
    moreover have "so_id ?r = j" "so_disconnected_at ?r \<noteq> None \<or> j \<in> cr_source ` set (credentials (update_source i f d))"
      using r assms(2,3) by auto
    ultimately show "\<exists>r \<in> set (source_rows (update_source i f d)). so_id r = j
        \<and> (so_disconnected_at r \<noteq> None \<or> j \<in> cr_source ` set (credentials (update_source i f d)))" by blast
  qed
  ultimately show ?thesis using assms(1) by (simp add: core_ok_def grants_known_def)
qed

lemma core_mono: "core_ok L C d \<Longrightarrow> L \<subseteq> L' \<Longrightarrow> core_ok L' C d"
  by (auto simp: core_ok_def labels_known_def grants_known_def)

lemma asks_mono: "asks_known L ps \<Longrightarrow> L \<subseteq> L' \<Longrightarrow> set qs \<subseteq> set ps \<Longrightarrow> asks_known L' qs"
  by (auto simp: asks_known_def)

lemma store_sources:
  "store_source_credential A km rnd now new_id user src provider purpose secret scopes expires d = Inr d'
   \<Longrightarrow> cr_source ` set (credentials d') = insert src (cr_source ` set (credentials d)) \<and> source_rows d' = source_rows d"
proof -
  assume st: "store_source_credential A km rnd now new_id user src provider purpose secret scopes expires d = Inr d'"
  obtain sealed where d': "d' = d\<lparr>credentials :=
         (if get_source_credential src purpose d = None
          then credentials d @ [\<lparr>cr_id = new_id, cr_user = user, cr_source = src, cr_provider = provider, cr_purpose = purpose,
                 cr_sealed = sealed, cr_scopes = py_join '' '' scopes, cr_expires_at = expires, cr_updated_at = now\<rparr>]
          else update_where (credential_of src purpose)
                 (\<lambda>c. c\<lparr>cr_sealed := sealed, cr_scopes := py_join '' '' scopes, cr_expires_at := expires, cr_updated_at := now\<rparr>)
                 (credentials d))\<rparr>"
    using st by (auto simp: store_source_credential_def elim!: and_then_InrE)
  show ?thesis
  proof (cases "get_source_credential src purpose d")
    case None
    then show ?thesis by (simp add: d')
  next
    case (Some c)
    then have "src \<in> cr_source ` set (credentials d)" using get_credential_of [OF Some] by (auto simp: credential_of_def)
    moreover have "map cr_source (credentials d') = map cr_source (credentials d)"
      using Some by (simp add: d' map_update_where)
    then have "cr_source ` set (credentials d') = cr_source ` set (credentials d)" by (metis list.set_map)
    ultimately show ?thesis by (simp add: d' insert_absorb)
  qed
qed

lemma core_store:
  assumes "store_source_credential A km rnd now new_id user src provider purpose secret scopes expires d = Inr d'" "core_ok L C d"
    and "plain_words scopes \<and> (GMAIL_MODIFY_SCOPE \<in> set scopes \<longrightarrow> src \<in> L)"
  shows "core_ok L C d'"
proof -
  obtain c where c: "get_source_credential src purpose d' = Some c" "cr_scopes c = py_join '' '' scopes"
    "\<And>src' p'. (src', p') \<noteq> (src, purpose) \<Longrightarrow> get_source_credential src' p' d' = get_source_credential src' p' d"
    using store_source_credential_Inr [OF assms(1)] by metis
  have "s \<in> L" if "get_source_credential s q d' = Some x" "GMAIL_MODIFY_SCOPE \<in> set (scopes_of x)" for s q x
  proof (cases "(s, q) = (src, purpose)")
    case True
    with that c(1) have "x = c" by simp
    with scopes_of_joined [OF c(2)] assms(3) True that(2) show ?thesis by auto
  next
    case False
    with that assms(2) c(3) show ?thesis by (auto simp: core_ok_def grants_known_def)
  qed
  then have "grants_known L d'" unfolding grants_known_def by blast
  moreover have "cr_source ` set (credentials d) \<subseteq> cr_source ` set (credentials d')" and rs: "source_rows d' = source_rows d"
    using store_sources [OF assms(1)] by auto
  then have "still_there C d'"
    using assms(2) unfolding core_ok_def still_there_def rs by (meson subsetD)
  ultimately show ?thesis using assms(2) by (simp add: core_ok_def rs)
qed

subsection \<open>Each step keeps it\<close>

lemma config_other_key: "map_of (dict_update cfg [(k, v)]) CONFIG_KEY = map_of cfg CONFIG_KEY" if "k \<noteq> CONFIG_KEY"
  using that by (simp add: map_of_dict_update)

lemma core_active: "core_ok L C d \<Longrightarrow> core_ok L C (set_source_active i b d)"
  unfolding set_source_active_def by (rule core_update) auto

lemma core_config:
  assumes "core_ok L C d" "k \<noteq> CONFIG_KEY"
  shows "core_ok L C (set_source_config_key i k (Some v) d)"
  unfolding set_source_config_key_def
  by (rule core_update [OF assms(1)]) (auto simp: label_settings_from_config_def config_other_key [OF assms(2)])

lemma core_labels:
  assumes "core_ok L C d" "v \<noteq> None \<Longrightarrow> i \<in> L"
  shows "core_ok L C (set_source_config_key i CONFIG_KEY v d)"
  unfolding set_source_config_key_def
  by (rule core_update [OF assms(1)])
    (use assms(2) in \<open>auto simp: label_settings_from_config_def AList.delete_conv' split: option.split_asm\<close>)

lemma no_credentials_left [simp]: "get_source_credential src purpose (delete_source_credentials src d) = None"
  by (auto simp: get_source_credential_def delete_source_credentials_def find_None_iff credential_of_def)

lemma other_credentials_left [simp]:
  "src \<noteq> i \<Longrightarrow> get_source_credential src purpose (delete_source_credentials i d) = get_source_credential src purpose d"
proof -
  assume ne: "src \<noteq> i"
  have "find (credential_of src purpose) (filter (\<lambda>c. cr_source c \<noteq> i) cs) = find (credential_of src purpose) cs" for cs
    using ne by (induction cs) (auto simp: credential_of_def)
  then show ?thesis by (simp add: get_source_credential_def delete_source_credentials_def)
qed

text \<open>Forgetting the credentials of a source that had any, which is then marked; and of one that had none.\<close>

lemma core_forget:
  assumes "core_ok L C d"
  shows "core_ok L C (mark_source_disconnected now i (delete_source_credentials i d))"
proof -
  let ?d = "delete_source_credentials i d" and ?f = "\<lambda>r. r\<lparr>so_active := False,
       so_disconnected_at := Some (case so_disconnected_at r of Some t \<Rightarrow> t | None \<Rightarrow> now)\<rparr>"
  have parts: "distinct (map so_id (source_rows d))" "labels_known L (source_rows d)" "grants_known L ?d"
    using assms unfolding core_ok_def grants_known_def by (blast, blast, metis no_credentials_left option.distinct(1) other_credentials_left)
  have base: "core_ok L (C - {i}) ?d"
    using parts assms unfolding core_ok_def still_there_def delete_source_credentials_def by fastforce
  have "core_ok L (C - {i}) (update_source i ?f ?d)" by (rule core_update [OF base]) auto
  moreover have "\<exists>r \<in> set (source_rows (update_source i ?f ?d)). so_id r = i \<and> so_disconnected_at r \<noteq> None" if "i \<in> C"
  proof -
    from assms that obtain r where r: "r \<in> set (source_rows d)" "so_id r = i" unfolding core_ok_def still_there_def by blast
    then have "?f r \<in> set (source_rows (update_source i ?f ?d))"
      by (auto simp: update_source_def update_where_def delete_source_credentials_def)
    with r(2) show ?thesis by (intro bexI [of _ "?f r"]) simp_all
  qed
  ultimately show ?thesis
    unfolding mark_source_disconnected_def core_ok_def still_there_def by blast
qed

lemma core_forget_none:
  assumes "core_ok L C d" "i \<notin> cr_source ` set (credentials d)"
  shows "core_ok L C (delete_source_credentials i d)"
proof -
  have "filter (\<lambda>c. cr_source c \<noteq> i) (credentials d) = credentials d" using assms(2) by (intro filter_True) auto
  then have "delete_source_credentials i d = d" by (simp add: delete_source_credentials_def)
  with assms(1) show ?thesis by simp
qed

lemma core_create:
  assumes "core_ok L C d" "create_source now i user kind name cfg d = Inr d'" "label_settings_from_config cfg = None"
  shows "core_ok L C d'"
  using assms by (auto simp: core_ok_def create_source_def labels_known_def grants_known_def get_source_credential_def still_there_def
      split: if_split_asm)

lemma core_facts:
  assumes "core_ok L C d" "map row_facts (source_rows d') = map row_facts (source_rows d)" "credentials d' = credentials d"
  shows "core_ok L C d'"
proof -
  have facts: "so_id x = so_id r \<and> so_config x = so_config r \<and> so_disconnected_at x = so_disconnected_at r"
    if "row_facts x = row_facts r" for x r using that by (simp add: row_facts_def)
  from assms(2) have "map fst (map row_facts (source_rows d')) = map fst (map row_facts (source_rows d))" by simp
  then have ids: "map so_id (source_rows d') = map so_id (source_rows d)" by (simp add: row_facts_def comp_def)
  have img: "row_facts ` set (source_rows d') = row_facts ` set (source_rows d)"
    using arg_cong [OF assms(2), of set] by (simp only: list.set_map)
  have "labels_known L (source_rows d')"
    unfolding labels_known_def
  proof (intro ballI impI)
    fix r assume r: "r \<in> set (source_rows d')" and l: "label_settings_from_config (so_config r) \<noteq> None"
    from r img have "row_facts r \<in> row_facts ` set (source_rows d)" by blast
    then obtain x where "x \<in> set (source_rows d)" "row_facts r = row_facts x" by blast
    with l facts [of r x] assms(1) show "so_id r \<in> L" by (simp add: core_ok_def labels_known_def)
  qed
  moreover have "still_there C d'"
    unfolding still_there_def
  proof
    fix i assume "i \<in> C"
    with assms(1) obtain r where r: "r \<in> set (source_rows d)" "so_id r = i"
      "so_disconnected_at r \<noteq> None \<or> i \<in> cr_source ` set (credentials d)" unfolding core_ok_def still_there_def by blast
    from r(1) img have "row_facts r \<in> row_facts ` set (source_rows d')" by blast
    then obtain x where "x \<in> set (source_rows d')" "row_facts r = row_facts x" by blast
    with r facts [of r x] assms(3)
    show "\<exists>r \<in> set (source_rows d'). so_id r = i \<and> (so_disconnected_at r \<noteq> None \<or> i \<in> cr_source ` set (credentials d'))"
      by (intro bexI [of _ x]) simp_all
  qed
  ultimately show ?thesis using assms(1,3) ids by (simp add: core_ok_def grants_known_def get_source_credential_def)
qed

lemma core_minted:
  assumes "store_minted mx km src user row old g d = Inr (stamp, d')" "core_ok L C d" "get_source_credential src REFRESH d = Some row"
  shows "core_ok L C d'"
proof -
  have old: "GMAIL_MODIFY_SCOPE \<in> set (scopes_of row) \<Longrightarrow> src \<in> L"
    using assms(2,3) by (auto simp: core_ok_def grants_known_def)
  have scopes: "plain_words (recorded_scopes row) \<and> (GMAIL_MODIFY_SCOPE \<in> set (recorded_scopes row) \<longrightarrow> src \<in> L)"
    using old gmail_scopes_plain(1) by (auto simp: recorded_scopes_def scopes_of_def)
  then have granted: "plain_words (granted_scopes row g) \<and> (GMAIL_MODIFY_SCOPE \<in> set (granted_scopes row g) \<longrightarrow> src \<in> L)"
    by (auto simp: granted_scopes_def Let_def plain_words_def)
  have first: "core_ok L C d1"
    if "store_source_credential A km2 rnd now new_id user src PROVIDER ACCESS s (granted_scopes row g) e d = Inr d1" for A km2 rnd now new_id s e d1
    by (rule core_store [OF that assms(2) granted])
  have second: "core_ok L C d2" if "store_source_credential A km2 rnd now new_id user src PROVIDER REFRESH s (recorded_scopes row) e d1 = Inr d2"
    "core_ok L C d1" for A km2 rnd now new_id s e d1 d2
    by (rule core_store [OF that scopes])
  have carry: "core_ok L C (carry_source_sync_state_key i k a b d2)" if "core_ok L C d2" for i k a b d2
    unfolding carry_source_sync_state_key_def by (rule core_update [OF that]) (auto split: if_split_asm)
  show ?thesis
    using assms(1) by (auto simp: store_minted_def Let_def in_vault_def elim!: and_then_InrE split: sum.split_asm option.split_asm if_split_asm
        intro: first second carry)
qed

lemma asks_started:
  assumes "start_consent env user src redirect scopes w = Inr (a, w')" "asks_known L (au_states (co_auth w))"
    and "plain_words scopes" "scopes \<noteq> []" "GMAIL_MODIFY_SCOPE \<in> set scopes \<Longrightarrow> src \<in> L"
  shows "asks_known L (au_states (co_auth w')) \<and> co_sys w' = co_sys w"
proof -
  have "w' = w\<lparr>co_auth := (co_auth w)\<lparr>au_states := au_states (co_auth w) @ [pending_row env user src redirect scopes]\<rparr>\<rparr>"
    using assms(1) by (auto simp: start_consent_def start_oauth_def and_then_def split: if_split_asm)
  moreover have "asked_scopes (pending_row env user src redirect scopes) = scopes"
    using split_join [OF assms(3)] by (simp add: asked_scopes_def pending_row_def)
  ultimately show ?thesis using assms(2,4,5) by (auto simp: asks_known_def pending_row_def)
qed

lemma asks_callback:
  "asks_known L (au_states (co_auth w)) \<Longrightarrow> p \<in> set (au_states (co_auth w)) \<Longrightarrow> os_provider p = PROVIDER \<Longrightarrow> os_source p = Some i
   \<Longrightarrow> plain_words (kept_scopes p g) \<and> (GMAIL_MODIFY_SCOPE \<in> set (kept_scopes p g) \<longrightarrow> i \<in> L)"
  using kept_scopes_asked [of p g] modify_not_readonly unfolding asks_known_def by blast

lemma still_there_insert:
  "core_ok L C d \<Longrightarrow> r \<in> set (source_rows d) \<Longrightarrow> so_id r = i \<Longrightarrow> i \<in> cr_source ` set (credentials d) \<Longrightarrow> core_ok L (insert i C) d"
  unfolding core_ok_def still_there_def by blast

lemma sys_on_source_dom [simp]: "sys_dom (co_sys (on_source_dom f w)) = f (sys_dom (co_sys w))"
  "co_auth (on_source_dom f w) = co_auth w"
  by (simp_all add: on_source_dom_def)

lemma config_keys_differ [simp]: "FIRST_SYNC_DAYS_CONFIG_KEY \<noteq> CONFIG_KEY" "RESYNC_REQUESTED_CONFIG_KEY \<noteq> CONFIG_KEY"
  by (simp_all add: FIRST_SYNC_DAYS_CONFIG_KEY_def CONFIG_KEY_def RESYNC_REQUESTED_CONFIG_KEY_def)

lemma connect_config_unlabelled: "label_settings_from_config (connect_config query window) = None"
  by (simp add: label_settings_from_config_def connect_config_def FIRST_SYNC_DAYS_CONFIG_KEY_def CONFIG_KEY_def split: option.split)

lemma core_disconnect: "core_ok L C d \<Longrightarrow> core_ok L C (disconnect_source now i reason d)"
  unfolding disconnect_source_def set_source_error_def by (rule core_update [OF core_forget]) auto

lemma core_finish:
  assumes "oauth_callback env user st code w = Inr (i, w')" "core_ok L C (sys_dom (co_sys w))" "asks_known L (au_states (co_auth w))"
  shows "core_ok L (insert i C) (sys_dom (co_sys w')) \<and> asks_known L (au_states (co_auth w'))"
proof -
  from assms(1) obtain p r g km d where p: "p \<in> set (au_states (co_auth w))" "os_provider p = PROVIDER" "os_source p = Some i"
    and r: "own_source user i w = Some r"
    and d: "store_source_credential (ce_aead env) km (ce_rnd env) (co_now env) (ce_ids env 0) user i PROVIDER REFRESH
       (the (tg_refresh_token g)) (kept_scopes p g) None (sys_dom (co_sys w)) = Inr d"
    and w': "co_sys w' = enqueue_source_poll (ce_pl env) i (on_dom (set_source_active i True d) (co_sys w))"
    "au_states (co_auth w') = filter (\<lambda>q. \<not> (os_state q = py_strip st \<and> co_now env < os_expires q)) (au_states (co_auth w))"
    by (rule callback_parts)
  have "core_ok L C d" by (rule core_store [OF d assms(2)]) (rule asks_callback [OF assms(3) p])
  moreover have "i \<in> cr_source ` set (credentials d)" "r \<in> set (source_rows d)" "so_id r = i"
    using store_sources [OF d] own_sourceD [OF r] by auto
  ultimately have "core_ok L (insert i C) (set_source_active i True d)" by (intro core_active still_there_insert) auto
  moreover have "asks_known L (au_states (co_auth w'))" by (rule asks_mono [OF assms(3)]) (auto simp: w'(2))
  ultimately show ?thesis by (simp add: w'(1))
qed

lemma connected_is_kept:
  assumes "core_ok L C (sys_dom (co_sys w))" "i \<in> C"
  shows "fst (remove_unused_source locked user i w) \<noteq> Removed"
proof
  let ?d = "sys_dom (co_sys w)"
  assume rm: "fst (remove_unused_source locked user i w) = Removed"
  obtain r where r: "own_source user i w = Some r" "so_disconnected_at r = None" "i \<notin> cr_source ` set (credentials ?d)"
  proof (cases "own_source user i w")
    case None
    with rm show ?thesis by (simp add: remove_unused_source_def Let_def)
  next
    case (Some r)
    with rm that [of r] show ?thesis by (auto simp: remove_unused_source_def Let_def split: if_split_asm)
  qed
  from assms obtain x where x: "x \<in> set (source_rows ?d)" "so_id x = i" "so_disconnected_at x \<noteq> None \<or> i \<in> cr_source ` set (credentials ?d)"
    unfolding core_ok_def still_there_def by blast
  have "distinct (map so_id (source_rows ?d))" using assms(1) by (simp add: core_ok_def)
  then have "x = r" using x(1,2) own_sourceD [OF r(1)] by (auto simp: distinct_map inj_on_def)
  with r x show False by simp
qed

lemma core_removed:
  assumes "core_ok L C (sys_dom (co_sys w))" "asks_known L (au_states (co_auth w))" "remove_source locked user i w = Inr ((), w')"
  shows "core_ok L C (sys_dom (co_sys w')) \<and> asks_known L (au_states (co_auth w'))"
proof -
  let ?d = "sys_dom (co_sys w)"
  from assms(3) have rm: "remove_unused_source locked user i w = (Removed, w')"
    by (auto simp: remove_source_def split: prod.split_asm source_removal.split_asm)
  then have "i \<notin> C" using connected_is_kept [OF assms(1), of i locked user] by auto
  have free: "i \<notin> cr_source ` set (credentials ?d)"
    and w': "w' = (on_source_dom (\<lambda>d. d\<lparr>source_rows := filter (\<lambda>r. \<not> (so_id r = i \<and> so_user r = user)) (source_rows d),
                                         credentials := filter (\<lambda>c. cr_source c \<noteq> i) (credentials d),
                                         source_items := filter (\<lambda>it. si_source it \<noteq> i) (source_items d)\<rparr>) w)
                     \<lparr>co_auth := (co_auth w)\<lparr>au_states := filter (\<lambda>p. os_source p \<noteq> Some i) (au_states (co_auth w))\<rparr>\<rparr>"
    using rm by (auto simp: remove_unused_source_def Let_def split: if_split_asm option.split_asm)
  have "filter (\<lambda>c. cr_source c \<noteq> i) (credentials ?d) = credentials ?d" using free by (intro filter_True) auto
  then have cr: "credentials (sys_dom (co_sys w')) = credentials ?d"
    and rs: "source_rows (sys_dom (co_sys w')) = filter (\<lambda>r. \<not> (so_id r = i \<and> so_user r = user)) (source_rows ?d)"
    and au: "au_states (co_auth w') = filter (\<lambda>p. os_source p \<noteq> Some i) (au_states (co_auth w))"
    by (simp_all add: w')
  have "still_there C (sys_dom (co_sys w'))"
    unfolding still_there_def cr rs
  proof
    fix j assume "j \<in> C"
    with assms(1) \<open>i \<notin> C\<close> obtain x where "x \<in> set (source_rows ?d)" "so_id x = j" "j \<noteq> i"
      "so_disconnected_at x \<noteq> None \<or> j \<in> cr_source ` set (credentials ?d)" unfolding core_ok_def still_there_def by blast
    then show "\<exists>r \<in> set (filter (\<lambda>r. \<not> (so_id r = i \<and> so_user r = user)) (source_rows ?d)). so_id r = j
        \<and> (so_disconnected_at r \<noteq> None \<or> j \<in> cr_source ` set (credentials ?d))"
      by (intro bexI [of _ x]) auto
  qed
  moreover have "distinct (map so_id (source_rows (sys_dom (co_sys w'))))" "labels_known L (source_rows (sys_dom (co_sys w')))"
    "grants_known L (sys_dom (co_sys w'))"
    using assms(1) unfolding core_ok_def rs by (auto simp: distinct_map_filter labels_known_def grants_known_def get_source_credential_def cr)
  moreover have "asks_known L (au_states (co_auth w'))" by (rule asks_mono [OF assms(2)]) (auto simp: au)
  ultimately show ?thesis by (simp add: core_ok_def)
qed

lemma core_relabelled:
  assumes "set_label_sync user i remove add w = Inr ((), w')" "parse_label_settings remove add = Inr chosen"
    "core_ok L C (sys_dom (co_sys w))"
  shows "core_ok (if chosen = None then L else insert i L) C (sys_dom (co_sys w')) \<and> co_auth w' = co_auth w"
proof -
  let ?L = "if chosen = None then L else insert i L"
  from assms(1,2) obtain r where r: "own_source user i w = Some r"
    and w': "w' = on_source_dom (set_source_config_key (so_id r) CONFIG_KEY (map_option (\<lambda>s. JObj (label_settings_to_config s)) chosen)) w"
    by (auto simp: set_label_sync_def split: option.split_asm if_split_asm)
  have "so_id r = i" using own_sourceD [OF r] by simp
  moreover have "core_ok ?L C (sys_dom (co_sys w))" by (rule core_mono [OF assms(3)]) auto
  ultimately show ?thesis using core_labels [of ?L C _ "map_option (\<lambda>s. JObj (label_settings_to_config s)) chosen" i] by (cases chosen) (simp_all add: w')
qed

lemma core_forgotten:
  assumes "forget_source env user i w = Inr ((), w')" "core_ok L C (sys_dom (co_sys w))"
  shows "core_ok L C (sys_dom (co_sys w')) \<and> co_auth w' = co_auth w"
proof -
  from assms(1) obtain r where r: "own_source user i w = Some r"
    and w': "w' = (if \<exists>c \<in> set (credentials (sys_dom (co_sys w))). cr_source c = so_id r
                   then on_source_dom (\<lambda>d. mark_source_disconnected (co_now env) (so_id r) (delete_source_credentials (so_id r) d)) w
                   else on_source_dom (\<lambda>d. set_source_active (so_id r) False (delete_source_credentials (so_id r) d)) w)"
    by (auto simp: forget_source_def split: option.split_asm)
  show ?thesis
  proof (cases "\<exists>c \<in> set (credentials (sys_dom (co_sys w))). cr_source c = so_id r")
    case True
    then show ?thesis using core_forget [OF assms(2)] by (simp add: w')
  next
    case False
    then have "so_id r \<notin> cr_source ` set (credentials (sys_dom (co_sys w)))" by auto
    then show ?thesis using False core_active [OF core_forget_none [OF assms(2)]] by (simp add: w')
  qed
qed

lemma core_asked:
  assumes "core_ok L C (sys_dom (co_sys w))" "asks_known L (au_states (co_auth w))"
  shows "connect_source env user provider name query window redirect w = Inr (a, w')
      \<Longrightarrow> core_ok L C (sys_dom (co_sys w')) \<and> asks_known L (au_states (co_auth w'))"
    and "reauthorize_source env user i redirect w = Inr (a, w')
      \<Longrightarrow> core_ok L C (sys_dom (co_sys w')) \<and> asks_known L (au_states (co_auth w'))"
proof -
  assume "connect_source env user provider name query window redirect w = Inr (a, w')"
  then obtain d where d: "create_source (co_now env) (ce_ids env 0) user GMAIL (py_strip name) (connect_config query window)
        (sys_dom (co_sys w)) = Inr d"
    and go: "start_consent env user (ce_ids env 0) redirect [GMAIL_READONLY_SCOPE]
        (on_source_dom (\<lambda>_. set_source_active (ce_ids env 0) False d) w) = Inr (a, w')"
    by (auto simp: connect_source_def split: if_split_asm sum.split_asm)
  have "core_ok L C (set_source_active (ce_ids env 0) False d)"
    by (rule core_active [OF core_create [OF assms(1) d connect_config_unlabelled]])
  then show "core_ok L C (sys_dom (co_sys w')) \<and> asks_known L (au_states (co_auth w'))"
    using asks_started [OF go, of L] assms(2) gmail_scopes_plain(1) by simp
next
  assume "reauthorize_source env user i redirect w = Inr (a, w')"
  then obtain r where r: "own_source user i w = Some r" "label_settings_from_config (so_config r) \<noteq> None"
    and go: "start_consent env user (so_id r) redirect LABEL_SYNC_SCOPES w = Inr (a, w')"
    by (auto simp: reauthorize_source_def split: if_split_asm option.split_asm)
  have "so_id r \<in> L" using own_sourceD [OF r(1)] r(2) assms(1) by (auto simp: core_ok_def labels_known_def)
  with asks_started [OF go assms(2)] assms(1) gmail_scopes_plain(2)
  show "core_ok L C (sys_dom (co_sys w')) \<and> asks_known L (au_states (co_auth w'))"
    by (simp add: LABEL_SYNC_SCOPES_def)
qed

lemma world_step_ok: "world_step x y \<Longrightarrow> world_ok x \<Longrightarrow> world_ok y"
proof (induction rule: world_step.induct)
  case (connects env user provider name query window redirect x a w)
  then have ok: "core_ok (wo_labelled x) (wo_connected x) (sys_dom (co_sys (wo_now x)))"
    and asks: "asks_known (wo_labelled x) (au_states (co_auth (wo_now x)))" by (simp_all add: world_ok_core)
  show ?case using core_asked(1) [OF ok asks connects(1)] by (simp add: world_ok_core)
next
  case (reauthorizes env user i redirect x a w)
  then have ok: "core_ok (wo_labelled x) (wo_connected x) (sys_dom (co_sys (wo_now x)))"
    and asks: "asks_known (wo_labelled x) (au_states (co_auth (wo_now x)))" by (simp_all add: world_ok_core)
  show ?case using core_asked(2) [OF ok asks reauthorizes(1)] by (simp add: world_ok_core)
next
  case (finishes env user st code x i w)
  then have ok: "core_ok (wo_labelled x) (wo_connected x) (sys_dom (co_sys (wo_now x)))"
    and asks: "asks_known (wo_labelled x) (au_states (co_auth (wo_now x)))" by (simp_all add: world_ok_core)
  show ?case using core_finish [OF finishes(1) ok asks] by (simp add: world_ok_core)
next
  case polls
  then show ?case by (auto simp: poll_now_def world_ok_core enqueue_source_poll_def split: option.split_asm if_split_asm)
next
  case (resyncs env user i window x w)
  then show ?case
    by (auto simp: resync_source_def world_ok_core Let_def enqueue_source_poll_def intro!: core_config
        split: option.split_asm if_split_asm)
next
  case (labels user i remove add x w chosen)
  from labels(3) core_relabelled [OF labels(1,2), of "wo_labelled x" "wo_connected x"]
  show ?case using asks_mono [of "wo_labelled x" _ "insert i (wo_labelled x)"] by (cases chosen) (auto simp: world_ok_core)
next
  case (forgets env user i x w)
  then have ok: "core_ok (wo_labelled x) (wo_connected x) (sys_dom (co_sys (wo_now x)))"
    and asks: "asks_known (wo_labelled x) (au_states (co_auth (wo_now x)))" by (simp_all add: world_ok_core)
  show ?case using core_forgotten [OF forgets(1) ok] asks by (simp add: world_ok_core)
next
  case (removes locked user i x w)
  then have ok: "core_ok (wo_labelled x) (wo_connected x) (sys_dom (co_sys (wo_now x)))"
    and asks: "asks_known (wo_labelled x) (au_states (co_auth (wo_now x)))" by (simp_all add: world_ok_core)
  show ?case using core_removed [OF ok asks removes(1)] by (simp add: world_ok_core)
next
  case (mints src x row mx km user old g stamp d)
  then have ok: "core_ok (wo_labelled x) (wo_connected x) (sys_dom (co_sys (wo_now x)))"
    and asks: "asks_known (wo_labelled x) (au_states (co_auth (wo_now x)))" by (simp_all add: world_ok_core)
  show ?case using core_minted [OF mints(2) ok mints(1)] asks by (simp add: world_ok_core)
next
  case rejects
  then show ?case by (simp add: world_ok_core core_disconnect)
next
  case (elsewhere w x)
  from elsewhere(4) core_facts [OF _ elsewhere(1,2)] elsewhere(3) show ?case
    by (auto simp: world_ok_core asks_known_def)
qed

lemma world_start_ok: "world_start x \<Longrightarrow> world_ok x"
  by (simp add: world_start_def world_ok_def Let_def labels_known_def asks_known_def grants_known_def still_there_def
      get_source_credential_def label_settings_from_config_def)

lemma world_reach_ok: "world_reach x \<Longrightarrow> world_ok x"
  by (induction rule: world_reach.induct) (auto intro: world_start_ok world_step_ok)

section \<open>What the world keeps\<close>

text \<open>C15: Least privilege over time. In every reachable world, whatever requests, token mints, disconnections and other
  work came before and in whatever order, a stored credential (a grant or an access token) may change a mailbox only if
  label sync was set for that very source: nothing else ever asks Google for the wider scope, and what a grant records is
  never more than what was asked.\<close>

theorem modify_scope_follows_label_sync:
  assumes "world_reach x" "get_source_credential src purpose (sys_dom (co_sys (wo_now x))) = Some c"
    and "GMAIL_MODIFY_SCOPE \<in> set (scopes_of c)"
  shows "src \<in> wo_labelled x"
  using world_reach_ok [OF assms(1)] assms(2,3) by (auto simp: world_ok_core core_ok_def grants_known_def)

text \<open>C25: A mailbox that was ever connected is never removed, only disconnected: its row is there in every reachable
  world, and removing it is refused, with 404 for a caller who does not own it and 409 for its owner.\<close>

theorem connected_source_is_never_removed:
  assumes "world_reach x" "i \<in> wo_connected x"
  shows "(\<exists>r \<in> set (source_rows (sys_dom (co_sys (wo_now x)))). so_id r = i)
    \<and> remove_source locked user i (wo_now x) = Inl (if own_source user i (wo_now x) = None then 404 else 409)"
proof -
  have ok: "core_ok (wo_labelled x) (wo_connected x) (sys_dom (co_sys (wo_now x)))"
    using world_reach_ok [OF assms(1)] by (simp add: world_ok_core)
  then have "\<exists>r \<in> set (source_rows (sys_dom (co_sys (wo_now x)))). so_id r = i"
    using assms(2) unfolding core_ok_def still_there_def by blast
  moreover obtain o' w where o': "remove_unused_source locked user i (wo_now x) = (o', w)" by fastforce
  moreover have "o' \<noteq> Removed" using connected_is_kept [OF ok assms(2), of locked user] o' by simp
  moreover have "o' = NotFound \<longleftrightarrow> own_source user i (wo_now x) = None"
    using o' by (auto simp: remove_unused_source_def Let_def split: option.split_asm if_split_asm)
  ultimately show ?thesis by (cases o') (auto simp: remove_source_def)
qed

subsection \<open>The date a mailbox stopped on\<close>

text \<open>A source that was disconnected once, reconnected and is disconnected again keeps the date of the first time:
  reconnecting does not clear it, and the second disconnection does not replace it.\<close>

theorem second_disconnect_keeps_first_date:
  assumes "own_source user i w = Some r" "so_disconnected_at r = Some t"
    and "oauth_callback env user st code w = Inr (i, w1)" "forget_source env2 user i w1 = Inr ((), w2)"
  shows "\<exists>r2. own_source user i w2 = Some r2 \<and> \<not> so_active r2 \<and> so_disconnected_at r2 = Some t"
proof -
  from assms(3) obtain p g km d where d: "store_source_credential (ce_aead env) km (ce_rnd env) (co_now env) (ce_ids env 0) user i PROVIDER
       REFRESH (the (tg_refresh_token g)) (kept_scopes p g) None (sys_dom (co_sys w)) = Inr d"
    and w1: "co_sys w1 = enqueue_source_poll (ce_pl env) i (on_dom (set_source_active i True d) (co_sys w))"
    by (rule callback_parts)
  have id: "so_id r = i" using own_sourceD [OF assms(1)] by simp
  have "own_source user i w1 = Some (r\<lparr>so_active := True\<rparr>)"
    using assms(1) id store_sources [OF d]
    by (simp add: own_source_def w1 set_source_active_def update_source_def find_update_where)
  moreover have "i \<in> cr_source ` set (credentials (sys_dom (co_sys w1)))"
    using store_sources [OF d] by (simp add: w1 set_source_active_def)
  then have "\<exists>c \<in> set (credentials (sys_dom (co_sys w1))). cr_source c = i" by auto
  with calculation assms(4) id
  have "w2 = on_source_dom (\<lambda>d. mark_source_disconnected (co_now env2) i (delete_source_credentials i d)) w1"
    by (simp add: forget_source_def)
  ultimately show ?thesis
    using assms(2) id by (simp add: own_source_def mark_source_disconnected_def delete_source_credentials_def update_source_def find_update_where)
qed

section \<open>Runs that show the statements can hold\<close>

definition demo_tables :: consent where
  "demo_tables =
     \<lparr>co_sys = \<lparr>sys_jobs = \<lparr>rows = [], next_id = 0\<rparr>, sys_heartbeats = Map.empty,
                sys_dom = empty_dom\<lparr>source_rows := [demo_row []]\<rparr>\<rparr>,
      co_auth = \<lparr>au_users = [(''u'', None)], au_states = [], au_sessions = [], au_handoffs = [], au_tokens = [], au_clients = [],
                 au_codes = [], au_refresh = []\<rparr>\<rparr>"

definition demo_consent :: consent_env where
  "demo_consent =
     \<lparr>ce_pl = demo_stage, ce_clock = 100, ce_iso = (\<lambda>_. ''now''), ce_ids = (\<lambda>_. ''id''),
      ce_fresh = (\<lambda>n. if n = 0 then ''verifier'' else ''state''), ce_aead = demo_aead, ce_wrapper = Inr demo_km,
      ce_rnd = \<lparr>rnd_dek = replicate 32 1, rnd_nonce = replicate 12 2, rnd_wrap = replicate 12 3\<rparr>, ce_url_fails = False,
      ce_exchange = (\<lambda>code _ verifier. if code = ''code'' \<and> verifier = ''verifier''
        then Some \<lparr>tg_access_token = ''a'', tg_expires_in_seconds = 3600, tg_scopes = LABEL_SYNC_SCOPES, tg_refresh_token = Some ''r''\<rparr>
        else None)\<rparr>"

text \<open>Label sync is set, the mailbox re-authorized and the consent finished: the tables after each of the requests.\<close>

definition state_after :: "'a answer \<Rightarrow> consent" where
  "state_after r = (case r of Inr (_, w) \<Rightarrow> w | Inl _ \<Rightarrow> demo_tables)"

definition demo_labelled :: consent where
  "demo_labelled = state_after (set_label_sync ''u'' ''src'' (Some ''INBOX'') None demo_tables)"

definition demo_asked :: consent where
  "demo_asked = state_after (reauthorize_source demo_consent ''u'' ''src'' ''https://x/cb'' demo_labelled)"

definition demo_connected :: consent where
  "demo_connected = state_after (oauth_callback demo_consent ''u'' ''state'' ''code'' demo_asked)"

definition answered :: "'a answer \<Rightarrow> 'a \<Rightarrow> bool" where
  "answered r x = (case r of Inr (y, _) \<Rightarrow> y = x | Inl _ \<Rightarrow> False)"

lemma answeredD: "answered r x \<Longrightarrow> r = Inr (x, state_after r)"
  by (auto simp: answered_def state_after_def split: sum.splits)

lemma demo_relabels: "set_label_sync ''u'' ''src'' (Some ''INBOX'') None demo_tables = Inr ((), demo_labelled)"
  unfolding demo_labelled_def by (rule answeredD) code_simp

lemma demo_asks: "\<exists>a. reauthorize_source demo_consent ''u'' ''src'' ''https://x/cb'' demo_labelled = Inr (a, demo_asked)"
  unfolding demo_asked_def by (rule exI [of _ "(''src'', ''state'')"], rule answeredD) code_simp

lemma demo_connects: "oauth_callback demo_consent ''u'' ''state'' ''code'' demo_asked = Inr (''src'', demo_connected)"
  unfolding demo_connected_def by (rule answeredD) code_simp

definition demo_world :: consent_world where
  "demo_world = \<lparr>wo_now = demo_connected, wo_labelled = {''src''}, wo_connected = {''src''}\<rparr>"

lemma demo_world_reached: "world_reach demo_world"
proof -
  let ?x = "\<lambda>w L C. \<lparr>wo_now = w, wo_labelled = L, wo_connected = C\<rparr> :: consent_world"
  have "world_reach (?x demo_tables {} {})"
    by (rule world_first) (simp add: world_start_def demo_tables_def empty_dom_def demo_row_def)
  moreover have "parse_label_settings (Some ''INBOX'') None = Inr (Some \<lparr>ls_remove = Some ''INBOX'', ls_add = None\<rparr>)" by code_simp
  then have "world_step (?x demo_tables {} {}) (?x demo_labelled {''src''} {})"
    using world_step.labels [of "''u''" "''src''" "Some ''INBOX''" None "?x demo_tables {} {}" demo_labelled] demo_relabels by simp
  moreover have "world_step (?x demo_labelled {''src''} {}) (?x demo_asked {''src''} {})"
    using demo_asks world_step.reauthorizes [of demo_consent "''u''" "''src''" "''https://x/cb''" "?x demo_labelled {''src''} {}"] by auto
  moreover have "world_step (?x demo_asked {''src''} {}) demo_world"
    using demo_connects world_step.finishes [of demo_consent "''u''" "''state''" "''code''" "?x demo_asked {''src''} {}"]
    by (simp add: demo_world_def)
  ultimately show ?thesis by (blast intro: world_next)
qed

theorem callback_connects_only_what_was_asked_witness:
  "\<exists>p \<in> set (au_states (co_auth demo_asked)). os_user p = ''u'' \<and> os_source p = Some ''src''"
  using callback_connects_only_what_was_asked [OF demo_connects] by blast

theorem modify_scope_follows_label_sync_witness:
  "\<exists>c. get_source_credential ''src'' REFRESH (sys_dom (co_sys (wo_now demo_world))) = Some c
     \<and> GMAIL_MODIFY_SCOPE \<in> set (scopes_of c) \<and> ''src'' \<in> wo_labelled demo_world"
proof -
  have "(case get_source_credential ''src'' REFRESH (sys_dom (co_sys demo_connected)) of
      None \<Rightarrow> False | Some c \<Rightarrow> GMAIL_MODIFY_SCOPE \<in> set (scopes_of c))" by code_simp
  then obtain c where c: "get_source_credential ''src'' REFRESH (sys_dom (co_sys (wo_now demo_world))) = Some c"
    "GMAIL_MODIFY_SCOPE \<in> set (scopes_of c)" by (auto simp: demo_world_def split: option.split_asm)
  with modify_scope_follows_label_sync [OF demo_world_reached c] show ?thesis by blast
qed

theorem connected_source_is_never_removed_witness:
  "remove_source False ''u'' ''src'' (wo_now demo_world) = Inl 409"
proof -
  have "own_source ''u'' ''src'' demo_connected \<noteq> None" by code_simp
  with connected_source_is_never_removed [OF demo_world_reached, of "''src''" False "''u''"]
  show ?thesis by (simp add: demo_world_def)
qed

end
