(* ===== verification/Spec2Isabelle.thy ===== *)
theory Spec2Isabelle
  imports Fleet Session Handlers Guards Consent
begin

text \<open>
  Motet turns an inbox of newsletters into narrated episodes. This development models its core: the job
  queue and its workers, the stages they run (poll a mailbox, extract a message, enrich it with the
  article it announces, fold it into the backlog, assemble, script and render an episode), the tables the
  stages share, the secrets they open, and the listening half of the voice service. Everything is
  translated from the Python under \<open>src/\<close>; a module path below is the part of the path after
  \<open>src/<package>/src/\<close>.

  \<^bold>\<open>How the parts fit.\<close> Requests and stages write rows and queue jobs in one transaction. A worker drains one
  queue: it claims a row, takes the lock of the job's serialization key, runs the handler of the queue in
  one transaction with the mark that its work is committed, releases the lock and runs the
  after-commit steps. The stages form the chain poll, extract, (a person decides), enrich or integrate;
  and assemble, script, tts for an episode.

  \<^bold>\<open>Shared.\<close> \<open>Prelude\<close>: exceptions as a sum type (\<open>and_then\<close> is sequencing), JSON values, Python lists, updates of
  the rows a WHERE clause selects. \<open>Text\<close>: Python strings, bytes, UTF-8, dicts.

  \<^bold>\<open>The queue.\<close> \<open>Jobs\<close> (\<open>motet_workers/jobs.py\<close>, \<open>queues.py\<close>): the jobs table is \<open>jobs_db\<close>, each statement a function
  of it; lemmas on claim order, the retry ladder, leases, retention and the readiness figures.
  \<open>Worker\<close> (\<open>loop.py\<close>): \<open>'d sys\<close> is the whole database, \<open>execute\<close> one run of a job with its transactions,
  \<open>drain\<close> the loop, over any handler that keeps the contract \<open>job_handler\<close>. \<open>Fleet\<close>: any number of workers,
  lease keepers, sweeps and crashes as an inductive step relation; work of a serialized job commits once, a
  lease is never lost, no row is stranded. \<open>Handlers\<close> (\<open>HANDLERS\<close>, \<open>failure_recorders\<close>): all seven stages keep the
  contract, so every queue drains.

  \<^bold>\<open>The tables.\<close> \<open>Domain\<close>, \<open>Episodes\<close> (\<open>motet_db/repo.py\<close>, \<open>models.py\<close>, migrations): \<open>dom\<close> holds the rows of each
  table, with the schema's constraints as invariants. \<open>Rules\<close> (\<open>rules.py\<close>, \<open>phase2.select_for_rule\<close>): smart
  episode rules and their one selection query.

  \<^bold>\<open>Narration.\<close> \<open>Narration\<close> (\<open>motet_inference/audio.py\<close>): measuring and joining WAV and MPEG bytes. \<open>Stages\<close>,
  \<open>Pipeline\<close> (\<open>motet_workers/handlers.py\<close>): assemble, script, tts, the duration cap and the claim timings.

  \<^bold>\<open>Ingestion.\<close> \<open>Mailbox\<close> (\<open>motet_workers/ingest.py\<close>, \<open>motet_db/phase2.py\<close>): sources, their sealed grants, the token a run
  reads with, the check of the mailbox a grant reaches. \<open>Ingest\<close>: poll and extract. \<open>Integrate\<close>: held items,
  ingesting and dismissing them, and the dedup stage. \<open>Enrichment\<close> (\<open>enrich.py\<close>, \<open>motet_db/enrichment.py\<close>): which article,
  with which credentials, under which caps. \<open>Inbox\<close>: requests, runs, crashes and stages interleaved, as a state
  machine; an agent starts once per item and no waiting item is left without work. \<open>Labels\<close>, \<open>LabelSync\<close>
  (\<open>motet_sources/labels.py\<close>, \<open>motet_workers/labels.py\<close>): the one write to a mailbox, a
  state-and-exception computation with rules for each combinator.

  \<^bold>\<open>Secrets and sites.\<close> \<open>Vault\<close> (\<open>motet_vault/envelope.py\<close>): envelope encryption over an abstract cipher.
  \<open>Connectors\<close> (\<open>motet_db/connectors.py\<close>, \<open>motet_api/connectors.py\<close>): sites and tool servers, domain rules.

  \<^bold>\<open>Who may use it.\<close> \<open>SignIn\<close> (\<open>motet_db/auth.py\<close>, \<open>api_tokens.py\<close>, \<open>mcp_oauth.py\<close>, \<open>motet_api/deps.py\<close>, \<open>throttle.py\<close>): the credential
  tables and the guards. \<open>Access\<close> (\<open>motet_api/main.py\<close>, \<open>mcp/oauth.py\<close>, \<open>config.py\<close>, \<open>mint_session.py\<close>): the routes that issue and
  revoke credentials, as requests on one database. \<open>Credentials\<close>: a locale that carries an invariant through every
  request, interpreted for whose the credentials are, for the keys and for secrets that were revoked or spent. \<open>Guards\<close>:
  single use, who manages tokens, what a refusal leaves behind, the throttle.

  \<^bold>\<open>Mailboxes and their consent.\<close> \<open>Consent\<close> (the source routes of \<open>motet_api/main.py\<close>, \<open>phase2.remove_unused_source\<close>):
  connecting, re-authorizing, finishing at the callback, disconnecting and removing, and the worlds these requests and
  the workers' token mints reach: which mailbox may ever be written to, and which row may ever be deleted.

  \<^bold>\<open>Listening.\<close> \<open>Clock\<close>, \<open>Audio\<close>, \<open>Bargein\<close>, \<open>Position\<close>, \<open>Session\<close> (\<open>motet_voice\<close>): the playback clock, PCM, voice activity and
  barge-in detection (over the reals where the code has floats), where the listener is, and a session
  that puts them together, against a specification over the whole history of frames.

  \<^bold>\<open>Arguments.\<close> What is not under \<open>src/\<close>, or cannot be computed, is an argument of the definitions that use it: the
  models behind the stages (\<open>pipeline\<close>), the mail, token and agent services (\<open>mail_ctx\<close>, \<open>enrich_ctx\<close>), SHA-256, the cipher
  (its laws are hypotheses: opening inverts sealing and authenticates), random ids, the clocks of this process
  and of the database, \<open>repr\<close> of a JSON value, the text form of a moment. Each may answer as it likes, exceptions
  included. The worker's theorems let every run be answered differently.

  \<^bold>\<open>Bounds.\<close> \<open>drain\<close> has \<open>max_jobs + 1\<close> rounds of fuel and provably needs no more, since from a well-formed table no claimed
  job's lock is busy; a poll reads at most \<open>MAX_PAGES_PER_POLL\<close> pages; the other loops are structural or have
  a measure. Times are integers in microseconds, bytes and samples are words, sizes in files wrap or raise as
  \<open>struct\<close> does.

  \<^bold>\<open>Not modelled.\<close> The HTTP layer of the API (routing, schemas, HTML pages), beyond the
  operations it calls; vendor adapters (Gmail REST, Google and MCP OAuth over HTTP, OpenRouter, Cartesia,
  OpenAI realtime, GCS) and their fakes; prompts; MIME and HTML parsing of a message; the enrichment agent's own
  process; metrics, traces, log lines and alerts; schema migration; the web and phone clients. Each is
  input or output around the modelled core, or third-party behaviour the sources only call. A transaction is
  atomic and isolated as the code's locks make it; a database outage is not a step.
\<close>

end
